(* ===== verification/LG_Prelude.thy ===== *)
theory LG_Prelude
  imports
    Main
    "HOL-Library.Word"
    "HOL-Library.List_Lexorder"
    "HOL-Library.Product_Lexorder"
    "HOL-Library.Multiset"
begin

text \<open>
  The vocabulary every component shares: the result of a Rust computation (a value, an error
  of the function's error type, or a panic), the checked and saturating arithmetic of
  \<open>usize\<close> on a 64-bit target, indexing and loops that may leave early, the textual renderings used by the \<open>Display\<close> instances, and the
  generic facts on stable sorting and on adjacent pairs (Rust's \<open>windows(2)\<close>) that the
  canonical-form proofs rest on.
\<close>

named_theorems outcome_simps \<open>equations and inversions for computations that may fail\<close>

section \<open>Machine types\<close>

type_synonym byte = "8 word"
type_synonym u8 = "8 word"
type_synonym u32 = "32 word"
type_synonym u64 = "64 word"

section \<open>Results, errors and panics\<close>

text \<open>
  A Rust function of type \<open>Result<A, E>\<close> has three observable ends: \<open>Ok\<close>, \<open>Err\<close>, and a panic
  (\<open>expect\<close>, \<open>unwrap\<close>, an index out of bounds, an arithmetic overflow). Panics are values of
  the model, so that their absence is something to be proved.
\<close>

datatype ('e, 'a) outcome = Ok 'a | Err 'e | Panic

fun and_then :: "('e, 'a) outcome \<Rightarrow> ('a \<Rightarrow> ('e, 'b) outcome) \<Rightarrow> ('e, 'b) outcome" where
  "and_then (Ok x) f = f x"
| "and_then (Err e) f = Err e"
| "and_then Panic f = Panic"

fun map_err :: "('e \<Rightarrow> 'f) \<Rightarrow> ('e, 'a) outcome \<Rightarrow> ('f, 'a) outcome" where
  "map_err f (Ok x) = Ok x"
| "map_err f (Err e) = Err (f e)"
| "map_err f Panic = Panic"

fun map_ok :: "('a \<Rightarrow> 'b) \<Rightarrow> ('e, 'a) outcome \<Rightarrow> ('e, 'b) outcome" where
  "map_ok f (Ok x) = Ok (f x)"
| "map_ok f (Err e) = Err e"
| "map_ok f Panic = Panic"

fun ok_or :: "'a option \<Rightarrow> 'e \<Rightarrow> ('e, 'a) outcome" where
  "ok_or None e = Err e"
| "ok_or (Some x) e = Ok x"

text \<open>\<open>expect\<close> and \<open>unwrap\<close> on an option: a panic when there is nothing there.\<close>

fun expect_some :: "'a option \<Rightarrow> ('e, 'a) outcome" where
  "expect_some None = Panic"
| "expect_some (Some x) = Ok x"

text \<open>\<open>option.map(f).transpose()?\<close>: run a fallible function on an optional value.\<close>

fun transpose_map :: "('a \<Rightarrow> ('e, 'b) outcome) \<Rightarrow> 'a option \<Rightarrow> ('e, 'b option) outcome" where
  "transpose_map f None = Ok None"
| "transpose_map f (Some x) = map_ok Some (f x)"

text \<open>\<open>iter().map(f).collect::<Result<Vec<_>, _>>()\<close>: left to right, up to the first failure.\<close>

fun traverse :: "('a \<Rightarrow> ('e, 'b) outcome) \<Rightarrow> 'a list \<Rightarrow> ('e, 'b list) outcome" where
  "traverse f [] = Ok []"
| "traverse f (x # xs) = and_then (f x) (\<lambda>y. map_ok (Cons y) (traverse f xs))"

definition is_ok :: "('e, 'a) outcome \<Rightarrow> bool" where
  "is_ok r = (case r of Ok _ \<Rightarrow> True | _ \<Rightarrow> False)"

lemma and_then_cong [fundef_cong]:
  assumes "r = r'" and "\<And>x. r' = Ok x \<Longrightarrow> f x = g x"
  shows "and_then r f = and_then r' g"
  using assms by (cases r') auto

lemma traverse_cong [fundef_cong]:
  assumes "xs = ys" and "\<And>x. x \<in> set ys \<Longrightarrow> f x = g x"
  shows "traverse f xs = traverse g ys"
proof -
  have "traverse f ys = traverse g ys"
    using assms(2) by (induction ys) (auto cong: and_then_cong)
  with assms(1) show ?thesis by simp
qed

lemma transpose_map_cong [fundef_cong]:
  assumes "x = y" and "\<And>z. y = Some z \<Longrightarrow> f z = g z"
  shows "transpose_map f x = transpose_map g y"
  using assms by (cases y) auto

lemma and_then_eq_Ok [outcome_simps]:
  "and_then r f = Ok y \<longleftrightarrow> (\<exists>x. r = Ok x \<and> f x = Ok y)"
  by (cases r) auto

lemma and_then_eq_Err [outcome_simps]:
  "and_then r f = Err e \<longleftrightarrow> r = Err e \<or> (\<exists>x. r = Ok x \<and> f x = Err e)"
  by (cases r) auto

lemma and_then_eq_Panic [outcome_simps]:
  "and_then r f = Panic \<longleftrightarrow> r = Panic \<or> (\<exists>x. r = Ok x \<and> f x = Panic)"
  by (cases r) auto

lemma map_ok_eq_Ok [outcome_simps]: "map_ok f r = Ok y \<longleftrightarrow> (\<exists>x. r = Ok x \<and> y = f x)"
  by (cases r) auto

lemma map_ok_eq_Err [outcome_simps]: "map_ok f r = Err e \<longleftrightarrow> r = Err e"
  by (cases r) auto

lemma map_ok_eq_Panic [outcome_simps]: "map_ok f r = Panic \<longleftrightarrow> r = Panic"
  by (cases r) auto

lemma map_err_eq_Ok [outcome_simps]: "map_err f r = Ok y \<longleftrightarrow> r = Ok y"
  by (cases r) auto

lemma map_err_eq_Err [outcome_simps]: "map_err f r = Err e \<longleftrightarrow> (\<exists>e'. r = Err e' \<and> e = f e')"
  by (cases r) auto

lemma map_err_eq_Panic [outcome_simps]: "map_err f r = Panic \<longleftrightarrow> r = Panic"
  by (cases r) auto

lemma ok_or_eq_Ok [outcome_simps]: "ok_or x e = Ok y \<longleftrightarrow> x = Some y"
  by (cases x) auto

lemma ok_or_eq_Err [outcome_simps]: "ok_or x e = Err e' \<longleftrightarrow> x = None \<and> e' = e"
  by (cases x) auto

lemma ok_or_not_Panic [simp]: "ok_or x e \<noteq> Panic"
  by (cases x) auto

lemma expect_some_eq_Ok [outcome_simps]: "expect_some x = Ok y \<longleftrightarrow> x = Some y"
  by (cases x) auto

lemma expect_some_eq_Panic: "expect_some x = Panic \<longleftrightarrow> x = None"
  by (cases x) auto

lemma transpose_map_eq_Ok [outcome_simps]:
  "transpose_map f x = Ok y \<longleftrightarrow>
     (x = None \<and> y = None \<or> (\<exists>z z'. x = Some z \<and> y = Some z' \<and> f z = Ok z'))"
  by (cases x) (auto simp: outcome_simps)

lemma transpose_map_eq_Panic [outcome_simps]:
  "transpose_map f x = Panic \<longleftrightarrow> (\<exists>z. x = Some z \<and> f z = Panic)"
  by (cases x) (auto simp: outcome_simps)

lemma and_then_assoc: "and_then (and_then r f) g = and_then r (\<lambda>x. and_then (f x) g)"
  by (cases r) auto

lemma traverse_eq_Ok [outcome_simps]:
  "traverse f xs = Ok ys \<longleftrightarrow> list_all2 (\<lambda>x y. f x = Ok y) xs ys"
proof (induction xs arbitrary: ys)
  case Nil
  then show ?case by auto
next
  case (Cons x xs)
  then show ?case by (auto simp: outcome_simps list_all2_Cons1)
qed

lemma traverse_eq_Panic:
  "traverse f xs = Panic \<Longrightarrow> \<exists>x \<in> set xs. f x = Panic"
  by (induction xs) (auto simp: outcome_simps)

lemma traverse_eq_Err: "traverse f xs = Err e \<Longrightarrow> \<exists>x \<in> set xs. f x = Err e"
  by (induction xs) (auto simp: outcome_simps)

lemma traverse_map: "traverse f (map g xs) = traverse (\<lambda>x. f (g x)) xs"
  by (induction xs) auto

lemma traverse_all_Ok:
  "(\<And>x. x \<in> set xs \<Longrightarrow> f x = Ok (g x)) \<Longrightarrow> traverse f xs = Ok (map g xs)"
  by (induction xs) auto

lemma traverse_Ok_length: "traverse f xs = Ok ys \<Longrightarrow> length ys = length xs"
  by (simp add: outcome_simps list_all2_lengthD)

lemma traverse_Ok_nth:
  "traverse f xs = Ok ys \<Longrightarrow> i < length xs \<Longrightarrow> f (xs ! i) = Ok (ys ! i)"
  by (auto simp: outcome_simps list_all2_conv_all_nth)

lemma traverse_Ok_set:
  assumes "traverse f xs = Ok ys" and "y \<in> set ys"
  shows "\<exists>x \<in> set xs. f x = Ok y"
proof -
  from assms(2) obtain i where i: "i < length ys" "ys ! i = y" by (auto simp: in_set_conv_nth)
  with assms(1) have "i < length xs" and "f (xs ! i) = Ok y"
    by (auto simp: traverse_Ok_length dest: traverse_Ok_nth)
  then show ?thesis by auto
qed

section \<open>Indexing, sequencing and loops\<close>

text \<open>
  A method that changes the state \<open>'s\<close> of its receiver: a failed step ends it with the state reached
  so far.
\<close>

definition then_do ::
    "('e, 'a) outcome \<times> 's \<Rightarrow> ('a \<Rightarrow> 's \<Rightarrow> ('e, 'b) outcome \<times> 's) \<Rightarrow> ('e, 'b) outcome \<times> 's" where
  "then_do p f =
     (case fst p of Ok x \<Rightarrow> f x (snd p) | Err e \<Rightarrow> (Err e, snd p) | Panic \<Rightarrow> (Panic, snd p))"

lemma then_do_Ok:
  "then_do p f = (Ok y, s') \<longleftrightarrow> (\<exists>x s. p = (Ok x, s) \<and> f x s = (Ok y, s'))"
  by (cases p; cases "fst p") (auto simp: then_do_def)

lemma then_do_simps [simp]:
  "then_do (Ok x, s) f = f x s" "then_do (Err e, s) f = (Err e, s)" "then_do (Panic, s) f = (Panic, s)"
  by (simp_all add: then_do_def)

text \<open>Indexing: out of bounds is a panic.\<close>

definition index_at :: "'a list \<Rightarrow> nat \<Rightarrow> ('e, 'a) outcome" where
  "index_at xs i = (if i < length xs then Ok (xs ! i) else Panic)"

lemma index_at_no_Err [simp]: "index_at xs i \<noteq> Err e"
  by (simp add: index_at_def)

lemma index_at_Ok [outcome_simps]: "index_at xs i = Ok x \<longleftrightarrow> i < length xs \<and> x = xs ! i"
  by (auto simp: index_at_def)

lemma index_at_Panic: "index_at xs i = Panic \<longleftrightarrow> \<not> i < length xs"
  by (simp add: index_at_def)

text \<open>A \<open>for\<close> loop over a list whose body updates the state and may leave with \<open>?\<close> or a panic.\<close>

fun for_each :: "('a \<Rightarrow> 's \<Rightarrow> ('e, 's) outcome) \<Rightarrow> 'a list \<Rightarrow> 's \<Rightarrow> ('e, 's) outcome" where
  "for_each f [] s = Ok s"
| "for_each f (x # xs) s = and_then (f x s) (for_each f xs)"

lemma for_each_invariant:
  assumes "for_each f xs s = Ok s'" and "P s"
    and "\<And>x s s'. x \<in> set xs \<Longrightarrow> P s \<Longrightarrow> f x s = Ok s' \<Longrightarrow> P s'"
  shows "P s'"
  using assms by (induction xs arbitrary: s) (auto simp: outcome_simps)

lemma for_each_no_panic:
  assumes "P s"
    and "\<And>x s s'. x \<in> set xs \<Longrightarrow> P s \<Longrightarrow> f x s = Ok s' \<Longrightarrow> P s'"
    and "\<And>x s. x \<in> set xs \<Longrightarrow> P s \<Longrightarrow> f x s \<noteq> Panic"
  shows "for_each f xs s \<noteq> Panic"
  using assms by (induction xs arbitrary: s) (auto simp: outcome_simps)

section \<open>Arithmetic of \<open>usize\<close>\<close>

text \<open>
  Lengths and indices are \<open>usize\<close>; the target is 64-bit, so \<open>usize\<close> holds exactly the values of
  \<open>u64\<close>. They are kept as natural numbers, with the operations that check or saturate at the
  width written out.
\<close>

definition usize_max :: nat where
  "usize_max = 18446744073709551615"

definition checked_add :: "nat \<Rightarrow> nat \<Rightarrow> nat option" where
  "checked_add a b = (if a + b \<le> usize_max then Some (a + b) else None)"

definition checked_mul :: "nat \<Rightarrow> nat \<Rightarrow> nat option" where
  "checked_mul a b = (if a * b \<le> usize_max then Some (a * b) else None)"

definition saturating_add :: "nat \<Rightarrow> nat \<Rightarrow> nat" where
  "saturating_add a b = min (a + b) usize_max"

definition saturating_sub :: "nat \<Rightarrow> nat \<Rightarrow> nat" where
  "saturating_sub a b = (if b \<le> a then a - b else 0)"

definition saturating_mul :: "nat \<Rightarrow> nat \<Rightarrow> nat" where
  "saturating_mul a b = min (a * b) usize_max"

text \<open>\<open>usize::try_from\<close> of a \<open>u64\<close>: on a 64-bit target it never fails.\<close>

definition usize_of_u64 :: "u64 \<Rightarrow> nat option" where
  "usize_of_u64 x = (if unat x \<le> usize_max then Some (unat x) else None)"

lemma unat_u64_le [simp]: "unat (x :: u64) \<le> usize_max"
proof -
  have "unat x < 2 ^ LENGTH(64)" by (rule unsigned_less)
  then show ?thesis by (simp add: usize_max_def)
qed

lemma usize_of_u64_Some [simp]: "usize_of_u64 x = Some (unat x)"
  by (simp add: usize_of_u64_def)

lemma checked_mul_Some [outcome_simps]:
  "checked_mul a b = Some c \<longleftrightarrow> c = a * b \<and> a * b \<le> usize_max"
  by (auto simp: checked_mul_def)

lemma checked_add_Some [outcome_simps]:
  "checked_add a b = Some c \<longleftrightarrow> c = a + b \<and> a + b \<le> usize_max"
  by (auto simp: checked_add_def)

section \<open>Rendering numbers\<close>

fun show_nat :: "nat \<Rightarrow> string" where
  "show_nat n =
     (if n < 10 then [char_of (48 + n)] else show_nat (n div 10) @ [char_of (48 + n mod 10)])"

declare show_nat.simps [simp del]

definition hex_digit :: "nat \<Rightarrow> char" where
  "hex_digit n = (if n < 10 then char_of (48 + n) else char_of (87 + n))"

text \<open>\<open>{byte:02x}\<close>.\<close>

definition show_hex_byte :: "byte \<Rightarrow> string" where
  "show_hex_byte b = [hex_digit (unat b div 16), hex_digit (unat b mod 16)]"

section \<open>Stable sorting and adjacent pairs\<close>

text \<open>\<open>windows(2)\<close> followed by a test of each pair: does some adjacent pair have equal keys?\<close>

fun adjacent_equal :: "('a \<Rightarrow> 'k) \<Rightarrow> 'a list \<Rightarrow> bool" where
  "adjacent_equal f (x # y # zs) = (f x = f y \<or> adjacent_equal f (y # zs))"
| "adjacent_equal f _ = False"

lemma adjacent_equal_sorted:
  fixes f :: "'a \<Rightarrow> 'k :: linorder"
  assumes "sorted (map f xs)"
  shows "adjacent_equal f xs \<longleftrightarrow> \<not> distinct (map f xs)"
  using assms
proof (induction f xs rule: adjacent_equal.induct)
  case (1 f x y zs)
  show ?case
  proof (cases "f x = f y")
    case True
    then show ?thesis by simp
  next
    case False
    with "1.prems" have "f x < f y" by (simp add: order_less_le)
    with "1.prems" have "f x \<notin> set (map f (y # zs))" by fastforce
    with False "1.IH" "1.prems" show ?thesis by simp
  qed
qed auto

lemma adjacent_equal_sort_key:
  fixes f :: "'a \<Rightarrow> 'k :: linorder"
  shows "adjacent_equal f (sort_key f xs) \<longleftrightarrow> \<not> distinct (map f xs)"
proof -
  have "distinct (map f (sort_key f xs)) \<longleftrightarrow> distinct (map f xs)"
    by (metis mset_eq_imp_distinct_iff mset_map mset_sort)
  then show ?thesis by (simp add: adjacent_equal_sorted)
qed

end
