(* ===== verification/Block_Types.thy ===== *)
theory Block_Types
  imports LG_Prelude
begin

text \<open>
  The data of the crate \<open>lexongraph-block\<close> (\<open>src/crates/lexongraph-block/src/lib.rs\<close>): block
  hashes, embedding specifications, EBCP descriptors, branch and leaf entries, version-1 blocks,
  the error type with its \<open>Display\<close> rendering, and the CBOR value tree of the \<open>ciborium\<close> crate
  that blocks are encoded through. A \<open>struct\<close> is a record, an \<open>enum\<close> a datatype; a \<open>u64\<close> is a
  \<open>64 word\<close>, a \<open>Vec<u8>\<close> a list of \<open>8 word\<close>, a \<open>String\<close> the list of its UTF-8 bytes, an \<open>f32\<close>
  its 32-bit pattern.
\<close>

section \<open>Floating-point values as bit patterns\<close>

type_synonym f32 = "32 word"
type_synonym f64 = "64 word"

section \<open>CBOR values\<close>

text \<open>
  \<open>ciborium::value::Value\<close>. The enum is marked \<open>#[non_exhaustive]\<close>; \<open>OtherValue\<close> stands for the
  variants a later release of that crate may add, which the code handles with a wildcard arm.
\<close>

datatype cbor =
    Integer int
  | Bytes "byte list"
  | Float f64
  | Text string
  | Bool bool
  | Null
  | Tag u64 cbor
  | Array "cbor list"
  | Map "(cbor \<times> cbor) list"
  | OtherValue nat

type_synonym metadata = "(cbor \<times> cbor) list"
type_synonym extension_map = "(cbor \<times> cbor) list"

section \<open>Block hashes\<close>

datatype block_hash = BlockHash "byte list"

fun as_bytes :: "block_hash \<Rightarrow> byte list" where
  "as_bytes (BlockHash bs) = bs"

text \<open>The Rust type is \<open>[u8; 32]\<close>: a well-formed hash has 32 bytes.\<close>

definition hash_wf :: "block_hash \<Rightarrow> bool" where
  "hash_wf h = (length (as_bytes h) = 32)"

definition display_hash :: "block_hash \<Rightarrow> string" where
  "display_hash h = concat (map show_hex_byte (as_bytes h))"

section \<open>Embedding specifications and EBCP descriptors\<close>

record embedding_spec =
  dims :: u64
  encoding :: string

record ebcp_rotation =
  matrix_format :: string
  matrix :: "f32 list"

datatype ebcp_quantization =
    Uniform u8 "f32 list"
  | Variable "u8 list" "f32 list"

record ebcp_descriptor =
  ebcp_version :: u64
  logical_embedding_spec :: embedding_spec
  base_centroid :: "f32 list option"
  rotation :: "ebcp_rotation option"
  quantization :: "ebcp_quantization option"

section \<open>Entries and version-1 blocks\<close>

record branch_entry =
  be_embedding :: "byte list"
  be_child :: block_hash

record content =
  media_type :: string
  body :: "byte list"

record leaf_entry =
  le_embedding :: "byte list"
  le_metadata :: metadata
  le_content :: content

record branch_block =
  bb_version :: u64
  bb_level :: u64
  bb_embedding_spec :: embedding_spec
  bb_entries :: "branch_entry list"
  bb_ext :: "extension_map option"

record leaf_block =
  lb_version :: u64
  lb_level :: u64
  lb_embedding_spec :: embedding_spec
  lb_entries :: "leaf_entry list"
  lb_ext :: "extension_map option"

datatype block = Branch branch_block | Leaf leaf_block

record serialized_block =
  ser_bytes :: "byte list"
  ser_hash :: block_hash

record validated_block =
  vb_block :: block
  vb_hash :: block_hash

record prepared_comparison_target =
  pct_bytes :: "byte list"
  pct_comparison_spec :: embedding_spec

record block_metadata =
  md_version :: u64
  md_level :: u64
  md_embedding_spec :: embedding_spec
  md_ext :: "extension_map option"

datatype typed_entries =
    BranchEntries block_metadata "branch_entry list"
  | LeafEntries block_metadata "leaf_entry list"

section \<open>Errors\<close>

datatype block_error =
    HashMismatch block_hash block_hash
  | MalformedCbor string
  | UnsupportedVersion u64
  | InvalidFieldKey string
  | MissingField string u64
  | InvalidBlockLevel u64
  | InvalidEntryShape string
  | NonConforming string
  | UnsupportedValue string

type_synonym 'a block_result = "(block_error, 'a) outcome"

fun display_block_error :: "block_error \<Rightarrow> string" where
  "display_block_error (HashMismatch expected actual) =
     ''block hash mismatch: expected '' @ display_hash expected @ '', got '' @ display_hash actual"
| "display_block_error (MalformedCbor message) = ''malformed CBOR: '' @ message"
| "display_block_error (UnsupportedVersion v) =
     ''unsupported block version '' @ show_nat (unat v)"
| "display_block_error (InvalidFieldKey context) =
     ''invalid field-key usage while decoding '' @ context"
| "display_block_error (MissingField context key) =
     ''missing required field '' @ show_nat (unat key) @ '' in '' @ context"
| "display_block_error (InvalidBlockLevel level) =
     ''invalid block level '' @ show_nat (unat level)"
| "display_block_error (InvalidEntryShape message) = message"
| "display_block_error (NonConforming message) = message"
| "display_block_error (UnsupportedValue message) = message"

text \<open>\<open>BlockHash::try_from(&[u8])\<close>: the only way bytes read from a block become a hash.\<close>

definition hash_try_from :: "byte list \<Rightarrow> block_hash block_result" where
  "hash_try_from bs =
     (if length bs = 32 then Ok (BlockHash bs)
      else Err (InvalidEntryShape ''block hashes must be 32 bytes''))"

lemma as_bytes_inject [simp]: "as_bytes h = as_bytes k \<longleftrightarrow> h = k"
  by (cases h; cases k) auto

lemma BlockHash_as_bytes [simp]: "BlockHash (as_bytes h) = h"
  by (cases h) auto

lemma hash_try_from_wf: "hash_try_from bs = Ok h \<Longrightarrow> hash_wf h \<and> as_bytes h = bs"
  by (auto simp: hash_try_from_def hash_wf_def split: if_splits)

lemma hash_try_from_as_bytes: "hash_wf h \<Longrightarrow> hash_try_from (as_bytes h) = Ok h"
  by (simp add: hash_try_from_def hash_wf_def)

text \<open>Two well-formed hashes with the same rendering are the same hash.\<close>

lemma hex_digit_inject: "a < 16 \<Longrightarrow> b < 16 \<Longrightarrow> hex_digit a = hex_digit b \<Longrightarrow> a = b"
  by (auto simp: hex_digit_def char_of_eq_iff take_bit_eq_mod split: if_splits)

lemma show_hex_byte_inject: "show_hex_byte a = show_hex_byte b \<Longrightarrow> a = b"
proof -
  assume eq: "show_hex_byte a = show_hex_byte b"
  have lt: "unat a < 256" "unat b < 256"
    using unsigned_less [of a] unsigned_less [of b] by simp_all
  have "unat a div 16 = unat b div 16" and "unat a mod 16 = unat b mod 16"
    using eq lt by (auto simp: show_hex_byte_def intro!: hex_digit_inject)
  then have "unat a = unat b" by (metis div_mult_mod_eq)
  then show "a = b" by (simp add: word_unat_eq_iff)
qed

end
