(* ===== verification/Block_Canonical.thy ===== *)
theory Block_Canonical
  imports Block_Types
begin

text \<open>
  The boundary to the libraries the block crate calls, and the canonicalisation of CBOR values
  (\<open>canonicalize_value\<close>, \<open>canonical_value_cmp\<close>, \<open>normalize_map\<close> and their callers in
  \<open>src/crates/lexongraph-block/src/lib.rs\<close>). The lemmas show that canonicalisation is idempotent,
  that it does not depend on the order in which a map's entries are given, and that it orders the
  entries strictly.
\<close>

section \<open>Libraries the crate depends on\<close>

text \<open>
  \<open>ciborium::ser::into_writer\<close>, \<open>ciborium::de::from_reader\<close> on a cursor (the value and the
  position after it), \<open>sha2::Sha256::digest\<close> and \<open>half::f16::from_le_bytes(..).to_f32()\<close> are not
  part of the repository: every definition that uses them takes them as a record of functions.
\<close>

record deps =
  into_writer :: "cbor \<Rightarrow> (string, byte list) outcome"
  from_reader :: "byte list \<Rightarrow> (string, cbor \<times> nat) outcome"
  sha256_digest :: "byte list \<Rightarrow> byte list"
  f16_to_f32 :: "byte \<Rightarrow> byte \<Rightarrow> f32"

text \<open>
  What the code relies on. Writing a value to a vector does not fail (the crate \<open>expect\<close>s it), an
  unsigned integer below 24 is the one byte of its value (RFC 8949, section 3.1), a SHA-256 digest
  has 32 bytes, and the reader gives back every value within its limits (\<open>readable\<close>: nesting depth,
  no bignum tags) that the writer wrote, consuming all of it.
\<close>

locale codec =
  fixes d :: deps
  assumes writer_total: "\<exists>bs. into_writer d v = Ok bs"
    and writer_small: "n < 24 \<Longrightarrow> into_writer d (Integer (int n)) = Ok [word_of_nat n]"
    and digest_length: "length (sha256_digest d bs) = 32"

locale readable_codec = codec d for d :: deps +
  fixes readable :: "cbor \<Rightarrow> bool"
  assumes reader_inverts:
    "readable v \<Longrightarrow> into_writer d v = Ok bs \<Longrightarrow> from_reader d bs = Ok (v, length bs)"

section \<open>Canonicalisation\<close>

definition encoded_value_bytes :: "deps \<Rightarrow> cbor \<Rightarrow> byte list block_result" where
  "encoded_value_bytes d v = (case into_writer d v of Ok bs \<Rightarrow> Ok bs | _ \<Rightarrow> Panic)"

text \<open>
  \<open>canonical_value_cmp\<close> compares the encodings by length and then byte by byte; it is the order of
  the following key.
\<close>

definition canonical_key :: "deps \<Rightarrow> cbor \<Rightarrow> nat \<times> byte list" where
  "canonical_key d v =
     (case encoded_value_bytes d v of Ok bs \<Rightarrow> (length bs, bs) | _ \<Rightarrow> (0, []))"

definition entry_key :: "deps \<Rightarrow> cbor \<times> cbor \<Rightarrow> nat \<times> byte list" where
  "entry_key d e = canonical_key d (fst e)"

text \<open>
  The tail of the \<open>Value::Map\<close> arm: the stable sort and the check of adjacent keys. Sorting two or
  more entries compares every key, and comparing a key that cannot be encoded panics.
\<close>

definition sort_map_entries :: "deps \<Rightarrow> (cbor \<times> cbor) list \<Rightarrow> cbor block_result" where
  "sort_map_entries d es =
     (if 2 \<le> length es \<and> list_ex (\<lambda>e. \<not> is_ok (encoded_value_bytes d (fst e))) es then Panic
      else let sorted_es = sort_key (entry_key d) es
           in if adjacent_equal (entry_key d) sorted_es
              then Err (NonConforming
                     ''duplicate map keys are not permitted in canonical blocks'')
              else Ok (Map sorted_es))"

function canonicalize_value :: "deps \<Rightarrow> cbor \<Rightarrow> cbor block_result" where
  "canonicalize_value d (Integer i) = Ok (Integer i)"
| "canonicalize_value d (Bytes bs) = Ok (Bytes bs)"
| "canonicalize_value d (Float f) = Ok (Float f)"
| "canonicalize_value d (Text t) = Ok (Text t)"
| "canonicalize_value d (Bool b) = Ok (Bool b)"
| "canonicalize_value d Null = Ok Null"
| "canonicalize_value d (Tag t nested) = map_ok (Tag t) (canonicalize_value d nested)"
| "canonicalize_value d (Array vs) = map_ok Array (traverse (\<lambda>v. canonicalize_value d v) vs)"
| "canonicalize_value d (Map es) =
     and_then
       (traverse
         (\<lambda>e. and_then (canonicalize_value d (fst e))
                (\<lambda>k. map_ok (Pair k) (canonicalize_value d (snd e)))) es)
       (sort_map_entries d)"
| "canonicalize_value d (OtherValue n) =
     Err (UnsupportedValue ''unsupported CBOR value encountered during canonicalization'')"
  by pat_completeness auto

lemma size_entry:
  "e \<in> set es \<Longrightarrow> size (fst e) < size (Map es) \<and> size (snd e) < size (Map es)"
  by (induction es) auto

lemma size_element: "v \<in> set vs \<Longrightarrow> size v < size (Array vs)"
  by (induction vs) auto

termination canonicalize_value
  by (relation "measure (\<lambda>(d, v). size v)") (use size_entry size_element in \<open>fastforce+\<close>)

abbreviation canonicalize_entry :: "deps \<Rightarrow> cbor \<times> cbor \<Rightarrow> (cbor \<times> cbor) block_result" where
  "canonicalize_entry d e \<equiv>
     and_then (canonicalize_value d (fst e))
       (\<lambda>k. map_ok (Pair k) (canonicalize_value d (snd e)))"

definition normalize_map :: "deps \<Rightarrow> (cbor \<times> cbor) list \<Rightarrow> (cbor \<times> cbor) list block_result" where
  "normalize_map d es =
     and_then (canonicalize_value d (Map es))
       (\<lambda>v. case v of Map es' \<Rightarrow> Ok es' | _ \<Rightarrow> Panic)"

definition normalize_optional_map ::
    "deps \<Rightarrow> extension_map option \<Rightarrow> extension_map option block_result" where
  "normalize_optional_map d m = transpose_map (normalize_map d) m"

definition canonicalize_metadata :: "deps \<Rightarrow> metadata \<Rightarrow> metadata block_result" where
  "canonicalize_metadata d m = normalize_map d m"

section \<open>Canonical values\<close>

text \<open>A value is canonical when canonicalisation accepts it and leaves it as it is.\<close>

definition canonical :: "deps \<Rightarrow> cbor \<Rightarrow> bool" where
  "canonical d v = (canonicalize_value d v = Ok v)"

abbreviation canonical_entry :: "deps \<Rightarrow> cbor \<times> cbor \<Rightarrow> bool" where
  "canonical_entry d e \<equiv> canonical d (fst e) \<and> canonical d (snd e)"

lemma canonicalize_entry_Ok:
  "canonicalize_entry d e = Ok e' \<longleftrightarrow>
     canonicalize_value d (fst e) = Ok (fst e') \<and> canonicalize_value d (snd e) = Ok (snd e')"
  by (cases e') (auto simp: outcome_simps)

lemma sort_map_entries_Ok:
  "sort_map_entries d es = Ok v \<longleftrightarrow>
     v = Map (sort_key (entry_key d) es) \<and> distinct (map (entry_key d) es) \<and>
     (2 \<le> length es \<longrightarrow> (\<forall>e \<in> set es. is_ok (encoded_value_bytes d (fst e))))"
  by (auto simp: sort_map_entries_def Let_def adjacent_equal_sort_key list_ex_iff)

lemma sort_map_entries_sorted:
  assumes "sort_map_entries d es = Ok (Map es')"
  shows "sort_map_entries d es' = Ok (Map es')"
proof -
  from assms have es': "es' = sort_key (entry_key d) es"
    and dist: "distinct (map (entry_key d) es)"
    and enc: "2 \<le> length es \<longrightarrow> (\<forall>e \<in> set es. is_ok (encoded_value_bytes d (fst e)))"
    by (auto simp: sort_map_entries_Ok)
  have "distinct (map (entry_key d) es')"
    using dist unfolding es' by (metis mset_eq_imp_distinct_iff mset_map mset_sort)
  moreover have "sort_key (entry_key d) es' = es'"
    unfolding es' by (simp add: sort_key_id_if_sorted)
  ultimately show ?thesis using enc by (simp add: sort_map_entries_Ok es')
qed

theorem canonicalize_idem: "canonicalize_value d v = Ok v' \<Longrightarrow> canonical d v'"
proof (induction d v arbitrary: v' rule: canonicalize_value.induct)
  case (8 d vs)
  then obtain ws where tr: "traverse (canonicalize_value d) vs = Ok ws" and v': "v' = Array ws"
    by (auto simp: outcome_simps)
  have "canonicalize_value d w = Ok w" if "w \<in> set ws" for w
    using traverse_Ok_set [OF tr that] "8.IH" by (auto simp: canonical_def)
  then have "traverse (canonicalize_value d) ws = Ok (map id ws)"
    by (intro traverse_all_Ok) simp
  with v' show ?case by (simp add: canonical_def)
next
  case (9 d es)
  then obtain ns where tr: "traverse (canonicalize_entry d) es = Ok ns"
    and srt: "sort_map_entries d ns = Ok v'"
    by (auto simp: outcome_simps)
  then obtain es' where v': "v' = Map es'" and es': "es' = sort_key (entry_key d) ns"
    by (auto simp: sort_map_entries_Ok)
  have "canonicalize_entry d e = Ok (id e)" if e: "e \<in> set es'" for e
  proof -
    from e have "e \<in> set ns" by (simp add: es')
    from traverse_Ok_set [OF tr this] obtain e0 where e0: "e0 \<in> set es"
      and "canonicalize_entry d e0 = Ok e" by blast
    then have k: "canonicalize_value d (fst e0) = Ok (fst e)"
      and v: "canonicalize_value d (snd e0) = Ok (snd e)" by (simp_all only: canonicalize_entry_Ok)
    from "9.IH"(1) [OF e0 k] "9.IH"(2) [OF e0 k v] show ?thesis
      unfolding canonical_def canonicalize_entry_Ok by simp
  qed
  then have "traverse (canonicalize_entry d) es' = Ok (map id es')"
    by (rule traverse_all_Ok)
  moreover have "sort_map_entries d es' = Ok (Map es')"
    using srt unfolding v' by (rule sort_map_entries_sorted)
  ultimately show ?case by (simp add: canonical_def v')
qed (auto simp: canonical_def outcome_simps)

text \<open>The entries of a canonical map: canonical themselves, and in strictly ascending key order.\<close>

lemma canonical_Map_entries:
  assumes "canonical d (Map es)"
  shows "(\<forall>e \<in> set es. canonical_entry d e) \<and>
    sorted_wrt (\<lambda>a b. entry_key d a < entry_key d b) es"
proof -
  from assms obtain ns where tr: "traverse (canonicalize_entry d) es = Ok ns"
    and srt: "sort_map_entries d ns = Ok (Map es)"
    by (auto simp: canonical_def outcome_simps)
  from srt have es: "es = sort_key (entry_key d) ns" and dist: "distinct (map (entry_key d) ns)"
    by (auto simp: sort_map_entries_Ok)
  have ent: "canonical_entry d e" if "e \<in> set es" for e
  proof -
    from that have "e \<in> set ns" by (simp add: es)
    from traverse_Ok_set [OF tr this] show ?thesis
      by (auto simp: canonicalize_entry_Ok dest: canonicalize_idem)
  qed
  have "sorted (map (entry_key d) es)" unfolding es by simp
  moreover have "distinct (map (entry_key d) es)"
    using dist unfolding es by (metis mset_eq_imp_distinct_iff mset_map mset_sort)
  ultimately have "sorted_wrt (<) (map (entry_key d) es)" by (simp add: strict_sorted_iff)
  with ent show ?thesis by (auto simp: sorted_wrt_map)
qed

text \<open>Canonicalisation does not depend on the order in which a map lists its entries.\<close>

lemma traverse_mset:
  assumes "traverse f xs = Ok ys" and "mset xs' = mset xs"
  shows "\<exists>ys'. traverse f xs' = Ok ys' \<and> mset ys' = mset ys"
proof -
  define g where "g x = (case f x of Ok y \<Rightarrow> y | _ \<Rightarrow> undefined)" for x
  from assms(1) have ys: "ys = map g xs" and ok: "\<forall>x \<in> set xs. f x = Ok (g x)"
    by (induction xs arbitrary: ys) (auto simp: outcome_simps g_def)
  from assms(2) have "set xs' = set xs" by (rule mset_eq_setD)
  with ok have "traverse f xs' = Ok (map g xs')" by (intro traverse_all_Ok) simp
  moreover have "mset (map g xs') = mset ys" using assms(2) by (simp add: ys)
  ultimately show ?thesis by blast
qed

lemma sort_map_entries_mset:
  assumes "sort_map_entries d es = Ok v" and "mset es' = mset es"
  shows "sort_map_entries d es' = Ok v"
proof -
  from assms(1) have dist: "distinct (map (entry_key d) es)" by (simp add: sort_map_entries_Ok)
  from assms(2) have set: "set es' = set es" by (rule mset_eq_setD)
  from assms(2) have "length es' = length es" by (rule mset_eq_length)
  moreover have "distinct (map (entry_key d) es')"
    using dist assms(2) by (metis mset_eq_imp_distinct_iff mset_map)
  moreover have "sort_key (entry_key d) es' = sort_key (entry_key d) es"
    using assms(2) dist set by (intro sort_key_eq_sort_key) (auto simp: distinct_map)
  ultimately show ?thesis using assms(1) set by (simp add: sort_map_entries_Ok)
qed

lemma canonicalize_Map_mset:
  assumes "canonicalize_value d (Map es) = Ok v" and "mset es' = mset es"
  shows "canonicalize_value d (Map es') = Ok v"
proof -
  from assms(1) obtain ns where tr: "traverse (canonicalize_entry d) es = Ok ns"
    and srt: "sort_map_entries d ns = Ok v"
    by (auto simp: outcome_simps)
  from traverse_mset [OF tr assms(2)] obtain ns' where
    "traverse (canonicalize_entry d) es' = Ok ns'" and "mset ns' = mset ns" by blast
  moreover from srt this(2) have "sort_map_entries d ns' = Ok v" by (rule sort_map_entries_mset)
  ultimately show ?thesis by simp
qed

lemma canonicalize_Map_shape: "canonicalize_value d (Map es) = Ok v \<Longrightarrow> \<exists>es'. v = Map es'"
  by (auto simp: outcome_simps sort_map_entries_Ok)

lemma normalize_map_Ok:
  "normalize_map d es = Ok es' \<longleftrightarrow> canonicalize_value d (Map es) = Ok (Map es')"
proof (cases "canonicalize_value d (Map es)")
  case (Ok v)
  with canonicalize_Map_shape [OF Ok] show ?thesis by (auto simp: normalize_map_def)
qed (simp_all add: normalize_map_def del: canonicalize_value.simps)

lemma normalize_map_canonical: "normalize_map d es = Ok es' \<Longrightarrow> canonical d (Map es')"
  by (simp only: normalize_map_Ok canonicalize_idem)

lemma normalize_map_fix: "canonical d (Map es) \<Longrightarrow> normalize_map d es = Ok es"
  by (simp only: normalize_map_Ok canonical_def)

lemma normalize_map_mset:
  "normalize_map d es = Ok es1 \<Longrightarrow> mset es' = mset es \<Longrightarrow> normalize_map d es' = Ok es1"
  unfolding normalize_map_Ok by (rule canonicalize_Map_mset)

lemma normalize_optional_map_Ok:
  "normalize_optional_map d m = Ok m' \<Longrightarrow>
     (case m' of None \<Rightarrow> m = None | Some es \<Rightarrow> canonical d (Map es))"
  by (auto simp: normalize_optional_map_def outcome_simps dest: normalize_map_canonical)

lemma normalize_optional_map_fix:
  "(case m of None \<Rightarrow> True | Some es \<Rightarrow> canonical d (Map es)) \<Longrightarrow>
     normalize_optional_map d m = Ok m"
  by (cases m) (auto simp: normalize_optional_map_def normalize_map_fix)

text \<open>With a writer that always succeeds, canonicalisation never panics.\<close>

context codec
begin

lemma encoded_ok: "is_ok (encoded_value_bytes d v)"
  using writer_total [of v] by (auto simp: encoded_value_bytes_def is_ok_def)

lemma canonicalize_no_panic: "canonicalize_value d v \<noteq> Panic"
proof (induction v)
  case (Array vs)
  then show ?case by (auto simp: outcome_simps dest: traverse_eq_Panic)
next
  case (Map es)
  have "traverse (canonicalize_entry d) es \<noteq> Panic"
    using Map by (auto simp: outcome_simps dest!: traverse_eq_Panic)
  then show ?case
    by (auto simp: outcome_simps sort_map_entries_def encoded_ok list_ex_iff Let_def)
qed (auto simp: outcome_simps)

lemma small_key:
  "n < 24 \<Longrightarrow> canonical_key d (Integer (int n)) = (1, [word_of_nat n])"
  using writer_small [of n] by (simp add: canonical_key_def encoded_value_bytes_def)

end

end
