(* ===== verification/Block_Fields.thy ===== *)
theory Block_Fields
  imports Block_Canonical
begin

text \<open>
  Reading the integer-keyed maps a block is made of: the helpers at the end of
  \<open>src/crates/lexongraph-block/src/lib.rs\<close> (\<open>integer_keyed_map\<close>, \<open>required_field\<close> and its typed
  variants, \<open>reject_unknown_keys\<close>, \<open>expect_array\<close>, \<open>expect_arbitrary_map\<close>, \<open>int_value\<close>). The
  \<open>BTreeMap<u64, Value>\<close> is an association list with at most one entry per key; \<open>remove\<close> hands the
  remaining map back. The lemmas give what reading a map written with \<open>int_value\<close> keys returns.
\<close>

type_synonym field_map = "(u64 \<times> cbor) list"

section \<open>Definitions\<close>

definition int_value :: "u64 \<Rightarrow> cbor" where
  "int_value x = Integer (uint x)"

text \<open>\<open>u64::try_from(integer)\<close>.\<close>

definition u64_try_from :: "int \<Rightarrow> u64 option" where
  "u64_try_from i = (if 0 \<le> i \<and> i < 18446744073709551616 then Some (word_of_int i) else None)"

definition field_key :: "cbor \<Rightarrow> string \<Rightarrow> u64 block_result" where
  "field_key k ctx =
     (case k of Integer i \<Rightarrow> ok_or (u64_try_from i) (InvalidFieldKey ctx)
      | _ \<Rightarrow> Err (InvalidFieldKey ctx))"

fun insert_fields :: "string \<Rightarrow> (cbor \<times> cbor) list \<Rightarrow> field_map \<Rightarrow> field_map block_result" where
  "insert_fields ctx [] fs = Ok fs"
| "insert_fields ctx ((k, v) # es) fs =
     and_then (field_key k ctx)
       (\<lambda>key. if map_of fs key \<noteq> None then Err (NonConforming ''duplicate field key'')
              else insert_fields ctx es ((key, v) # fs))"

definition integer_keyed_map :: "cbor \<Rightarrow> string \<Rightarrow> field_map block_result" where
  "integer_keyed_map v ctx =
     (case v of Map es \<Rightarrow> insert_fields ctx es []
      | _ \<Rightarrow> Err (InvalidEntryShape ''expected a CBOR map''))"

definition expect_arbitrary_map :: "deps \<Rightarrow> cbor \<Rightarrow> extension_map block_result" where
  "expect_arbitrary_map d v =
     and_then (canonicalize_value d v)
       (\<lambda>v'. case v' of Map es \<Rightarrow> Ok es
             | _ \<Rightarrow> Err (InvalidEntryShape ''expected a CBOR map''))"

definition expect_array :: "cbor \<Rightarrow> string \<Rightarrow> cbor list block_result" where
  "expect_array v message =
     (case v of Array vs \<Rightarrow> Ok vs | _ \<Rightarrow> Err (InvalidEntryShape message))"

definition remove_field :: "field_map \<Rightarrow> u64 \<Rightarrow> field_map" where
  "remove_field fs key = filter (\<lambda>(k, _). k \<noteq> key) fs"

definition required_field :: "field_map \<Rightarrow> u64 \<Rightarrow> string \<Rightarrow> (cbor \<times> field_map) block_result" where
  "required_field fs key ctx =
     (case map_of fs key of
        None \<Rightarrow> Err (MissingField ctx key)
      | Some v \<Rightarrow> Ok (v, remove_field fs key))"

definition required_u64_field ::
    "field_map \<Rightarrow> u64 \<Rightarrow> string \<Rightarrow> (u64 \<times> field_map) block_result" where
  "required_u64_field fs key ctx =
     and_then (required_field fs key ctx)
       (\<lambda>(v, rest). case v of
            Integer i \<Rightarrow> map_ok (\<lambda>x. (x, rest))
                           (ok_or (u64_try_from i) (InvalidEntryShape ''expected a uint''))
          | _ \<Rightarrow> Err (InvalidEntryShape ''expected a uint''))"

definition required_text_field ::
    "field_map \<Rightarrow> u64 \<Rightarrow> string \<Rightarrow> (string \<times> field_map) block_result" where
  "required_text_field fs key ctx =
     and_then (required_field fs key ctx)
       (\<lambda>(v, rest). case v of
            Text t \<Rightarrow> Ok (t, rest)
          | _ \<Rightarrow> Err (InvalidEntryShape ''expected a text value''))"

definition required_bytes_field ::
    "field_map \<Rightarrow> u64 \<Rightarrow> string \<Rightarrow> (byte list \<times> field_map) block_result" where
  "required_bytes_field fs key ctx =
     and_then (required_field fs key ctx)
       (\<lambda>(v, rest). case v of
            Bytes bs \<Rightarrow> Ok (bs, rest)
          | _ \<Rightarrow> Err (InvalidEntryShape ''expected a byte string''))"

definition reject_unknown_keys :: "field_map \<Rightarrow> u64 list \<Rightarrow> string \<Rightarrow> unit block_result" where
  "reject_unknown_keys fs allowed ctx =
     (if list_all (\<lambda>(k, _). k \<in> set allowed) fs then Ok ()
      else Err (InvalidFieldKey ctx))"

section \<open>Reading back what was written\<close>

lemma u64_try_from_uint [simp]: "u64_try_from (uint x) = Some x"
proof -
  have "uint x < 2 ^ LENGTH(64)" by (rule unsigned_less)
  then show ?thesis by (simp add: u64_try_from_def)
qed

lemma u64_try_from_numeral [simp]:
  "u64_try_from 0 = Some 0" "u64_try_from 1 = Some 1"
  "u64_try_from (numeral n) =
     (if (numeral n :: int) < 18446744073709551616 then Some (numeral n) else None)"
  by (simp_all add: u64_try_from_def)

lemma field_key_int_value [simp]: "field_key (int_value x) ctx = Ok x"
  by (simp add: field_key_def int_value_def)

lemma case_int_value [simp]:
  "(case int_value x of Integer i \<Rightarrow> f i | Bytes bs \<Rightarrow> f1 bs | Float g \<Rightarrow> f2 g | Text t \<Rightarrow> f3 t
    | Bool b \<Rightarrow> f4 b | Null \<Rightarrow> f5 | Tag t v \<Rightarrow> f6 t v | Array vs \<Rightarrow> f7 vs | Map es \<Rightarrow> f8 es
    | OtherValue n \<Rightarrow> f9 n) = f (uint x)"
  by (simp add: int_value_def)

lemma canonicalize_int_value [simp]: "canonicalize_value d (int_value x) = Ok (int_value x)"
  by (simp add: int_value_def)

definition keyed :: "(u64 \<times> cbor) list \<Rightarrow> (cbor \<times> cbor) list" where
  "keyed kvs = map (\<lambda>(k, v). (int_value k, v)) kvs"

lemma keyed_simps:
  "keyed [] = []" "keyed ((k, v) # kvs) = (int_value k, v) # keyed kvs"
  "keyed (xs @ ys) = keyed xs @ keyed ys"
  by (simp_all add: keyed_def)

lemma insert_fields_keyed:
  assumes "distinct (map fst kvs)" and "fst ` set kvs \<inter> fst ` set fs = {}"
  shows "insert_fields ctx (keyed kvs) fs = Ok (rev kvs @ fs)"
  using assms
proof (induction kvs arbitrary: fs)
  case (Cons e kvs)
  obtain k v where e: "e = (k, v)" by (cases e)
  from Cons.prems have "map_of fs k = None"
    by (auto simp: e map_of_eq_None_iff)
  moreover have "insert_fields ctx (keyed kvs) ((k, v) # fs) = Ok (rev kvs @ (k, v) # fs)"
    using Cons.prems by (intro Cons.IH) (auto simp: e)
  ultimately show ?case by (simp add: e keyed_simps)
qed (simp add: keyed_simps)

lemma integer_keyed_map_keyed [simp]:
  "distinct (map fst kvs) \<Longrightarrow> integer_keyed_map (Map (keyed kvs)) ctx = Ok (rev kvs)"
  by (simp add: integer_keyed_map_def insert_fields_keyed)

lemma required_field_Cons [simp]:
  "required_field ((k, v) # fs) key ctx =
     (if k = key then Ok (v, remove_field fs key)
      else map_ok (\<lambda>(w, rest). (w, (k, v) # rest)) (required_field fs key ctx))"
  by (auto simp: required_field_def remove_field_def split: option.splits)

lemma remove_field_Cons [simp]:
  "remove_field ((k, v) # fs) key =
     (if k = key then remove_field fs key else (k, v) # remove_field fs key)"
  "remove_field [] key = []"
  by (simp_all add: remove_field_def)

lemma insert_fields_keys:
  "insert_fields ctx es fs = Ok fs' \<Longrightarrow>
     distinct (map fst fs) \<Longrightarrow> distinct (map fst fs')"
proof (induction ctx es fs rule: insert_fields.induct)
  case (2 ctx k v es fs)
  then show ?case by (auto simp: outcome_simps map_of_eq_None_iff split: if_splits)
qed simp

lemma integer_keyed_map_distinct:
  "integer_keyed_map v ctx = Ok fs \<Longrightarrow> distinct (map fst fs)"
  by (auto simp: integer_keyed_map_def dest: insert_fields_keys split: cbor.splits)

lemma required_field_lookup:
  "map_of fs key = Some v \<Longrightarrow> required_field fs key ctx = Ok (v, remove_field fs key)"
  by (simp add: required_field_def)

lemma map_of_remove_field [simp]: "map_of (remove_field fs key) = (map_of fs)(key := None)"
  by (induction fs) (auto simp: fun_eq_iff)

lemma required_field_Ok:
  "required_field fs key ctx = Ok (v, rest) \<longleftrightarrow>
     map_of fs key = Some v \<and> rest = remove_field fs key"
  by (auto simp: required_field_def split: option.splits)

lemma required_u64_field_Ok:
  "required_u64_field fs key ctx = Ok (x, rest) \<longleftrightarrow>
     (\<exists>i. map_of fs key = Some (Integer i) \<and> u64_try_from i = Some x \<and> rest = remove_field fs key)"
proof (cases "map_of fs key")
  case (Some v)
  then show ?thesis
    by (cases v) (auto simp: required_u64_field_def required_field_def outcome_simps)
qed (simp add: required_u64_field_def required_field_def)

lemma insert_fields_ConsE:
  assumes "insert_fields ctx ((k, v) # es) fs = Ok fs'"
  obtains key where "field_key k ctx = Ok key" and "map_of fs key = None"
    and "insert_fields ctx es ((key, v) # fs) = Ok fs'"
proof (cases "field_key k ctx")
  case (Ok key)
  with assms that show thesis by (cases "map_of fs key") simp_all
qed (use assms in simp_all)

lemma insert_fields_lookup:
  "insert_fields ctx es fs = Ok fs' \<Longrightarrow> map_of fs key = Some v \<Longrightarrow> map_of fs' key = Some v"
proof (induction es arbitrary: fs)
  case (Cons e es)
  obtain k w where e: "e = (k, w)" by (cases e)
  from Cons.prems(1) obtain key' where new: "map_of fs key' = None"
    and rest: "insert_fields ctx es ((key', w) # fs) = Ok fs'"
    unfolding e by (rule insert_fields_ConsE)
  have "map_of ((key', w) # fs) key = Some v" using new Cons.prems(2) by auto
  with rest show ?case by (rule Cons.IH)
qed simp

lemma required_field_not_Panic [simp]: "required_field fs key ctx \<noteq> Panic"
  by (simp add: required_field_def split: option.splits)

section \<open>Shared field-reading facts for a codec\<close>

context codec
begin

lemma entry_key_small:
  assumes "k < 24"
  shows "entry_key d (int_value k, v) = (1, [ucast k])"
proof -
  have "unat k < 24" using assms by (simp add: word_less_nat_alt)
  then have "canonical_key d (Integer (int (unat k))) = (1, [word_of_nat (unat k)])"
    by (rule small_key)
  then show ?thesis by (simp add: entry_key_def int_value_def)
qed

lemma ucast_small_less: "a < b \<Longrightarrow> b < (24 :: u64) \<Longrightarrow> (ucast a :: byte) < ucast b"
proof -
  assume "a < b" and "b < (24 :: u64)"
  then have "unat a < unat b" and "unat b < 24" by (simp_all add: word_less_nat_alt)
  then show ?thesis by (simp add: word_less_nat_alt unsigned_ucast_eq take_bit_eq_mod)
qed

text \<open>A map with ascending one-byte keys and canonical values is canonical as it stands.\<close>

lemma keyed_canonical:
  assumes "sorted_wrt (<) (map fst kvs)" and "\<forall>(k, v) \<in> set kvs. k < 24 \<and> canonical d v"
  shows "canonical d (Map (keyed kvs))"
proof -
  have "traverse (canonicalize_entry d) (keyed kvs) = Ok (map id (keyed kvs))"
    using assms(2) by (intro traverse_all_Ok) (auto simp: keyed_def canonical_def)
  moreover have strict: "sorted_wrt (<) (map (entry_key d) (keyed kvs))"
    using assms
  proof (induction kvs)
    case (Cons e kvs)
    then show ?case
      by (cases e) (fastforce simp: keyed_def entry_key_small ucast_small_less)
  qed (simp add: keyed_simps)
  then have "sort_map_entries d (keyed kvs) = Ok (Map (keyed kvs))"
    by (simp add: sort_map_entries_Ok strict_sorted_iff sort_key_id_if_sorted encoded_ok)
  ultimately show ?thesis by (simp add: canonical_def)
qed

end

end
