(* ===== verification/Ieee_Float.thy ===== *)
theory Ieee_Float
  imports Complex_Main Block_Types
begin

unbundle bit_operations_syntax

text \<open>
  IEEE 754 binary arithmetic as Rust's \<open>f32\<close> and \<open>f64\<close> define it, executable on bit patterns:
  decoding, rounding to nearest even, addition, subtraction, multiplication, division, square
  root, comparison, the conversions the program uses and \<open>total_cmp\<close>. A format is given by its
  number of fraction bits \<open>p\<close> and of exponent bits \<open>q\<close> (23 and 8 for \<open>f32\<close>, 52 and 11 for \<open>f64\<close>,
  10 and 5 for half precision). A NaN result is the quiet NaN; its payload is not specified by the
  language, and no operation of the program reads it.
\<close>

section \<open>Decoding\<close>

datatype fclass = NaN | Inf bool | Fin bool nat int

text \<open>\<open>Fin s m e\<close> is the number \<open>(-1)^s * m * 2^e\<close>; a zero is \<open>Fin s 0 e\<close>.\<close>

definition fl_emin :: "nat \<Rightarrow> nat \<Rightarrow> int" where
  "fl_emin p q = 2 - 2 ^ (q - 1) - int p"

definition fl_inf_bits :: "nat \<Rightarrow> nat \<Rightarrow> nat" where
  "fl_inf_bits p q = (2 ^ q - 1) * 2 ^ p"

definition fl_sign_bit :: "nat \<Rightarrow> nat \<Rightarrow> nat" where
  "fl_sign_bit p q = 2 ^ (p + q)"

text \<open>The magnitude part of a pattern, without its sign bit.\<close>

definition fl_decode_mag :: "nat \<Rightarrow> nat \<Rightarrow> bool \<Rightarrow> nat \<Rightarrow> fclass" where
  "fl_decode_mag p q s n =
     (let f = n mod 2 ^ p; e = n div 2 ^ p
      in if e = 2 ^ q - 1 then (if f = 0 then Inf s else NaN)
         else if e = 0 then Fin s f (fl_emin p q)
         else Fin s (2 ^ p + f) (fl_emin p q + int e - 1))"

definition fl_decode :: "nat \<Rightarrow> nat \<Rightarrow> nat \<Rightarrow> fclass" where
  "fl_decode p q n =
     fl_decode_mag p q (odd (n div fl_sign_bit p q)) (n mod fl_sign_bit p q)"

section \<open>Rounding\<close>

fun bit_len :: "nat \<Rightarrow> nat" where
  "bit_len n = (if n = 0 then 0 else Suc (bit_len (n div 2)))"

declare bit_len.simps [simp del]

text \<open>Division by a power of two, to nearest, ties to even.\<close>

definition shift_right_rne :: "nat \<Rightarrow> nat \<Rightarrow> nat" where
  "shift_right_rne m sh =
     (let q = m div 2 ^ sh; r = m mod 2 ^ sh
      in if sh = 0 then m
         else if 2 * r > 2 ^ sh \<or> (2 * r = 2 ^ sh \<and> odd q) then q + 1 else q)"

text \<open>
  Rounding \<open>m * 2^e\<close>: the last place of the result has exponent \<open>t\<close>, the larger of the format's
  least exponent and the one that leaves \<open>p + 1\<close> significant bits. The pattern of the rounded
  significand at that place is \<open>(t - emin) * 2^p\<close> plus the significand, which also covers the
  carry into the next binade, subnormal results and, past the largest finite pattern, infinity.
\<close>

definition fl_round_mag :: "nat \<Rightarrow> nat \<Rightarrow> nat \<Rightarrow> int \<Rightarrow> nat" where
  "fl_round_mag p q m e =
     (if m = 0 then 0
      else let t = max (e + int (bit_len m) - int (p + 1)) (fl_emin p q);
               sig = (if t \<le> e then m * 2 ^ nat (e - t) else shift_right_rne m (nat (t - e)));
               n = nat (t - fl_emin p q) * 2 ^ p + sig
           in min n (fl_inf_bits p q))"

definition fl_pack :: "nat \<Rightarrow> nat \<Rightarrow> bool \<Rightarrow> nat \<Rightarrow> nat" where
  "fl_pack p q s n = (if s then fl_sign_bit p q + n else n)"

definition fl_nan :: "nat \<Rightarrow> nat \<Rightarrow> nat" where
  "fl_nan p q = fl_inf_bits p q + 2 ^ (p - 1)"

fun fl_encode :: "nat \<Rightarrow> nat \<Rightarrow> fclass \<Rightarrow> nat" where
  "fl_encode p q NaN = fl_nan p q"
| "fl_encode p q (Inf s) = fl_pack p q s (fl_inf_bits p q)"
| "fl_encode p q (Fin s m e) = fl_pack p q s (fl_round_mag p q m e)"

section \<open>Arithmetic on decoded values\<close>

definition signed_sig :: "bool \<Rightarrow> nat \<Rightarrow> int" where
  "signed_sig s m = (if s then - int m else int m)"

text \<open>The exact sum, as a decoded value; an exact zero is negative only for two negative operands.\<close>

fun fc_add :: "fclass \<Rightarrow> fclass \<Rightarrow> fclass" where
  "fc_add (Fin s1 m1 e1) (Fin s2 m2 e2) =
     (let e = min e1 e2;
          v = signed_sig s1 (m1 * 2 ^ nat (e1 - e)) + signed_sig s2 (m2 * 2 ^ nat (e2 - e))
      in if v = 0 then Fin (s1 \<and> s2) 0 e else Fin (v < 0) (nat \<bar>v\<bar>) e)"
| "fc_add (Inf s1) (Inf s2) = (if s1 = s2 then Inf s1 else NaN)"
| "fc_add (Inf s1) (Fin _ _ _) = Inf s1"
| "fc_add (Fin _ _ _) (Inf s2) = Inf s2"
| "fc_add NaN _ = NaN"
| "fc_add _ NaN = NaN"

fun fc_neg :: "fclass \<Rightarrow> fclass" where
  "fc_neg NaN = NaN"
| "fc_neg (Inf s) = Inf (\<not> s)"
| "fc_neg (Fin s m e) = Fin (\<not> s) m e"

fun fc_mul :: "fclass \<Rightarrow> fclass \<Rightarrow> fclass" where
  "fc_mul (Fin s1 m1 e1) (Fin s2 m2 e2) = Fin (s1 \<noteq> s2) (m1 * m2) (e1 + e2)"
| "fc_mul (Inf s1) (Inf s2) = Inf (s1 \<noteq> s2)"
| "fc_mul (Inf s1) (Fin s2 m2 e2) = (if m2 = 0 then NaN else Inf (s1 \<noteq> s2))"
| "fc_mul (Fin s1 m1 e1) (Inf s2) = (if m1 = 0 then NaN else Inf (s1 \<noteq> s2))"
| "fc_mul NaN _ = NaN"
| "fc_mul _ NaN = NaN"

text \<open>
  A quotient and a square root need not be dyadic: they are computed to more bits than the format
  holds, with the last bit set when the remainder is not zero, which rounds as the exact value.
\<close>

fun fc_div :: "nat \<Rightarrow> fclass \<Rightarrow> fclass \<Rightarrow> fclass" where
  "fc_div p (Fin s1 m1 e1) (Fin s2 m2 e2) =
     (if m2 = 0 then (if m1 = 0 then NaN else Inf (s1 \<noteq> s2))
      else let k = bit_len m2 + p + 3;
               n = m1 * 2 ^ k
           in Fin (s1 \<noteq> s2) (2 * (n div m2) + (if n mod m2 = 0 then 0 else 1))
                (e1 - e2 - int k - 1))"
| "fc_div p (Inf s1) (Fin s2 _ _) = Inf (s1 \<noteq> s2)"
| "fc_div p (Fin s1 _ _) (Inf s2) = Fin (s1 \<noteq> s2) 0 0"
| "fc_div p (Inf _) (Inf _) = NaN"
| "fc_div p NaN _ = NaN"
| "fc_div p _ NaN = NaN"

definition isqrt_step :: "nat \<Rightarrow> nat \<Rightarrow> nat" where
  "isqrt_step n r = (if (r + 1) * (r + 1) \<le> n then r + 1 else r)"

fun isqrt :: "nat \<Rightarrow> nat" where
  "isqrt n = (if n = 0 then 0 else isqrt_step n (2 * isqrt (n div 4)))"

declare isqrt.simps [simp del]

fun fc_sqrt :: "nat \<Rightarrow> fclass \<Rightarrow> fclass" where
  "fc_sqrt p NaN = NaN"
| "fc_sqrt p (Inf s) = (if s then NaN else Inf False)"
| "fc_sqrt p (Fin s m e) =
     (if m = 0 then Fin s 0 e
      else if s then NaN
      else let k = 2 * (p + 3) + (if even e then 0 else 1);
               n = m * 2 ^ k;
               r = isqrt n
           in Fin False (2 * r + (if r * r = n then 0 else 1)) ((e - int k) div 2 - 1))"

fun fc_less :: "fclass \<Rightarrow> fclass \<Rightarrow> bool" where
  "fc_less (Fin s1 m1 e1) (Fin s2 m2 e2) =
     (let e = min e1 e2
      in signed_sig s1 (m1 * 2 ^ nat (e1 - e)) < signed_sig s2 (m2 * 2 ^ nat (e2 - e)))"
| "fc_less (Inf s1) (Inf s2) = (s1 \<and> \<not> s2)"
| "fc_less (Inf s1) (Fin _ _ _) = s1"
| "fc_less (Fin _ _ _) (Inf s2) = (\<not> s2)"
| "fc_less NaN _ = False"
| "fc_less _ NaN = False"

fun fc_is_zero :: "fclass \<Rightarrow> bool" where
  "fc_is_zero (Fin s m e) = (m = 0)"
| "fc_is_zero _ = False"

fun fc_is_finite :: "fclass \<Rightarrow> bool" where
  "fc_is_finite (Fin s m e) = True"
| "fc_is_finite _ = False"

section \<open>The operations of \<open>f32\<close> and \<open>f64\<close>\<close>

definition f32_decode :: "f32 \<Rightarrow> fclass" where
  "f32_decode x = fl_decode 23 8 (unat x)"

definition f32_encode :: "fclass \<Rightarrow> f32" where
  "f32_encode c = word_of_nat (fl_encode 23 8 c)"

definition f64_decode :: "f64 \<Rightarrow> fclass" where
  "f64_decode x = fl_decode 52 11 (unat x)"

definition f64_encode :: "fclass \<Rightarrow> f64" where
  "f64_encode c = word_of_nat (fl_encode 52 11 c)"

definition f32_is_finite :: "f32 \<Rightarrow> bool" where
  "f32_is_finite x = fc_is_finite (f32_decode x)"

definition f64_is_finite :: "f64 \<Rightarrow> bool" where
  "f64_is_finite x = fc_is_finite (f64_decode x)"

definition f32_add :: "f32 \<Rightarrow> f32 \<Rightarrow> f32" where
  "f32_add x y = f32_encode (fc_add (f32_decode x) (f32_decode y))"

definition f32_mul :: "f32 \<Rightarrow> f32 \<Rightarrow> f32" where
  "f32_mul x y = f32_encode (fc_mul (f32_decode x) (f32_decode y))"

definition f32_less :: "f32 \<Rightarrow> f32 \<Rightarrow> bool" where
  "f32_less x y = fc_less (f32_decode x) (f32_decode y)"

text \<open>\<open>i as f32\<close> for an integer.\<close>

definition f32_of_int :: "int \<Rightarrow> f32" where
  "f32_of_int i = f32_encode (Fin (i < 0) (nat \<bar>i\<bar>) 0)"

text \<open>\<open>x as f64\<close>.\<close>

definition f64_of_f32 :: "f32 \<Rightarrow> f64" where
  "f64_of_f32 x = f64_encode (f32_decode x)"

definition f64_add :: "f64 \<Rightarrow> f64 \<Rightarrow> f64" where
  "f64_add x y = f64_encode (fc_add (f64_decode x) (f64_decode y))"

definition f64_sub :: "f64 \<Rightarrow> f64 \<Rightarrow> f64" where
  "f64_sub x y = f64_encode (fc_add (f64_decode x) (fc_neg (f64_decode y)))"

definition f64_mul :: "f64 \<Rightarrow> f64 \<Rightarrow> f64" where
  "f64_mul x y = f64_encode (fc_mul (f64_decode x) (f64_decode y))"

definition f64_div :: "f64 \<Rightarrow> f64 \<Rightarrow> f64" where
  "f64_div x y = f64_encode (fc_div 52 (f64_decode x) (f64_decode y))"

definition f64_sqrt :: "f64 \<Rightarrow> f64" where
  "f64_sqrt x = f64_encode (fc_sqrt 52 (f64_decode x))"

definition f64_less :: "f64 \<Rightarrow> f64 \<Rightarrow> bool" where
  "f64_less x y = fc_less (f64_decode x) (f64_decode y)"

text \<open>\<open>x == 0.0\<close>.\<close>

definition f64_eq_zero :: "f64 \<Rightarrow> bool" where
  "f64_eq_zero x = fc_is_zero (f64_decode x)"

text \<open>\<open>-x\<close> and \<open>abs\<close> act on the sign bit; \<open>n as f64\<close> for an unsigned integer rounds.\<close>

definition f64_neg :: "f64 \<Rightarrow> f64" where
  "f64_neg x = x XOR 0x8000000000000000"

definition f64_abs :: "f64 \<Rightarrow> f64" where
  "f64_abs x = x AND 0x7FFFFFFFFFFFFFFF"

definition f64_of_nat :: "nat \<Rightarrow> f64" where
  "f64_of_nat n = f64_encode (Fin False n 0)"

text \<open>\<open>f64::min\<close>: a NaN operand is ignored.\<close>

definition f64_min :: "f64 \<Rightarrow> f64 \<Rightarrow> f64" where
  "f64_min x y =
     (if f64_decode x = NaN then y else if f64_decode y = NaN then x
      else if f64_less y x then y else x)"

definition f64_infinity :: f64 where "f64_infinity = 0x7FF0000000000000"
definition f64_one :: f64 where "f64_one = 0x3FF0000000000000"
definition f64_neg_infinity :: f64 where "f64_neg_infinity = 0xFFF0000000000000"
definition f64_neg_zero :: f64 where "f64_neg_zero = 0x8000000000000000"

text \<open>\<open>sum\<close> of \<open>f64\<close> values starts at \<open>-0.0\<close>.\<close>

definition f64_sum :: "f64 list \<Rightarrow> f64" where
  "f64_sum xs = foldl f64_add f64_neg_zero xs"

section \<open>Evaluation by the simplifier\<close>

named_theorems float_eval \<open>unfold a closed floating-point term to a numeral\<close>

lemma bit_len_0 [float_eval]: "bit_len 0 = 0"
  by (simp add: bit_len.simps)

lemma bit_len_pos: "n \<noteq> 0 \<Longrightarrow> bit_len n = Suc (bit_len (n div 2))"
  by (simp add: bit_len.simps [of n])

lemma bit_len_numeral [float_eval]:
  "bit_len 1 = 1" "bit_len (Suc 0) = 1"
  "bit_len (numeral num.One) = 1"
  "bit_len (numeral (num.Bit0 k)) = Suc (bit_len (numeral k))"
  "bit_len (numeral (num.Bit1 k)) = Suc (bit_len (numeral k))"
  by (simp_all add: bit_len.simps [of "Suc 0"] bit_len_0 bit_len_pos [of "numeral (num.Bit0 k)"]
      bit_len_pos [of "numeral (num.Bit1 k)"])

lemma isqrt_0 [float_eval]: "isqrt 0 = 0"
  by (simp add: isqrt.simps)

lemma isqrt_pos [float_eval]: "n \<noteq> 0 \<Longrightarrow> isqrt n = isqrt_step n (2 * isqrt (n div 4))"
  by (simp add: isqrt.simps [of n])

lemmas float_defs [float_eval] =
  f32_decode_def f32_encode_def f64_decode_def f64_encode_def f32_is_finite_def f64_is_finite_def
  f32_add_def f32_mul_def f32_less_def f32_of_int_def f64_of_f32_def f64_add_def f64_sub_def
  f64_mul_def f64_div_def f64_sqrt_def f64_less_def f64_eq_zero_def f64_min_def f64_infinity_def
  f64_one_def f64_neg_zero_def fl_decode_def fl_decode_mag_def fl_emin_def fl_inf_bits_def
  fl_sign_bit_def isqrt_step_def shift_right_rne_def fl_round_mag_def fl_pack_def fl_nan_def
  signed_sig_def Let_def

section \<open>Integer helpers meet their specification\<close>

lemma bit_len_upper: "n < 2 ^ bit_len n"
proof (induction n rule: bit_len.induct)
  case (1 n)
  show ?case
  proof (cases "n = 0")
    case False
    with 1 have "n div 2 < 2 ^ bit_len (n div 2)" by simp
    with False show ?thesis by (simp add: bit_len_pos) 
  qed (simp add: bit_len_0)
qed

lemma bit_len_lower: "n \<noteq> 0 \<Longrightarrow> 2 ^ (bit_len n - 1) \<le> n"
proof (induction n rule: bit_len.induct)
  case (1 n)
  show ?case
  proof (cases "n div 2 = 0")
    case True
    with "1.prems" show ?thesis by (simp add: bit_len_pos bit_len_0)
  next
    case False
    with 1 have ih: "2 ^ (bit_len (n div 2) - 1) \<le> n div 2" by simp
    have "bit_len (n div 2) = Suc (bit_len (n div 2) - 1)" using False by (simp add: bit_len_pos)
    then have "2 ^ bit_len (n div 2) = 2 * (2::nat) ^ (bit_len (n div 2) - 1)"
      by (metis power_Suc)
    with ih have "2 ^ bit_len (n div 2) \<le> n" by linarith
    with "1.prems" show ?thesis by (simp add: bit_len_pos)
  qed
qed

lemma bit_len_unique: "2 ^ k \<le> n \<Longrightarrow> n < 2 ^ Suc k \<Longrightarrow> bit_len n = Suc k"
proof -
  assume le: "2 ^ k \<le> n" and lt: "n < 2 ^ Suc k"
  from le have n: "n \<noteq> 0" by (metis not_le zero_less_numeral zero_less_power)
  from le bit_len_upper [of n] have "(2::nat) ^ k < 2 ^ bit_len n" by (rule le_less_trans)
  then have "k < bit_len n" by (simp add: power_strict_increasing_iff)
  moreover from bit_len_lower [OF n] lt have "(2::nat) ^ (bit_len n - 1) < 2 ^ Suc k"
    by (rule le_less_trans)
  then have "bit_len n - 1 < Suc k" by (simp only: power_strict_increasing_iff)
  ultimately show ?thesis by simp
qed

lemma isqrt_spec: "isqrt n * isqrt n \<le> n \<and> n < (isqrt n + 1) * (isqrt n + 1)"
proof (induction n rule: isqrt.induct)
  case (1 n)
  show ?case
  proof (cases "n = 0")
    case False
    define s where "s = isqrt (n div 4)"
    from 1 False have lo: "s * s \<le> n div 4" and hi: "n div 4 < (s + 1) * (s + 1)"
      by (simp_all add: s_def)
    from lo have "(2 * s) * (2 * s) \<le> n" by simp
    moreover from hi have "n < (2 * s + 2) * (2 * s + 2)" by simp
    ultimately show ?thesis using False
      by (simp add: isqrt_pos isqrt_step_def flip: s_def)
  qed (simp add: isqrt_0)
qed

lemma isqrt_square: "isqrt (r * r) = r"
proof (rule antisym)
  from isqrt_spec [of "r * r"] show "isqrt (r * r) \<le> r"
    by (metis power2_eq_square power2_nat_le_imp_le le_square power2_nat_le_eq_le)
  from isqrt_spec [of "r * r"] have "r * r < (isqrt (r * r) + 1) * (isqrt (r * r) + 1)" by simp
  then show "r \<le> isqrt (r * r)" by (metis Suc_eq_plus1 less_Suc_eq_le mult_le_mono not_less)
qed

section \<open>Values and order\<close>

fun fc_value :: "fclass \<Rightarrow> real" where
  "fc_value (Fin s m e) = (if s then - 1 else 1) * real m * 2 powi e"
| "fc_value _ = 0"

lemma fc_add_comm: "fc_add a b = fc_add b a"
  by (cases a; cases b) (auto simp: Let_def min.commute add.commute conj_commute)

lemma fc_mul_comm: "fc_mul a b = fc_mul b a"
  by (cases a; cases b) (auto simp: mult.commute add.commute)

lemma f64_add_comm: "f64_add a b = f64_add b a"
  by (simp add: f64_add_def fc_add_comm)

lemma f64_mul_comm: "f64_mul a b = f64_mul b a"
  by (simp add: f64_mul_def fc_mul_comm)

lemma fl_mag_finite:
  assumes "n < fl_inf_bits p q"
  shows "\<exists>m e. fl_decode_mag p q s n = Fin s m e"
proof -
  from assms have "n div 2 ^ p < 2 ^ q - 1"
    unfolding fl_inf_bits_def by (simp add: less_mult_imp_div_less)
  then show ?thesis by (auto simp: fl_decode_mag_def Let_def)
qed

text \<open>The next pattern of a finite non-negative number is a larger number.\<close>

lemma fl_mag_step:
  assumes "Suc n < fl_inf_bits p q"
  shows "fc_value (fl_decode_mag p q False n) < fc_value (fl_decode_mag p q False (Suc n))"
proof -
  define e f where "e = n div 2 ^ p" and "f = n mod 2 ^ p"
  have n: "n = e * 2 ^ p + f" unfolding e_def f_def by (rule div_mult_mod_eq [symmetric])
  have f: "f < 2 ^ p" by (simp add: f_def)
  from assms have lim: "Suc n div 2 ^ p < 2 ^ q - 1"
    unfolding fl_inf_bits_def by (simp add: less_mult_imp_div_less)
  then have lim': "e < 2 ^ q - 1"
    unfolding e_def using div_le_mono [of n "Suc n" "2 ^ p"] by linarith
  show ?thesis
  proof (cases "Suc f < 2 ^ p")
    case True
    then have "Suc n div 2 ^ p = e" and "Suc n mod 2 ^ p = Suc f"
      using n by (simp_all flip: add_Suc_right)
    with lim' show ?thesis
      by (simp add: fl_decode_mag_def Let_def flip: e_def f_def)
  next
    case False
    with f have f': "Suc f = 2 ^ p" by simp
    then have "Suc n = Suc e * 2 ^ p" using n by simp
    then have d: "Suc n div 2 ^ p = Suc e" and m: "Suc n mod 2 ^ p = 0" by simp_all
    have rf: "real f = 2 ^ p - 1" using f' by (metis Suc_eq_plus1 add_diff_cancel_right'
        of_nat_1 of_nat_add of_nat_numeral of_nat_power)
    have pw: "(2::real) powi (fl_emin p q + int e) = 2 * 2 powi (fl_emin p q + int e - 1)"
      by (metis add.commute diff_add_cancel mult.commute power_int_add_1 zero_neq_numeral)
    have pos: "(0::real) < 2 powi (fl_emin p q + int e - 1)" by simp
    have "e = 0 \<or> 0 < e" by auto
    then show ?thesis
    proof
      assume "e = 0"
      with lim' d m lim rf show ?thesis
        by (simp add: fl_decode_mag_def Let_def flip: e_def f_def)
    next
      assume "0 < e"
      have "(2 ^ p + real f) * 2 powi (fl_emin p q + int e - 1)
          < (2 * 2 ^ p) * 2 powi (fl_emin p q + int e - 1)"
        using pos rf by (intro mult_strict_right_mono) simp_all
      also have "\<dots> = 2 ^ p * 2 powi (fl_emin p q + int e)" by (simp add: pw)
      finally show ?thesis using \<open>0 < e\<close> lim lim' d m
        by (simp add: fl_decode_mag_def Let_def flip: e_def f_def)
    qed
  qed
qed

lemma fl_mag_strict_mono:
  assumes "a < b" and "b < fl_inf_bits p q"
  shows "fc_value (fl_decode_mag p q False a) < fc_value (fl_decode_mag p q False b)"
  using assms
proof (induction b)
  case (Suc b)
  have step: "fc_value (fl_decode_mag p q False b) < fc_value (fl_decode_mag p q False (Suc b))"
    using Suc.prems(2) by (rule fl_mag_step)
  show ?case
  proof (cases "a = b")
    case False
    with Suc have "fc_value (fl_decode_mag p q False a) < fc_value (fl_decode_mag p q False b)"
      by simp
    with step show ?thesis by simp
  qed (use step in simp)
qed simp

lemma fl_mag_nonneg: "0 \<le> fc_value (fl_decode_mag p q False n)"
  by (simp add: fl_decode_mag_def Let_def algebra_simps)

lemma fl_mag_sign: "fc_value (fl_decode_mag p q True n) = - fc_value (fl_decode_mag p q False n)"
  by (simp add: fl_decode_mag_def Let_def algebra_simps)

end
