(* ===== verification/Block_Ebcp.thy ===== *)
theory Block_Ebcp
  imports Block_Fields Ieee_Float
begin

unbundle bit_operations_syntax

text \<open>
  EBCP branch encodings (\<open>src/crates/lexongraph-block/src/lib.rs\<close>): the descriptor stored under
  \<open>ext[0]\<close> and its parser and writer, the bit lengths of packed payloads and their padding check,
  the unpacking of quantised codes, and the reconstruction of the logical \<open>f32\<close> vector of a branch
  entry. Index expressions, shifts and subtractions that would panic are panics of the model; the
  lemmas show that none is reached for entries that passed validation.
\<close>

section \<open>Little-endian numbers and chunks\<close>

fun le_nat :: "byte list \<Rightarrow> nat" where
  "le_nat [] = 0"
| "le_nat (b # bs) = unat b + 256 * le_nat bs"

fun le_bytes :: "nat \<Rightarrow> nat \<Rightarrow> byte list" where
  "le_bytes 0 n = []"
| "le_bytes (Suc k) n = word_of_nat (n mod 256) # le_bytes k (n div 256)"

definition f32_from_le :: "byte list \<Rightarrow> f32" where
  "f32_from_le bs = word_of_nat (le_nat bs)"

definition f32_to_le :: "f32 \<Rightarrow> byte list" where
  "f32_to_le x = le_bytes 4 (unat x)"

text \<open>\<open>as_chunks::<N>().0\<close> and \<open>chunks_exact(n)\<close>: the complete chunks.\<close>

fun chunks_exact :: "nat \<Rightarrow> 'a list \<Rightarrow> 'a list list" where
  "chunks_exact n xs =
     (if n = 0 \<or> length xs < n then [] else take n xs # chunks_exact n (drop n xs))"

declare chunks_exact.simps [simp del]

definition encode_f32_values :: "f32 list \<Rightarrow> byte list" where
  "encode_f32_values xs = concat (map f32_to_le xs)"

text \<open>The loop shared by every decoder of packed \<open>f32\<close> values: stop at a value that is not finite.\<close>

definition finite_f32_chunks :: "block_error \<Rightarrow> byte list \<Rightarrow> f32 list block_result" where
  "finite_f32_chunks err bs =
     traverse (\<lambda>c. if f32_is_finite (f32_from_le c) then Ok (f32_from_le c) else Err err)
       (chunks_exact 4 bs)"

section \<open>Encodings\<close>

definition is_ebcp_encoding :: "string \<Rightarrow> bool" where
  "is_ebcp_encoding enc =
     (enc \<in> {''pca-rot-f32le'', ''pca-rot-delta-f32le'', ''pca-rot-delta-uq'',
             ''pca-rot-delta-vbq'', ''ambient-delta-uq''})"

definition validate_embedding_spec :: "embedding_spec \<Rightarrow> unit block_result" where
  "validate_embedding_spec spec =
     (if encoding spec \<in> {''f32le'', ''f16le'', ''i8'', ''pq4''} \<or> is_ebcp_encoding (encoding spec)
      then Ok ()
      else Err (NonConforming ''embedding_spec.encoding is not a supported version-1 encoding''))"

definition checked_embedding_byte_len :: "u64 \<Rightarrow> nat \<Rightarrow> string \<Rightarrow> nat block_result" where
  "checked_embedding_byte_len n width overflow_context =
     and_then (ok_or (checked_mul (unat n) width) (InvalidEntryShape overflow_context))
       (\<lambda>expected. if expected \<le> usize_max then Ok expected
                   else Err (InvalidEntryShape overflow_context))"

definition decode_f32le_embedding :: "byte list \<Rightarrow> u64 \<Rightarrow> f32 list block_result" where
  "decode_f32le_embedding payload n =
     and_then (checked_embedding_byte_len n 4 ''f32le branch embeddings'')
       (\<lambda>expected.
          if length payload \<noteq> expected
          then Err (InvalidEntryShape ''f32le branch payload length does not match embedding dims'')
          else finite_f32_chunks
                 (InvalidEntryShape ''f32le branch payload must contain only finite values'')
                 payload)"

definition decode_f16le_embedding :: "deps \<Rightarrow> byte list \<Rightarrow> u64 \<Rightarrow> f32 list block_result" where
  "decode_f16le_embedding d payload n =
     and_then (checked_embedding_byte_len n 2 ''f16le branch embeddings'')
       (\<lambda>expected.
          if length payload \<noteq> expected
          then Err (InvalidEntryShape ''f16le branch payload length does not match embedding dims'')
          else traverse
                 (\<lambda>c. let x = f16_to_f32 d (c ! 0) (c ! 1)
                      in if f32_is_finite x then Ok x
                         else Err (InvalidEntryShape
                                ''f16le branch payload must contain only finite values''))
                 (chunks_exact 2 payload))"

definition decode_i8_embedding :: "byte list \<Rightarrow> u64 \<Rightarrow> f32 list block_result" where
  "decode_i8_embedding payload n =
     and_then (checked_embedding_byte_len n 1 ''i8 branch embeddings'')
       (\<lambda>expected.
          if length payload \<noteq> expected
          then Err (InvalidEntryShape ''i8 branch payload length does not match embedding dims'')
          else Ok (map (\<lambda>b. f32_of_int (sint b)) payload))"

definition encode_logical_comparison_embedding ::
    "f32 list \<Rightarrow> embedding_spec \<Rightarrow> byte list block_result" where
  "encode_logical_comparison_embedding values comparison_spec =
     (if encoding comparison_spec = ''f32le'' then Ok (encode_f32_values values)
      else Err (UnsupportedValue
             ''root comparison target encoding is not supported by the default search policies''))"

section \<open>Parsing the descriptor\<close>

definition parse_byte_string :: "cbor \<Rightarrow> byte list block_result" where
  "parse_byte_string v =
     (case v of Bytes bs \<Rightarrow> Ok bs
      | _ \<Rightarrow> Err (InvalidEntryShape ''expected a byte string value''))"

definition parse_f32_vector_bytes :: "cbor \<Rightarrow> nat \<Rightarrow> f32 list block_result" where
  "parse_f32_vector_bytes v expected_len =
     and_then (parse_byte_string v)
       (\<lambda>bs. and_then
          (ok_or (checked_mul expected_len 4) (NonConforming ''EBCP byte length overflowed''))
          (\<lambda>expected_bytes.
             if length bs \<noteq> expected_bytes
             then Err (NonConforming
                    ''EBCP float payload length does not match the declared dimensionality'')
             else finite_f32_chunks
                    (NonConforming ''EBCP float payload must contain only finite f32 values'') bs))"

definition parse_ebcp_rotation :: "cbor \<Rightarrow> nat \<Rightarrow> ebcp_rotation block_result" where
  "parse_ebcp_rotation v n =
     and_then (integer_keyed_map v ''ext[0].rotation'') (\<lambda>fs.
     and_then (required_text_field fs 0 ''ext[0].rotation'') (\<lambda>(fmt, fs).
       if fmt \<noteq> ''f32le-row-major''
       then Err (NonConforming ''EBCP rotation.matrix_format must be f32le-row-major'')
       else
     and_then
       (ok_or (Option.bind (checked_mul n n) (\<lambda>count. checked_mul count 4))
          (NonConforming ''EBCP rotation matrix length overflowed'')) (\<lambda>expected_len.
     and_then (required_field fs 1 ''ext[0].rotation'') (\<lambda>(mv, fs).
     and_then (parse_f32_vector_bytes mv (expected_len div 4)) (\<lambda>m.
       Ok \<lparr>matrix_format = fmt, matrix = m\<rparr>)))))"

definition bad_scale :: "f32 \<Rightarrow> bool" where
  "bad_scale scale = (\<not> f32_is_finite scale \<or> f32_less scale 0)"

definition scale_error :: block_error where
  "scale_error = NonConforming ''EBCP quantization scale factors must be finite and nonnegative''"

definition parse_uniform_quantization ::
    "field_map \<Rightarrow> u64 \<Rightarrow> f32 list \<Rightarrow> ebcp_quantization block_result" where
  "parse_uniform_quantization fs mode scale_factors =
     (if mode \<noteq> 1
      then Err (NonConforming ''uniform quantized EBCP encodings require quantization.mode = 1'')
      else
      and_then (required_u64_field fs 1 ''ext[0].quantization'') (\<lambda>(bw, fs).
        if 255 < unat bw then Err (NonConforming ''uniform_bit_width must fit in u8'')
        else if bw = 0 then Err (NonConforming ''uniform_bit_width must be at least 1'')
        else if 31 < unat bw then Err (NonConforming ''uniform_bit_width must be at most 31'')
        else if list_ex (\<lambda>(k, _). k = 2) fs
        then Err (NonConforming ''pca-rot-delta-uq must not declare per-dimension bit_widths'')
        else Ok (Uniform (ucast bw) scale_factors)))"

definition parse_variable_quantization ::
    "field_map \<Rightarrow> u64 \<Rightarrow> nat \<Rightarrow> f32 list \<Rightarrow> ebcp_quantization block_result" where
  "parse_variable_quantization fs mode n scale_factors =
     (if mode \<noteq> 2
      then Err (NonConforming ''pca-rot-delta-vbq requires quantization.mode = 2'')
      else if list_ex (\<lambda>(k, _). k = 1) fs
      then Err (NonConforming ''pca-rot-delta-vbq must not declare uniform_bit_width'')
      else
      and_then (required_field fs 2 ''ext[0].quantization'') (\<lambda>(bv, fs).
      and_then (parse_byte_string bv) (\<lambda>bit_widths.
        if length bit_widths \<noteq> n \<or> 0 \<in> set bit_widths
        then Err (NonConforming
               ''EBCP variable bit widths must contain one nonzero byte per dimension'')
        else if list_ex (\<lambda>bw. 31 < unat bw) bit_widths
        then Err (NonConforming ''EBCP variable bit widths must be at most 31'')
        else Ok (Variable bit_widths scale_factors))))"

definition parse_ebcp_quantization ::
    "cbor \<Rightarrow> embedding_spec \<Rightarrow> nat \<Rightarrow> ebcp_quantization block_result" where
  "parse_ebcp_quantization v spec n =
     and_then (integer_keyed_map v ''ext[0].quantization'') (\<lambda>fs.
     and_then (required_u64_field fs 0 ''ext[0].quantization'') (\<lambda>(mode, fs).
     and_then (required_field fs 3 ''ext[0].quantization'') (\<lambda>(sv, fs).
     and_then (parse_f32_vector_bytes sv n) (\<lambda>scale_factors.
       if list_ex bad_scale scale_factors then Err scale_error
       else if encoding spec \<in> {''pca-rot-delta-uq'', ''ambient-delta-uq''}
       then parse_uniform_quantization fs mode scale_factors
       else if encoding spec = ''pca-rot-delta-vbq''
       then parse_variable_quantization fs mode n scale_factors
       else Err (NonConforming
              ''EBCP quantization metadata is only valid on quantized encodings'')))))"

text \<open>Which parts each encoding requires and forbids.\<close>

definition ebcp_parts_error ::
    "string \<Rightarrow> f32 list option \<Rightarrow> ebcp_rotation option \<Rightarrow> ebcp_quantization option \<Rightarrow>
     block_error option" where
  "ebcp_parts_error enc centroid rot quant =
     (if enc = ''pca-rot-f32le'' \<and> (rot = None \<or> centroid \<noteq> None \<or> quant \<noteq> None)
      then Some (NonConforming ''pca-rot-f32le requires rotation and must not declare base_centroid or quantization metadata'')
      else if enc = ''pca-rot-delta-f32le'' \<and> (rot = None \<or> centroid = None \<or> quant \<noteq> None)
      then Some (NonConforming ''pca-rot-delta-f32le requires rotation, base_centroid, and forbids quantization metadata'')
      else if enc \<in> {''pca-rot-delta-uq'', ''pca-rot-delta-vbq''} \<and>
              (rot = None \<or> centroid = None \<or> quant = None)
      then Some (NonConforming ''rotated quantized EBCP encodings require rotation, base_centroid, and quantization metadata'')
      else if enc = ''ambient-delta-uq'' \<and> (rot \<noteq> None \<or> centroid = None \<or> quant = None)
      then Some (NonConforming ''ambient-delta-uq requires base_centroid and quantization metadata and forbids rotation metadata'')
      else None)"

definition parse_ebcp_descriptor_fields ::
    "embedding_spec \<Rightarrow> field_map \<Rightarrow> ebcp_descriptor block_result" where
  "parse_ebcp_descriptor_fields spec fs =
     and_then (required_u64_field fs 0 ''ext[0]'') (\<lambda>(version, fs).
       if version \<noteq> 1 then Err (NonConforming ''EBCP descriptor version is unsupported'')
       else
     and_then (required_text_field fs 1 ''ext[0]'') (\<lambda>(logical_encoding, fs).
       if logical_encoding \<noteq> ''f32le''
       then Err (NonConforming ''EBCP logical_encoding must be f32le in this revision'')
       else
     and_then (required_u64_field fs 2 ''ext[0]'') (\<lambda>(original_dims, fs).
       if original_dims \<noteq> dims spec
       then Err (NonConforming ''EBCP original_dims must equal embedding_spec.dims'')
       else
     and_then (ok_or (usize_of_u64 original_dims)
                 (NonConforming ''EBCP dimensionality does not fit in usize'')) (\<lambda>n.
     and_then (transpose_map (\<lambda>v. parse_f32_vector_bytes v n) (map_of fs 3)) (\<lambda>centroid.
     and_then (transpose_map (\<lambda>v. parse_ebcp_rotation v n) (map_of (remove_field fs 3) 4)) (\<lambda>rot.
     and_then (transpose_map (\<lambda>v. parse_ebcp_quantization v spec n)
                 (map_of (remove_field (remove_field fs 3) 4) 5)) (\<lambda>quant.
       case ebcp_parts_error (encoding spec) centroid rot quant of
         Some e \<Rightarrow> Err e
       | None \<Rightarrow>
           Ok \<lparr>ebcp_version = version,
               logical_embedding_spec = \<lparr>dims = original_dims, encoding = logical_encoding\<rparr>,
               base_centroid = centroid, rotation = rot, quantization = quant\<rparr>)))))))"

definition parse_branch_ebcp_descriptor ::
    "embedding_spec \<Rightarrow> extension_map option \<Rightarrow> ebcp_descriptor option block_result" where
  "parse_branch_ebcp_descriptor spec ext =
     (if \<not> is_ebcp_encoding (encoding spec) then Ok None
      else
      and_then (ok_or ext
         (NonConforming ''EBCP branch encodings require ext[0] descriptor metadata'')) (\<lambda>ext.
      and_then (integer_keyed_map (Map ext) ''ext'') (\<lambda>ext_fields.
      and_then (required_field ext_fields 0 ''ext'') (\<lambda>(dv, _).
      and_then (integer_keyed_map dv ''ext[0]'') (\<lambda>fs.
        map_ok Some (parse_ebcp_descriptor_fields spec fs))))))"

section \<open>Writing the descriptor\<close>

definition ebcp_rotation_to_entries :: "ebcp_rotation \<Rightarrow> (cbor \<times> cbor) list" where
  "ebcp_rotation_to_entries r =
     [(int_value 0, Text (matrix_format r)),
      (int_value 1, Bytes (encode_f32_values (matrix r)))]"

fun ebcp_quantization_to_entries :: "ebcp_quantization \<Rightarrow> (cbor \<times> cbor) list" where
  "ebcp_quantization_to_entries (Uniform bit_width scale_factors) =
     [(int_value 0, int_value 1),
      (int_value 1, int_value (ucast bit_width)),
      (int_value 3, Bytes (encode_f32_values scale_factors))]"
| "ebcp_quantization_to_entries (Variable bit_widths scale_factors) =
     [(int_value 0, int_value 2),
      (int_value 2, Bytes bit_widths),
      (int_value 3, Bytes (encode_f32_values scale_factors))]"

definition ebcp_descriptor_to_entries :: "ebcp_descriptor \<Rightarrow> (cbor \<times> cbor) list" where
  "ebcp_descriptor_to_entries ds =
     [(int_value 0, int_value (ebcp_version ds)),
      (int_value 1, Text (encoding (logical_embedding_spec ds))),
      (int_value 2, int_value (dims (logical_embedding_spec ds)))]
     @ (case rotation ds of None \<Rightarrow> []
        | Some r \<Rightarrow> [(int_value 4, Map (ebcp_rotation_to_entries r))])
     @ (case base_centroid ds of None \<Rightarrow> []
        | Some c \<Rightarrow> [(int_value 3, Bytes (encode_f32_values c))])
     @ (case quantization ds of None \<Rightarrow> []
        | Some q \<Rightarrow> [(int_value 5, Map (ebcp_quantization_to_entries q))])"

definition ebcp_extension_map :: "ebcp_descriptor \<Rightarrow> extension_map" where
  "ebcp_extension_map ds = [(int_value 0, Map (ebcp_descriptor_to_entries ds))]"

section \<open>Payload lengths and padding\<close>

definition sum_widths :: "string \<Rightarrow> (string \<Rightarrow> block_error) \<Rightarrow> u8 list \<Rightarrow> nat block_result" where
  "sum_widths message mk widths =
     foldl (\<lambda>r w. and_then r (\<lambda>s. ok_or (checked_add s (unat w)) (mk message))) (Ok 0) widths"

definition ebcp_payload_bit_len :: "embedding_spec \<Rightarrow> ebcp_descriptor \<Rightarrow> nat block_result" where
  "ebcp_payload_bit_len spec ds =
     and_then (ok_or (usize_of_u64 (dims spec))
                 (NonConforming ''EBCP dimensionality does not fit in usize'')) (\<lambda>n.
       if encoding spec \<in> {''pca-rot-f32le'', ''pca-rot-delta-f32le''}
       then ok_or (Option.bind (checked_mul n 4) (\<lambda>bytes. checked_mul bytes 8))
              (NonConforming ''EBCP payload length overflowed'')
       else if encoding spec \<in> {''pca-rot-delta-uq'', ''ambient-delta-uq''}
       then (case quantization ds of
               None \<Rightarrow> Err (NonConforming
                        ''quantized EBCP encodings require quantization metadata'')
             | Some (Uniform bit_width _) \<Rightarrow>
                 ok_or (checked_mul n (unat bit_width))
                   (NonConforming ''EBCP payload bit length overflowed'')
             | Some (Variable _ _) \<Rightarrow> Err (NonConforming
                        ''EBCP quantization mode does not match the declared encoding''))
       else if encoding spec = ''pca-rot-delta-vbq''
       then (case quantization ds of
               None \<Rightarrow> Err (NonConforming
                        ''quantized EBCP encodings require quantization metadata'')
             | Some (Variable bit_widths _) \<Rightarrow>
                 sum_widths ''EBCP payload bit length overflowed'' NonConforming bit_widths
             | Some (Uniform _ _) \<Rightarrow> Err (NonConforming
                        ''EBCP quantization mode does not match the declared encoding''))
       else Err (NonConforming ''EBCP payload validation requires an EBCP embedding encoding''))"

definition packed_bit_len_to_byte_len :: "nat \<Rightarrow> nat block_result" where
  "packed_bit_len_to_byte_len bit_len_total =
     ok_or (map_option (\<lambda>v. v div 8) (checked_add bit_len_total 7))
       (NonConforming ''EBCP payload length overflowed'')"

definition validate_zero_ebcp_padding_bits :: "byte list \<Rightarrow> nat \<Rightarrow> unit block_result" where
  "validate_zero_ebcp_padding_bits payload payload_bit_len =
     (let used = payload_bit_len mod 8
      in if used = 0 \<or> payload = [] then Ok ()
         else let used_mask = word_of_nat (2 ^ used - 1) :: u8
              in if last payload AND NOT used_mask \<noteq> 0
                 then Err (NonConforming ''EBCP quantized payload padding bits must be zero'')
                 else Ok ())"

fun validate_payloads :: "nat \<Rightarrow> nat \<Rightarrow> branch_entry list \<Rightarrow> unit block_result" where
  "validate_payloads expected_len expected_bit_len [] = Ok ()"
| "validate_payloads expected_len expected_bit_len (e # es) =
     (if length (be_embedding e) \<noteq> expected_len
      then Err (NonConforming ''branch payload bytes are inconsistent with the selected EBCP encoding and metadata'')
      else and_then (validate_zero_ebcp_padding_bits (be_embedding e) expected_bit_len)
             (\<lambda>_. validate_payloads expected_len expected_bit_len es))"

definition validate_branch_ebcp_payload_lengths ::
    "branch_entry list \<Rightarrow> embedding_spec \<Rightarrow> ebcp_descriptor \<Rightarrow> unit block_result" where
  "validate_branch_ebcp_payload_lengths es spec ds =
     and_then (ebcp_payload_bit_len spec ds) (\<lambda>expected_bit_len.
     and_then (packed_bit_len_to_byte_len expected_bit_len) (\<lambda>expected_len.
       validate_payloads expected_len expected_bit_len es))"

section \<open>Unpacking quantised codes\<close>

text \<open>
  The loop over \<open>bit_index\<close>: reading \<open>payload[byte_index]\<close> past the end and shifting a \<open>u32\<close> by 32
  or more places panic.
\<close>

fun extract_bits_loop :: "byte list \<Rightarrow> nat \<Rightarrow> nat \<Rightarrow> nat \<Rightarrow> u32 \<Rightarrow> u32 block_result" where
  "extract_bits_loop payload start_bit bit_index 0 acc = Ok acc"
| "extract_bits_loop payload start_bit bit_index (Suc n) acc =
     (let absolute_bit = start_bit + bit_index;
          byte_index = absolute_bit div 8
      in if byte_index < length payload \<and> bit_index < 32
         then extract_bits_loop payload start_bit (Suc bit_index) n
                (acc OR push_bit bit_index
                   (ucast (drop_bit (absolute_bit mod 8) (payload ! byte_index) AND 1)))
         else Panic)"

definition extract_lsb_first_bits :: "byte list \<Rightarrow> nat \<Rightarrow> u8 \<Rightarrow> u32 block_result" where
  "extract_lsb_first_bits payload start_bit bit_width =
     extract_bits_loop payload start_bit 0 (unat bit_width) 0"

text \<open>
  \<open>i32::try_from(code)? - (1_i32 << (bit_width - 1))\<close>: the width 0 underflows the \<open>u8\<close>
  subtraction, a width above 32 overflows the shift, and a difference outside \<open>i32\<close> overflows.
\<close>

definition centered_code :: "u32 \<Rightarrow> u8 \<Rightarrow> int block_result" where
  "centered_code code bit_width =
     (if 2147483647 < unat code
      then Err (InvalidEntryShape ''EBCP quantized code does not fit in i32'')
      else if bit_width = 0 \<or> 32 < unat bit_width then Panic
      else let half = (if unat bit_width = 32 then - 2147483648
                       else 2 ^ (unat bit_width - 1) :: int);
               c = int (unat code) - half
           in if - 2147483648 \<le> c \<and> c \<le> 2147483647 then Ok c else Panic)"

definition unpack_one :: "byte list \<Rightarrow> nat \<Rightarrow> u8 \<Rightarrow> f32 \<Rightarrow> f32 block_result" where
  "unpack_one payload bit_offset bit_width scale =
     (if bad_scale scale then Err scale_error
      else and_then (extract_lsb_first_bits payload bit_offset bit_width) (\<lambda>code.
           map_ok (\<lambda>c. f32_mul (f32_of_int c) scale) (centered_code code bit_width)))"

fun unpack_uniform_loop :: "byte list \<Rightarrow> u8 \<Rightarrow> nat \<Rightarrow> f32 list \<Rightarrow> f32 list block_result" where
  "unpack_uniform_loop payload bit_width bit_offset [] = Ok []"
| "unpack_uniform_loop payload bit_width bit_offset (scale # scales) =
     and_then (unpack_one payload bit_offset bit_width scale) (\<lambda>v.
       map_ok (Cons v)
         (unpack_uniform_loop payload bit_width (bit_offset + unat bit_width) scales))"

definition quantized_byte_len :: "nat \<Rightarrow> nat block_result" where
  "quantized_byte_len total_bits =
     ok_or (map_option (\<lambda>v. v div 8) (checked_add total_bits 7))
       (InvalidEntryShape ''EBCP quantized payload byte length overflowed'')"

definition unpack_quantized_payload_uniform ::
    "byte list \<Rightarrow> u8 \<Rightarrow> f32 list \<Rightarrow> f32 list block_result" where
  "unpack_quantized_payload_uniform payload bit_width scale_factors =
     and_then (ok_or (checked_mul (length scale_factors) (unat bit_width))
                 (InvalidEntryShape ''EBCP quantized payload bit length overflowed''))
       (\<lambda>total_bits.
     and_then (quantized_byte_len total_bits) (\<lambda>expected_len.
       if length payload \<noteq> expected_len
       then Err (InvalidEntryShape ''EBCP quantized payload length does not match metadata'')
       else unpack_uniform_loop payload bit_width 0 scale_factors))"

fun unpack_variable_loop :: "byte list \<Rightarrow> nat \<Rightarrow> (u8 \<times> f32) list \<Rightarrow> f32 list block_result" where
  "unpack_variable_loop payload bit_offset [] = Ok []"
| "unpack_variable_loop payload bit_offset ((bit_width, scale) # rest) =
     (if bit_width = 0 then Err (NonConforming ''EBCP quantization bit widths must be nonzero'')
      else and_then (unpack_one payload bit_offset bit_width scale) (\<lambda>v.
             map_ok (Cons v)
               (unpack_variable_loop payload (bit_offset + unat bit_width) rest)))"

definition unpack_quantized_payload ::
    "byte list \<Rightarrow> u8 list \<Rightarrow> f32 list \<Rightarrow> f32 list block_result" where
  "unpack_quantized_payload payload bit_widths scale_factors =
     (if length bit_widths \<noteq> length scale_factors
      then Err (NonConforming ''EBCP quantization metadata dimension mismatch'')
      else
      and_then (sum_widths ''EBCP quantized payload bit length overflowed'' InvalidEntryShape
                  bit_widths) (\<lambda>total_bits.
      and_then (quantized_byte_len total_bits) (\<lambda>expected_len.
        if length payload \<noteq> expected_len
        then Err (InvalidEntryShape ''EBCP quantized payload length does not match metadata'')
        else unpack_variable_loop payload 0 (zip bit_widths scale_factors))))"

section \<open>Reconstruction\<close>

definition decode_ebcp_payload_components ::
    "byte list \<Rightarrow> embedding_spec \<Rightarrow> ebcp_descriptor \<Rightarrow> f32 list block_result" where
  "decode_ebcp_payload_components payload stored_spec ds =
     and_then (ok_or (usize_of_u64 (dims (logical_embedding_spec ds)))
                 (InvalidEntryShape ''EBCP logical dims do not fit in usize'')) (\<lambda>n.
       if encoding stored_spec \<in> {''pca-rot-f32le'', ''pca-rot-delta-f32le''}
       then and_then (ok_or (checked_mul n 4)
                        (InvalidEntryShape ''EBCP float payload length overflowed''))
              (\<lambda>expected.
                 if length payload \<noteq> expected
                 then Err (InvalidEntryShape
                        ''EBCP float payload length does not match logical dims'')
                 else finite_f32_chunks
                        (InvalidEntryShape ''EBCP float payload must contain only finite values'')
                        payload)
       else if encoding stored_spec \<in> {''pca-rot-delta-uq'', ''ambient-delta-uq''}
       then (case quantization ds of
               None \<Rightarrow> Err (NonConforming
                        ''quantized EBCP payloads require uniform quantization metadata'')
             | Some (Uniform bit_width scale_factors) \<Rightarrow>
                 unpack_quantized_payload_uniform payload bit_width scale_factors
             | Some (Variable _ _) \<Rightarrow> Err (NonConforming
                        ''EBCP quantization mode does not match uniform quantized encoding''))
       else if encoding stored_spec = ''pca-rot-delta-vbq''
       then (case quantization ds of
               None \<Rightarrow> Err (NonConforming
                        ''quantized EBCP payloads require per-dimension quantization metadata'')
             | Some (Variable bit_widths scale_factors) \<Rightarrow>
                 unpack_quantized_payload payload bit_widths scale_factors
             | Some (Uniform _ _) \<Rightarrow> Err (NonConforming
                        ''EBCP quantization mode does not match pca-rot-delta-vbq''))
       else Err (UnsupportedValue
              ''EBCP reconstruction requires a supported EBCP branch encoding''))"

definition centroid_at :: "ebcp_descriptor \<Rightarrow> nat \<Rightarrow> f32 block_result" where
  "centroid_at ds i =
     (case base_centroid ds of
        None \<Rightarrow> Ok 0
      | Some c \<Rightarrow> if i < length c then Ok (c ! i) else Panic)"

text \<open>The inner product with column \<open>i\<close> of the row-major matrix, in the order of the loop.\<close>

definition rotate_at :: "f32 list \<Rightarrow> nat \<Rightarrow> nat \<Rightarrow> f32 \<Rightarrow> f32 list \<Rightarrow> f32" where
  "rotate_at m n i start xs =
     foldl (\<lambda>acc (j, x). f32_add acc (f32_mul (m ! (j * n + i)) x)) start
       (zip [0..<length xs] xs)"

definition finite_ambient :: "f32 \<Rightarrow> f32 block_result" where
  "finite_ambient x =
     (if f32_is_finite x then Ok x
      else Err (InvalidEntryShape ''EBCP reconstruction produced a non-finite ambient value''))"

definition reconstruct_ebcp_ambient_embedding ::
    "ebcp_descriptor \<Rightarrow> f32 list \<Rightarrow> f32 list block_result" where
  "reconstruct_ebcp_ambient_embedding ds rotated_or_delta =
     and_then (ok_or (usize_of_u64 (dims (logical_embedding_spec ds)))
                 (InvalidEntryShape ''EBCP logical dims do not fit in usize'')) (\<lambda>n.
       if length rotated_or_delta \<noteq> n
       then Err (InvalidEntryShape ''EBCP payload dimension does not match logical dims'')
       else case rotation ds of
         Some r \<Rightarrow>
           (if usize_max < n * n then Panic
            else if length (matrix r) \<noteq> n * n
            then Err (NonConforming ''EBCP rotation matrix length does not match logical dims'')
            else traverse
                   (\<lambda>i. and_then (centroid_at ds i)
                          (\<lambda>c. finite_ambient (rotate_at (matrix r) n i c rotated_or_delta)))
                   [0..<n])
       | None \<Rightarrow>
           traverse
             (\<lambda>i. and_then (centroid_at ds i)
                    (\<lambda>c. finite_ambient (f32_add c (rotated_or_delta ! i))))
             [0..<n])"

definition reconstruct_ebcp_logical_embedding ::
    "byte list \<Rightarrow> embedding_spec \<Rightarrow> ebcp_descriptor \<Rightarrow> f32 list block_result" where
  "reconstruct_ebcp_logical_embedding payload stored_spec ds =
     and_then (decode_ebcp_payload_components payload stored_spec ds)
       (reconstruct_ebcp_ambient_embedding ds)"

definition reconstruct_logical_branch_embedding_f32 ::
    "deps \<Rightarrow> byte list \<Rightarrow> embedding_spec \<Rightarrow> ebcp_descriptor option \<Rightarrow> f32 list block_result" where
  "reconstruct_logical_branch_embedding_f32 d payload stored_spec descriptor =
     (if encoding stored_spec = ''f32le'' then decode_f32le_embedding payload (dims stored_spec)
      else if encoding stored_spec = ''f16le''
      then decode_f16le_embedding d payload (dims stored_spec)
      else if encoding stored_spec = ''i8'' then decode_i8_embedding payload (dims stored_spec)
      else if encoding stored_spec = ''pq4''
      then Err (UnsupportedValue
             ''pq4 branch embeddings cannot be reconstructed as logical f32 vectors'')
      else if is_ebcp_encoding (encoding stored_spec)
      then and_then (ok_or descriptor (NonConforming
                      ''EBCP branch reconstruction requires a parsed EBCP descriptor'')) (\<lambda>ds.
             if dims (logical_embedding_spec ds) \<noteq> dims stored_spec
             then Err (NonConforming
                    ''EBCP descriptor logical dims must match the stored embedding dims'')
             else reconstruct_ebcp_logical_embedding payload stored_spec ds)
      else Err (UnsupportedValue
             ''branch embedding reconstruction does not support this encoding''))"

definition prepare_root_comparison_target ::
    "validated_block \<Rightarrow> f32 list \<Rightarrow> prepared_comparison_target block_result" where
  "prepare_root_comparison_target root_block logical_embedding =
     (case vb_block root_block of
        Leaf _ \<Rightarrow> Err (InvalidEntryShape
                   ''a root comparison target requires a non-leaf root block'')
      | Branch b \<Rightarrow>
          and_then (parse_branch_ebcp_descriptor (bb_embedding_spec b) (bb_ext b)) (\<lambda>descriptor.
          let comparison_spec =
                (case descriptor of Some ds \<Rightarrow> logical_embedding_spec ds
                 | None \<Rightarrow> bb_embedding_spec b)
          in
          and_then (ok_or (usize_of_u64 (dims comparison_spec)) (InvalidEntryShape
                      ''root comparison embedding dimensions exceed usize'')) (\<lambda>n.
            if length logical_embedding \<noteq> n
            then Err (InvalidEntryShape
                   ''logical target dimensions do not match the root comparison specification'')
            else if list_ex (\<lambda>x. \<not> f32_is_finite x) logical_embedding
            then Err (InvalidEntryShape
                   ''logical target embedding must contain only finite values'')
            else map_ok (\<lambda>bs. \<lparr>pct_bytes = bs, pct_comparison_spec = comparison_spec\<rparr>)
                   (encode_logical_comparison_embedding logical_embedding comparison_spec))))"

end
