(* ===== verification/Block_Ebcp_Props.thy ===== *)
theory Block_Ebcp_Props
  imports Block_Ebcp
begin

text \<open>
  Properties of the EBCP definitions: the bit extractor reads the little-endian number the payload
  denotes, writing and reading \<open>f32\<close> vectors and descriptors are inverse, and reconstruction of a
  validated entry neither panics nor changes the dimension.
\<close>

section \<open>Little-endian numbers\<close>

lemma le_bytes_length [simp]: "length (le_bytes k n) = k"
  by (induction k arbitrary: n) auto

lemma le_nat_bound: "le_nat bs < 256 ^ length bs"
proof (induction bs)
  case (Cons b bs)
  have "unat b < 256" using unsigned_less [of b] by simp
  with Cons show ?case by simp
qed simp

lemma le_nat_le_bytes: "le_nat (le_bytes k n) = n mod 256 ^ k"
proof (induction k arbitrary: n)
  case (Suc k)
  have "n mod 256 ^ Suc k = n mod 256 + 256 * (n div 256 mod 256 ^ k)"
    by (simp add: mod_mult2_eq)
  with Suc show ?case by (simp add: unsigned_of_nat take_bit_eq_mod)
qed simp

lemma le_bytes_le_nat: "le_bytes (length bs) (le_nat bs) = bs"
proof (induction bs)
  case (Cons b bs)
  have "unat b < 256" using unsigned_less [of b] by simp
  with Cons show ?case by simp
qed simp

lemma f32_to_le_length [simp]: "length (f32_to_le x) = 4"
  by (simp add: f32_to_le_def)

lemma f32_le_roundtrip [simp]: "f32_from_le (f32_to_le x) = x"
proof -
  have "unat x < 2 ^ LENGTH(32)" by (rule unsigned_less)
  then show ?thesis by (simp add: f32_from_le_def f32_to_le_def le_nat_le_bytes)
qed

lemma f32_to_le_from_le: "length bs = 4 \<Longrightarrow> f32_to_le (f32_from_le bs) = bs"
  using le_nat_bound [of bs] le_bytes_le_nat [of bs]
  by (simp add: f32_from_le_def f32_to_le_def unsigned_of_nat take_bit_eq_mod)

section \<open>Chunks and vectors\<close>

lemma chunks_exact_append:
  "n \<noteq> 0 \<Longrightarrow> length c = n \<Longrightarrow> chunks_exact n (c @ rest) = c # chunks_exact n rest"
  by (subst chunks_exact.simps) auto

lemma chunks_exact_Nil [simp]: "chunks_exact n [] = []"
  by (cases "n = 0") (simp_all add: chunks_exact.simps)

lemma chunks_exact_length:
  "n \<noteq> 0 \<Longrightarrow> length (chunks_exact n xs) = length xs div n"
proof (induction n xs rule: chunks_exact.induct)
  case (1 n xs)
  show ?case
  proof (cases "length xs < n")
    case True
    then show ?thesis by (simp add: chunks_exact.simps [of n xs])
  next
    case False
    with 1 show ?thesis by (simp add: chunks_exact.simps [of n xs] le_div_geq)
  qed
qed

lemma chunks_exact_chunk_length: "c \<in> set (chunks_exact n xs) \<Longrightarrow> length c = n"
proof (induction n xs rule: chunks_exact.induct)
  case (1 n xs)
  then show ?case by (auto simp: chunks_exact.simps [of n xs] split: if_splits)
qed

lemma chunks_exact_concat:
  "n \<noteq> 0 \<Longrightarrow> n dvd length xs \<Longrightarrow> concat (chunks_exact n xs) = xs"
proof (induction n xs rule: chunks_exact.induct)
  case (1 n xs)
  show ?case
  proof (cases "length xs < n")
    case True
    with "1.prems" have "xs = []" by (auto dest: dvd_imp_le)
    then show ?thesis by simp
  next
    case False
    with "1.prems" have "n dvd length (drop n xs)" by (simp add: dvd_diff_nat)
    with False 1 show ?thesis by (simp add: chunks_exact.simps [of n xs])
  qed
qed

lemma encode_f32_values_length [simp]: "length (encode_f32_values xs) = 4 * length xs"
  by (induction xs) (simp_all add: encode_f32_values_def)

lemma chunks_encode_f32: "chunks_exact 4 (encode_f32_values xs) = map f32_to_le xs"
  by (induction xs) (simp_all add: encode_f32_values_def chunks_exact_append)

text \<open>Decoding accepts exactly the encodings of finite vectors.\<close>

lemma finite_f32_chunks_encode:
  "list_all f32_is_finite xs \<Longrightarrow> finite_f32_chunks err (encode_f32_values xs) = Ok xs"
  by (simp add: finite_f32_chunks_def chunks_encode_f32 traverse_map list_all_iff
      traverse_all_Ok [where g = id, simplified])

lemma finite_f32_chunks_Ok:
  assumes "finite_f32_chunks err bs = Ok xs"
  shows "list_all f32_is_finite xs \<and> length xs = length bs div 4"
proof -
  let ?f = "\<lambda>c. if f32_is_finite (f32_from_le c) then Ok (f32_from_le c) else Err err"
  from assms have tr: "traverse ?f (chunks_exact 4 bs) = Ok xs"
    by (simp add: finite_f32_chunks_def)
  have "f32_is_finite x" if "x \<in> set xs" for x
    using traverse_Ok_set [OF tr that] by (auto split: if_splits)
  with traverse_Ok_length [OF tr] show ?thesis by (simp add: list_all_iff chunks_exact_length)
qed

lemma finite_f32_chunks_no_panic: "finite_f32_chunks err bs \<noteq> Panic"
  by (auto simp: finite_f32_chunks_def dest!: traverse_eq_Panic split: if_splits)

lemma finite_f32_chunks_Ok_encode:
  assumes "finite_f32_chunks err bs = Ok xs" and "4 dvd length bs"
  shows "encode_f32_values xs = bs"
proof -
  let ?f = "\<lambda>c. if f32_is_finite (f32_from_le c) then Ok (f32_from_le c) else Err err"
  from assms(1) have tr: "traverse ?f (chunks_exact 4 bs) = Ok xs"
    by (simp add: finite_f32_chunks_def)
  have "map f32_to_le xs = chunks_exact 4 bs"
  proof (rule nth_equalityI)
    show "length (map f32_to_le xs) = length (chunks_exact 4 bs)"
      using traverse_Ok_length [OF tr] by simp
    fix i assume "i < length (map f32_to_le xs)"
    then have i: "i < length (chunks_exact 4 bs)" using traverse_Ok_length [OF tr] by simp
    with traverse_Ok_nth [OF tr i] have "xs ! i = f32_from_le (chunks_exact 4 bs ! i)"
      by (auto split: if_splits)
    moreover have "length (chunks_exact 4 bs ! i) = 4"
      using i by (intro chunks_exact_chunk_length) (rule nth_mem)
    ultimately show "map f32_to_le xs ! i = chunks_exact 4 bs ! i"
      using i traverse_Ok_length [OF tr] by (simp add: f32_to_le_from_le)
  qed
  then have "encode_f32_values xs = concat (chunks_exact 4 bs)"
    by (simp add: encode_f32_values_def)
  then show ?thesis using assms(2) by (simp add: chunks_exact_concat)
qed

section \<open>Bit extraction\<close>

text \<open>Bit \<open>k\<close> of the number a payload denotes is bit \<open>k mod 8\<close> of its byte \<open>k div 8\<close>.\<close>

lemma le_nat_Cons_bits: "le_nat (b # bs) = unat b OR push_bit 8 (le_nat bs)"
proof -
  have "unat b < 2 ^ 8" using unsigned_less [of b] by simp
  then have "unat b AND push_bit 8 (le_nat bs) = 0"
    by (intro bit_eqI)
      (auto simp: bit_and_iff bit_push_bit_iff bit_unsigned_iff dest: bit_imp_le_length)
  then have "unat b OR push_bit 8 (le_nat bs) = unat b + push_bit 8 (le_nat bs)"
    by (simp add: disjunctive_add_eq_or)
  then show ?thesis by (simp add: push_bit_eq_mult)
qed

lemma bit_le_nat:
  "k < 8 * length bs \<Longrightarrow> bit (le_nat bs) k \<longleftrightarrow> bit (bs ! (k div 8)) (k mod 8)"
proof (induction bs arbitrary: k)
  case (Cons b bs)
  show ?case
  proof (cases "k < 8")
    case True
    then show ?thesis
      by (simp add: le_nat_Cons_bits bit_or_iff bit_push_bit_iff bit_unsigned_iff del: le_nat.simps)
  next
    case False
    then have "bit (le_nat (b # bs)) k \<longleftrightarrow> bit (le_nat bs) (k - 8)"
      by (auto simp: le_nat_Cons_bits bit_or_iff bit_push_bit_iff bit_unsigned_iff
          dest: bit_imp_le_length simp del: le_nat.simps)
    also have "\<dots> \<longleftrightarrow> bit (bs ! ((k - 8) div 8)) ((k - 8) mod 8)"
      using Cons False by simp
    also have "\<dots> \<longleftrightarrow> bit ((b # bs) ! (k div 8)) (k mod 8)"
      using False by (simp add: le_div_geq le_mod_geq)
    finally show ?thesis .
  qed
qed simp

lemma bit_ucast_lsb:
  "bit (ucast (drop_bit j (b :: byte) AND 1) :: u32) i \<longleftrightarrow> i = 0 \<and> bit b j"
  by (auto simp: bit_unsigned_iff bit_and_iff bit_drop_bit_eq bit_1_iff)

lemma extract_bits_loop_spec:
  assumes "i + n \<le> 32" and "start + i + n \<le> 8 * length payload"
    and "\<And>k. bit acc k \<longleftrightarrow> k < i \<and> bit (le_nat payload) (start + k)"
  shows "\<exists>r. extract_bits_loop payload start i n acc = Ok r \<and>
    (\<forall>k. bit r k \<longleftrightarrow> k < i + n \<and> bit (le_nat payload) (start + k))"
  using assms
proof (induction n arbitrary: i acc)
  case (Suc n)
  let ?pos = "start + i"
  let ?acc = "acc OR push_bit i (ucast (drop_bit (?pos mod 8) (payload ! (?pos div 8)) AND 1))"
  have pos: "?pos < 8 * length payload" using Suc.prems by simp
  have "bit ?acc k \<longleftrightarrow> k < Suc i \<and> bit (le_nat payload) (start + k)" for k
  proof -
    have "bit ?acc k \<longleftrightarrow> bit acc k \<or> (k = i \<and> bit (payload ! (?pos div 8)) (?pos mod 8))"
      using Suc.prems(1) by (auto simp: bit_or_iff bit_push_bit_iff bit_ucast_lsb)
    then show ?thesis using Suc.prems(3) [of k] bit_le_nat [OF pos] by (auto simp: less_Suc_eq)
  qed
  then have "\<exists>r. extract_bits_loop payload start (Suc i) n ?acc = Ok r \<and>
      (\<forall>k. bit r k \<longleftrightarrow> k < Suc i + n \<and> bit (le_nat payload) (start + k))"
    using Suc.prems(1,2) by (intro Suc.IH) simp_all
  moreover have "?pos div 8 < length payload" using pos by (simp add: less_mult_imp_div_less)
  ultimately show ?case using Suc.prems(1) by (simp add: Let_def)
qed simp

lemma extract_lsb_first_bits_spec:
  assumes "unat w \<le> 32" and "start + unat w \<le> 8 * length payload"
  shows "extract_lsb_first_bits payload start w =
    Ok (word_of_nat (le_nat payload div 2 ^ start mod 2 ^ unat w))"
proof -
  obtain r where r: "extract_bits_loop payload start 0 (unat w) 0 = Ok r"
    and bits: "\<forall>k. bit r k \<longleftrightarrow> k < unat w \<and> bit (le_nat payload) (start + k)"
    using extract_bits_loop_spec [of 0 "unat w" start payload 0] assms by auto
  have "r = word_of_nat (take_bit (unat w) (drop_bit start (le_nat payload)))"
    using assms(1)
    by (intro bit_eqI) (auto simp: bits bit_of_nat_iff bit_take_bit_iff bit_drop_bit_eq)
  with r show ?thesis
    by (simp add: extract_lsb_first_bits_def take_bit_eq_mod drop_bit_eq_div)
qed

section \<open>Well-formed descriptors\<close>

text \<open>What a descriptor accepted for a specification looks like.\<close>

definition f32_vector_wf :: "nat \<Rightarrow> f32 list \<Rightarrow> bool" where
  "f32_vector_wf n xs = (length xs = n \<and> n * 4 \<le> usize_max \<and> list_all f32_is_finite xs)"

fun quantization_wf :: "string \<Rightarrow> nat \<Rightarrow> ebcp_quantization \<Rightarrow> bool" where
  "quantization_wf enc n (Uniform bw scales) =
     (enc \<in> {''pca-rot-delta-uq'', ''ambient-delta-uq''} \<and> 1 \<le> unat bw \<and> unat bw \<le> 31 \<and>
      f32_vector_wf n scales \<and> \<not> list_ex bad_scale scales)"
| "quantization_wf enc n (Variable bws scales) =
     (enc = ''pca-rot-delta-vbq'' \<and> length bws = n \<and>
      list_all (\<lambda>bw. 1 \<le> unat bw \<and> unat bw \<le> 31) bws \<and>
      f32_vector_wf n scales \<and> \<not> list_ex bad_scale scales)"

definition ebcp_descriptor_wf :: "embedding_spec \<Rightarrow> ebcp_descriptor \<Rightarrow> bool" where
  "ebcp_descriptor_wf spec ds =
     (let n = unat (dims spec)
      in is_ebcp_encoding (encoding spec) \<and> ebcp_version ds = 1 \<and>
         logical_embedding_spec ds = \<lparr>dims = dims spec, encoding = ''f32le''\<rparr> \<and>
         (case base_centroid ds of None \<Rightarrow> True | Some c \<Rightarrow> f32_vector_wf n c) \<and>
         (case rotation ds of None \<Rightarrow> True
          | Some r \<Rightarrow> matrix_format r = ''f32le-row-major'' \<and> f32_vector_wf (n * n) (matrix r)) \<and>
         (case quantization ds of None \<Rightarrow> True
          | Some q \<Rightarrow> quantization_wf (encoding spec) n q) \<and>
         ebcp_parts_error (encoding spec) (base_centroid ds) (rotation ds) (quantization ds) = None)"

lemma parse_f32_vector_Ok:
  "parse_f32_vector_bytes v n = Ok xs \<Longrightarrow> f32_vector_wf n xs \<and> v = Bytes (encode_f32_values xs)"
  by (auto simp: parse_f32_vector_bytes_def parse_byte_string_def outcome_simps f32_vector_wf_def
      finite_f32_chunks_Ok_encode dest: finite_f32_chunks_Ok split: cbor.splits if_splits)

lemma parse_f32_vector_encode:
  "f32_vector_wf n xs \<Longrightarrow> parse_f32_vector_bytes (Bytes (encode_f32_values xs)) n = Ok xs"
  by (simp add: parse_f32_vector_bytes_def parse_byte_string_def f32_vector_wf_def
      checked_mul_def finite_f32_chunks_encode mult.commute)

lemma parse_f32_vector_no_panic: "parse_f32_vector_bytes v n \<noteq> Panic"
  by (auto simp: parse_f32_vector_bytes_def parse_byte_string_def outcome_simps
      finite_f32_chunks_no_panic split: cbor.splits if_splits)

lemma parse_ebcp_rotation_Ok:
  "parse_ebcp_rotation v n = Ok r \<Longrightarrow>
     matrix_format r = ''f32le-row-major'' \<and> f32_vector_wf (n * n) (matrix r)"
  by (auto simp: parse_ebcp_rotation_def outcome_simps bind_eq_Some_conv
      dest!: parse_f32_vector_Ok split: if_splits)

lemma parse_ebcp_rotation_encode:
  assumes "matrix_format r = ''f32le-row-major''" and wf: "f32_vector_wf (n * n) (matrix r)"
  shows "parse_ebcp_rotation (Map (ebcp_rotation_to_entries r)) n = Ok r"
proof -
  have "n * n \<le> usize_max" and "n * n * 4 \<le> usize_max" using wf by (simp_all add: f32_vector_wf_def)
  then show ?thesis
    using assms by (simp add: parse_ebcp_rotation_def ebcp_rotation_to_entries_def integer_keyed_map_def
        required_text_field_def checked_mul_def
        parse_f32_vector_encode)
qed

lemma parse_ebcp_quantization_Ok:
  "parse_ebcp_quantization v spec n = Ok q \<Longrightarrow> quantization_wf (encoding spec) n q"
  unfolding parse_ebcp_quantization_def
  by (auto simp: parse_uniform_quantization_def parse_variable_quantization_def outcome_simps
      list_all_iff list_ex_iff not_less unat_eq_0 Suc_le_eq unat_gt_0
      unsigned_ucast_eq take_bit_eq_mod
      dest!: parse_f32_vector_Ok split: if_splits)

lemma parse_ebcp_quantization_encode:
  assumes "quantization_wf (encoding spec) n q"
  shows "parse_ebcp_quantization (Map (ebcp_quantization_to_entries q)) spec n = Ok q"
proof (cases q)
  case (Uniform bw scales)
  have "unat bw < 256" using unsigned_less [of bw] by simp
  then have "unat (ucast bw :: u64) = unat bw" by (simp add: unsigned_ucast_eq take_bit_eq_mod)
  moreover have "ucast (ucast bw :: u64) = bw" by (rule bit_word_eqI) (simp add: bit_unsigned_iff)
  moreover have "(ucast bw :: u64) \<noteq> 0" using assms calculation(1)
    by (metis Uniform quantization_wf.simps(1) not_one_le_zero unat_0)
  ultimately show ?thesis
    using assms
    by (auto simp: Uniform parse_ebcp_quantization_def integer_keyed_map_def required_u64_field_def
        parse_f32_vector_encode parse_uniform_quantization_def)
next
  case (Variable bws scales)
  have "0 \<notin> set bws" using assms by (auto simp: Variable list_all_iff)
  with assms show ?thesis
    by (auto simp: Variable parse_ebcp_quantization_def integer_keyed_map_def required_u64_field_def
        parse_f32_vector_encode parse_variable_quantization_def parse_byte_string_def
        list_all_iff list_ex_iff not_less)
qed

lemma parse_ebcp_descriptor_wf:
  assumes "parse_branch_ebcp_descriptor spec ext = Ok (Some ds)"
  shows "ebcp_descriptor_wf spec ds"
proof -
  from assms have enc: "is_ebcp_encoding (encoding spec)"
    by (auto simp: parse_branch_ebcp_descriptor_def split: if_splits)
  from assms enc obtain fs where "parse_ebcp_descriptor_fields spec fs = Ok ds"
    by (auto simp: parse_branch_ebcp_descriptor_def outcome_simps)
  with enc show ?thesis
    unfolding parse_ebcp_descriptor_fields_def ebcp_descriptor_wf_def
    by (auto simp: outcome_simps dest!: parse_f32_vector_Ok parse_ebcp_rotation_Ok
        parse_ebcp_quantization_Ok split: if_splits option.splits)
qed

lemma parse_descriptor_fields_lookup:
  assumes wf: "ebcp_descriptor_wf spec ds"
    and "map_of fs 0 = Some (int_value (ebcp_version ds))"
    and "map_of fs 1 = Some (Text (encoding (logical_embedding_spec ds)))"
    and "map_of fs 2 = Some (int_value (dims (logical_embedding_spec ds)))"
    and "map_of fs 3 = map_option (\<lambda>c. Bytes (encode_f32_values c)) (base_centroid ds)"
    and "map_of fs 4 = map_option (\<lambda>r. Map (ebcp_rotation_to_entries r)) (rotation ds)"
    and "map_of fs 5 = map_option (\<lambda>q. Map (ebcp_quantization_to_entries q)) (quantization ds)"
  shows "parse_ebcp_descriptor_fields spec fs = Ok ds"
proof -
  let ?n = "unat (dims spec)"
  have "transpose_map (\<lambda>v. parse_f32_vector_bytes v ?n) (map_of fs 3) = Ok (base_centroid ds)"
    using wf assms(5) by (cases "base_centroid ds")
      (auto simp: ebcp_descriptor_wf_def Let_def parse_f32_vector_encode)
  moreover have
    "transpose_map (\<lambda>v. parse_ebcp_rotation v ?n) (map_of fs 4) = Ok (rotation ds)"
    using wf assms(6) by (cases "rotation ds")
      (auto simp: ebcp_descriptor_wf_def Let_def parse_ebcp_rotation_encode)
  moreover have
    "transpose_map (\<lambda>v. parse_ebcp_quantization v spec ?n) (map_of fs 5) = Ok (quantization ds)"
    using wf assms(7) by (cases "quantization ds")
      (auto simp: ebcp_descriptor_wf_def Let_def parse_ebcp_quantization_encode)
  ultimately show ?thesis
    using wf assms(2-4)
    by (simp add: parse_ebcp_descriptor_fields_def ebcp_descriptor_wf_def Let_def
        required_u64_field_def required_text_field_def required_field_lookup)
qed

lemma ebcp_descriptor_unnormalized:
  assumes wf: "ebcp_descriptor_wf spec ds"
  shows "parse_branch_ebcp_descriptor spec (Some (ebcp_extension_map ds)) = Ok (Some ds)"
proof -
  let ?es = "ebcp_descriptor_to_entries ds"
  obtain fs where fs: "integer_keyed_map (Map ?es) ''ext[0]'' = Ok fs"
    and look: "map_of fs 0 = Some (int_value (ebcp_version ds))"
      "map_of fs 1 = Some (Text (encoding (logical_embedding_spec ds)))"
      "map_of fs 2 = Some (int_value (dims (logical_embedding_spec ds)))"
      "map_of fs 3 = map_option (\<lambda>c. Bytes (encode_f32_values c)) (base_centroid ds)"
      "map_of fs 4 = map_option (\<lambda>r. Map (ebcp_rotation_to_entries r)) (rotation ds)"
      "map_of fs 5 = map_option (\<lambda>q. Map (ebcp_quantization_to_entries q)) (quantization ds)"
    by (cases "rotation ds"; cases "base_centroid ds"; cases "quantization ds")
      (auto simp: ebcp_descriptor_to_entries_def integer_keyed_map_def)
  from wf have "is_ebcp_encoding (encoding spec)" by (simp add: ebcp_descriptor_wf_def Let_def)
  with fs parse_descriptor_fields_lookup [OF wf look] show ?thesis
    by (simp add: parse_branch_ebcp_descriptor_def ebcp_extension_map_def
        integer_keyed_map_def [of _ "''ext''"])
qed

text \<open>The entries in ascending key order, which is what normalisation stores.\<close>

definition sorted_descriptor_fields :: "ebcp_descriptor \<Rightarrow> field_map" where
  "sorted_descriptor_fields ds =
     [(0, int_value (ebcp_version ds)),
      (1, Text (encoding (logical_embedding_spec ds))),
      (2, int_value (dims (logical_embedding_spec ds)))]
     @ (case base_centroid ds of None \<Rightarrow> [] | Some c \<Rightarrow> [(3, Bytes (encode_f32_values c))])
     @ (case rotation ds of None \<Rightarrow> [] | Some r \<Rightarrow> [(4, Map (ebcp_rotation_to_entries r))])
     @ (case quantization ds of None \<Rightarrow> [] | Some q \<Rightarrow> [(5, Map (ebcp_quantization_to_entries q))])"

lemma sorted_descriptor_mset:
  "mset (ebcp_descriptor_to_entries ds) = mset (keyed (sorted_descriptor_fields ds))"
  by (simp add: ebcp_descriptor_to_entries_def sorted_descriptor_fields_def keyed_simps
      split: option.splits)

context codec
begin

lemma rotation_entries_canonical: "canonical d (Map (ebcp_rotation_to_entries r))"
proof -
  have "canonical d (Map (keyed [(0, Text (matrix_format r)),
      (1, Bytes (encode_f32_values (matrix r)))]))"
    by (rule keyed_canonical) (auto simp: canonical_def)
  then show ?thesis by (simp add: ebcp_rotation_to_entries_def keyed_simps)
qed

lemma quantization_entries_canonical: "canonical d (Map (ebcp_quantization_to_entries q))"
proof (cases q)
  case (Uniform bw scales)
  have "canonical d (Map (keyed [(0, int_value 1), (1, int_value (ucast bw)),
      (3, Bytes (encode_f32_values scales))]))"
    by (rule keyed_canonical) (auto simp: canonical_def)
  then show ?thesis by (simp add: Uniform keyed_simps)
next
  case (Variable bws scales)
  have "canonical d (Map (keyed [(0, int_value 2), (2, Bytes bws),
      (3, Bytes (encode_f32_values scales))]))"
    by (rule keyed_canonical) (auto simp: canonical_def)
  then show ?thesis by (simp add: Variable keyed_simps)
qed

lemma sorted_descriptor_canonical: "canonical d (Map (keyed (sorted_descriptor_fields ds)))"
proof (rule keyed_canonical)
  show "sorted_wrt (<) (map fst (sorted_descriptor_fields ds))"
    by (simp add: sorted_descriptor_fields_def split: option.splits)
  show "\<forall>(k, v) \<in> set (sorted_descriptor_fields ds). k < 24 \<and> canonical d v"
    using rotation_entries_canonical quantization_entries_canonical
    by (auto simp: sorted_descriptor_fields_def canonical_def split: option.splits)
qed

lemma canonicalize_single:
  "canonicalize_value d v = Ok v' \<Longrightarrow>
     canonicalize_value d (Map [(int_value k, v)]) = Ok (Map [(int_value k, v')])"
  by (simp add: sort_map_entries_def Let_def)

lemma normalize_ebcp_extension_map:
  "normalize_map d (ebcp_extension_map ds) =
     Ok [(int_value 0, Map (keyed (sorted_descriptor_fields ds)))]"
proof -
  have "canonicalize_value d (Map (ebcp_descriptor_to_entries ds)) =
      Ok (Map (keyed (sorted_descriptor_fields ds)))"
    using sorted_descriptor_canonical sorted_descriptor_mset
    unfolding canonical_def by (rule canonicalize_Map_mset)
  then show ?thesis
    unfolding normalize_map_Ok ebcp_extension_map_def by (rule canonicalize_single)
qed

lemma ebcp_descriptor_normalized:
  assumes wf: "ebcp_descriptor_wf spec ds"
    and "normalize_map d (ebcp_extension_map ds) = Ok ext"
  shows "parse_branch_ebcp_descriptor spec (Some ext) = Ok (Some ds)"
proof -
  let ?fs = "sorted_descriptor_fields ds"
  have "distinct (map fst ?fs)"
    by (simp add: sorted_descriptor_fields_def split: option.splits)
  then have ikm: "integer_keyed_map (Map (keyed ?fs)) ''ext[0]'' = Ok (rev ?fs)" by simp
  have "parse_ebcp_descriptor_fields spec (rev ?fs) = Ok ds"
    using wf by (rule parse_descriptor_fields_lookup)
      (auto simp: sorted_descriptor_fields_def split: option.splits)
  moreover have "is_ebcp_encoding (encoding spec)"
    using wf by (simp add: ebcp_descriptor_wf_def Let_def)
  moreover have "ext = [(int_value 0, Map (keyed ?fs))]"
    using assms(2) by (simp add: normalize_ebcp_extension_map)
  ultimately show ?thesis using ikm
    by (simp add: parse_branch_ebcp_descriptor_def integer_keyed_map_def [of _ "''ext''"])
qed

end


section \<open>Reconstruction is total on validated entries\<close>

lemma sum_widths_Ok: "sum_widths m mk ws = Ok s \<Longrightarrow> s = sum_list (map unat ws)"
proof -
  have "foldl (\<lambda>r w. and_then r (\<lambda>s. ok_or (checked_add s (unat w)) (mk m))) (Ok a) ws = Ok s \<Longrightarrow>
      s = a + sum_list (map unat ws)" for a
  proof (induction ws arbitrary: a)
    case (Cons w ws)
    show ?case
    proof (cases "checked_add a (unat w)")
      case None
      have "foldl (\<lambda>r w. and_then r (\<lambda>s. ok_or (checked_add s (unat w)) (mk m))) (Err e) xs = Err e"
        for e and xs :: "u8 list" by (induction xs) auto
      with None Cons.prems show ?thesis by simp
    next
      case (Some b)
      then have "b = a + unat w" by (auto simp: checked_add_def split: if_splits)
      with Some Cons.prems Cons.IH [of b] show ?thesis by simp
    qed
  qed simp
  then show "sum_widths m mk ws = Ok s \<Longrightarrow> s = sum_list (map unat ws)"
    by (fastforce simp: sum_widths_def)
qed

lemma sum_widths_not_Panic: "sum_widths m mk ws \<noteq> Panic"
proof -
  have "r \<noteq> Panic \<Longrightarrow>
      foldl (\<lambda>r w. and_then r (\<lambda>s. ok_or (checked_add s (unat w)) (mk m))) r ws \<noteq> Panic" for r
    by (induction ws arbitrary: r) (auto simp: outcome_simps)
  then show ?thesis by (simp add: sum_widths_def)
qed

lemma centered_code_Ok:
  assumes "1 \<le> unat w" and "unat w \<le> 31" and "unat code < 2 ^ unat w"
  shows "\<exists>c. centered_code code w = Ok c"
proof -
  have "(2::nat) ^ unat w \<le> 2 ^ 31" using assms(2) by (intro power_increasing) simp_all
  with assms(3) have code: "unat code < 2147483648" by simp
  have "(2::int) ^ (unat w - 1) \<le> 2 ^ 30" using assms(2) by (intro power_increasing) simp_all
  then have "(2::int) ^ (unat w - 1) \<le> 1073741824" by simp
  moreover have "(0::int) < 2 ^ (unat w - 1)" by simp
  moreover have "int (unat code) < 2147483648" using code by linarith
  moreover have "0 \<le> int (unat code)" by simp
  ultimately have "- 2147483648 \<le> int (unat code) - 2 ^ (unat w - 1)"
    and "int (unat code) - 2 ^ (unat w - 1) \<le> 2147483647" by linarith+
  moreover have "w \<noteq> 0" using assms(1) by auto
  ultimately show ?thesis using code assms(2) unfolding centered_code_def Let_def by auto
qed

lemma unpack_one_total:
  assumes "1 \<le> unat w" and "unat w \<le> 31" and "offset + unat w \<le> 8 * length payload"
    and "\<not> bad_scale scale"
  shows "\<exists>v. unpack_one payload offset w scale = Ok v"
proof -
  define code :: u32 where "code = word_of_nat (le_nat payload div 2 ^ offset mod 2 ^ unat w)"
  have ex: "extract_lsb_first_bits payload offset w = Ok code"
    using assms(2,3) by (simp add: extract_lsb_first_bits_spec code_def)
  have "le_nat payload div 2 ^ offset mod 2 ^ unat w < 2 ^ unat w" by simp
  then have "unat code < 2 ^ unat w"
    by (simp add: code_def unsigned_of_nat take_bit_eq_mod le_less_trans [OF mod_less_eq_dividend])
  from centered_code_Ok [OF assms(1,2) this] obtain c where "centered_code code w = Ok c" ..
  with ex assms(4) show ?thesis by (simp add: unpack_one_def)
qed

lemma unpack_uniform_total:
  assumes "1 \<le> unat w" and "unat w \<le> 31" and "\<not> list_ex bad_scale scales"
    and "offset + length scales * unat w \<le> 8 * length payload"
  shows "\<exists>vs. unpack_uniform_loop payload w offset scales = Ok vs \<and> length vs = length scales"
  using assms(3,4)
proof (induction scales arbitrary: offset)
  case (Cons s scales)
  obtain v where v: "unpack_one payload offset w s = Ok v"
    using unpack_one_total [OF assms(1,2), of offset payload s] Cons.prems by auto
  moreover have "\<exists>vs. unpack_uniform_loop payload w (offset + unat w) scales = Ok vs \<and>
      length vs = length scales"
    using Cons.prems by (intro Cons.IH) (simp_all add: algebra_simps)
  ultimately show ?case by auto
qed simp

lemma unpack_variable_total:
  assumes "list_all (\<lambda>(w, s). 1 \<le> unat w \<and> unat w \<le> 31 \<and> \<not> bad_scale s) ps"
    and "offset + sum_list (map (unat \<circ> fst) ps) \<le> 8 * length payload"
  shows "\<exists>vs. unpack_variable_loop payload offset ps = Ok vs \<and> length vs = length ps"
  using assms
proof (induction ps arbitrary: offset)
  case (Cons p ps)
  obtain w s where p: "p = (w, s)" by (cases p)
  obtain v where v: "unpack_one payload offset w s = Ok v"
    using unpack_one_total [of w offset payload s] Cons.prems by (auto simp: p)
  moreover have "\<exists>vs. unpack_variable_loop payload (offset + unat w) ps = Ok vs \<and>
      length vs = length ps"
    using Cons.prems by (intro Cons.IH) (simp_all add: p algebra_simps)
  moreover have "w \<noteq> 0" using Cons.prems by (auto simp: p)
  ultimately show ?case by (auto simp: p)
qed simp

lemma finite_f32_chunks_total:
  assumes "length bs = n * 4"
  shows "(\<exists>xs. finite_f32_chunks e bs = Ok xs \<and> length xs = n) \<or> finite_f32_chunks e bs = Err e"
  using finite_f32_chunks_Ok [of e bs] finite_f32_chunks_no_panic [of e bs] assms
  by (cases "finite_f32_chunks e bs")
    (auto simp: finite_f32_chunks_def dest!: traverse_eq_Err split: if_splits)

lemma sum_widths_total:
  assumes "sum_list (map unat ws) \<le> usize_max"
  shows "sum_widths m mk ws = Ok (sum_list (map unat ws))"
proof -
  have "a + sum_list (map unat ws) \<le> usize_max \<Longrightarrow>
      foldl (\<lambda>r w. and_then r (\<lambda>s. ok_or (checked_add s (unat w)) (mk m))) (Ok a) ws =
      Ok (a + sum_list (map unat ws))" for a
    by (induction ws arbitrary: a) (auto simp: checked_add_def add.assoc)
  from this [of 0] assms show ?thesis by (simp add: sum_widths_def)
qed

lemma ceil_bits: "bl \<le> 8 * ((bl + 7) div 8)" for bl :: nat
  by presburger

lemma ceil_bits_partial: "0 < r \<Longrightarrow> r < 8 \<Longrightarrow> (8 * q + r + 7) div 8 = Suc q" for q r :: nat
  by (rule div_nat_eqI) simp_all

definition float_payload_error :: block_error where
  "float_payload_error = InvalidEntryShape ''EBCP float payload must contain only finite values''"

definition ambient_error :: block_error where
  "ambient_error =
     InvalidEntryShape ''EBCP reconstruction produced a non-finite ambient value''"

lemma packed_len_Ok:
  "packed_bit_len_to_byte_len bl = Ok n \<Longrightarrow> n = (bl + 7) div 8 \<and> bl + 7 \<le> usize_max"
  by (auto simp: packed_bit_len_to_byte_len_def outcome_simps checked_add_def split: if_splits)

lemma ebcp_dims: "ebcp_descriptor_wf spec ds \<Longrightarrow> dims (logical_embedding_spec ds) = dims spec"
  by (simp add: ebcp_descriptor_wf_def Let_def)

lemma unpack_uniform_payload_total:
  assumes "quantization_wf enc n (Uniform bw scales)" and "n * unat bw + 7 \<le> usize_max"
    and "length payload = (n * unat bw + 7) div 8"
  shows "\<exists>xs. unpack_quantized_payload_uniform payload bw scales = Ok xs \<and> length xs = n"
proof -
  have "length scales = n" "1 \<le> unat bw" "unat bw \<le> 31" "\<not> list_ex bad_scale scales"
    using assms(1) by (simp_all add: f32_vector_wf_def)
  with unpack_uniform_total [of bw scales 0 payload] assms(2,3) ceil_bits [of "n * unat bw"]
  show ?thesis
    by (simp add: unpack_quantized_payload_uniform_def quantized_byte_len_def checked_mul_def
        checked_add_def)
qed

lemma unpack_variable_payload_total:
  assumes wf: "quantization_wf enc n (Variable bws scales)"
    and fits: "sum_list (map unat bws) + 7 \<le> usize_max"
    and len: "length payload = (sum_list (map unat bws) + 7) div 8"
  shows "\<exists>xs. unpack_quantized_payload payload bws scales = Ok xs \<and> length xs = n"
proof -
  have lens: "length scales = n" "length bws = n"
    and ok: "list_all (\<lambda>bw. 1 \<le> unat bw \<and> unat bw \<le> 31) bws" "\<not> list_ex bad_scale scales"
    using wf by (simp_all add: f32_vector_wf_def)
  have "list_all (\<lambda>(w, s). 1 \<le> unat w \<and> unat w \<le> 31 \<and> \<not> bad_scale s) (zip bws scales)"
    using ok by (fastforce simp: list_all_iff list_ex_iff dest: set_zip_leftD set_zip_rightD)
  moreover have "map (unat \<circ> fst) (zip bws scales) = map unat bws"
    using lens by (simp flip: map_map)
  ultimately obtain vs where "unpack_variable_loop payload 0 (zip bws scales) = Ok vs"
    and "length vs = length (zip bws scales)"
    using unpack_variable_total [of "zip bws scales" 0 payload] len
      ceil_bits [of "sum_list (map unat bws)"] by auto
  then show ?thesis
    using fits len lens
    by (simp add: unpack_quantized_payload_def quantized_byte_len_def checked_add_def
        sum_widths_total)
qed

text \<open>
  On a payload of the length the validator expects, decoding the components cannot panic and can
  fail only because a stored \<open>f32\<close> is not finite.
\<close>

lemma decode_components_total:
  assumes wf: "ebcp_descriptor_wf spec ds"
    and bl: "ebcp_payload_bit_len spec ds = Ok bl"
    and len: "packed_bit_len_to_byte_len bl = Ok (length payload)"
  shows "(\<exists>xs. decode_ebcp_payload_components payload spec ds = Ok xs \<and>
            length xs = unat (dims spec)) \<or>
         decode_ebcp_payload_components payload spec ds = Err float_payload_error"
proof -
  let ?n = "unat (dims spec)"
  note dims = ebcp_dims [OF wf] and pl = packed_len_Ok [OF len]
  have q: "quantization ds = Some q \<Longrightarrow> quantization_wf (encoding spec) ?n q" for q
    using wf by (simp add: ebcp_descriptor_wf_def Let_def)
  consider (float) "encoding spec \<in> {''pca-rot-f32le'', ''pca-rot-delta-f32le''}"
      "bl = ?n * 4 * 8" "?n * 4 \<le> usize_max"
    | (uniform) bw scales where "encoding spec \<in> {''pca-rot-delta-uq'', ''ambient-delta-uq''}"
      "quantization ds = Some (Uniform bw scales)" "bl = ?n * unat bw"
    | (variable) bws scales where "encoding spec = ''pca-rot-delta-vbq''"
      "quantization ds = Some (Variable bws scales)" "bl = sum_list (map unat bws)"
    using bl by (auto simp: ebcp_payload_bit_len_def outcome_simps bind_eq_Some_conv
        checked_mul_def dest: sum_widths_Ok
        split: if_splits option.splits ebcp_quantization.splits)
  then show ?thesis
  proof cases
    case float
    then show ?thesis
      using dims pl finite_f32_chunks_total [of payload ?n float_payload_error]
      by (auto simp: decode_ebcp_payload_components_def float_payload_error_def checked_mul_def)
  next
    case uniform
    then show ?thesis
      using dims pl unpack_uniform_payload_total [OF q [OF uniform(2)], of payload]
      by (auto simp: decode_ebcp_payload_components_def)
  next
    case variable
    then show ?thesis
      using dims pl unpack_variable_payload_total [OF q [OF variable(2)], of payload]
      by (auto simp: decode_ebcp_payload_components_def)
  qed
qed

lemma finite_ambient_traverse:
  assumes "\<And>i. i \<in> set is \<Longrightarrow> \<exists>x. f i = finite_ambient x"
  shows "(\<exists>ys. traverse f is = Ok ys \<and> length ys = length is \<and> list_all f32_is_finite ys) \<or>
         traverse f is = Err ambient_error"
proof -
  have cases: "\<exists>x. (f i = Ok x \<and> f32_is_finite x) \<or> f i = Err ambient_error" if "i \<in> set is" for i
    using assms [OF that] by (auto simp: finite_ambient_def ambient_error_def split: if_splits)
  show ?thesis
  proof (cases "traverse f is")
    case (Ok ys)
    then show ?thesis
      using traverse_Ok_length [OF Ok] traverse_Ok_set [OF Ok] cases by (fastforce simp: list_all_iff)
  next
    case (Err e)
    then show ?thesis using traverse_eq_Err [OF Err] cases by fastforce
  next
    case Panic
    then show ?thesis using traverse_eq_Panic [OF Panic] cases by fastforce
  qed
qed

lemma reconstruct_ambient_total:
  assumes wf: "ebcp_descriptor_wf spec ds" and len: "length xs = unat (dims spec)"
  shows "(\<exists>ys. reconstruct_ebcp_ambient_embedding ds xs = Ok ys \<and> length ys = unat (dims spec) \<and>
            list_all f32_is_finite ys) \<or>
         reconstruct_ebcp_ambient_embedding ds xs = Err ambient_error"
proof -
  let ?n = "unat (dims spec)"
  have dims: "dims (logical_embedding_spec ds) = dims spec"
    using wf by (simp add: ebcp_descriptor_wf_def Let_def)
  have cen: "\<exists>c. centroid_at ds i = Ok c" if "i < ?n" for i
    using wf that by (cases "base_centroid ds")
      (auto simp: centroid_at_def ebcp_descriptor_wf_def Let_def f32_vector_wf_def)
  have step: "(\<exists>ys. traverse (\<lambda>i. and_then (centroid_at ds i) (\<lambda>c. finite_ambient (g i c)))
        [0..<?n] = Ok ys \<and> length ys = length [0..<?n] \<and> list_all f32_is_finite ys) \<or>
      traverse (\<lambda>i. and_then (centroid_at ds i) (\<lambda>c. finite_ambient (g i c))) [0..<?n] =
        Err ambient_error" for g
    using cen by (intro finite_ambient_traverse) fastforce
  show ?thesis
  proof (cases "rotation ds")
    case None
    with step [of "\<lambda>i c. f32_add c (xs ! i)"] len dims show ?thesis
      by (simp add: reconstruct_ebcp_ambient_embedding_def)
  next
    case (Some r)
    then have "length (matrix r) = ?n * ?n" "?n * ?n \<le> usize_max"
      using wf by (auto simp: ebcp_descriptor_wf_def Let_def f32_vector_wf_def)
    with Some step [of "\<lambda>i c. rotate_at (matrix r) ?n i c xs"] len dims show ?thesis
      by (simp add: reconstruct_ebcp_ambient_embedding_def)
  qed
qed

lemma validate_payloads_Ok:
  "validate_payloads len bl es = Ok () \<Longrightarrow> e \<in> set es \<Longrightarrow>
     length (be_embedding e) = len \<and> validate_zero_ebcp_padding_bits (be_embedding e) bl = Ok ()"
  by (induction es) (auto simp: outcome_simps split: if_splits)

lemma reconstruct_validated:
  assumes "parse_branch_ebcp_descriptor spec ext = Ok (Some ds)"
    and "validate_branch_ebcp_payload_lengths es spec ds = Ok ()" and "e \<in> set es"
  shows "(\<exists>ys. reconstruct_logical_branch_embedding_f32 d (be_embedding e) spec (Some ds) = Ok ys \<and>
            length ys = unat (dims spec) \<and> list_all f32_is_finite ys) \<or>
         reconstruct_logical_branch_embedding_f32 d (be_embedding e) spec (Some ds)
           \<in> {Err float_payload_error, Err ambient_error}"
proof -
  have wf: "ebcp_descriptor_wf spec ds" using assms(1) by (rule parse_ebcp_descriptor_wf)
  then have enc: "is_ebcp_encoding (encoding spec)" and dims: "dims (logical_embedding_spec ds) = dims spec"
    by (simp_all add: ebcp_descriptor_wf_def Let_def)
  from assms(2,3) obtain bl where bl: "ebcp_payload_bit_len spec ds = Ok bl"
    and len: "packed_bit_len_to_byte_len bl = Ok (length (be_embedding e))"
    by (auto simp: validate_branch_ebcp_payload_lengths_def outcome_simps dest: validate_payloads_Ok)
  have "reconstruct_logical_branch_embedding_f32 d (be_embedding e) spec (Some ds) =
      reconstruct_ebcp_logical_embedding (be_embedding e) spec ds"
    using enc dims by (auto simp: reconstruct_logical_branch_embedding_f32_def is_ebcp_encoding_def)
  then show ?thesis
    using decode_components_total [OF wf bl len] reconstruct_ambient_total [OF wf]
    by (fastforce simp: reconstruct_ebcp_logical_embedding_def)
qed

section \<open>Padding bits\<close>

lemma le_nat_append: "le_nat (xs @ ys) = le_nat xs + 256 ^ length xs * le_nat ys"
  by (induction xs) (simp_all add: algebra_simps)

lemma mixed_radix_less:
  assumes "a < (b::nat)"
  shows "a + b * x < b * y \<longleftrightarrow> x < y"
proof
  assume "a + b * x < b * y"
  then have "b * x < b * y" by linarith
  then show "x < y" by simp
next
  assume "x < y"
  then have "b * (x + 1) \<le> b * y" by (intro mult_le_mono) simp_all
  with assms show "a + b * x < b * y" by simp
qed

lemma masked_high_bits:
  fixes x :: u8
  assumes "u < 8"
  shows "x AND NOT (word_of_nat (2 ^ u - 1)) = 0 \<longleftrightarrow> unat x < 2 ^ u"
proof -
  have "word_of_nat (2 ^ u - 1) = (mask u :: u8)"
    by (simp add: mask_eq_exp_minus_1 of_nat_diff)
  moreover have "x AND NOT (mask u) = 0 \<longleftrightarrow> take_bit u x = x"
    by (auto simp: bit_eq_iff bit_and_iff bit_not_iff bit_mask_iff bit_take_bit_iff)
  moreover have "take_bit u x = x \<longleftrightarrow> unat x < 2 ^ u"
    by (metis take_bit_nat_eq_self_iff unsigned_take_bit_eq word_unat_eq_iff)
  ultimately show ?thesis by simp
qed

text \<open>
  The padding check on a payload of the packed length accepts exactly the payloads whose
  little-endian number fits the payload bits, so the accepted payload of a code sequence is unique.
\<close>

theorem zero_padding_iff:
  assumes "length payload = (bl + 7) div 8"
  shows "validate_zero_ebcp_padding_bits payload bl = Ok () \<longleftrightarrow> le_nat payload < 2 ^ bl"
proof (cases "bl mod 8 = 0")
  case True
  then have "length payload * 8 = bl" using assms by presburger
  then have "(256::nat) ^ length payload = 2 ^ bl"
    using power_mult [of "2::nat" 8 "length payload"] by (simp add: mult.commute)
  then show ?thesis using True le_nat_bound [of payload]
    by (simp add: validate_zero_ebcp_padding_bits_def)
next
  case False
  then have "payload \<noteq> []" using assms by auto
  then obtain xs x where p: "payload = xs @ [x]" by (metis append_butlast_last_id)
  let ?u = "bl mod 8"
  have "bl mod 8 < 8" and "0 < bl mod 8" using False by simp_all
  then have "(8 * (bl div 8) + bl mod 8 + 7) div 8 = Suc (bl div 8)"
    by (rule ceil_bits_partial [rotated])
  then have "(bl + 7) div 8 = Suc (bl div 8)" by simp
  then have "length xs = bl div 8" using assms p by simp
  then have bl: "bl = 8 * length xs + ?u" by simp
  have "(2::nat) ^ bl = 256 ^ length xs * 2 ^ ?u"
    using power_mult [of "2::nat" 8 "length xs"] by (subst bl) (simp add: power_add)
  then have "le_nat payload < 2 ^ bl \<longleftrightarrow> unat x < 2 ^ ?u"
    using mixed_radix_less [OF le_nat_bound, of xs "unat x" "2 ^ ?u"] p by (simp add: le_nat_append)
  moreover have "x AND NOT (word_of_nat (2 ^ ?u - 1)) = 0 \<longleftrightarrow> unat x < 2 ^ ?u"
    by (rule masked_high_bits) simp
  ultimately show ?thesis using False p by (simp add: validate_zero_ebcp_padding_bits_def Let_def)
qed

end
