(* ===== verification/Block_V1.thy ===== *)
theory Block_V1
  imports Block_Ebcp_Props
begin

text \<open>
  Version-1 blocks (\<open>src/crates/lexongraph-block/src/lib.rs\<close>): building and normalising a block,
  its CBOR form, serialisation with the SHA-256 block hash, parsing and the validating
  deserialiser. The lemmas show that serialisation reads back, that what is accepted is exactly
  what serialisation produces, that a block's bytes do not depend on the order its entries and maps
  are given in, and that no input makes these functions panic.
\<close>

section \<open>Normalisation\<close>

definition compute_block_hash :: "deps \<Rightarrow> byte list \<Rightarrow> block_hash" where
  "compute_block_hash d bs = BlockHash (sha256_digest d bs)"

definition validate_version :: "u64 \<Rightarrow> unit block_result" where
  "validate_version version =
     (if version = 1 then Ok () else Err (UnsupportedVersion version))"

text \<open>\<open>compare_branch_entries\<close>: the embedding bytes first, then the bytes of the child hash.\<close>

definition compare_branch_entries :: "branch_entry \<Rightarrow> byte list \<times> byte list" where
  "compare_branch_entries e = (be_embedding e, as_bytes (be_child e))"

definition duplicate_entries_error :: block_error where
  "duplicate_entries_error = NonConforming
     ''duplicate branch entries with the same (embedding, child) pair are forbidden''"

definition sort_branch_entries :: "branch_entry list \<Rightarrow> branch_entry list block_result" where
  "sort_branch_entries es =
     (let sorted_es = sort_key compare_branch_entries es
      in if adjacent_equal compare_branch_entries sorted_es then Err duplicate_entries_error
         else Ok sorted_es)"

text \<open>The EBCP part of \<open>normalize_block\<close>, with the \<open>expect\<close> on the parsed descriptor.\<close>

definition validate_ebcp_branch ::
    "embedding_spec \<Rightarrow> extension_map option \<Rightarrow> branch_entry list \<Rightarrow> unit block_result" where
  "validate_ebcp_branch spec ext es =
     (if is_ebcp_encoding (encoding spec)
      then and_then (and_then (parse_branch_ebcp_descriptor spec ext) expect_some) (\<lambda>ds.
             validate_branch_ebcp_payload_lengths es spec ds)
      else Ok ())"

definition normalize_leaf_entry :: "deps \<Rightarrow> leaf_entry \<Rightarrow> leaf_entry block_result" where
  "normalize_leaf_entry d e =
     map_ok (\<lambda>m. e\<lparr>le_metadata := m\<rparr>) (canonicalize_metadata d (le_metadata e))"

fun normalize_block :: "deps \<Rightarrow> block \<Rightarrow> block block_result" where
  "normalize_block d (Branch b) =
     and_then (validate_version (bb_version b)) (\<lambda>_.
     if bb_level b = 0 then Err (InvalidBlockLevel (bb_level b))
     else
     and_then (validate_embedding_spec (bb_embedding_spec b)) (\<lambda>_.
     and_then (normalize_optional_map d (bb_ext b)) (\<lambda>ext.
     and_then (validate_ebcp_branch (bb_embedding_spec b) ext (bb_entries b)) (\<lambda>_.
     map_ok (\<lambda>es. Branch (b\<lparr>bb_ext := ext, bb_entries := es\<rparr>))
       (sort_branch_entries (bb_entries b))))))"
| "normalize_block d (Leaf b) =
     and_then (validate_version (lb_version b)) (\<lambda>_.
     if lb_level b \<noteq> 0 then Err (InvalidBlockLevel (lb_level b))
     else
     and_then (validate_embedding_spec (lb_embedding_spec b)) (\<lambda>_.
     if is_ebcp_encoding (encoding (lb_embedding_spec b))
     then Err (NonConforming ''leaf blocks must not use EBCP branch encodings'')
     else
     and_then (normalize_optional_map d (lb_ext b)) (\<lambda>ext.
     if length (lb_entries b) \<noteq> 1
     then Err (NonConforming ''leaf blocks must contain exactly one leaf entry'')
     else map_ok (\<lambda>es. Leaf (b\<lparr>lb_ext := ext, lb_entries := es\<rparr>))
            (traverse (normalize_leaf_entry d) (lb_entries b)))))"

definition build_branch_block ::
    "deps \<Rightarrow> u64 \<Rightarrow> u64 \<Rightarrow> embedding_spec \<Rightarrow> branch_entry list \<Rightarrow> extension_map option
       \<Rightarrow> branch_block block_result" where
  "build_branch_block d version level spec es ext =
     and_then (normalize_block d (Branch \<lparr>bb_version = version, bb_level = level,
                 bb_embedding_spec = spec, bb_entries = es, bb_ext = ext\<rparr>))
       (\<lambda>b. case b of Branch b' \<Rightarrow> Ok b' | Leaf _ \<Rightarrow> Panic)"

definition build_leaf_block ::
    "deps \<Rightarrow> u64 \<Rightarrow> embedding_spec \<Rightarrow> leaf_entry list \<Rightarrow> extension_map option
       \<Rightarrow> leaf_block block_result" where
  "build_leaf_block d version spec es ext =
     and_then (normalize_block d (Leaf \<lparr>lb_version = version, lb_level = 0,
                 lb_embedding_spec = spec, lb_entries = es, lb_ext = ext\<rparr>))
       (\<lambda>b. case b of Leaf b' \<Rightarrow> Ok b' | Branch _ \<Rightarrow> Panic)"

section \<open>The CBOR form\<close>

definition embedding_spec_to_value :: "embedding_spec \<Rightarrow> cbor" where
  "embedding_spec_to_value spec =
     Map [(int_value 0, int_value (dims spec)), (int_value 1, Text (encoding spec))]"

definition branch_entry_to_value :: "branch_entry \<Rightarrow> cbor" where
  "branch_entry_to_value e =
     Map [(int_value 0, Bytes (be_embedding e)), (int_value 1, Bytes (as_bytes (be_child e)))]"

definition content_to_value :: "content \<Rightarrow> cbor" where
  "content_to_value c =
     Map [(int_value 0, Text (media_type c)), (int_value 1, Bytes (body c))]"

definition leaf_entry_to_value :: "leaf_entry \<Rightarrow> cbor" where
  "leaf_entry_to_value e =
     Map [(int_value 0, Bytes (le_embedding e)), (int_value 1, Map (le_metadata e)),
          (int_value 2, content_to_value (le_content e))]"

fun block_ext :: "block \<Rightarrow> extension_map option" where
  "block_ext (Branch b) = bb_ext b"
| "block_ext (Leaf b) = lb_ext b"

fun block_fields :: "block \<Rightarrow> (cbor \<times> cbor) list" where
  "block_fields (Branch b) =
     [(int_value 0, int_value (bb_version b)), (int_value 1, int_value (bb_level b)),
      (int_value 2, embedding_spec_to_value (bb_embedding_spec b)),
      (int_value 3, Array (map branch_entry_to_value (bb_entries b)))]"
| "block_fields (Leaf b) =
     [(int_value 0, int_value (lb_version b)), (int_value 1, int_value (lb_level b)),
      (int_value 2, embedding_spec_to_value (lb_embedding_spec b)),
      (int_value 3, Array (map leaf_entry_to_value (lb_entries b)))]"

definition block_to_value :: "deps \<Rightarrow> block \<Rightarrow> cbor block_result" where
  "block_to_value d b =
     canonicalize_value d (Map (block_fields b @
       (case block_ext b of None \<Rightarrow> [] | Some ext \<Rightarrow> [(int_value 15, Map ext)])))"

definition serialize_block :: "deps \<Rightarrow> block \<Rightarrow> serialized_block block_result" where
  "serialize_block d b =
     and_then (normalize_block d b) (\<lambda>normalized.
     and_then (block_to_value d normalized) (\<lambda>v.
     map_ok (\<lambda>bs. \<lparr>ser_bytes = bs, ser_hash = compute_block_hash d bs\<rparr>)
       (map_err MalformedCbor (into_writer d v))))"

section \<open>Parsing\<close>

definition parse_embedding_spec :: "cbor \<Rightarrow> embedding_spec block_result" where
  "parse_embedding_spec v =
     and_then (integer_keyed_map v ''embedding_spec'') (\<lambda>fs.
     and_then (reject_unknown_keys fs [0, 1] ''embedding_spec'') (\<lambda>_.
     and_then (required_u64_field fs 0 ''embedding_spec'') (\<lambda>(n, fs).
     and_then (required_text_field fs 1 ''embedding_spec'') (\<lambda>(enc, fs).
       Ok \<lparr>dims = n, encoding = enc\<rparr>))))"

definition parse_branch_entry :: "cbor \<Rightarrow> branch_entry block_result" where
  "parse_branch_entry v =
     and_then (integer_keyed_map v ''branch entry'') (\<lambda>fs.
     and_then (reject_unknown_keys fs [0, 1] ''branch entry'') (\<lambda>_.
     and_then (required_bytes_field fs 0 ''branch entry'') (\<lambda>(emb, fs).
     and_then (required_bytes_field fs 1 ''branch entry'') (\<lambda>(child, fs).
     and_then (hash_try_from child) (\<lambda>h.
       Ok \<lparr>be_embedding = emb, be_child = h\<rparr>)))))"

definition parse_content :: "cbor \<Rightarrow> content block_result" where
  "parse_content v =
     and_then (integer_keyed_map v ''content'') (\<lambda>fs.
     and_then (reject_unknown_keys fs [0, 1] ''content'') (\<lambda>_.
     and_then (required_text_field fs 0 ''content'') (\<lambda>(mt, fs).
     and_then (required_bytes_field fs 1 ''content'') (\<lambda>(bd, fs).
       Ok \<lparr>media_type = mt, body = bd\<rparr>))))"

definition parse_leaf_entry :: "deps \<Rightarrow> cbor \<Rightarrow> leaf_entry block_result" where
  "parse_leaf_entry d v =
     and_then (integer_keyed_map v ''leaf entry'') (\<lambda>fs.
     and_then (reject_unknown_keys fs [0, 1, 2] ''leaf entry'') (\<lambda>_.
     and_then (required_bytes_field fs 0 ''leaf entry'') (\<lambda>(emb, fs).
     and_then (required_field fs 1 ''leaf entry'') (\<lambda>(m, fs).
     and_then (expect_arbitrary_map d m) (\<lambda>md.
     and_then (required_field fs 2 ''leaf entry'') (\<lambda>(c, fs).
     and_then (parse_content c) (\<lambda>ct.
       Ok \<lparr>le_embedding = emb, le_metadata = md, le_content = ct\<rparr>)))))))"

definition parse_branch_block ::
    "deps \<Rightarrow> u64 \<Rightarrow> u64 \<Rightarrow> embedding_spec \<Rightarrow> cbor \<Rightarrow> extension_map option \<Rightarrow> block block_result" where
  "parse_branch_block d version level spec es ext =
     and_then (expect_array es ''branch entries'') (\<lambda>vs.
     and_then (traverse parse_branch_entry vs) (\<lambda>es.
       map_ok Branch (build_branch_block d version level spec es ext)))"

definition parse_leaf_block ::
    "deps \<Rightarrow> u64 \<Rightarrow> u64 \<Rightarrow> embedding_spec \<Rightarrow> cbor \<Rightarrow> extension_map option \<Rightarrow> block block_result" where
  "parse_leaf_block d version level spec es ext =
     and_then (expect_array es ''leaf entries'') (\<lambda>vs.
     and_then (traverse (parse_leaf_entry d) vs) (\<lambda>es.
       if level \<noteq> 0 then Err (InvalidBlockLevel level)
       else map_ok Leaf (build_leaf_block d version spec es ext)))"

definition parse_block :: "deps \<Rightarrow> cbor \<Rightarrow> block block_result" where
  "parse_block d v =
     and_then (integer_keyed_map v ''block'') (\<lambda>fs.
     and_then (required_u64_field fs 0 ''block'') (\<lambda>(version, fs).
     and_then (validate_version version) (\<lambda>_.
     and_then (reject_unknown_keys fs [1, 2, 3, 15] ''block'') (\<lambda>_.
     and_then (required_u64_field fs 1 ''block'') (\<lambda>(level, fs).
     and_then (required_field fs 2 ''block'') (\<lambda>(sv, fs).
     and_then (parse_embedding_spec sv) (\<lambda>spec.
     and_then (transpose_map (expect_arbitrary_map d) (map_of fs 15)) (\<lambda>ext.
     and_then (required_field (remove_field fs 15) 3 ''block'') (\<lambda>(es, fs).
       if level = 0 then parse_leaf_block d version level spec es ext
       else parse_branch_block d version level spec es ext)))))))))"

definition decode_single_cbor_value :: "deps \<Rightarrow> byte list \<Rightarrow> cbor block_result" where
  "decode_single_cbor_value d bs =
     and_then (map_err MalformedCbor (from_reader d bs)) (\<lambda>(v, position).
       if position \<noteq> length bs
       then Err (MalformedCbor ''trailing bytes after the top-level CBOR value'')
       else Ok v)"

definition deserialize_block_from_value ::
    "deps \<Rightarrow> cbor \<Rightarrow> byte list \<Rightarrow> block_hash \<Rightarrow> validated_block block_result" where
  "deserialize_block_from_value d v bs actual_hash =
     and_then (parse_block d v) (\<lambda>b.
     and_then (serialize_block d b) (\<lambda>s.
       if ser_bytes s \<noteq> bs
       then Err (NonConforming
              ''block bytes are not the canonical encoding of the decoded block'')
       else Ok \<lparr>vb_block = b, vb_hash = actual_hash\<rparr>))"

definition deserialize_block ::
    "deps \<Rightarrow> byte list \<Rightarrow> block_hash \<Rightarrow> validated_block block_result" where
  "deserialize_block d bs expected_hash =
     (let actual_hash = compute_block_hash d bs
      in if actual_hash \<noteq> expected_hash then Err (HashMismatch expected_hash actual_hash)
         else and_then (decode_single_cbor_value d bs) (\<lambda>v.
                deserialize_block_from_value d v bs actual_hash))"

fun into_entries :: "validated_block \<Rightarrow> typed_entries" where
  "into_entries v =
     (case vb_block v of
        Branch b \<Rightarrow> BranchEntries \<lparr>md_version = bb_version b, md_level = bb_level b,
                      md_embedding_spec = bb_embedding_spec b, md_ext = bb_ext b\<rparr> (bb_entries b)
      | Leaf b \<Rightarrow> LeafEntries \<lparr>md_version = lb_version b, md_level = lb_level b,
                    md_embedding_spec = lb_embedding_spec b, md_ext = lb_ext b\<rparr> (lb_entries b))"

section \<open>Normal blocks\<close>

text \<open>A block is normal when normalisation accepts it and leaves it as it is.\<close>

definition normal :: "deps \<Rightarrow> block \<Rightarrow> bool" where
  "normal d b = (normalize_block d b = Ok b)"

text \<open>Every child hash has the 32 bytes of the Rust type.\<close>

fun hashes_wf :: "block \<Rightarrow> bool" where
  "hashes_wf (Branch b) = list_all (\<lambda>e. hash_wf (be_child e)) (bb_entries b)"
| "hashes_wf (Leaf b) = True"

lemma sort_branch_entries_Ok:
  "sort_branch_entries es = Ok es' \<longleftrightarrow>
     es' = sort_key compare_branch_entries es \<and> distinct (map compare_branch_entries es)"
  by (auto simp: sort_branch_entries_def Let_def adjacent_equal_sort_key)

lemma compare_branch_entries_inject:
  "compare_branch_entries e = compare_branch_entries e' \<longleftrightarrow> e = e'"
  by (cases e; cases e') (auto simp: compare_branch_entries_def)

lemma sort_branch_entries_idem:
  "sort_branch_entries es = Ok es' \<Longrightarrow> sort_branch_entries es' = Ok es'"
  by (auto simp: sort_branch_entries_Ok sort_key_id_if_sorted distinct_map inj_on_def
      compare_branch_entries_inject)

lemma sort_branch_entries_strict:
  assumes "sort_branch_entries es = Ok es'"
  shows "sorted_wrt (\<lambda>x y. compare_branch_entries x < compare_branch_entries y) es'"
proof -
  have "distinct (map compare_branch_entries es')" and "sorted (map compare_branch_entries es')"
    using assms by (auto simp: sort_branch_entries_Ok distinct_map inj_on_def
        compare_branch_entries_inject)
  then have "sorted_wrt (<) (map compare_branch_entries es')" by (simp add: strict_sorted_iff)
  then show ?thesis by (simp add: sorted_wrt_map)
qed

lemma sort_branch_entries_mset:
  assumes "mset es' = mset es"
  shows "sort_branch_entries es' = sort_branch_entries es"
proof -
  have "set es' = set es" using assms by (rule mset_eq_setD)
  have "sort_key compare_branch_entries es' = sort_key compare_branch_entries es"
    using assms by (intro sort_key_eq_sort_key)
      (auto simp: inj_on_def compare_branch_entries_inject)
  then show ?thesis by (simp add: sort_branch_entries_def)
qed

lemma validate_payloads_iff:
  "validate_payloads len bl es = Ok () \<longleftrightarrow>
     (\<forall>e \<in> set es. length (be_embedding e) = len \<and>
        validate_zero_ebcp_padding_bits (be_embedding e) bl = Ok ())"
  by (induction es) (auto simp: outcome_simps)

lemma validate_ebcp_branch_set:
  "validate_ebcp_branch spec ext es = Ok () \<Longrightarrow> set es' = set es \<Longrightarrow>
     validate_ebcp_branch spec ext es' = Ok ()"
  by (auto simp: validate_ebcp_branch_def validate_branch_ebcp_payload_lengths_def outcome_simps
      validate_payloads_iff split: if_splits)

lemma normalize_leaf_entry_Ok:
  "normalize_leaf_entry d e = Ok e' \<longleftrightarrow>
     (\<exists>m. normalize_map d (le_metadata e) = Ok m \<and> e' = e\<lparr>le_metadata := m\<rparr>)"
  by (auto simp: normalize_leaf_entry_def canonicalize_metadata_def outcome_simps)

text \<open>What normalisation accepts, and what it returns.\<close>

lemma normalize_Branch_Ok:
  "normalize_block d (Branch b) = Ok b' \<longleftrightarrow>
     bb_version b = 1 \<and> bb_level b \<noteq> 0 \<and> validate_embedding_spec (bb_embedding_spec b) = Ok () \<and>
     (\<exists>ext. normalize_optional_map d (bb_ext b) = Ok ext \<and>
        validate_ebcp_branch (bb_embedding_spec b) ext (bb_entries b) = Ok () \<and>
        distinct (map compare_branch_entries (bb_entries b)) \<and>
        b' = Branch (b\<lparr>bb_ext := ext,
                       bb_entries := sort_key compare_branch_entries (bb_entries b)\<rparr>))"
  by (auto simp: outcome_simps validate_version_def sort_branch_entries_Ok split: if_splits)

lemma normalize_Leaf_Ok:
  "normalize_block d (Leaf b) = Ok b' \<longleftrightarrow>
     lb_version b = 1 \<and> lb_level b = 0 \<and> validate_embedding_spec (lb_embedding_spec b) = Ok () \<and>
     \<not> is_ebcp_encoding (encoding (lb_embedding_spec b)) \<and>
     (\<exists>ext e m. normalize_optional_map d (lb_ext b) = Ok ext \<and> lb_entries b = [e] \<and>
        normalize_map d (le_metadata e) = Ok m \<and>
        b' = Leaf (b\<lparr>lb_ext := ext, lb_entries := [e\<lparr>le_metadata := m\<rparr>]\<rparr>))"
  by (cases "lb_entries b")
    (auto simp: outcome_simps validate_version_def normalize_leaf_entry_Ok split: if_splits)

lemmas normalize_block_Ok = normalize_Branch_Ok normalize_Leaf_Ok

lemma normalize_optional_map_idem:
  "normalize_optional_map d m = Ok m' \<Longrightarrow> normalize_optional_map d m' = Ok m'"
  using normalize_optional_map_Ok [of d m m'] by (intro normalize_optional_map_fix)
    (auto split: option.splits)

lemma normalize_block_idem: "normalize_block d b = Ok b' \<Longrightarrow> normal d b'"
proof (cases b)
  case (Branch bb)
  assume "normalize_block d b = Ok b'"
  then show ?thesis unfolding Branch normal_def normalize_Branch_Ok
    using validate_ebcp_branch_set
    by (auto simp: normalize_Branch_Ok normalize_optional_map_idem distinct_map inj_on_def
        compare_branch_entries_inject sort_key_id_if_sorted simp del: normalize_block.simps)
next
  case (Leaf lb)
  assume "normalize_block d b = Ok b'"
  then show ?thesis unfolding Leaf normal_def normalize_Leaf_Ok
    by (auto simp: normalize_Leaf_Ok normalize_optional_map_idem normalize_map_fix
        normalize_map_canonical simp del: normalize_block.simps)
qed

lemma normalize_block_hashes_wf: "normalize_block d b = Ok b' \<Longrightarrow> hashes_wf b' = hashes_wf b"
  by (cases b) (auto simp: normalize_block_Ok list_all_iff simp del: normalize_block.simps)

lemma normal_Branch:
  "normal d (Branch b) \<longleftrightarrow>
     bb_version b = 1 \<and> bb_level b \<noteq> 0 \<and> validate_embedding_spec (bb_embedding_spec b) = Ok () \<and>
     normalize_optional_map d (bb_ext b) = Ok (bb_ext b) \<and>
     validate_ebcp_branch (bb_embedding_spec b) (bb_ext b) (bb_entries b) = Ok () \<and>
     distinct (map compare_branch_entries (bb_entries b)) \<and>
     sort_key compare_branch_entries (bb_entries b) = bb_entries b"
  by (cases b) (auto simp: normal_def normalize_Branch_Ok simp del: normalize_block.simps)

lemma normal_Leaf:
  "normal d (Leaf b) \<longleftrightarrow>
     lb_version b = 1 \<and> lb_level b = 0 \<and> validate_embedding_spec (lb_embedding_spec b) = Ok () \<and>
     \<not> is_ebcp_encoding (encoding (lb_embedding_spec b)) \<and>
     normalize_optional_map d (lb_ext b) = Ok (lb_ext b) \<and>
     (\<exists>e. lb_entries b = [e] \<and> normalize_map d (le_metadata e) = Ok (le_metadata e))"
proof -
  have upd: "e = e\<lparr>le_metadata := m\<rparr> \<Longrightarrow> m = le_metadata e" for e m
    by (metis leaf_entry.select_convs(2) leaf_entry.surjective leaf_entry.update_convs(2))
  show ?thesis
    by (cases b) (auto simp: normal_def normalize_Leaf_Ok dest: upd simp del: normalize_block.simps)
qed

lemma normal_Branch_sorted:
  "normal d (Branch b) \<Longrightarrow>
     sorted_wrt (\<lambda>x y. compare_branch_entries x < compare_branch_entries y) (bb_entries b)"
  by (rule sort_branch_entries_strict [of "bb_entries b"])
    (simp add: normal_Branch sort_branch_entries_Ok)

section \<open>Reading back the CBOR form\<close>

lemma parse_embedding_spec_value: "parse_embedding_spec (embedding_spec_to_value s) = Ok s"
  by (simp add: parse_embedding_spec_def embedding_spec_to_value_def integer_keyed_map_def
      reject_unknown_keys_def required_u64_field_def required_text_field_def)

lemma parse_branch_entry_value:
  "hash_wf (be_child e) \<Longrightarrow> parse_branch_entry (branch_entry_to_value e) = Ok e"
  by (simp add: parse_branch_entry_def branch_entry_to_value_def integer_keyed_map_def
      reject_unknown_keys_def required_bytes_field_def hash_try_from_as_bytes)

lemma parse_content_value: "parse_content (content_to_value c) = Ok c"
  by (simp add: parse_content_def content_to_value_def integer_keyed_map_def
      reject_unknown_keys_def required_text_field_def required_bytes_field_def)

lemma expect_arbitrary_map_canonical:
  "canonical d (Map es) \<Longrightarrow> expect_arbitrary_map d (Map es) = Ok es"
  by (simp add: expect_arbitrary_map_def canonical_def del: canonicalize_value.simps)

lemma parse_leaf_entry_value:
  "canonical d (Map (le_metadata e)) \<Longrightarrow> parse_leaf_entry d (leaf_entry_to_value e) = Ok e"
  by (simp add: parse_leaf_entry_def leaf_entry_to_value_def integer_keyed_map_def
      reject_unknown_keys_def required_bytes_field_def parse_content_value
      expect_arbitrary_map_canonical)

lemma build_branch_normal: "normal d (Branch b) \<Longrightarrow>
    build_branch_block d (bb_version b) (bb_level b) (bb_embedding_spec b) (bb_entries b)
      (bb_ext b) = Ok b"
  by (cases b) (simp add: build_branch_block_def normal_def del: normalize_block.simps)

lemma build_leaf_normal:
  assumes "normal d (Leaf b)"
  shows "build_leaf_block d (lb_version b) (lb_embedding_spec b) (lb_entries b) (lb_ext b) = Ok b"
proof -
  have "lb_level b = 0" using assms by (simp add: normal_Leaf)
  then show ?thesis using assms
    by (cases b) (simp add: build_leaf_block_def normal_def del: normalize_block.simps)
qed

text \<open>The value of a normal block, as it stands before \<open>canonicalize_value\<close>.\<close>

definition block_value :: "block \<Rightarrow> cbor" where
  "block_value b =
     Map (block_fields b @ (case block_ext b of None \<Rightarrow> [] | Some ext \<Rightarrow> [(int_value 15, Map ext)]))"

lemma normal_ext_canonical:
  assumes "normal d b" and "block_ext b = Some ext"
  shows "canonical d (Map ext)"
proof -
  have "normalize_optional_map d (block_ext b) = Ok (block_ext b)"
    using assms(1) by (cases b) (auto simp: normal_Branch normal_Leaf)
  then show ?thesis using normalize_optional_map_Ok [of d "block_ext b" "block_ext b"] assms(2)
    by simp
qed

lemma parse_branch_block_value:
  assumes "normal d (Branch b)" and "hashes_wf (Branch b)"
  shows "parse_branch_block d (bb_version b) (bb_level b) (bb_embedding_spec b)
      (Array (map branch_entry_to_value (bb_entries b))) (bb_ext b) = Ok (Branch b)"
proof -
  have "traverse parse_branch_entry (map branch_entry_to_value (bb_entries b)) =
      Ok (map id (bb_entries b))"
    unfolding traverse_map using assms(2)
    by (intro traverse_all_Ok) (simp add: parse_branch_entry_value list_all_iff)
  then show ?thesis
    using assms(1) by (simp add: parse_branch_block_def expect_array_def build_branch_normal)
qed

lemma parse_leaf_block_value:
  assumes "normal d (Leaf b)"
  shows "parse_leaf_block d (lb_version b) 0 (lb_embedding_spec b)
      (Array (map leaf_entry_to_value (lb_entries b))) (lb_ext b) = Ok (Leaf b)"
proof -
  obtain e where "lb_entries b = [e]" and "canonical d (Map (le_metadata e))"
    using assms by (auto simp: normal_Leaf dest: normalize_map_canonical)
  with build_leaf_normal [OF assms] show ?thesis
    by (simp add: parse_leaf_block_def expect_array_def parse_leaf_entry_value)
qed

lemma parse_block_value:
  assumes "normal d b" and "hashes_wf b"
  shows "parse_block d (block_value b) = Ok b"
proof (cases b)
  case (Branch bb)
  have "bb_version bb = 1" "bb_level bb \<noteq> 0" using assms(1) by (simp_all add: Branch normal_Branch)
  with parse_branch_block_value [of d bb] assms normal_ext_canonical [OF assms(1)]
  show ?thesis
    by (cases "bb_ext bb")
      (simp_all add: Branch block_value_def parse_block_def integer_keyed_map_def
        required_u64_field_def validate_version_def reject_unknown_keys_def
        parse_embedding_spec_value expect_arbitrary_map_canonical)
next
  case (Leaf lb)
  have "lb_version lb = 1" "lb_level lb = 0" using assms(1) by (simp_all add: Leaf normal_Leaf)
  with parse_leaf_block_value [of d lb] assms normal_ext_canonical [OF assms(1)]
  show ?thesis
    by (cases "lb_ext lb")
      (simp_all add: Leaf block_value_def parse_block_def integer_keyed_map_def
        required_u64_field_def validate_version_def reject_unknown_keys_def
        parse_embedding_spec_value expect_arbitrary_map_canonical)
qed

declare normalize_block.simps [simp del]

section \<open>Serialisation under a codec\<close>

context codec
begin

lemma pair_map_canonical:
  "canonical d u \<Longrightarrow> canonical d v \<Longrightarrow> canonical d (Map [(int_value 0, u), (int_value 1, v)])"
  using keyed_canonical [of "[(0, u), (1, v)]"] by (simp add: keyed_simps)

lemma triple_map_canonical:
  "canonical d u \<Longrightarrow> canonical d v \<Longrightarrow> canonical d w \<Longrightarrow>
     canonical d (Map [(int_value 0, u), (int_value 1, v), (int_value 2, w)])"
  using keyed_canonical [of "[(0, u), (1, v), (2, w)]"] by (simp add: keyed_simps)

lemma atom_canonical:
  "canonical d (int_value n)" "canonical d (Bytes bs)" "canonical d (Text t)"
  by (simp_all add: canonical_def)

lemma array_canonical: "\<forall>v \<in> set vs. canonical d v \<Longrightarrow> canonical d (Array vs)"
  using traverse_all_Ok [of vs "canonicalize_value d" id] by (simp add: canonical_def)

lemma embedding_spec_canonical: "canonical d (embedding_spec_to_value spec)"
  unfolding embedding_spec_to_value_def by (intro pair_map_canonical atom_canonical)

lemma branch_entry_canonical: "canonical d (branch_entry_to_value e)"
  unfolding branch_entry_to_value_def by (intro pair_map_canonical atom_canonical)

lemma leaf_entry_canonical:
  "canonical d (Map (le_metadata e)) \<Longrightarrow> canonical d (leaf_entry_to_value e)"
  unfolding leaf_entry_to_value_def content_to_value_def
  by (intro triple_map_canonical pair_map_canonical atom_canonical)

lemma block_entries_canonical:
  assumes "normal d b" and "(k, v) \<in> set (block_fields b)"
  shows "canonical d v"
proof (cases b)
  case (Branch bb)
  with assms(2) show ?thesis
    by (auto simp: atom_canonical embedding_spec_canonical branch_entry_canonical
        intro!: array_canonical)
next
  case (Leaf lb)
  obtain e where "lb_entries lb = [e]" and "canonical d (Map (le_metadata e))"
    using assms(1) by (auto simp: Leaf normal_Leaf dest: normalize_map_canonical)
  with assms(2) show ?thesis
    by (auto simp: Leaf atom_canonical embedding_spec_canonical leaf_entry_canonical
        intro!: array_canonical)
qed

lemma block_value_canonical:
  assumes "normal d b"
  shows "canonical d (block_value b)"
proof -
  obtain v0 v1 v2 v3 where fs: "block_fields b = keyed [(0, v0), (1, v1), (2, v2), (3, v3)]"
    by (cases b) (auto simp: keyed_simps)
  let ?kvs = "[(0, v0), (1, v1), (2, v2), (3, v3)] @
    (case block_ext b of None \<Rightarrow> [] | Some ext \<Rightarrow> [(15, Map ext)])"
  have "canonical d v0" "canonical d v1" "canonical d v2" "canonical d v3"
    using block_entries_canonical [OF assms] unfolding fs by (auto simp: keyed_simps)
  then have "canonical d (Map (keyed ?kvs))"
    using normal_ext_canonical [OF assms]
    by (intro keyed_canonical) (auto split: option.splits)
  moreover have "block_value b = Map (keyed ?kvs)"
    by (simp add: block_value_def fs keyed_simps split: option.splits)
  ultimately show ?thesis by simp
qed

lemma block_to_value_normal: "normal d b \<Longrightarrow> block_to_value d b = Ok (block_value b)"
  using block_value_canonical [of b] by (simp add: block_to_value_def block_value_def canonical_def
      del: canonicalize_value.simps)

text \<open>Serialisation succeeds exactly on the blocks normalisation accepts.\<close>

lemma serialize_block_eq:
  "serialize_block d b =
     and_then (normalize_block d b) (\<lambda>b'.
       case into_writer d (block_value b') of
         Ok bs \<Rightarrow> Ok \<lparr>ser_bytes = bs, ser_hash = compute_block_hash d bs\<rparr> | _ \<Rightarrow> Panic)"
proof (cases "normalize_block d b")
  case (Ok b')
  obtain bs where "into_writer d (block_value b') = Ok bs" using writer_total by blast
  with Ok block_to_value_normal [OF normalize_block_idem [OF Ok]] show ?thesis
    by (simp add: serialize_block_def)
qed (simp_all add: serialize_block_def)

lemma serialize_block_Ok:
  "serialize_block d b = Ok s \<longleftrightarrow>
     (\<exists>b' bs. normalize_block d b = Ok b' \<and> into_writer d (block_value b') = Ok bs \<and>
        s = \<lparr>ser_bytes = bs, ser_hash = compute_block_hash d bs\<rparr>)"
proof (cases "normalize_block d b")
  case (Ok b')
  obtain bs where "into_writer d (block_value b') = Ok bs" using writer_total by blast
  with Ok show ?thesis by (auto simp: serialize_block_eq)
qed (simp_all add: serialize_block_eq)

lemma serialize_normalized:
  "normalize_block d b = Ok b' \<Longrightarrow> serialize_block d b' = serialize_block d b"
  using normalize_block_idem [of d b b'] by (simp add: serialize_block_eq normal_def)

end

context readable_codec
begin

lemma decode_written:
  assumes "readable v" and "into_writer d v = Ok bs"
  shows "decode_single_cbor_value d bs = Ok v"
  using reader_inverts [OF assms] by (simp add: decode_single_cbor_value_def)

lemma deserialize_serialized:
  assumes norm: "normalize_block d b = Ok b'" and wf: "hashes_wf b"
    and rd: "readable (block_value b')" and ser: "serialize_block d b = Ok s"
  shows "deserialize_block d (ser_bytes s) (ser_hash s) = Ok \<lparr>vb_block = b', vb_hash = ser_hash s\<rparr>"
proof -
  obtain bs where w: "into_writer d (block_value b') = Ok bs"
    and s: "s = \<lparr>ser_bytes = bs, ser_hash = compute_block_hash d bs\<rparr>"
    using ser norm by (auto simp: serialize_block_Ok)
  have "parse_block d (block_value b') = Ok b'"
    using normalize_block_idem [OF norm] normalize_block_hashes_wf [OF norm] wf
    by (simp add: parse_block_value)
  moreover have "serialize_block d b' = Ok s" using norm ser by (simp add: serialize_normalized)
  ultimately show ?thesis
    using decode_written [OF rd w]
    by (simp add: deserialize_block_def deserialize_block_from_value_def s)
qed

end

section \<open>Properties of version-1 blocks\<close>

text \<open>
  C4: the bytes of a serialised block deserialise, under the hash
  serialisation reports, to the normalised block (for every writer and reader that obey the codec
  laws and a block whose CBOR value the reader can represent).
\<close>

theorem block_roundtrip:
  assumes "readable_codec d readable"
    and "normalize_block d b = Ok b'" and "hashes_wf b" and "readable (block_value b')"
    and "serialize_block d b = Ok s"
  shows "deserialize_block d (ser_bytes s) (ser_hash s) = Ok \<lparr>vb_block = b', vb_hash = ser_hash s\<rparr>"
  using assms by (rule readable_codec.deserialize_serialized)

lemma parse_branch_entry_wf: "parse_branch_entry v = Ok e \<Longrightarrow> hash_wf (be_child e)"
  by (auto simp: parse_branch_entry_def outcome_simps dest: hash_try_from_wf)

lemma case_block_Ok [outcome_simps]:
  "(case x of Branch b' \<Rightarrow> Ok b' | Leaf _ \<Rightarrow> Panic) = Ok b \<longleftrightarrow> x = Branch b"
  "(case x of Leaf c' \<Rightarrow> Ok c' | Branch _ \<Rightarrow> Panic) = Ok c \<longleftrightarrow> x = Leaf c"
  by (cases x; simp)+

lemma build_branch_Ok:
  "build_branch_block d version level spec es ext = Ok b \<longleftrightarrow>
     normalize_block d (Branch \<lparr>bb_version = version, bb_level = level,
       bb_embedding_spec = spec, bb_entries = es, bb_ext = ext\<rparr>) = Ok (Branch b)"
  by (simp add: build_branch_block_def outcome_simps)

lemma build_leaf_Ok:
  "build_leaf_block d version spec es ext = Ok b \<longleftrightarrow>
     normalize_block d (Leaf \<lparr>lb_version = version, lb_level = 0,
       lb_embedding_spec = spec, lb_entries = es, lb_ext = ext\<rparr>) = Ok (Leaf b)"
  by (simp add: build_leaf_block_def outcome_simps)

lemma parse_block_Ok:
  assumes "parse_block d v = Ok b"
  shows "normal d b \<and> hashes_wf b"
proof -
  from assms consider (leaf) version level spec es ext
      where "parse_leaf_block d version level spec es ext = Ok b"
    | (branch) version level spec es ext
      where "parse_branch_block d version level spec es ext = Ok b"
    by (auto simp: parse_block_def outcome_simps split: if_splits)
  then show ?thesis
  proof cases
    case leaf
    then obtain lb where "b = Leaf lb" and "\<exists>es ext. build_leaf_block d version spec es ext = Ok lb"
      by (auto simp: parse_leaf_block_def outcome_simps split: if_splits)
    then show ?thesis by (auto simp: build_leaf_Ok dest: normalize_block_idem)
  next
    case branch
    then obtain vs es' bb where b: "b = Branch bb"
      and es': "traverse parse_branch_entry vs = Ok es'"
      and bb: "build_branch_block d version level spec es' ext = Ok bb"
      by (auto simp: parse_branch_block_def outcome_simps split: if_splits)
    have "hash_wf (be_child e)" if "e \<in> set es'" for e
      using traverse_Ok_set [OF es' that] by (auto dest: parse_branch_entry_wf)
    with bb show ?thesis
      unfolding b build_branch_Ok
      by (auto simp: list_all_iff dest: normalize_block_idem normalize_block_hashes_wf)
  qed
qed

lemma deserialize_block_Ok:
  "deserialize_block d bs h = Ok v \<Longrightarrow>
     h = compute_block_hash d bs \<and> vb_hash v = h \<and> normal d (vb_block v) \<and>
     hashes_wf (vb_block v) \<and> (\<exists>s. serialize_block d (vb_block v) = Ok s \<and> ser_bytes s = bs)"
  by (auto simp: deserialize_block_def deserialize_block_from_value_def Let_def outcome_simps
      dest: parse_block_Ok split: if_splits)

lemma serialize_block_hash:
  "serialize_block d b = Ok s \<Longrightarrow> ser_hash s = compute_block_hash d (ser_bytes s)"
  by (auto simp: serialize_block_def outcome_simps)

text \<open>
  C7: whatever the deserialiser accepts is a normal block with well-formed
  child hashes, carries the expected hash, and serialises to exactly the accepted bytes and hash; so
  every block has one accepted encoding.
\<close>

theorem accepted_block_canonical:
  assumes "deserialize_block d bs h = Ok v"
  shows "normal d (vb_block v) \<and> hashes_wf (vb_block v) \<and> vb_hash v = h \<and>
    serialize_block d (vb_block v) = Ok \<lparr>ser_bytes = bs, ser_hash = h\<rparr>"
  using deserialize_block_Ok [OF assms] serialize_block_hash [of d "vb_block v"] by auto

text \<open>
  The entries of an accepted branch are in strictly ascending
  (embedding, child) order, its level is positive; an accepted leaf has level 0 and exactly one
  entry; in both, extension map and metadata are canonical.
\<close>

theorem accepted_entries:
  assumes "deserialize_block d bs h = Ok v"
  shows "case into_entries v of
      BranchEntries md es \<Rightarrow> md_version md = 1 \<and> md_level md \<noteq> 0 \<and>
        sorted_wrt (\<lambda>x y. compare_branch_entries x < compare_branch_entries y) es \<and>
        (case md_ext md of None \<Rightarrow> True | Some ext \<Rightarrow> canonical d (Map ext))
    | LeafEntries md es \<Rightarrow> md_version md = 1 \<and> md_level md = 0 \<and>
        (\<exists>e. es = [e] \<and> canonical d (Map (le_metadata e))) \<and>
        (case md_ext md of None \<Rightarrow> True | Some ext \<Rightarrow> canonical d (Map ext))"
proof -
  have n: "normal d (vb_block v)" using deserialize_block_Ok [OF assms] by blast
  show ?thesis
    using n normal_ext_canonical [OF n]
    by (cases "vb_block v")
      (auto simp: normal_Branch_sorted normal_Branch normal_Leaf
        split: option.splits dest: normalize_map_canonical)
qed

section \<open>No panic\<close>

text \<open>None of the parsers, and none of the checks of normalisation, can reach a panic.\<close>

lemma field_key_no_panic [simp]: "field_key k ctx \<noteq> Panic"
  by (simp add: field_key_def split: cbor.splits)

lemma insert_fields_no_panic [simp]: "insert_fields ctx es fs \<noteq> Panic"
  by (induction ctx es fs rule: insert_fields.induct) (auto simp: outcome_simps)

lemma integer_keyed_map_no_panic [simp]: "integer_keyed_map v ctx \<noteq> Panic"
  by (simp add: integer_keyed_map_def split: cbor.splits)

lemma typed_field_no_panic [simp]:
  "required_u64_field fs key ctx \<noteq> Panic"
  "required_text_field fs key ctx \<noteq> Panic"
  "required_bytes_field fs key ctx \<noteq> Panic"
  by (auto simp: required_u64_field_def required_text_field_def required_bytes_field_def
      outcome_simps split: cbor.splits)

lemma reject_unknown_keys_no_panic [simp]: "reject_unknown_keys fs ks ctx \<noteq> Panic"
  by (simp add: reject_unknown_keys_def)

lemma ebcp_parsers_no_panic [simp]:
  "parse_ebcp_rotation v n \<noteq> Panic"
  "parse_ebcp_quantization v spec n \<noteq> Panic"
  by (auto simp: parse_ebcp_rotation_def parse_ebcp_quantization_def parse_uniform_quantization_def
      parse_variable_quantization_def parse_byte_string_def parse_f32_vector_no_panic outcome_simps
      split: if_splits cbor.splits)

lemma parse_branch_ebcp_descriptor_no_panic [simp]: "parse_branch_ebcp_descriptor spec ext \<noteq> Panic"
  by (auto simp: parse_branch_ebcp_descriptor_def parse_ebcp_descriptor_fields_def
      parse_f32_vector_no_panic outcome_simps split: if_splits option.splits)

lemma validate_payloads_no_panic [simp]: "validate_payloads len bl es \<noteq> Panic"
  by (induction es) (auto simp: outcome_simps validate_zero_ebcp_padding_bits_def Let_def)

lemma validate_payload_lengths_no_panic [simp]:
  "validate_branch_ebcp_payload_lengths es spec ds \<noteq> Panic"
  by (auto simp: validate_branch_ebcp_payload_lengths_def ebcp_payload_bit_len_def
      packed_bit_len_to_byte_len_def sum_widths_not_Panic outcome_simps
      split: if_splits option.splits ebcp_quantization.splits)

lemma validate_ebcp_branch_no_panic [simp]: "validate_ebcp_branch spec ext es \<noteq> Panic"
proof -
  have "parse_branch_ebcp_descriptor spec ext \<noteq> Ok None" if "is_ebcp_encoding (encoding spec)"
    using that by (auto simp: parse_branch_ebcp_descriptor_def outcome_simps)
  then show ?thesis
    by (auto simp: validate_ebcp_branch_def outcome_simps expect_some_eq_Panic)
qed

lemma entry_parsers_no_panic [simp]:
  "parse_embedding_spec v \<noteq> Panic" "parse_branch_entry v \<noteq> Panic" "parse_content v \<noteq> Panic"
  "expect_array v m \<noteq> Panic" "validate_version version \<noteq> Panic"
  "validate_embedding_spec spec \<noteq> Panic" "sort_branch_entries es \<noteq> Panic"
  by (auto simp: parse_embedding_spec_def parse_branch_entry_def parse_content_def expect_array_def
      hash_try_from_def validate_version_def validate_embedding_spec_def sort_branch_entries_def
      Let_def outcome_simps split: cbor.splits if_splits)

context codec
begin

lemma normalize_map_no_panic [simp]: "normalize_map d es \<noteq> Panic"
  using canonicalize_no_panic [of "Map es"] canonicalize_Map_shape [of d es]
  by (cases "canonicalize_value d (Map es)")
    (auto simp: normalize_map_def simp del: canonicalize_value.simps)

lemma normalize_optional_map_no_panic [simp]: "normalize_optional_map d m \<noteq> Panic"
  by (cases m) (auto simp: normalize_optional_map_def outcome_simps)

lemma normalize_leaf_entry_no_panic [simp]: "normalize_leaf_entry d e \<noteq> Panic"
  by (simp add: normalize_leaf_entry_def canonicalize_metadata_def outcome_simps)

lemma normalize_block_no_panic [simp]: "normalize_block d b \<noteq> Panic"
  by (cases b) (auto simp: normalize_block.simps outcome_simps dest: traverse_eq_Panic
      split: if_splits)

lemma expect_arbitrary_map_no_panic [simp]: "expect_arbitrary_map d v \<noteq> Panic"
  using canonicalize_no_panic [of v]
  by (auto simp: expect_arbitrary_map_def outcome_simps split: cbor.splits)

lemma parse_leaf_entry_no_panic [simp]: "parse_leaf_entry d v \<noteq> Panic"
  by (auto simp: parse_leaf_entry_def outcome_simps)

lemma build_no_panic [simp]:
  "build_branch_block d version level spec es ext \<noteq> Panic"
  "build_leaf_block d version spec les ext \<noteq> Panic"
  by (auto simp: build_branch_block_def build_leaf_block_def outcome_simps normalize_block_Ok
      split: block.splits)

lemma parse_block_no_panic [simp]: "parse_block d v \<noteq> Panic"
  by (auto simp: parse_block_def parse_leaf_block_def parse_branch_block_def outcome_simps
      dest!: traverse_eq_Panic split: if_splits)

lemma serialize_block_no_panic [simp]: "serialize_block d b \<noteq> Panic"
proof (cases "normalize_block d b")
  case (Ok b')
  obtain bs where "into_writer d (block_value b') = Ok bs" using writer_total by blast
  with Ok show ?thesis by (simp add: serialize_block_eq)
qed (simp_all add: serialize_block_eq)

lemma serialize_block_Err: "serialize_block d b = Err e \<longleftrightarrow> normalize_block d b = Err e"
proof (cases "normalize_block d b")
  case (Ok b')
  obtain bs where "into_writer d (block_value b') = Ok bs" using writer_total by blast
  with Ok show ?thesis by (simp add: serialize_block_eq)
qed (simp_all add: serialize_block_eq)

lemma deserialize_block_no_panic:
  "from_reader d bs \<noteq> Panic \<Longrightarrow> deserialize_block d bs h \<noteq> Panic"
  by (auto simp: deserialize_block_def deserialize_block_from_value_def decode_single_cbor_value_def
      Let_def outcome_simps split: if_splits)

end

text \<open>
  C19: with a codec whose reader does not panic, neither serialising any block nor
  deserialising any bytes against any hash panics; and serialisation fails exactly when
  normalisation rejects the block.
\<close>

theorem block_no_panic:
  assumes "codec d" and "from_reader d bs \<noteq> Panic"
  shows "deserialize_block d bs h \<noteq> Panic \<and> serialize_block d b \<noteq> Panic \<and>
    (\<forall>e. serialize_block d b = Err e \<longleftrightarrow> normalize_block d b = Err e)"
  using codec.deserialize_block_no_panic [OF assms] codec.serialize_block_no_panic [OF assms(1)]
    codec.serialize_block_Err [OF assms(1)] by simp

section \<open>Independence of the order of entries and maps\<close>

text \<open>Two blocks with the same contents, listed in a different order.\<close>

fun same_map :: "extension_map option \<Rightarrow> extension_map option \<Rightarrow> bool" where
  "same_map None None = True"
| "same_map (Some m) (Some m') = (mset m = mset m')"
| "same_map _ _ = False"

fun same_contents :: "block \<Rightarrow> block \<Rightarrow> bool" where
  "same_contents (Branch b) (Branch c) =
     (bb_version b = bb_version c \<and> bb_level b = bb_level c \<and>
      bb_embedding_spec b = bb_embedding_spec c \<and> mset (bb_entries b) = mset (bb_entries c) \<and>
      same_map (bb_ext b) (bb_ext c))"
| "same_contents (Leaf b) (Leaf c) =
     (lb_version b = lb_version c \<and> lb_level b = lb_level c \<and>
      lb_embedding_spec b = lb_embedding_spec c \<and> same_map (lb_ext b) (lb_ext c) \<and>
      list_all2 (\<lambda>x y. le_embedding x = le_embedding y \<and> le_content x = le_content y \<and>
        mset (le_metadata x) = mset (le_metadata y)) (lb_entries b) (lb_entries c))"
| "same_contents _ _ = False"

lemma same_map_normalize:
  "normalize_optional_map d m = Ok r \<Longrightarrow> same_map m m' \<Longrightarrow> normalize_optional_map d m' = Ok r"
  by (cases "(m, m')" rule: same_map.cases)
    (auto simp: normalize_optional_map_def outcome_simps dest: normalize_map_mset)

lemma same_contents_normalize:
  assumes "normalize_block d b = Ok n" and "same_contents b c"
  shows "normalize_block d c = Ok n"
proof (cases b)
  case (Branch bb)
  then obtain cc where c: "c = Branch cc" using assms(2) by (cases c) auto
  have m: "mset (bb_entries cc) = mset (bb_entries bb)" using assms(2) by (simp add: Branch c)
  have "sort_key compare_branch_entries (bb_entries cc) =
      sort_key compare_branch_entries (bb_entries bb)"
    using m by (intro sort_key_eq_sort_key) (auto simp: inj_on_def compare_branch_entries_inject)
  moreover have "distinct (map compare_branch_entries (bb_entries bb)) =
      distinct (map compare_branch_entries (bb_entries cc))"
    using m by (metis mset_eq_imp_distinct_iff mset_map)
  ultimately show ?thesis
    using assms mset_eq_setD [OF m]
    by (cases bb; cases cc) (auto simp: Branch c normalize_Branch_Ok
        dest: same_map_normalize validate_ebcp_branch_set)
next
  case (Leaf lb)
  then obtain lc where c: "c = Leaf lc" using assms(2) by (cases c) auto
  from assms(1) obtain ext e m where ext: "normalize_optional_map d (lb_ext lb) = Ok ext"
    and e: "lb_entries lb = [e]" and m: "normalize_map d (le_metadata e) = Ok m"
    unfolding Leaf normalize_Leaf_Ok by blast
  from assms(2) e obtain z where z: "lb_entries lc = [z]"
    and eq: "le_embedding e = le_embedding z" "le_content e = le_content z"
    and "mset (le_metadata z) = mset (le_metadata e)"
    by (auto simp: Leaf c list_all2_Cons1)
  then have "normalize_map d (le_metadata z) = Ok m" using m normalize_map_mset by blast
  moreover have "normalize_optional_map d (lb_ext lc) = Ok ext"
    using ext assms(2) by (auto simp: Leaf c intro: same_map_normalize)
  moreover have "z\<lparr>le_metadata := m\<rparr> = e\<lparr>le_metadata := m\<rparr>" using eq by (cases z; cases e) auto
  ultimately show ?thesis
    using assms e m z ext by (cases lb; cases lc) (simp add: Leaf c normalize_Leaf_Ok)
qed

text \<open>
  C18: a block and any rearrangement of its branch entries, its extension map and
  its leaf metadata have the same bytes and the same hash.
\<close>

theorem order_independent:
  assumes "serialize_block d b = Ok s" and "same_contents b c"
  shows "serialize_block d c = Ok s"
proof -
  from assms(1) obtain n where "normalize_block d b = Ok n"
    by (auto simp: serialize_block_def outcome_simps)
  moreover from this assms(2) have "normalize_block d c = Ok n" by (rule same_contents_normalize)
  ultimately show ?thesis using assms(1) by (simp add: serialize_block_def)
qed

end
