(* ===== verification/Block_V2.thy ===== *)
theory Block_V2
  imports Block_V1
begin

text \<open>
  Version-2 blocks (\<open>src/crates/lexongraph-block/src/v2.rs\<close>): a type name and a CBOR content, with
  the reserved types \<open>branch\<close> and \<open>leaf\<close> validated like their version-1 counterparts, and the
  version dispatch of \<open>src/crates/lexongraph-block/src/lib.rs\<close> (\<open>serialize_versioned_block\<close>,
  \<open>deserialize_versioned_block\<close>, \<open>detect_block_version_value\<close>). The lemmas extend the round trip,
  the canonical-encoding property and the absence of panics to both versions, and show that no
  bytes are accepted as both.
\<close>

section \<open>Data\<close>

record v2_block =
  v2_version :: u64
  type_name :: string
  v2_content :: cbor

record v2_validated_block =
  v2v_block :: v2_block
  v2v_hash :: block_hash

record v2_branch_block =
  v2b_version :: u64
  v2b_type_name :: string
  v2b_level :: u64
  v2b_embedding_spec :: embedding_spec
  v2b_entries :: "branch_entry list"
  v2b_ext :: "extension_map option"

record v2_leaf_block =
  v2l_version :: u64
  v2l_type_name :: string
  v2l_embedding_spec :: embedding_spec
  v2l_entries :: "leaf_entry list"
  v2l_ext :: "extension_map option"

record v2_custom_block =
  v2c_version :: u64
  v2c_type_name :: string
  v2c_content :: cbor

datatype v2_typed_block =
    TypedBranch v2_branch_block
  | TypedLeaf v2_leaf_block
  | TypedCustom v2_custom_block

datatype versioned_block = V1 block | V2 v2_block

datatype decoded_block = DecodedV1 validated_block | DecodedV2 v2_validated_block

section \<open>Normalisation\<close>

definition ext_entry :: "extension_map option \<Rightarrow> (cbor \<times> cbor) list" where
  "ext_entry ext = (case ext of None \<Rightarrow> [] | Some e \<Rightarrow> [(int_value 15, Map e)])"

definition branch_content_entries ::
    "u64 \<Rightarrow> embedding_spec \<Rightarrow> branch_entry list \<Rightarrow> extension_map option \<Rightarrow> (cbor \<times> cbor) list" where
  "branch_content_entries level spec es ext =
     [(int_value 1, int_value level), (int_value 2, embedding_spec_to_value spec),
      (int_value 3, Array (map branch_entry_to_value es))] @ ext_entry ext"

definition leaf_content_entries ::
    "embedding_spec \<Rightarrow> leaf_entry list \<Rightarrow> extension_map option \<Rightarrow> (cbor \<times> cbor) list" where
  "leaf_content_entries spec es ext =
     [(int_value 2, embedding_spec_to_value spec),
      (int_value 3, Array (map leaf_entry_to_value es))] @ ext_entry ext"

definition normalize_branch_content :: "deps \<Rightarrow> cbor \<Rightarrow> cbor block_result" where
  "normalize_branch_content d v =
     and_then (integer_keyed_map v ''content'') (\<lambda>fs.
     and_then (reject_unknown_keys fs [1, 2, 3, 15] ''content'') (\<lambda>_.
     and_then (required_u64_field fs 1 ''content'') (\<lambda>(level, fs).
     if level = 0 then Err (InvalidBlockLevel level)
     else
     and_then (required_field fs 2 ''content'') (\<lambda>(sv, fs).
     and_then (parse_embedding_spec sv) (\<lambda>spec.
     and_then (validate_embedding_spec spec) (\<lambda>_.
     and_then (required_field fs 3 ''content'') (\<lambda>(ev, fs).
     and_then (expect_array ev ''branch entries'') (\<lambda>vs.
     and_then (traverse parse_branch_entry vs) (\<lambda>es.
     and_then (transpose_map (expect_arbitrary_map d) (map_of fs 15)) (\<lambda>ext0.
     and_then (normalize_optional_map d ext0) (\<lambda>ext.
     and_then (validate_ebcp_branch spec ext es) (\<lambda>_.
     and_then (sort_branch_entries es) (\<lambda>sorted_es.
       Ok (Map (branch_content_entries level spec sorted_es ext)))))))))))))))"

definition normalize_leaf_content :: "deps \<Rightarrow> cbor \<Rightarrow> cbor block_result" where
  "normalize_leaf_content d v =
     and_then (integer_keyed_map v ''content'') (\<lambda>fs.
     and_then (reject_unknown_keys fs [2, 3, 15] ''content'') (\<lambda>_.
     and_then (required_field fs 2 ''content'') (\<lambda>(sv, fs).
     and_then (parse_embedding_spec sv) (\<lambda>spec.
     and_then (validate_embedding_spec spec) (\<lambda>_.
     if is_ebcp_encoding (encoding spec)
     then Err (NonConforming ''leaf blocks must not use EBCP branch encodings'')
     else
     and_then (required_field fs 3 ''content'') (\<lambda>(ev, fs).
     and_then (expect_array ev ''leaf entries'') (\<lambda>vs.
     and_then (traverse (parse_leaf_entry d) vs) (\<lambda>es.
     if length es \<noteq> 1
     then Err (NonConforming ''leaf blocks must contain exactly one leaf entry'')
     else
     and_then (traverse (normalize_leaf_entry d) es) (\<lambda>normalized.
     and_then (transpose_map (expect_arbitrary_map d) (map_of fs 15)) (\<lambda>ext0.
     and_then (normalize_optional_map d ext0) (\<lambda>ext.
       Ok (Map (leaf_content_entries spec normalized ext)))))))))))))"

definition v2_normalize_content :: "deps \<Rightarrow> string \<Rightarrow> cbor \<Rightarrow> cbor block_result" where
  "v2_normalize_content d name v =
     (if name = ''branch'' then normalize_branch_content d v
      else if name = ''leaf'' then normalize_leaf_content d v
      else canonicalize_value d v)"

definition v2_normalize_block :: "deps \<Rightarrow> v2_block \<Rightarrow> v2_block block_result" where
  "v2_normalize_block d b =
     (if v2_version b \<noteq> 2 then Err (UnsupportedVersion (v2_version b))
      else if type_name b = [] then Err (NonConforming ''version-2 block type must be non-empty'')
      else map_ok (\<lambda>c. b\<lparr>v2_content := c\<rparr>) (v2_normalize_content d (type_name b) (v2_content b)))"

definition v2_build_branch_block ::
    "deps \<Rightarrow> u64 \<Rightarrow> embedding_spec \<Rightarrow> branch_entry list \<Rightarrow> extension_map option
       \<Rightarrow> v2_block block_result" where
  "v2_build_branch_block d level spec es ext =
     v2_normalize_block d \<lparr>v2_version = 2, type_name = ''branch'',
       v2_content = Map (branch_content_entries level spec es ext)\<rparr>"

definition v2_build_leaf_block ::
    "deps \<Rightarrow> embedding_spec \<Rightarrow> leaf_entry list \<Rightarrow> extension_map option \<Rightarrow> v2_block block_result" where
  "v2_build_leaf_block d spec es ext =
     v2_normalize_block d \<lparr>v2_version = 2, type_name = ''leaf'',
       v2_content = Map (leaf_content_entries spec es ext)\<rparr>"

definition is_reserved_type_name :: "string \<Rightarrow> bool" where
  "is_reserved_type_name name = (name \<in> {''branch'', ''leaf''})"

definition build_custom_block :: "deps \<Rightarrow> string \<Rightarrow> cbor \<Rightarrow> v2_block block_result" where
  "build_custom_block d name v =
     (if is_reserved_type_name name
      then Err (NonConforming (''custom block type must not use reserved type names '' @
             [CHR 0x60] @ ''branch'' @ [CHR 0x60] @ '' or '' @ [CHR 0x60] @ ''leaf'' @ [CHR 0x60]))
      else v2_normalize_block d \<lparr>v2_version = 2, type_name = name, v2_content = v\<rparr>)"

section \<open>Serialisation and parsing\<close>

definition v2_block_value :: "v2_block \<Rightarrow> cbor" where
  "v2_block_value b =
     Map [(int_value 0, int_value (v2_version b)), (int_value 1, Text (type_name b)),
          (int_value 2, v2_content b)]"

definition v2_block_to_value :: "deps \<Rightarrow> v2_block \<Rightarrow> cbor block_result" where
  "v2_block_to_value d b = canonicalize_value d (v2_block_value b)"

definition v2_serialize_block :: "deps \<Rightarrow> v2_block \<Rightarrow> serialized_block block_result" where
  "v2_serialize_block d b =
     and_then (v2_normalize_block d b) (\<lambda>normalized.
     and_then (v2_block_to_value d normalized) (\<lambda>v.
     map_ok (\<lambda>bs. \<lparr>ser_bytes = bs, ser_hash = compute_block_hash d bs\<rparr>)
       (map_err MalformedCbor (into_writer d v))))"

definition v2_parse_block :: "deps \<Rightarrow> cbor \<Rightarrow> v2_block block_result" where
  "v2_parse_block d v =
     and_then (integer_keyed_map v ''block'') (\<lambda>fs.
     and_then (required_u64_field fs 0 ''block'') (\<lambda>(version, fs).
     if version \<noteq> 2 then Err (UnsupportedVersion version)
     else
     and_then (reject_unknown_keys fs [1, 2] ''block'') (\<lambda>_.
     and_then (required_text_field fs 1 ''block'') (\<lambda>(name, fs).
     and_then (required_field fs 2 ''block'') (\<lambda>(c, fs).
       v2_normalize_block d \<lparr>v2_version = version, type_name = name, v2_content = c\<rparr>)))))"

definition v2_deserialize_block_from_value ::
    "deps \<Rightarrow> cbor \<Rightarrow> byte list \<Rightarrow> block_hash \<Rightarrow> v2_validated_block block_result" where
  "v2_deserialize_block_from_value d v bs actual_hash =
     and_then (v2_parse_block d v) (\<lambda>b.
     and_then (v2_serialize_block d b) (\<lambda>s.
       if ser_bytes s \<noteq> bs
       then Err (NonConforming
              ''block bytes are not the canonical encoding of the decoded block'')
       else Ok \<lparr>v2v_block = b, v2v_hash = actual_hash\<rparr>))"

definition v2_deserialize_block ::
    "deps \<Rightarrow> byte list \<Rightarrow> block_hash \<Rightarrow> v2_validated_block block_result" where
  "v2_deserialize_block d bs expected_hash =
     (let actual_hash = compute_block_hash d bs
      in if actual_hash \<noteq> expected_hash then Err (HashMismatch expected_hash actual_hash)
         else and_then (decode_single_cbor_value d bs) (\<lambda>v.
                v2_deserialize_block_from_value d v bs actual_hash))"

section \<open>Classification\<close>

definition classify_block :: "deps \<Rightarrow> v2_block \<Rightarrow> v2_typed_block block_result" where
  "classify_block d b =
     (if type_name b = ''branch''
      then
        and_then (integer_keyed_map (v2_content b) ''content'') (\<lambda>fs.
        and_then (required_u64_field fs 1 ''content'') (\<lambda>(level, fs).
        and_then (required_field fs 2 ''content'') (\<lambda>(sv, fs).
        and_then (parse_embedding_spec sv) (\<lambda>spec.
        and_then (required_field fs 3 ''content'') (\<lambda>(ev, fs).
        and_then (expect_array ev ''branch entries'') (\<lambda>vs.
        and_then (traverse parse_branch_entry vs) (\<lambda>es.
        and_then (transpose_map (expect_arbitrary_map d) (map_of fs 15)) (\<lambda>ext.
          Ok (TypedBranch \<lparr>v2b_version = v2_version b, v2b_type_name = type_name b,
                v2b_level = level, v2b_embedding_spec = spec, v2b_entries = es,
                v2b_ext = ext\<rparr>)))))))))
      else if type_name b = ''leaf''
      then
        and_then (integer_keyed_map (v2_content b) ''content'') (\<lambda>fs.
        and_then (required_field fs 2 ''content'') (\<lambda>(sv, fs).
        and_then (parse_embedding_spec sv) (\<lambda>spec.
        and_then (required_field fs 3 ''content'') (\<lambda>(ev, fs).
        and_then (expect_array ev ''leaf entries'') (\<lambda>vs.
        and_then (traverse (parse_leaf_entry d) vs) (\<lambda>es.
        and_then (transpose_map (expect_arbitrary_map d) (map_of fs 15)) (\<lambda>ext.
          Ok (TypedLeaf \<lparr>v2l_version = v2_version b, v2l_type_name = type_name b,
                v2l_embedding_spec = spec, v2l_entries = es, v2l_ext = ext\<rparr>))))))))
      else Ok (TypedCustom \<lparr>v2c_version = v2_version b, v2c_type_name = type_name b,
                 v2c_content = v2_content b\<rparr>))"

definition into_typed_block :: "deps \<Rightarrow> v2_validated_block \<Rightarrow> v2_typed_block block_result" where
  "into_typed_block d v = classify_block d (v2v_block v)"

section \<open>Version dispatch\<close>

fun detect_version_loop :: "(cbor \<times> cbor) list \<Rightarrow> u64 option \<Rightarrow> u64 option block_result" where
  "detect_version_loop [] version = Ok version"
| "detect_version_loop ((k, v) # es) version =
     and_then (field_key k ''block'') (\<lambda>key.
       if key = 0
       then if version \<noteq> None then Err (NonConforming ''duplicate field key'')
            else (case v of
                    Integer i \<Rightarrow>
                      and_then (ok_or (u64_try_from i) (InvalidEntryShape
                                  ''expected an unsigned integer field value'')) (\<lambda>x.
                        detect_version_loop es (Some x))
                  | _ \<Rightarrow> Err (InvalidEntryShape ''expected an unsigned integer field value''))
       else detect_version_loop es version)"

definition detect_block_version_value :: "cbor \<Rightarrow> u64 block_result" where
  "detect_block_version_value v =
     (case v of
        Map es \<Rightarrow> and_then (detect_version_loop es None) (\<lambda>version.
                    ok_or version (MissingField ''block'' 0))
      | _ \<Rightarrow> Err (InvalidEntryShape ''expected a CBOR map''))"

fun serialize_versioned_block :: "deps \<Rightarrow> versioned_block \<Rightarrow> serialized_block block_result" where
  "serialize_versioned_block d (V1 b) = serialize_block d b"
| "serialize_versioned_block d (V2 b) = v2_serialize_block d b"

definition deserialize_versioned_block ::
    "deps \<Rightarrow> byte list \<Rightarrow> block_hash \<Rightarrow> decoded_block block_result" where
  "deserialize_versioned_block d bs expected_hash =
     (let actual_hash = compute_block_hash d bs
      in if actual_hash \<noteq> expected_hash then Err (HashMismatch expected_hash actual_hash)
         else
           and_then (decode_single_cbor_value d bs) (\<lambda>v.
           and_then (detect_block_version_value v) (\<lambda>version.
             if version = 1
             then map_ok DecodedV1 (deserialize_block_from_value d v bs actual_hash)
             else if version = 2
             then map_ok DecodedV2 (v2_deserialize_block_from_value d v bs actual_hash)
             else Err (UnsupportedVersion version))))"

section \<open>Normal version-2 blocks\<close>

definition v2_normal :: "deps \<Rightarrow> v2_block \<Rightarrow> bool" where
  "v2_normal d b = (v2_normalize_block d b = Ok b)"

fun ext_canonical :: "deps \<Rightarrow> extension_map option \<Rightarrow> bool" where
  "ext_canonical d None = True"
| "ext_canonical d (Some m) = canonical d (Map m)"

lemma ext_canonical_normalized: "normalize_optional_map d m = Ok ext \<Longrightarrow> ext_canonical d ext"
  using normalize_optional_map_Ok [of d m ext] by (cases ext) auto

lemma ext_canonical_fix: "ext_canonical d ext \<Longrightarrow> normalize_optional_map d ext = Ok ext"
  by (rule normalize_optional_map_fix) (cases ext; simp)

text \<open>What the two reserved contents look like after normalisation.\<close>

definition branch_content_wf ::
    "deps \<Rightarrow> u64 \<Rightarrow> embedding_spec \<Rightarrow> branch_entry list \<Rightarrow> extension_map option \<Rightarrow> bool" where
  "branch_content_wf d level spec es ext =
     (level \<noteq> 0 \<and> validate_embedding_spec spec = Ok () \<and> validate_ebcp_branch spec ext es = Ok () \<and>
      list_all (\<lambda>e. hash_wf (be_child e)) es \<and> sort_branch_entries es = Ok es \<and>
      ext_canonical d ext)"

definition leaf_content_wf ::
    "deps \<Rightarrow> embedding_spec \<Rightarrow> leaf_entry list \<Rightarrow> extension_map option \<Rightarrow> bool" where
  "leaf_content_wf d spec es ext =
     (validate_embedding_spec spec = Ok () \<and> \<not> is_ebcp_encoding (encoding spec) \<and>
      (\<exists>e. es = [e] \<and> canonical d (Map (le_metadata e))) \<and>
      ext_canonical d ext)"

lemma ext_entry_simps [simp]:
  "ext_entry None = []" "ext_entry (Some m) = [(int_value 15, Map m)]"
  by (simp_all add: ext_entry_def)

lemma sort_branch_entries_set: "sort_branch_entries es = Ok es' \<Longrightarrow> set es' = set es"
  by (auto simp: sort_branch_entries_Ok)

lemma traverse_parse_branch_wf:
  "traverse parse_branch_entry vs = Ok es \<Longrightarrow> list_all (\<lambda>e. hash_wf (be_child e)) es"
  by (auto simp: list_all_iff dest!: traverse_Ok_set dest: parse_branch_entry_wf)

lemma normalize_branch_content_Ok:
  assumes "normalize_branch_content d v = Ok c"
  shows "\<exists>level spec es ext. c = Map (branch_content_entries level spec es ext) \<and>
    branch_content_wf d level spec es ext"
proof -
  from assms obtain level spec vs es0 es ext0 ext
    where c: "c = Map (branch_content_entries level spec es ext)" and "level \<noteq> 0"
      and "validate_embedding_spec spec = Ok ()" and es0: "traverse parse_branch_entry vs = Ok es0"
      and ext: "normalize_optional_map d ext0 = Ok ext"
      and val: "validate_ebcp_branch spec ext es0 = Ok ()" and es: "sort_branch_entries es0 = Ok es"
    unfolding normalize_branch_content_def by (auto simp: outcome_simps split: if_splits)
  moreover have "validate_ebcp_branch spec ext es = Ok ()"
    using val sort_branch_entries_set [OF es] by (rule validate_ebcp_branch_set)
  moreover have "list_all (\<lambda>e. hash_wf (be_child e)) es"
    using traverse_parse_branch_wf [OF es0] sort_branch_entries_set [OF es]
    by (simp add: list_all_iff)
  ultimately show ?thesis using ext_canonical_normalized [OF ext] sort_branch_entries_idem [OF es]
    unfolding branch_content_wf_def by blast
qed

lemma normalize_leaf_content_Ok:
  assumes "normalize_leaf_content d v = Ok c"
  shows "\<exists>spec es ext. c = Map (leaf_content_entries spec es ext) \<and> leaf_content_wf d spec es ext"
proof -
  from assms obtain spec es0 es ext0 ext
    where c: "c = Map (leaf_content_entries spec es ext)"
      and spec: "validate_embedding_spec spec = Ok ()" "\<not> is_ebcp_encoding (encoding spec)"
      and len: "length es0 = 1" and es: "traverse (normalize_leaf_entry d) es0 = Ok es"
      and ext: "normalize_optional_map d ext0 = Ok ext"
    unfolding normalize_leaf_content_def by (auto simp: outcome_simps split: if_splits)
  obtain e0 where "es0 = [e0]" using len by (cases es0) auto
  with es obtain e where "es = [e]" and "canonical d (Map (le_metadata e))"
    by (auto simp: outcome_simps normalize_leaf_entry_Ok dest!: normalize_map_canonical)
  with c spec ext_canonical_normalized [OF ext] show ?thesis
    unfolding leaf_content_wf_def by blast
qed

lemma traverse_branch_values:
  "list_all (\<lambda>e. hash_wf (be_child e)) es \<Longrightarrow>
     traverse parse_branch_entry (map branch_entry_to_value es) = Ok es"
  using traverse_all_Ok [of es "\<lambda>e. parse_branch_entry (branch_entry_to_value e)" id]
  by (simp add: traverse_map parse_branch_entry_value list_all_iff)

lemma normalize_branch_content_fix:
  assumes "branch_content_wf d level spec es ext"
  shows "normalize_branch_content d (Map (branch_content_entries level spec es ext)) =
    Ok (Map (branch_content_entries level spec es ext))"
  using assms ext_canonical_fix [of d ext] traverse_branch_values [of es]
  by (cases ext)
    (simp_all add: branch_content_wf_def normalize_branch_content_def branch_content_entries_def
      integer_keyed_map_def reject_unknown_keys_def required_u64_field_def
      parse_embedding_spec_value expect_array_def expect_arbitrary_map_canonical)

lemma normalize_leaf_content_fix:
  assumes "leaf_content_wf d spec es ext"
  shows "normalize_leaf_content d (Map (leaf_content_entries spec es ext)) =
    Ok (Map (leaf_content_entries spec es ext))"
proof -
  obtain e where es: "es = [e]" and e: "canonical d (Map (le_metadata e))"
    using assms by (auto simp: leaf_content_wf_def)
  have "normalize_leaf_entry d e = Ok e"
    using normalize_map_fix [OF e] by (simp add: normalize_leaf_entry_Ok)
  then show ?thesis
    using assms ext_canonical_fix [of d ext] e
    by (cases ext)
      (simp_all add: es leaf_content_wf_def normalize_leaf_content_def leaf_content_entries_def
        integer_keyed_map_def reject_unknown_keys_def parse_embedding_spec_value expect_array_def
        expect_arbitrary_map_canonical parse_leaf_entry_value)
qed

lemma v2_normalize_content_idem:
  assumes "v2_normalize_content d name v = Ok c"
  shows "v2_normalize_content d name c = Ok c"
  using assms canonicalize_idem [of d v c]
  by (auto simp: v2_normalize_content_def canonical_def normalize_branch_content_fix
      normalize_leaf_content_fix split: if_splits
      dest!: normalize_branch_content_Ok normalize_leaf_content_Ok)

lemma v2_normalize_block_Ok:
  "v2_normalize_block d b = Ok b' \<longleftrightarrow>
     v2_version b = 2 \<and> type_name b \<noteq> [] \<and>
     (\<exists>c. v2_normalize_content d (type_name b) (v2_content b) = Ok c \<and> b' = b\<lparr>v2_content := c\<rparr>)"
  by (auto simp: v2_normalize_block_def outcome_simps)

lemma v2_normalize_block_idem: "v2_normalize_block d b = Ok b' \<Longrightarrow> v2_normal d b'"
  by (auto simp: v2_normal_def v2_normalize_block_Ok dest: v2_normalize_content_idem)

lemma v2_parse_block_value: "v2_normal d b \<Longrightarrow> v2_parse_block d (v2_block_value b) = Ok b"
  by (cases b) (auto simp: v2_parse_block_def v2_block_value_def integer_keyed_map_def
      required_u64_field_def required_text_field_def reject_unknown_keys_def v2_normal_def
      v2_normalize_block_Ok)

lemma v2_parse_block_Ok: "v2_parse_block d v = Ok b \<Longrightarrow> v2_normal d b"
  by (auto simp: v2_parse_block_def outcome_simps dest: v2_normalize_block_idem split: if_splits)

lemma classify_branch:
  assumes "branch_content_wf d level spec es ext" and "type_name b = ''branch''"
    and "v2_content b = Map (branch_content_entries level spec es ext)"
  shows "classify_block d b =
    Ok (TypedBranch \<lparr>v2b_version = v2_version b, v2b_type_name = ''branch'', v2b_level = level,
          v2b_embedding_spec = spec, v2b_entries = es, v2b_ext = ext\<rparr>)"
  using assms traverse_branch_values [of es]
  by (cases ext)
    (simp_all add: branch_content_wf_def classify_block_def branch_content_entries_def
      integer_keyed_map_def required_u64_field_def
      parse_embedding_spec_value expect_array_def expect_arbitrary_map_canonical)

lemma classify_leaf:
  assumes "leaf_content_wf d spec es ext" and "type_name b = ''leaf''"
    and "v2_content b = Map (leaf_content_entries spec es ext)"
  shows "classify_block d b =
    Ok (TypedLeaf \<lparr>v2l_version = v2_version b, v2l_type_name = ''leaf'',
          v2l_embedding_spec = spec, v2l_entries = es, v2l_ext = ext\<rparr>)"
  using assms
  by (cases ext)
    (auto simp: leaf_content_wf_def classify_block_def leaf_content_entries_def
      integer_keyed_map_def parse_leaf_entry_value
      parse_embedding_spec_value expect_array_def expect_arbitrary_map_canonical)

lemma v2_normal_content:
  "v2_normal d b \<Longrightarrow> v2_normalize_content d (type_name b) (v2_content b) = Ok (v2_content b)"
  by (cases b) (auto simp: v2_normal_def v2_normalize_block_Ok)

lemma v2_classify_cases:
  assumes "v2_normal d b"
  shows "\<exists>t. classify_block d b = Ok t \<and>
    (case t of
       TypedBranch x \<Rightarrow> type_name b = ''branch'' \<and> v2b_level x \<noteq> 0 \<and>
         sorted_wrt (\<lambda>y z. compare_branch_entries y < compare_branch_entries z) (v2b_entries x) \<and>
         v2_content b = Map (branch_content_entries (v2b_level x) (v2b_embedding_spec x)
           (v2b_entries x) (v2b_ext x))
     | TypedLeaf x \<Rightarrow> type_name b = ''leaf'' \<and> length (v2l_entries x) = 1 \<and>
         v2_content b = Map (leaf_content_entries (v2l_embedding_spec x) (v2l_entries x) (v2l_ext x))
     | TypedCustom x \<Rightarrow> \<not> is_reserved_type_name (type_name b) \<and> v2_content b = v2c_content x \<and>
         canonical d (v2c_content x))"
proof -
  note c = v2_normal_content [OF assms, unfolded v2_normalize_content_def]
  consider (branch) "type_name b = ''branch''" | (leaf) "type_name b = ''leaf''"
    | (custom) "\<not> is_reserved_type_name (type_name b)"
    by (auto simp: is_reserved_type_name_def)
  then show ?thesis
  proof cases
    case branch
    with c obtain level spec es ext where
      content: "v2_content b = Map (branch_content_entries level spec es ext)"
      and wf: "branch_content_wf d level spec es ext"
      by (auto dest: normalize_branch_content_Ok)
    with classify_branch [OF wf branch content] content branch sort_branch_entries_strict [of es es]
    show ?thesis by (simp add: branch_content_wf_def)
  next
    case leaf
    with c obtain spec es ext where
      content: "v2_content b = Map (leaf_content_entries spec es ext)"
      and wf: "leaf_content_wf d spec es ext"
      by (auto dest: normalize_leaf_content_Ok)
    with classify_leaf [OF wf leaf content] content leaf
    show ?thesis by (auto simp: leaf_content_wf_def)
  next
    case custom
    then show ?thesis using c
      by (auto simp: classify_block_def is_reserved_type_name_def canonical_def)
  qed
qed

text \<open>
  Every normalised version-2 block can be classified, and its content can be
  rebuilt from the classification; a reserved type yields its typed form with a positive level and
  entries in strictly ascending order (branch), or exactly one entry (leaf).
\<close>

theorem v2_classify_total:
  assumes "v2_normal d b"
  shows "\<exists>t. classify_block d b = Ok t \<and>
    (case t of
       TypedBranch x \<Rightarrow> type_name b = ''branch'' \<and> v2b_level x \<noteq> 0 \<and>
         sorted_wrt (\<lambda>y z. compare_branch_entries y < compare_branch_entries z) (v2b_entries x) \<and>
         v2_content b = Map (branch_content_entries (v2b_level x) (v2b_embedding_spec x)
           (v2b_entries x) (v2b_ext x))
     | TypedLeaf x \<Rightarrow> type_name b = ''leaf'' \<and> length (v2l_entries x) = 1 \<and>
         v2_content b = Map (leaf_content_entries (v2l_embedding_spec x) (v2l_entries x) (v2l_ext x))
     | TypedCustom x \<Rightarrow> \<not> is_reserved_type_name (type_name b) \<and> v2_content b = v2c_content x \<and>
         canonical d (v2c_content x))"
  using assms by (rule v2_classify_cases)

section \<open>Serialisation under a codec\<close>

context codec
begin

lemma keyed_from_one_canonical:
  assumes "sorted_wrt (<) (map fst kvs)" and "list_all (\<lambda>(k, v). k < 24 \<and> canonical d v) kvs"
  shows "canonical d (Map (keyed kvs))"
  using assms by (intro keyed_canonical) (auto simp: list_all_iff)

lemma branch_content_canonical:
  assumes "branch_content_wf d level spec es ext"
  shows "canonical d (Map (branch_content_entries level spec es ext))"
proof -
  have "canonical d (Map (keyed ([(1, int_value level), (2, embedding_spec_to_value spec),
      (3, Array (map branch_entry_to_value es))]
      @ (case ext of None \<Rightarrow> [] | Some m \<Rightarrow> [(15, Map m)]))))"
    using assms array_canonical [of "map branch_entry_to_value es"]
    by (intro keyed_from_one_canonical)
      (auto simp: branch_content_wf_def atom_canonical embedding_spec_canonical
        branch_entry_canonical split: option.splits)
  then show ?thesis
    by (cases ext) (simp_all add: branch_content_entries_def keyed_simps)
qed

lemma leaf_content_canonical:
  assumes "leaf_content_wf d spec es ext"
  shows "canonical d (Map (leaf_content_entries spec es ext))"
proof -
  have "canonical d (Map (keyed ([(2, embedding_spec_to_value spec),
      (3, Array (map leaf_entry_to_value es))]
      @ (case ext of None \<Rightarrow> [] | Some m \<Rightarrow> [(15, Map m)]))))"
    using assms array_canonical [of "map leaf_entry_to_value es"]
    by (intro keyed_from_one_canonical)
      (auto simp: leaf_content_wf_def embedding_spec_canonical
        leaf_entry_canonical split: option.splits)
  then show ?thesis
    by (cases ext) (simp_all add: leaf_content_entries_def keyed_simps)
qed

lemma v2_content_canonical: "v2_normal d b \<Longrightarrow> canonical d (v2_content b)"
  using v2_normal_content [of d b]
  by (auto simp: v2_normalize_content_def split: if_splits dest: canonicalize_idem
      dest!: normalize_branch_content_Ok normalize_leaf_content_Ok
      intro: branch_content_canonical leaf_content_canonical)

lemma v2_block_value_canonical: "v2_normal d b \<Longrightarrow> canonical d (v2_block_value b)"
  unfolding v2_block_value_def
  by (intro triple_map_canonical atom_canonical v2_content_canonical)

lemma v2_serialize_block_Ok:
  "v2_serialize_block d b = Ok s \<longleftrightarrow>
     (\<exists>b' bs. v2_normalize_block d b = Ok b' \<and> into_writer d (v2_block_value b') = Ok bs \<and>
        s = \<lparr>ser_bytes = bs, ser_hash = compute_block_hash d bs\<rparr>)"
proof (cases "v2_normalize_block d b")
  case (Ok b')
  then have "v2_block_to_value d b' = Ok (v2_block_value b')"
    using v2_block_value_canonical [OF v2_normalize_block_idem [OF Ok]]
    by (simp add: v2_block_to_value_def canonical_def)
  with Ok show ?thesis by (auto simp: v2_serialize_block_def outcome_simps)
qed (simp_all add: v2_serialize_block_def)

lemma v2_serialize_normalized:
  "v2_normalize_block d b = Ok b' \<Longrightarrow> v2_serialize_block d b' = v2_serialize_block d b"
  using v2_normalize_block_idem [of d b b'] by (simp add: v2_serialize_block_def v2_normal_def)

end

section \<open>Version detection\<close>

text \<open>
  The version loop agrees with the map the parser builds: \<open>version\<close> is what the entries before
  say about field 0.
\<close>

lemma detect_version_insert:
  assumes "insert_fields ''block'' es fs = Ok fs'" and "map_of fs' 0 = Some (Integer i)"
    and "u64_try_from i = Some x"
    and "map_of fs 0 = None \<and> version = None \<or> map_of fs 0 \<noteq> None \<and> version = Some x"
  shows "detect_version_loop es version = Ok (Some x)"
  using assms
proof (induction es arbitrary: fs version)
  case (Cons e es)
  obtain k v where e: "e = (k, v)" by (cases e)
  from Cons.prems(1) obtain key where key: "field_key k ''block'' = Ok key"
    and new: "map_of fs key = None" and rest: "insert_fields ''block'' es ((key, v) # fs) = Ok fs'"
    unfolding e by (rule insert_fields_ConsE)
  show ?case
  proof (cases "key = 0")
    case True
    then have "v = Integer i" using insert_fields_lookup [OF rest, of 0 v] Cons.prems(2) by simp
    with True new key Cons.prems(3,4) Cons.IH [OF rest Cons.prems(2,3), of "Some x"] show ?thesis
      by (simp add: e)
  next
    case False
    with key Cons.prems(4) Cons.IH [OF rest Cons.prems(2,3), of version] show ?thesis by (simp add: e)
  qed
qed auto

lemma detect_version_Ok:
  assumes "integer_keyed_map v ''block'' = Ok fs" and "required_u64_field fs 0 ''block'' = Ok (x, rest)"
  shows "detect_block_version_value v = Ok x"
proof -
  from assms(1) obtain es where v: "v = Map es" and es: "insert_fields ''block'' es [] = Ok fs"
    by (auto simp: integer_keyed_map_def split: cbor.splits)
  from assms(2) obtain i where "map_of fs 0 = Some (Integer i)" and "u64_try_from i = Some x"
    by (auto simp: required_u64_field_Ok)
  from detect_version_insert [OF es this, of None] show ?thesis
    by (simp add: detect_block_version_value_def v)
qed

lemma parse_block_version: "parse_block d v = Ok b \<Longrightarrow> detect_block_version_value v = Ok 1"
  by (auto simp: parse_block_def outcome_simps validate_version_def dest: detect_version_Ok
      split: if_splits)

lemma v2_parse_block_version: "v2_parse_block d v = Ok b \<Longrightarrow> detect_block_version_value v = Ok 2"
  by (auto simp: v2_parse_block_def outcome_simps dest: detect_version_Ok split: if_splits)

lemma dispatch_agrees:
  "(deserialize_versioned_block d bs h = Ok (DecodedV1 v) \<longleftrightarrow> deserialize_block d bs h = Ok v) \<and>
   (deserialize_versioned_block d bs h = Ok (DecodedV2 w) \<longleftrightarrow> v2_deserialize_block d bs h = Ok w)"
proof (cases "compute_block_hash d bs = h")
  case True
  then show ?thesis
  proof (cases "decode_single_cbor_value d bs")
    case (Ok x)
    with True show ?thesis
      by (cases "parse_block d x"; cases "v2_parse_block d x"; cases "detect_block_version_value x")
        (auto simp: deserialize_versioned_block_def deserialize_block_def v2_deserialize_block_def
          deserialize_block_from_value_def v2_deserialize_block_from_value_def Let_def outcome_simps
          dest: parse_block_version v2_parse_block_version)
  qed (simp_all add: deserialize_versioned_block_def deserialize_block_def v2_deserialize_block_def)
qed (simp add: deserialize_versioned_block_def deserialize_block_def v2_deserialize_block_def Let_def)

text \<open>
  The version-dispatching deserialiser accepts bytes as version 1 (version 2)
  exactly when the version-1 (version-2) deserialiser accepts them, with the same result; so no
  bytes are accepted as both.
\<close>

theorem versioned_dispatch:
  "(deserialize_versioned_block d bs h = Ok (DecodedV1 v) \<longleftrightarrow> deserialize_block d bs h = Ok v) \<and>
   (deserialize_versioned_block d bs h = Ok (DecodedV2 w) \<longleftrightarrow> v2_deserialize_block d bs h = Ok w)"
  by (rule dispatch_agrees)

section \<open>Both versions together\<close>

fun normalize_versioned :: "deps \<Rightarrow> versioned_block \<Rightarrow> versioned_block block_result" where
  "normalize_versioned d (V1 b) = map_ok V1 (normalize_block d b)"
| "normalize_versioned d (V2 b) = map_ok V2 (v2_normalize_block d b)"

fun versioned_value :: "versioned_block \<Rightarrow> cbor" where
  "versioned_value (V1 b) = block_value b"
| "versioned_value (V2 b) = v2_block_value b"

fun versioned_wf :: "versioned_block \<Rightarrow> bool" where
  "versioned_wf (V1 b) = hashes_wf b"
| "versioned_wf (V2 b) = True"

fun decoded_as :: "versioned_block \<Rightarrow> block_hash \<Rightarrow> decoded_block" where
  "decoded_as (V1 b) h = DecodedV1 \<lparr>vb_block = b, vb_hash = h\<rparr>"
| "decoded_as (V2 b) h = DecodedV2 \<lparr>v2v_block = b, v2v_hash = h\<rparr>"

context codec
begin

lemma serialize_versioned_Ok:
  "serialize_versioned_block d b = Ok s \<longleftrightarrow>
     (\<exists>b' bs. normalize_versioned d b = Ok b' \<and> into_writer d (versioned_value b') = Ok bs \<and>
        s = \<lparr>ser_bytes = bs, ser_hash = compute_block_hash d bs\<rparr>)"
  by (cases b) (auto simp: serialize_block_Ok v2_serialize_block_Ok outcome_simps)

lemma v2_normalize_content_no_panic [simp]: "v2_normalize_content d name v \<noteq> Panic"
  by (auto simp: v2_normalize_content_def normalize_branch_content_def normalize_leaf_content_def
      canonicalize_no_panic outcome_simps dest!: traverse_eq_Panic split: if_splits)

lemma v2_normalize_block_no_panic [simp]: "v2_normalize_block d b \<noteq> Panic"
  by (simp add: v2_normalize_block_def outcome_simps)

lemma v2_serialize_block_no_panic [simp]: "v2_serialize_block d b \<noteq> Panic"
proof (cases "v2_normalize_block d b")
  case (Ok b')
  obtain bs where "into_writer d (v2_block_value b') = Ok bs" using writer_total by blast
  with Ok v2_serialize_block_Ok [of b "\<lparr>ser_bytes = bs, ser_hash = compute_block_hash d bs\<rparr>"]
  show ?thesis by auto
qed (simp_all add: v2_serialize_block_def)

lemma v2_parse_block_no_panic [simp]: "v2_parse_block d v \<noteq> Panic"
  by (auto simp: v2_parse_block_def outcome_simps split: if_splits)

lemma detect_version_loop_no_panic [simp]: "detect_version_loop es version \<noteq> Panic"
  by (induction es version rule: detect_version_loop.induct)
    (auto simp: outcome_simps split: cbor.splits)

lemma detect_block_version_no_panic [simp]: "detect_block_version_value v \<noteq> Panic"
  by (auto simp: detect_block_version_value_def outcome_simps split: cbor.splits)

lemma deserialize_versioned_no_panic:
  "from_reader d bs \<noteq> Panic \<Longrightarrow> deserialize_versioned_block d bs h \<noteq> Panic"
  by (auto simp: deserialize_versioned_block_def deserialize_block_from_value_def
      v2_deserialize_block_from_value_def decode_single_cbor_value_def Let_def outcome_simps
      split: if_splits)

lemma serialize_versioned_no_panic: "serialize_versioned_block d b \<noteq> Panic"
  by (cases b) simp_all

end

context readable_codec
begin

lemma v2_deserialize_serialized:
  assumes norm: "v2_normalize_block d b = Ok b'" and rd: "readable (v2_block_value b')"
    and ser: "v2_serialize_block d b = Ok s"
  shows "v2_deserialize_block d (ser_bytes s) (ser_hash s) =
    Ok \<lparr>v2v_block = b', v2v_hash = ser_hash s\<rparr>"
proof -
  obtain bs where w: "into_writer d (v2_block_value b') = Ok bs"
    and s: "s = \<lparr>ser_bytes = bs, ser_hash = compute_block_hash d bs\<rparr>"
    using ser norm by (auto simp: v2_serialize_block_Ok)
  have "v2_parse_block d (v2_block_value b') = Ok b'"
    using v2_normalize_block_idem [OF norm] by (rule v2_parse_block_value)
  moreover have "v2_serialize_block d b' = Ok s"
    using norm ser by (simp add: v2_serialize_normalized)
  ultimately show ?thesis
    using decode_written [OF rd w]
    by (simp add: v2_deserialize_block_def v2_deserialize_block_from_value_def s)
qed

lemma deserialize_versioned_serialized:
  assumes "normalize_versioned d b = Ok b'" and "versioned_wf b"
    and "readable (versioned_value b')" and "serialize_versioned_block d b = Ok s"
  shows "deserialize_versioned_block d (ser_bytes s) (ser_hash s) = Ok (decoded_as b' (ser_hash s))"
proof (cases b)
  case (V1 x)
  with assms obtain x' where "b' = V1 x'" and "normalize_block d x = Ok x'"
    by (auto simp: outcome_simps)
  with assms V1 deserialize_serialized [of x x' s] show ?thesis
    by (simp add: dispatch_agrees)
next
  case (V2 x)
  with assms obtain x' where "b' = V2 x'" and "v2_normalize_block d x = Ok x'"
    by (auto simp: outcome_simps)
  with assms V2 v2_deserialize_serialized [of x x' s] show ?thesis
    by (simp add: dispatch_agrees)
qed

lemma same_bytes_same_block:
  assumes "serialize_versioned_block d b = Ok s" and "serialize_versioned_block d c = Ok t"
    and "ser_bytes s = ser_bytes t"
    and "normalize_versioned d b = Ok b'" and "normalize_versioned d c = Ok c'"
    and "readable (versioned_value b')" and "readable (versioned_value c')"
    and "versioned_wf b" and "versioned_wf c"
  shows "b' = c'"
proof -
  have hash: "ser_hash s = ser_hash t"
    using assms(1-3) by (auto simp: serialize_versioned_Ok)
  have "decoded_as b' (ser_hash s) = decoded_as c' (ser_hash s)"
    using deserialize_versioned_serialized [OF assms(4,8,6,1)]
      deserialize_versioned_serialized [OF assms(5,9,7,2)] assms(3) hash by simp
  then show ?thesis by (cases b'; cases c') auto
qed

end

text \<open>
  C8: the bytes of a serialised block of either version deserialise through the
  version dispatch, under the reported hash, to the normalised block of the same version.
\<close>

theorem versioned_roundtrip:
  assumes "readable_codec d readable"
    and "normalize_versioned d b = Ok b'" and "versioned_wf b" and "readable (versioned_value b')"
    and "serialize_versioned_block d b = Ok s"
  shows "deserialize_versioned_block d (ser_bytes s) (ser_hash s) = Ok (decoded_as b' (ser_hash s))"
  using assms by (rule readable_codec.deserialize_versioned_serialized)

text \<open>
  C9: two blocks, of any versions, that are stored under the same hash have the
  same normal form, unless their encodings are a collision of the digest.
\<close>

theorem hash_identifies_block:
  assumes "readable_codec d readable"
    and "serialize_versioned_block d b = Ok s" and "serialize_versioned_block d c = Ok t"
    and "ser_hash s = ser_hash t"
    and "normalize_versioned d b = Ok b'" and "normalize_versioned d c = Ok c'"
    and "readable (versioned_value b')" and "readable (versioned_value c')"
    and "versioned_wf b" and "versioned_wf c"
  shows "b' = c' \<or>
    (ser_bytes s \<noteq> ser_bytes t \<and> sha256_digest d (ser_bytes s) = sha256_digest d (ser_bytes t))"
proof -
  have "codec d" using assms(1) by (rule readable_codec.axioms(1))
  then have "sha256_digest d (ser_bytes s) = sha256_digest d (ser_bytes t)"
    using assms(2-4) by (auto simp: codec.serialize_versioned_Ok compute_block_hash_def)
  with readable_codec.same_bytes_same_block [OF assms(1-3) _ assms(5-10)] show ?thesis by blast
qed

lemma v2_deserialize_block_Ok:
  assumes "v2_deserialize_block d bs h = Ok v"
  shows "v2_normal d (v2v_block v) \<and> v2v_hash v = h \<and>
    v2_serialize_block d (v2v_block v) = Ok \<lparr>ser_bytes = bs, ser_hash = h\<rparr>"
proof -
  have "ser_hash s = compute_block_hash d (ser_bytes s)"
    if "v2_serialize_block d b = Ok s" for b s
    using that by (auto simp: v2_serialize_block_def outcome_simps)
  with assms show ?thesis
    by (auto simp: v2_deserialize_block_def v2_deserialize_block_from_value_def Let_def outcome_simps
        dest: v2_parse_block_Ok split: if_splits)
qed

text \<open>
  What the version-2 deserialiser accepts is normal, carries the expected
  hash, serialises to exactly the accepted bytes and hash, and can be classified.
\<close>

theorem v2_accepted_canonical:
  assumes "v2_deserialize_block d bs h = Ok v"
  shows "v2_normal d (v2v_block v) \<and> v2v_hash v = h \<and>
    v2_serialize_block d (v2v_block v) = Ok \<lparr>ser_bytes = bs, ser_hash = h\<rparr> \<and>
    (\<exists>t. into_typed_block d v = Ok t)"
  using v2_deserialize_block_Ok [OF assms] v2_classify_cases [of d "v2v_block v"]
  by (auto simp: into_typed_block_def)

text \<open>
  With a codec whose reader does not panic, neither serialising a block of
  either version nor deserialising any bytes under any hash panics.
\<close>

theorem versioned_no_panic:
  assumes "codec d" and "from_reader d bs \<noteq> Panic"
  shows "deserialize_versioned_block d bs h \<noteq> Panic \<and> serialize_versioned_block d b \<noteq> Panic"
  using codec.deserialize_versioned_no_panic [OF assms] codec.serialize_versioned_no_panic [OF assms(1)]
  by simp

end
