(* ===== verification/Block_Store.thy ===== *)
theory Block_Store
  imports Block_V2
begin

text \<open>
  The storage contract (\<open>src/crates/lexongraph-block-store/src/lib.rs\<close>): the trait \<open>BlockStore\<close> as
  a record of operations on a state, its provided methods (\<open>put\<close>, \<open>get\<close>) and the extension trait
  \<open>BlockStoreExt\<close> (\<open>put_blocks\<close>, \<open>put_versioned\<close>, \<open>put_versioned_blocks\<close>, \<open>get_decoded\<close>,
  \<open>list_block_ids\<close>). An operation takes the state of the store and returns its result together with
  the new state; a failed operation may have changed the state. The locale \<open>block_store\<close> is the
  contract a backend has to honour; what the provided methods guarantee is proved from it once.
\<close>

section \<open>Errors\<close>

datatype block_store_error =
    BackendFailure string
  | DecodeFailure block_error
  | ContractViolation block_error

fun display_store_error :: "block_store_error \<Rightarrow> string" where
  "display_store_error (BackendFailure message) = ''block store backend failure: '' @ message"
| "display_store_error (DecodeFailure e) =
     ''stored block bytes failed shared decode/validation: '' @ display_block_error e"
| "display_store_error (ContractViolation e) =
     ''block store contract violation: '' @ display_block_error e"

fun store_error_source :: "block_store_error \<Rightarrow> block_error option" where
  "store_error_source (DecodeFailure e) = Some e"
| "store_error_source (ContractViolation e) = Some e"
| "store_error_source (BackendFailure _) = None"

type_synonym 'a store_result = "(block_store_error, 'a) outcome"

section \<open>Telemetry events\<close>

record telemetry_event =
  ev_name :: string
  ev_message :: "string option"
  ev_attributes :: "(string \<times> string) list"

definition new_event :: "string \<Rightarrow> telemetry_event" where
  "new_event name = \<lparr>ev_name = name, ev_message = None, ev_attributes = []\<rparr>"

definition with_message :: "telemetry_event \<Rightarrow> string \<Rightarrow> telemetry_event" where
  "with_message ev message = ev\<lparr>ev_message := Some message\<rparr>"

text \<open>\<open>BTreeMap::insert\<close>: one entry per name, in ascending order.\<close>

fun attribute_insert :: "string \<Rightarrow> string \<Rightarrow> (string \<times> string) list \<Rightarrow> (string \<times> string) list" where
  "attribute_insert k v [] = [(k, v)]"
| "attribute_insert k v ((k', v') # kvs) =
     (if k = k' then (k, v) # kvs
      else if map (of_char :: char \<Rightarrow> nat) k < map of_char k' then (k, v) # (k', v') # kvs
      else (k', v') # attribute_insert k v kvs)"

definition with_attribute :: "telemetry_event \<Rightarrow> string \<Rightarrow> string \<Rightarrow> telemetry_event" where
  "with_attribute ev k v = ev\<lparr>ev_attributes := attribute_insert k v (ev_attributes ev)\<rparr>"

section \<open>The trait and its provided methods\<close>

text \<open>
  \<open>iter_block_ids\<close> gives a stream of results; the stream of a store that is not written to in the
  meantime is the list of its items, each an identifier or an error.
\<close>

record 's store_ops =
  put_block_bytes :: "'s \<Rightarrow> block_hash \<Rightarrow> byte list \<Rightarrow> unit store_result \<times> 's"
  put_block_bytes_batch :: "'s \<Rightarrow> (block_hash \<times> byte list) list \<Rightarrow> unit store_result \<times> 's"
  get_block_bytes :: "'s \<Rightarrow> block_hash \<Rightarrow> byte list option store_result \<times> 's"
  iter_block_ids :: "'s \<Rightarrow> block_hash store_result list store_result"

definition default_put_block_bytes_batch ::
    "'s \<Rightarrow> (block_hash \<times> byte list) list \<Rightarrow> unit store_result \<times> 's" where
  "default_put_block_bytes_batch s es =
     (Err (BackendFailure ''batch writes are not supported by this block store backend''), s)"

definition store_put ::
    "deps \<Rightarrow> 's store_ops \<Rightarrow> 's \<Rightarrow> block \<Rightarrow> block_hash store_result \<times> 's" where
  "store_put d ops s b =
     then_do (map_err ContractViolation (serialize_block d b), s) (\<lambda>ser s.
     then_do (put_block_bytes ops s (ser_hash ser) (ser_bytes ser)) (\<lambda>_ s.
       (Ok (ser_hash ser), s)))"

definition store_get ::
    "deps \<Rightarrow> 's store_ops \<Rightarrow> 's \<Rightarrow> block_hash \<Rightarrow> validated_block option store_result \<times> 's" where
  "store_get d ops s h =
     then_do (get_block_bytes ops s h) (\<lambda>found s.
       case found of
         None \<Rightarrow> (Ok None, s)
       | Some bs \<Rightarrow> (map_err DecodeFailure (map_ok Some (deserialize_block d bs h)), s))"

definition batch_entries :: "serialized_block list \<Rightarrow> (block_hash \<times> byte list) list" where
  "batch_entries sers = map (\<lambda>ser. (ser_hash ser, ser_bytes ser)) sers"

definition put_blocks ::
    "deps \<Rightarrow> 's store_ops \<Rightarrow> 's \<Rightarrow> block list \<Rightarrow> block_hash list store_result \<times> 's" where
  "put_blocks d ops s bs =
     then_do (traverse (\<lambda>b. map_err ContractViolation (serialize_block d b)) bs, s) (\<lambda>sers s.
     then_do (put_block_bytes_batch ops s (batch_entries sers)) (\<lambda>_ s.
       (Ok (map ser_hash sers), s)))"

definition put_versioned ::
    "deps \<Rightarrow> 's store_ops \<Rightarrow> 's \<Rightarrow> versioned_block \<Rightarrow> block_hash store_result \<times> 's" where
  "put_versioned d ops s b =
     then_do (map_err ContractViolation (serialize_versioned_block d b), s) (\<lambda>ser s.
     then_do (put_block_bytes ops s (ser_hash ser) (ser_bytes ser)) (\<lambda>_ s.
       (Ok (ser_hash ser), s)))"

definition put_versioned_blocks ::
    "deps \<Rightarrow> 's store_ops \<Rightarrow> 's \<Rightarrow> versioned_block list \<Rightarrow> block_hash list store_result \<times> 's" where
  "put_versioned_blocks d ops s bs =
     then_do (traverse (\<lambda>b. map_err ContractViolation (serialize_versioned_block d b)) bs, s) (\<lambda>sers s.
     then_do (put_block_bytes_batch ops s (batch_entries sers)) (\<lambda>_ s.
       (Ok (map ser_hash sers), s)))"

definition get_decoded ::
    "deps \<Rightarrow> 's store_ops \<Rightarrow> 's \<Rightarrow> block_hash \<Rightarrow> decoded_block option store_result \<times> 's" where
  "get_decoded d ops s h =
     then_do (get_block_bytes ops s h) (\<lambda>found s.
       case found of
         None \<Rightarrow> (Ok None, s)
       | Some bs \<Rightarrow> (map_err DecodeFailure (map_ok Some (deserialize_versioned_block d bs h)), s))"

text \<open>\<open>try_collect\<close>: the items up to the first error.\<close>

definition list_block_ids :: "'s store_ops \<Rightarrow> 's \<Rightarrow> block_hash list store_result" where
  "list_block_ids ops s = and_then (iter_block_ids ops s) (traverse (\<lambda>item. item))"

section \<open>The contract of a backend\<close>

text \<open>
  \<open>resident s h\<close> are the bytes the store holds under \<open>h\<close>; \<open>universe\<close> names the bytes each hash
  stands for, and an admissible write stores exactly those (block identifiers are content hashes).
  A backend may forget blocks (a cache does), but it neither invents nor alters bytes, keeps its
  invariant, holds what it reported as stored, returns what it holds, and does not panic.
\<close>

locale block_store =
  fixes ops :: "'s store_ops"
    and inv :: "'s \<Rightarrow> bool"
    and resident :: "'s \<Rightarrow> block_hash \<rightharpoonup> byte list"
    and universe :: "block_hash \<rightharpoonup> byte list"
  assumes put_inv:
      "inv s \<Longrightarrow> universe h = Some bs \<Longrightarrow> put_block_bytes ops s h bs = (r, s') \<Longrightarrow> inv s'"
    and put_no_panic:
      "inv s \<Longrightarrow> universe h = Some bs \<Longrightarrow> put_block_bytes ops s h bs = (r, s') \<Longrightarrow> r \<noteq> Panic"
    and put_sound:
      "inv s \<Longrightarrow> universe h = Some bs \<Longrightarrow> put_block_bytes ops s h bs = (r, s') \<Longrightarrow>
         resident s' k = Some v \<Longrightarrow> resident s k = Some v \<or> k = h \<and> v = bs"
    and put_stores:
      "inv s \<Longrightarrow> universe h = Some bs \<Longrightarrow> put_block_bytes ops s h bs = (Ok (), s') \<Longrightarrow>
         resident s' h = Some bs"
    and get_inv: "inv s \<Longrightarrow> get_block_bytes ops s h = (g, s') \<Longrightarrow> inv s'"
    and get_no_panic: "inv s \<Longrightarrow> get_block_bytes ops s h = (g, s') \<Longrightarrow> g \<noteq> Panic"
    and get_sound:
      "inv s \<Longrightarrow> get_block_bytes ops s h = (g, s') \<Longrightarrow> resident s' k = Some v \<Longrightarrow> resident s k = Some v"
    and get_returns: "inv s \<Longrightarrow> get_block_bytes ops s h = (Ok x, s') \<Longrightarrow> x = resident s h"
    and get_keeps:
      "inv s \<Longrightarrow> get_block_bytes ops s h = (Ok (Some bs), s') \<Longrightarrow> resident s' h = Some bs"
    and resident_universe: "inv s \<Longrightarrow> resident s h = Some bs \<Longrightarrow> universe h = Some bs"
    and iter_lists:
      "inv s \<Longrightarrow> iter_block_ids ops s = Ok items \<Longrightarrow> Ok h \<in> set items \<Longrightarrow> resident s h \<noteq> None"

section \<open>What the provided methods guarantee\<close>

text \<open>A sequence of raw operations, with the answers of the reads in order.\<close>

datatype store_op = PutBytes block_hash "byte list" | GetBytes block_hash

fun run_ops ::
    "'s store_ops \<Rightarrow> store_op list \<Rightarrow> 's \<Rightarrow> (block_hash \<times> byte list option store_result) list \<times> 's" where
  "run_ops ops [] s = ([], s)"
| "run_ops ops (PutBytes h bs # rest) s = run_ops ops rest (snd (put_block_bytes ops s h bs))"
| "run_ops ops (GetBytes h # rest) s =
     (let (r, s1) = get_block_bytes ops s h; (answers, s2) = run_ops ops rest s1
      in ((h, r) # answers, s2))"

fun op_admissible :: "(block_hash \<rightharpoonup> byte list) \<Rightarrow> store_op \<Rightarrow> bool" where
  "op_admissible universe (PutBytes h bs) = (universe h = Some bs)"
| "op_admissible universe (GetBytes h) = True"

context block_store
begin

lemma run_sound:
  assumes "inv s" and "list_all (op_admissible universe) os" and "run_ops ops os s = (answers, s')"
  shows "inv s' \<and> (\<forall>(h, r) \<in> set answers. r \<noteq> Panic \<and> (\<forall>bs. r = Ok (Some bs) \<longrightarrow> universe h = Some bs))"
  using assms
proof (induction os arbitrary: s answers s')
  case (Cons oper os)
  show ?case
  proof (cases oper)
    case (PutBytes h bs)
    obtain r s1 where put: "put_block_bytes ops s h bs = (r, s1)" by (cases "put_block_bytes ops s h bs")
    with Cons.prems PutBytes have "inv s1" by (auto intro: put_inv)
    with Cons.IH Cons.prems PutBytes put show ?thesis by simp
  next
    case (GetBytes h)
    obtain r s1 where get: "get_block_bytes ops s h = (r, s1)" by (cases "get_block_bytes ops s h")
    obtain as' s2 where rest: "run_ops ops os s1 = (as', s2)" by (cases "run_ops ops os s1")
    have "inv s1" using get Cons.prems(1) by (auto intro: get_inv)
    moreover have "universe h = Some bs" if "r = Ok (Some bs)" for bs
      using get_returns [of s h "Some bs" s1] resident_universe [of s h bs] Cons.prems(1) get that
      by simp
    moreover have "answers = (h, r) # as'" and "s' = s2"
      using Cons.prems(3) GetBytes get rest by simp_all
    ultimately show ?thesis
      using Cons.IH [OF _ _ rest] Cons.prems(2) get_no_panic [OF Cons.prems(1) get] by simp
  qed
qed simp

lemma put_then_get_bytes:
  assumes "inv s" and "universe h = Some bs" and "put_block_bytes ops s h bs = (Ok (), s1)"
    and "get_block_bytes ops s1 h = (Ok x, s2)"
  shows "x = Some bs \<and> inv s2 \<and> resident s2 h = Some bs"
proof -
  have "inv s1" and "resident s1 h = Some bs" using assms(1-3) by (auto intro: put_inv put_stores)
  moreover from this have "x = Some bs" using assms(4) get_returns by fastforce
  ultimately show ?thesis using assms(4) by (auto intro: get_inv get_keeps)
qed

lemma store_put_get:
  assumes rc: "readable_codec d readable" and inv: "inv s"
    and norm: "normalize_block d b = Ok b'" and wf: "hashes_wf b" and rd: "readable (block_value b')"
    and ser: "serialize_block d b = Ok ser" and uni: "universe (ser_hash ser) = Some (ser_bytes ser)"
    and put: "store_put d ops s b = (Ok h, s1)" and get: "get_block_bytes ops s1 h = (Ok x, s2)"
  shows "store_get d ops s1 h = (Ok (Some \<lparr>vb_block = b', vb_hash = h\<rparr>), s2)"
proof -
  have h: "h = ser_hash ser" and pb: "put_block_bytes ops s h (ser_bytes ser) = (Ok (), s1)"
    using put ser by (auto simp: store_put_def then_do_Ok)
  have "x = Some (ser_bytes ser)"
    using put_then_get_bytes [OF inv _ pb] uni get h by simp
  moreover have "deserialize_block d (ser_bytes ser) h = Ok \<lparr>vb_block = b', vb_hash = h\<rparr>"
    using readable_codec.deserialize_serialized [OF rc norm wf rd ser] h by simp
  ultimately show ?thesis using get by (simp add: store_get_def)
qed

lemma put_versioned_get_decoded:
  assumes rc: "readable_codec d readable" and inv: "inv s"
    and norm: "normalize_versioned d b = Ok b'" and wf: "versioned_wf b"
    and rd: "readable (versioned_value b')" and ser: "serialize_versioned_block d b = Ok ser"
    and uni: "universe (ser_hash ser) = Some (ser_bytes ser)"
    and put: "put_versioned d ops s b = (Ok h, s1)" and get: "get_block_bytes ops s1 h = (Ok x, s2)"
  shows "get_decoded d ops s1 h = (Ok (Some (decoded_as b' h)), s2)"
proof -
  have h: "h = ser_hash ser" and pb: "put_block_bytes ops s h (ser_bytes ser) = (Ok (), s1)"
    using put ser by (auto simp: put_versioned_def then_do_Ok)
  have "x = Some (ser_bytes ser)"
    using put_then_get_bytes [OF inv _ pb] uni get h by simp
  moreover have "deserialize_versioned_block d (ser_bytes ser) h = Ok (decoded_as b' h)"
    using readable_codec.deserialize_versioned_serialized [OF rc norm wf rd ser] h by simp
  ultimately show ?thesis using get by (simp add: get_decoded_def)
qed

end

end
