(* ===== verification/Search_Policies.thy ===== *)
theory Search_Policies
  imports Block_Store
begin

unbundle bit_operations_syntax

text \<open>
  The policies of \<open>src/crates/lexongraph-search/src/lib.rs\<close>: target preparation, the default
  compatibility check, the default cosine scorer on \<open>f32le\<close> and \<open>f64le\<close> embeddings with its
  integer score keys, the two published frontier selectors and the published profiles. The lemmas
  show that the score keys order candidates as their cosine values do, that the scorer is symmetric,
  and that both selectors return what the search loop demands of a selector.
\<close>

section \<open>Targets\<close>

record encoded_target =
  et_bytes :: "byte list"
  et_embedding_spec :: embedding_spec

record prepared_target =
  pt_target :: encoded_target
  pt_comparison_spec :: embedding_spec

datatype target_preparation_error = PreparationBlock block_error

fun display_target_preparation_error :: "target_preparation_error \<Rightarrow> string" where
  "display_target_preparation_error (PreparationBlock e) =
     ''failed to prepare target embedding: '' @ display_block_error e"

fun target_preparation_source :: "target_preparation_error \<Rightarrow> block_error option" where
  "target_preparation_source (PreparationBlock e) = Some e"

definition prepare_target_embedding ::
    "validated_block \<Rightarrow> f32 list \<Rightarrow> (target_preparation_error, prepared_target) outcome" where
  "prepare_target_embedding root_block logical_embedding =
     map_ok (\<lambda>p. \<lparr>pt_target = \<lparr>et_bytes = pct_bytes p, et_embedding_spec = pct_comparison_spec p\<rparr>,
                 pt_comparison_spec = pct_comparison_spec p\<rparr>)
       (map_err PreparationBlock (prepare_root_comparison_target root_block logical_embedding))"

section \<open>Scores\<close>

text \<open>\<open>total_order_key_f64\<close>: the bit pattern, made monotone as an unsigned number.\<close>

definition total_order_key_f64 :: "f64 \<Rightarrow> u64" where
  "total_order_key_f64 v =
     (if drop_bit 63 v = 0 then v XOR push_bit 63 1 else NOT v)"

datatype cosine_score = CosineScore u64

fun score_key :: "cosine_score \<Rightarrow> u64" where
  "score_key (CosineScore k) = k"

instantiation cosine_score :: linorder
begin

definition less_eq_cosine_score :: "cosine_score \<Rightarrow> cosine_score \<Rightarrow> bool" where
  "less_eq_cosine_score a b = (score_key a \<le> score_key b)"

definition less_cosine_score :: "cosine_score \<Rightarrow> cosine_score \<Rightarrow> bool" where
  "less_cosine_score a b = (score_key a < score_key b)"

instance
proof
  fix a b c :: cosine_score
  show "a \<le> a" by (simp add: less_eq_cosine_score_def)
  show "a \<le> b \<or> b \<le> a" by (auto simp: less_eq_cosine_score_def)
  show "a < b \<longleftrightarrow> a \<le> b \<and> \<not> b \<le> a" by (auto simp: less_eq_cosine_score_def less_cosine_score_def)
  show "a \<le> b \<Longrightarrow> b \<le> c \<Longrightarrow> a \<le> c" by (auto simp: less_eq_cosine_score_def)
  show "a \<le> b \<Longrightarrow> b \<le> a \<Longrightarrow> a = b" by (cases a; cases b) (simp add: less_eq_cosine_score_def)
qed

end

datatype policy_error =
    IncompatibleEmbeddingSpec embedding_spec embedding_spec
  | UnsupportedEncoding string
  | InvalidByteLength string string u64 nat nat
  | DimensionOverflow string u64
  | ZeroMagnitude string
  | NonFiniteValue string nat
  | NonFiniteScore

fun display_policy_error :: "policy_error \<Rightarrow> string" where
  "display_policy_error (IncompatibleEmbeddingSpec target candidate) =
     ''target embedding spec ('' @ encoding target @ '', '' @ show_nat (unat (dims target))
       @ '' dims) does not match candidate embedding spec ('' @ encoding candidate @ '', ''
       @ show_nat (unat (dims candidate)) @ '' dims)''"
| "display_policy_error (UnsupportedEncoding enc) = ''unsupported embedding encoding '' @ enc"
| "display_policy_error (InvalidByteLength role enc n expected actual) =
     role @ '' embedding length '' @ show_nat actual @ '' does not match encoding '' @ enc @ '' with ''
       @ show_nat (unat n) @ '' dims (expected '' @ show_nat expected @ '' bytes)''"
| "display_policy_error (DimensionOverflow enc n) =
     ''embedding spec with encoding '' @ enc @ '' and '' @ show_nat (unat n)
       @ '' dims is too large to validate''"
| "display_policy_error (ZeroMagnitude role) = role @ '' embedding must not have zero magnitude''"
| "display_policy_error (NonFiniteValue role index) =
     role @ '' embedding contains a non-finite value at index '' @ show_nat index"
| "display_policy_error NonFiniteScore = ''cosine similarity produced a non-finite score''"

type_synonym 'a policy_result = "(policy_error, 'a) outcome"

definition cosine_from_f64 :: "f64 \<Rightarrow> cosine_score policy_result" where
  "cosine_from_f64 v =
     (if \<not> f64_is_finite v then Err NonFiniteScore else Ok (CosineScore (total_order_key_f64 v)))"

definition ensure_matching_specs :: "embedding_spec \<Rightarrow> embedding_spec \<Rightarrow> unit policy_result" where
  "ensure_matching_specs target candidate =
     (if encoding target = encoding candidate \<and> dims target = dims candidate then Ok ()
      else Err (IncompatibleEmbeddingSpec target candidate))"

definition element_width :: "embedding_spec \<Rightarrow> nat policy_result" where
  "element_width spec =
     (if encoding spec = ''f32le'' then Ok 4
      else if encoding spec = ''f64le'' then Ok 8
      else Err (UnsupportedEncoding (encoding spec)))"

definition expected_byte_len :: "embedding_spec \<Rightarrow> nat \<Rightarrow> nat policy_result" where
  "expected_byte_len spec width =
     and_then (ok_or (checked_mul (unat (dims spec)) width)
                 (DimensionOverflow (encoding spec) (dims spec)))
       (\<lambda>expected. if expected \<le> usize_max then Ok expected
                   else Err (DimensionOverflow (encoding spec) (dims spec)))"

definition validate_embedding_bytes ::
    "byte list \<Rightarrow> embedding_spec \<Rightarrow> string \<Rightarrow> nat policy_result" where
  "validate_embedding_bytes bs spec role =
     and_then (element_width spec) (\<lambda>width.
     and_then (expected_byte_len spec width) (\<lambda>expected.
       if length bs \<noteq> expected
       then Err (InvalidByteLength role (encoding spec) (dims spec) expected (length bs))
       else Ok width))"

text \<open>\<open>from_le_bytes\<close> of one chunk, widened to \<open>f64\<close>; a value that is not finite gives nothing.\<close>

definition f64_from_le :: "byte list \<Rightarrow> f64" where
  "f64_from_le bs = word_of_nat (le_nat bs)"

definition read_f32_chunk :: "byte list \<Rightarrow> f64 option" where
  "read_f32_chunk c =
     (if f32_is_finite (f32_from_le c) then Some (f64_of_f32 (f32_from_le c)) else None)"

definition read_f64_chunk :: "byte list \<Rightarrow> f64 option" where
  "read_f64_chunk c = (if f64_is_finite (f64_from_le c) then Some (f64_from_le c) else None)"

text \<open>The loop of \<open>cosine_similarity_bytes\<close>; both element widths have the same body.\<close>

fun cosine_loop ::
    "(byte list \<Rightarrow> f64 option) \<Rightarrow> nat \<Rightarrow> (byte list \<times> byte list) list \<Rightarrow> f64 \<Rightarrow> f64 \<Rightarrow> f64
       \<Rightarrow> (f64 \<times> f64 \<times> f64) policy_result" where
  "cosine_loop rd index [] dot target_norm_sq candidate_norm_sq =
     Ok (dot, target_norm_sq, candidate_norm_sq)"
| "cosine_loop rd index ((t, c) # rest) dot target_norm_sq candidate_norm_sq =
     (case rd t of
        None \<Rightarrow> Err (NonFiniteValue ''target'' index)
      | Some x \<Rightarrow>
          case rd c of
            None \<Rightarrow> Err (NonFiniteValue ''candidate'' index)
          | Some y \<Rightarrow>
              cosine_loop rd (index + 1) rest (f64_add dot (f64_mul x y))
                (f64_add target_norm_sq (f64_mul x x)) (f64_add candidate_norm_sq (f64_mul y y)))"

definition cosine_similarity_from_parts :: "f64 \<Rightarrow> f64 \<Rightarrow> f64 \<Rightarrow> cosine_score policy_result" where
  "cosine_similarity_from_parts dot target_norm_sq candidate_norm_sq =
     (if f64_eq_zero target_norm_sq then Err (ZeroMagnitude ''target'')
      else if f64_eq_zero candidate_norm_sq then Err (ZeroMagnitude ''candidate'')
      else cosine_from_f64
             (f64_div dot (f64_mul (f64_sqrt target_norm_sq) (f64_sqrt candidate_norm_sq))))"

definition cosine_similarity_bytes ::
    "byte list \<Rightarrow> byte list \<Rightarrow> embedding_spec \<Rightarrow> cosine_score policy_result" where
  "cosine_similarity_bytes target candidate spec =
     and_then (validate_embedding_bytes target spec ''target'') (\<lambda>width.
     and_then (validate_embedding_bytes candidate spec ''candidate'') (\<lambda>_.
       let chunks = zip (chunks_exact width target) (chunks_exact width candidate) in
       if encoding spec = ''f32le''
       then and_then (cosine_loop read_f32_chunk 0 chunks 0 0 0)
              (\<lambda>(dot, tn, cn). cosine_similarity_from_parts dot tn cn)
       else if encoding spec = ''f64le''
       then and_then (cosine_loop read_f64_chunk 0 chunks 0 0 0)
              (\<lambda>(dot, tn, cn). cosine_similarity_from_parts dot tn cn)
       else Err (UnsupportedEncoding (encoding spec))))"

definition default_ensure_compatible :: "encoded_target \<Rightarrow> embedding_spec \<Rightarrow> unit policy_result" where
  "default_ensure_compatible target spec = ensure_matching_specs (et_embedding_spec target) spec"

definition default_score ::
    "encoded_target \<Rightarrow> byte list \<Rightarrow> embedding_spec \<Rightarrow> cosine_score policy_result" where
  "default_score target candidate_embedding spec =
     and_then (ensure_matching_specs (et_embedding_spec target) spec) (\<lambda>_.
       cosine_similarity_bytes (et_bytes target) candidate_embedding spec)"

section \<open>Frontier selectors\<close>

record 'score expandable =
  ef_child :: block_hash
  ef_depth :: nat
  ef_level :: u64
  ef_score :: 'score
  ef_embedding :: "byte list"
  ef_embedding_spec :: embedding_spec

definition top_w_select :: "'score expandable list \<Rightarrow> nat \<Rightarrow> ('e, block_hash list) outcome" where
  "top_w_select frontier w = Ok (map ef_child (take w frontier))"

datatype geometry_error =
    GeometryUnsupportedEncoding string
  | GeometryInvalidByteLength block_hash string u64 nat nat
  | GeometryDimensionOverflow block_hash string u64
  | GeometryZeroMagnitude block_hash
  | GeometryNonFiniteValue block_hash nat

fun display_geometry_error :: "geometry_error \<Rightarrow> string" where
  "display_geometry_error (GeometryUnsupportedEncoding enc) =
     ''geometry-aware frontier selection does not support encoding '' @ enc"
| "display_geometry_error (GeometryInvalidByteLength child enc n expected actual) =
     ''child block '' @ display_hash child @ '' embedding length '' @ show_nat actual
       @ '' does not match encoding '' @ enc @ '' with '' @ show_nat (unat n) @ '' dims (expected ''
       @ show_nat expected @ '' bytes)''"
| "display_geometry_error (GeometryDimensionOverflow child enc n) =
     ''child block '' @ display_hash child @ '' embedding spec with encoding '' @ enc @ '' and ''
       @ show_nat (unat n) @ '' dims is too large to validate''"
| "display_geometry_error (GeometryZeroMagnitude child) =
     ''child block '' @ display_hash child @ '' embedding must not have zero magnitude''"
| "display_geometry_error (GeometryNonFiniteValue child index) =
     ''child block '' @ display_hash child @ '' embedding contains a non-finite value at index ''
       @ show_nat index"

type_synonym 'a geometry_result = "(geometry_error, 'a) outcome"

text \<open>The decoding loop of \<open>decode_geometry_vector\<close>; both element widths have the same body.\<close>

fun geometry_loop ::
    "block_hash \<Rightarrow> (byte list \<Rightarrow> f64 option) \<Rightarrow> nat \<Rightarrow> byte list list \<Rightarrow> f64 \<Rightarrow> f64 list
       \<Rightarrow> (f64 \<times> f64 list) geometry_result" where
  "geometry_loop child rd index [] norm_sq vector = Ok (norm_sq, vector)"
| "geometry_loop child rd index (c # cs) norm_sq vector =
     (case rd c of
        None \<Rightarrow> Err (GeometryNonFiniteValue child index)
      | Some x \<Rightarrow>
          geometry_loop child rd (index + 1) cs (f64_add norm_sq (f64_mul x x)) (vector @ [x]))"

definition decode_geometry_vector :: "'score expandable \<Rightarrow> f64 list geometry_result" where
  "decode_geometry_vector candidate =
     (let child = ef_child candidate; enc = encoding (ef_embedding_spec candidate);
          n = dims (ef_embedding_spec candidate) in
      and_then (if enc = ''f32le'' then Ok 4 else if enc = ''f64le'' then Ok 8
                else Err (GeometryUnsupportedEncoding enc)) (\<lambda>width.
      and_then (ok_or (checked_mul (unat n) width) (GeometryDimensionOverflow child enc n)) (\<lambda>expected.
        if usize_max < expected then Err (GeometryDimensionOverflow child enc n)
        else if length (ef_embedding candidate) \<noteq> expected
        then Err (GeometryInvalidByteLength child enc n expected (length (ef_embedding candidate)))
        else
          and_then (geometry_loop child (if enc = ''f32le'' then read_f32_chunk else read_f64_chunk) 0
                      (chunks_exact width (ef_embedding candidate)) 0 []) (\<lambda>(norm_sq, vector).
            if f64_eq_zero norm_sq then Err (GeometryZeroMagnitude child)
            else let norm = f64_sqrt norm_sq in Ok (map (\<lambda>x. f64_div x norm) vector)))))"

text \<open>\<open>sum\<close> of \<open>f64\<close> values starts at \<open>-0.0\<close>.\<close>

definition dot_product :: "f64 list \<Rightarrow> f64 list \<Rightarrow> f64" where
  "dot_product left right =
     foldl f64_add f64_neg_zero (map (\<lambda>(l, r). f64_mul l r) (zip left right))"

fun distance_fold ::
    "f64 list \<Rightarrow> f64 list list \<Rightarrow> f64 \<Rightarrow> nat list \<Rightarrow> f64 geometry_result" where
  "distance_fold candidate vectors acc [] = Ok acc"
| "distance_fold candidate vectors acc (i # is) =
     and_then (index_at vectors i) (\<lambda>v.
       distance_fold candidate vectors (f64_min acc (f64_sub f64_one (dot_product candidate v))) is)"

definition min_cosine_distance ::
    "f64 list \<Rightarrow> nat list \<Rightarrow> f64 list list \<Rightarrow> f64 geometry_result" where
  "min_cosine_distance candidate selected vectors =
     distance_fold candidate vectors f64_infinity selected"

text \<open>\<open>f64::total_cmp\<close>: the bit patterns as signed numbers, the lower bits flipped when negative.\<close>

definition f64_total_key :: "f64 \<Rightarrow> int" where
  "f64_total_key x = sint (if bit x 63 then x XOR 0x7FFFFFFFFFFFFFFF else x)"

definition f64_total_gt :: "f64 \<Rightarrow> f64 \<Rightarrow> bool" where
  "f64_total_gt x y = (f64_total_key y < f64_total_key x)"

text \<open>The inner loop: the first of the remaining indices with the greatest distance.\<close>

fun best_candidate ::
    "f64 list list \<Rightarrow> nat list \<Rightarrow> nat \<Rightarrow> f64 \<Rightarrow> nat list \<Rightarrow> nat geometry_result" where
  "best_candidate vectors selected best_index best_distance [] = Ok best_index"
| "best_candidate vectors selected best_index best_distance (c # cs) =
     and_then (index_at vectors c) (\<lambda>v.
     and_then (min_cosine_distance v selected vectors) (\<lambda>distance.
       if f64_total_gt distance best_distance
       then best_candidate vectors selected c distance cs
       else best_candidate vectors selected best_index best_distance cs))"

definition pick_next :: "f64 list list \<Rightarrow> nat list \<Rightarrow> nat \<Rightarrow> nat list \<Rightarrow> nat geometry_result" where
  "pick_next vectors selected first others =
     and_then (index_at vectors first) (\<lambda>v.
     and_then (min_cosine_distance v selected vectors) (\<lambda>distance.
       best_candidate vectors selected first distance others))"

lemma best_candidate_mem:
  "best_candidate vectors selected b d cs = Ok i \<Longrightarrow> i = b \<or> i \<in> set cs"
  by (induction cs arbitrary: b d) (auto simp: outcome_simps split: if_splits)

lemma pick_next_mem: "pick_next vectors selected r rs = Ok i \<Longrightarrow> i \<in> set (r # rs)"
  by (auto simp: pick_next_def outcome_simps dest: best_candidate_mem)

function geometry_select_loop ::
    "nat \<Rightarrow> f64 list list \<Rightarrow> nat list \<Rightarrow> nat list \<Rightarrow> nat list geometry_result" where
  "geometry_select_loop limit vectors selected remaining =
     (if length selected < limit \<and> remaining \<noteq> []
      then and_then (pick_next vectors selected (hd remaining) (tl remaining)) (\<lambda>best_index.
             geometry_select_loop limit vectors (selected @ [best_index])
               (filter (\<lambda>index. index \<noteq> best_index) remaining))
      else Ok selected)"
  by pat_completeness auto

termination geometry_select_loop
proof (relation "measure (\<lambda>(_, _, _, remaining). length remaining)", simp, clarsimp)
  fix vectors selected remaining i
  assume "remaining \<noteq> []" and "pick_next vectors selected (hd remaining) (tl remaining) = Ok i"
  then have "i \<in> set remaining" using pick_next_mem by (metis list.collapse)
  then show "length (filter (\<lambda>index. index \<noteq> i) remaining) < length remaining"
    by (auto intro: length_filter_less)
qed

declare geometry_select_loop.simps [simp del]

definition geometry_aware_select ::
    "'score expandable list \<Rightarrow> nat \<Rightarrow> block_hash list geometry_result" where
  "geometry_aware_select frontier w =
     (if frontier = [] \<or> w = 0 then Ok []
      else
        let window_len = min (length frontier) (max (saturating_mul w 2) w);
            window = take window_len frontier in
        and_then (traverse decode_geometry_vector window) (\<lambda>vectors.
        and_then (geometry_select_loop (min (length window) w) vectors [0] [1..<length window]) (\<lambda>selected.
          traverse (\<lambda>index. map_ok ef_child (index_at window index)) selected)))"

datatype published_selector = TopW | GeometryAware

fun published_select ::
    "published_selector \<Rightarrow> 'score expandable list \<Rightarrow> nat \<Rightarrow> block_hash list geometry_result" where
  "published_select TopW frontier w = Ok (map ef_child (take w frontier))"
| "published_select GeometryAware frontier w = geometry_aware_select frontier w"

section \<open>Published profiles\<close>

record profile_version =
  pv_major :: u64
  pv_minor :: u64
  pv_patch :: u64

definition new_profile_version :: "u64 \<Rightarrow> u64 \<Rightarrow> u64 \<Rightarrow> profile_version" where
  "new_profile_version major minor patch = \<lparr>pv_major = major, pv_minor = minor, pv_patch = patch\<rparr>"

definition display_profile_version :: "profile_version \<Rightarrow> string" where
  "display_profile_version v =
     show_nat (unat (pv_major v)) @ ''.'' @ show_nat (unat (pv_minor v)) @ ''.''
       @ show_nat (unat (pv_patch v))"

definition published_profile_v0_1_0 :: profile_version where
  "published_profile_v0_1_0 = new_profile_version 0 1 0"

definition published_profile_v0_2_0 :: profile_version where
  "published_profile_v0_2_0 = new_profile_version 0 2 0"

record search_profile =
  sp_version :: profile_version

datatype profile_error = UnsupportedPublishedProfileVersion profile_version

fun display_profile_error :: "profile_error \<Rightarrow> string" where
  "display_profile_error (UnsupportedPublishedProfileVersion v) =
     ''unsupported published search profile version '' @ display_profile_version v"

definition published_search_profile :: "profile_version \<Rightarrow> (profile_error, search_profile) outcome" where
  "published_search_profile v =
     (if v = published_profile_v0_1_0 \<or> v = published_profile_v0_2_0 then Ok \<lparr>sp_version = v\<rparr>
      else Err (UnsupportedPublishedProfileVersion v))"

definition encode_target :: "search_profile \<Rightarrow> byte list \<Rightarrow> embedding_spec \<Rightarrow> encoded_target" where
  "encode_target profile bs spec = \<lparr>et_bytes = bs, et_embedding_spec = spec\<rparr>"

section \<open>Score keys order candidates by their cosine value\<close>

lemma not_bit_and_exp: "\<not> bit v n \<Longrightarrow> v AND push_bit n 1 = 0" for v :: f64
  by (rule bit_word_eqI) (auto simp: bit_simps)

lemma key_nonneg:
  fixes v :: f64
  assumes "unat v < 2 ^ 63"
  shows "unat (total_order_key_f64 v) = unat v + 2 ^ 63"
proof -
  have z: "drop_bit 63 v = 0"
    using assms by (simp add: word_unat_eq_iff drop_bit_eq_div unat_div)
  have "bit (drop_bit 63 v) 0 = bit v 63" by (simp add: bit_drop_bit_eq)
  with z have "\<not> bit v 63" by simp
  then have "v AND push_bit 63 1 = 0"
    by (rule not_bit_and_exp)
  then have "v XOR push_bit 63 1 = v + push_bit 63 1"
    by (simp add: disjunctive_add_eq_or disjunctive_xor_eq_or)
  moreover have "unat (v + push_bit 63 1) = unat v + 2 ^ 63"
    using assms by (simp add: unat_word_ariths)
  ultimately show ?thesis using z by (simp add: total_order_key_f64_def)
qed

lemma key_negative:
  fixes v :: f64
  assumes "2 ^ 63 \<le> unat v"
  shows "unat (total_order_key_f64 v) = 2 ^ 64 - 1 - unat v"
proof -
  have "unat (drop_bit 63 v) \<noteq> 0"
    using assms by (simp add: drop_bit_eq_div unat_div)
  then have "drop_bit 63 v \<noteq> 0" by auto
  moreover have "unat (NOT v) = 2 ^ 64 - 1 - unat v"
  proof -
    have "NOT v = - 1 - v" by (simp add: not_eq_complement)
    moreover have "unat (- 1 - v) = unat (- 1 :: f64) - unat v" by (rule unat_sub) simp
    ultimately show ?thesis by (simp add: unsigned_minus_1_eq_mask mask_eq_exp_minus_1)
  qed
  ultimately show ?thesis by (simp add: total_order_key_f64_def)
qed


lemma f64_decode_cases:
  "f64_decode v = (if unat v < 2 ^ 63 then fl_decode_mag 52 11 False (unat v)
     else fl_decode_mag 52 11 True (unat v - 2 ^ 63))"
proof -
  have lt: "unat v < 2 ^ 64" using unsigned_less [of v] by simp
  show ?thesis
  proof (cases "unat v < 2 ^ 63")
    case True
    then show ?thesis by (simp add: f64_decode_def fl_decode_def fl_sign_bit_def)
  next
    case False
    with lt have "unat v div 2 ^ 63 = 1" and "unat v mod 2 ^ 63 = unat v - 2 ^ 63"
      by (simp_all add: div_nat_eqI mod_if le_mod_geq)
    with False show ?thesis by (simp add: f64_decode_def fl_decode_def fl_sign_bit_def)
  qed
qed

lemma decode_mag_finite:
  assumes "fc_is_finite (fl_decode_mag p q s n)" and "n < 2 ^ (p + q)"
  shows "n < fl_inf_bits p q"
proof -
  have "n div 2 ^ p < 2 ^ q" using assms(2) by (simp add: less_mult_imp_div_less power_add mult.commute)
  moreover have "n div 2 ^ p \<noteq> 2 ^ q - 1" using assms(1) by (auto simp: fl_decode_mag_def split: if_splits)
  ultimately have "n div 2 ^ p < 2 ^ q - 1" by simp
  then show ?thesis by (simp add: fl_inf_bits_def div_less_iff_less_mult)
qed

lemma fl_mag_mono:
  assumes "a \<le> b" and "b < fl_inf_bits p q"
  shows "fc_value (fl_decode_mag p q False a) \<le> fc_value (fl_decode_mag p q False b)"
  using assms fl_mag_strict_mono [of a b p q] by (cases "a = b") auto

lemma score_order:
  assumes "cosine_from_f64 x = Ok a" and "cosine_from_f64 y = Ok b"
    and less: "fc_value (f64_decode x) < fc_value (f64_decode y)"
  shows "a < b"
proof -
  have fin: "f64_is_finite x" "f64_is_finite y" and a: "a = CosineScore (total_order_key_f64 x)"
    and b: "b = CosineScore (total_order_key_f64 y)"
    using assms(1,2) by (auto simp: cosine_from_f64_def split: if_splits)
  have lt: "unat v < 2 ^ 64" for v :: f64 using unsigned_less [of v] by simp
  have mag: "(if unat v < 2 ^ 63 then unat v else unat v - 2 ^ 63) < fl_inf_bits 52 11"
    if "f64_is_finite v" for v
    using that decode_mag_finite [of 52 11 _ "unat v"] decode_mag_finite [of 52 11 _ "unat v - 2 ^ 63"]
      lt [of v] by (auto simp: f64_is_finite_def f64_decode_cases split: if_splits)
  note dec = f64_decode_cases [of x] f64_decode_cases [of y]
  have "unat (total_order_key_f64 x) < unat (total_order_key_f64 y)"
  proof (cases "unat x < 2 ^ 63"; cases "unat y < 2 ^ 63")
    assume s: "unat x < 2 ^ 63" "unat y < 2 ^ 63"
    then have "unat x < unat y"
      using less fl_mag_mono [of "unat y" "unat x" 52 11] mag [OF fin(1)] dec by force
    with s show ?thesis by (simp add: key_nonneg)
  next
    assume s: "unat x < 2 ^ 63" "\<not> unat y < 2 ^ 63"
    then show ?thesis
      using less fl_mag_nonneg [of 52 11 "unat x"] fl_mag_nonneg [of 52 11 "unat y - 2 ^ 63"] dec
      by (simp add: fl_mag_sign)
  next
    assume s: "\<not> unat x < 2 ^ 63" "unat y < 2 ^ 63"
    then show ?thesis by (simp add: key_negative key_nonneg)
  next
    assume s: "\<not> unat x < 2 ^ 63" "\<not> unat y < 2 ^ 63"
    then have "unat y - 2 ^ 63 < unat x - 2 ^ 63"
      using less fl_mag_mono [of "unat x - 2 ^ 63" "unat y - 2 ^ 63" 52 11] mag [OF fin(2)] dec
      by (force simp: fl_mag_sign)
    with s lt [of x] show ?thesis by (simp add: key_negative)
  qed
  then show ?thesis by (simp add: a b less_cosine_score_def word_less_nat_alt)
qed

text \<open>
  C21: the integer score keys rank two finite cosine values as their real values
  are ranked, so sorting by key sorts by similarity.
\<close>

theorem cosine_score_order:
  assumes "cosine_from_f64 x = Ok a" and "cosine_from_f64 y = Ok b"
  shows "(fc_value (f64_decode x) < fc_value (f64_decode y) \<longrightarrow> a < b) \<and>
    (a < b \<longrightarrow> fc_value (f64_decode x) \<le> fc_value (f64_decode y))"
  using score_order [OF assms] score_order [OF assms(2,1)] by fastforce

section \<open>The default scorer\<close>

lemma validate_embedding_bytes_Ok:
  "validate_embedding_bytes bs spec role = Ok width \<longleftrightarrow>
     element_width spec = Ok width \<and> length bs = unat (dims spec) * width \<and> length bs \<le> usize_max"
  by (auto simp: validate_embedding_bytes_def expected_byte_len_def checked_mul_def outcome_simps
      split: if_splits)

lemma validate_embedding_bytes_no_panic: "validate_embedding_bytes bs spec role \<noteq> Panic"
  by (auto simp: validate_embedding_bytes_def expected_byte_len_def element_width_def outcome_simps
      split: if_splits)

lemma cosine_loop_swap:
  "cosine_loop rd i zs dot tn cn = Ok (a, b, c) \<Longrightarrow>
     cosine_loop rd i (map prod.swap zs) dot cn tn = Ok (a, c, b)"
  by (induction rd i zs dot tn cn rule: cosine_loop.induct)
    (auto simp: f64_mul_comm split: option.splits)

lemma from_parts_swap:
  "cosine_similarity_from_parts dot tn cn = Ok s \<Longrightarrow> cosine_similarity_from_parts dot cn tn = Ok s"
  by (auto simp: cosine_similarity_from_parts_def f64_mul_comm split: if_splits)

lemma cosine_swap:
  assumes "cosine_similarity_bytes t c spec = Ok s"
  shows "cosine_similarity_bytes c t spec = Ok s"
proof -
  have zip_swap: "zip ys xs = map prod.swap (zip xs ys)" for xs ys :: "byte list list"
    by (rule nth_equalityI) auto
  obtain width where tv: "validate_embedding_bytes t spec ''target'' = Ok width"
    and cv: "\<exists>w. validate_embedding_bytes c spec ''candidate'' = Ok w"
    using assms by (auto simp: cosine_similarity_bytes_def outcome_simps)
  then have valid: "validate_embedding_bytes c spec ''target'' = Ok width"
    "validate_embedding_bytes t spec ''candidate'' = Ok width"
    by (auto simp: validate_embedding_bytes_Ok)
  have swap: "and_then (cosine_loop rd 0 (map prod.swap zs) 0 0 0)
      (\<lambda>(dot, tn, cn). cosine_similarity_from_parts dot tn cn) = Ok s"
    if "and_then (cosine_loop rd 0 zs 0 0 0)
      (\<lambda>(dot, tn, cn). cosine_similarity_from_parts dot tn cn) = Ok s" for rd zs
  proof -
    from that obtain dot tn cn where loop: "cosine_loop rd 0 zs 0 0 0 = Ok (dot, tn, cn)"
      and parts: "cosine_similarity_from_parts dot tn cn = Ok s"
      by (auto simp: outcome_simps)
    show ?thesis by (simp add: cosine_loop_swap [OF loop] from_parts_swap [OF parts])
  qed
  show ?thesis
    using assms tv cv swap [of _ "zip (chunks_exact width t) (chunks_exact width c)"]
    by (auto simp: cosine_similarity_bytes_def valid Let_def zip_swap [of "chunks_exact width c"]
        simp del: map_prod_simp split: if_splits)
qed

text \<open>
  Exchanging the two embeddings does not change a similarity score.
\<close>

theorem cosine_symmetric:
  "cosine_similarity_bytes t c spec = Ok s \<longleftrightarrow> cosine_similarity_bytes c t spec = Ok s"
  using cosine_swap by blast

lemma cosine_loop_finite:
  "cosine_loop rd i zs dot tn cn = Ok r \<Longrightarrow> \<forall>(t, c) \<in> set zs. rd t \<noteq> None \<and> rd c \<noteq> None"
  by (induction rd i zs dot tn cn rule: cosine_loop.induct) (auto split: option.splits)

lemma cosine_loop_no_panic: "cosine_loop rd i zs dot tn cn \<noteq> Panic"
  by (induction rd i zs dot tn cn rule: cosine_loop.induct) (auto split: option.splits)

lemma cosine_from_parts_no_panic: "cosine_similarity_from_parts dot tn cn \<noteq> Panic"
  by (auto simp: cosine_similarity_from_parts_def cosine_from_f64_def)

lemma default_score_no_panic: "default_score t c spec \<noteq> Panic"
  by (auto simp: default_score_def ensure_matching_specs_def cosine_similarity_bytes_def outcome_simps
      validate_embedding_bytes_no_panic cosine_loop_no_panic cosine_from_parts_no_panic Let_def
      split: if_splits)

lemma default_ensure_no_panic: "default_ensure_compatible t spec \<noteq> Panic"
  by (simp add: default_ensure_compatible_def ensure_matching_specs_def)

section \<open>The frontier selectors\<close>

text \<open>
  What the search loop demands of a frontier selector: it does not panic, and a selection has one
  block for each free place, all different, all from the frontier.
\<close>

locale frontier_policy =
  fixes select :: "'score expandable list \<Rightarrow> nat \<Rightarrow> ('e, block_hash list) outcome"
  assumes select_no_panic: "select frontier w \<noteq> Panic"
    and select_length: "select frontier w = Ok sel \<Longrightarrow> length sel = min (length frontier) w"
    and select_distinct:
      "distinct (map ef_child frontier) \<Longrightarrow> select frontier w = Ok sel \<Longrightarrow> distinct sel"
    and select_subset: "select frontier w = Ok sel \<Longrightarrow> set sel \<subseteq> ef_child ` set frontier"

interpretation top_w: frontier_policy top_w_select
  by unfold_locales
    (auto simp: top_w_select_def distinct_map inj_on_subset set_take_subset min.commute
      dest: in_set_takeD intro: distinct_take)

lemma distance_fold_total:
  "\<forall>i \<in> set is. i < length vectors \<Longrightarrow> \<exists>x. distance_fold c vectors acc is = Ok x"
  by (induction "is" arbitrary: acc) (auto simp: index_at_def)

lemma min_cosine_total:
  "\<forall>i \<in> set selected. i < length vectors \<Longrightarrow> \<exists>x. min_cosine_distance c selected vectors = Ok x"
  unfolding min_cosine_distance_def by (rule distance_fold_total)

lemma best_candidate_total:
  assumes "\<forall>i \<in> set selected \<union> set cs. i < length vectors"
  shows "\<exists>x. best_candidate vectors selected b d cs = Ok x"
  using assms
proof (induction cs arbitrary: b d)
  case (Cons c cs)
  obtain x where "min_cosine_distance (vectors ! c) selected vectors = Ok x"
    using min_cosine_total [of selected vectors] Cons.prems by blast
  with Cons show ?case by (simp add: index_at_def)
qed simp

lemma pick_next_total:
  assumes "\<forall>i \<in> set selected \<union> set (r # rs). i < length vectors"
  shows "\<exists>x. pick_next vectors selected r rs = Ok x"
proof -
  obtain x where "min_cosine_distance (vectors ! r) selected vectors = Ok x"
    using min_cosine_total [of selected vectors] assms by blast
  with assms best_candidate_total [of selected rs vectors r x] show ?thesis
    by (simp add: pick_next_def index_at_def)
qed

lemma length_filter_neq:
  assumes "distinct xs" and "i \<in> set xs"
  shows "length (filter (\<lambda>x. x \<noteq> i) xs) = length xs - 1"
proof -
  have "filter (\<lambda>x. x \<noteq> i) xs = remove1 i xs"
    unfolding distinct_remove1_removeAll [OF assms(1)] removeAll_filter_not_eq
    by (rule filter_cong) auto
  then show ?thesis using assms(2) by (simp add: length_remove1)
qed

lemma geometry_select_loop_spec:
  assumes "\<forall>i \<in> set selected \<union> set remaining. i < length vectors"
    and "distinct (selected @ remaining)" and "length selected \<le> limit"
    and "limit \<le> length selected + length remaining"
  shows "\<exists>sel. geometry_select_loop limit vectors selected remaining = Ok (selected @ sel) \<and>
    length (selected @ sel) = limit \<and> distinct (selected @ sel) \<and> set sel \<subseteq> set remaining"
  using assms
proof (induction limit vectors selected remaining rule: geometry_select_loop.induct)
  case (1 limit vectors selected remaining)
  show ?case
  proof (cases "length selected < limit")
    case False
    with "1.prems" show ?thesis by (intro exI [of _ "[]"]) (simp add: geometry_select_loop.simps)
  next
    case True
    with "1.prems"(4) obtain r rs where rem: "remaining = r # rs" by (cases remaining) auto
    with "1.prems"(1) obtain i where i: "pick_next vectors selected r rs = Ok i"
      using pick_next_total [of selected r rs vectors] by auto
    then have mem: "i \<in> set remaining" using pick_next_mem rem by metis
    let ?rest = "filter (\<lambda>index. index \<noteq> i) remaining"
    have len: "length ?rest = length remaining - 1"
      using mem "1.prems"(2) by (intro length_filter_neq) auto
    have pick: "pick_next vectors selected (hd remaining) (tl remaining) = Ok i"
      and guard: "length selected < limit \<and> remaining \<noteq> []"
      using i rem True by simp_all
    have "0 < length remaining" using rem by simp
    have "\<exists>sel. geometry_select_loop limit vectors (selected @ [i]) ?rest =
        Ok ((selected @ [i]) @ sel) \<and> length ((selected @ [i]) @ sel) = limit \<and>
        distinct ((selected @ [i]) @ sel) \<and> set sel \<subseteq> set ?rest"
    proof (rule "1.IH" [OF guard pick])
      show "\<forall>j \<in> set (selected @ [i]) \<union> set ?rest. j < length vectors"
        using "1.prems"(1) mem by auto
      show "distinct ((selected @ [i]) @ ?rest)" using "1.prems"(2) mem by auto
      show "length (selected @ [i]) \<le> limit" using True by simp
      show "limit \<le> length (selected @ [i]) + length ?rest"
        using "1.prems"(4) len \<open>0 < length remaining\<close> by simp
    qed
    then obtain sel where sel: "geometry_select_loop limit vectors (selected @ [i]) ?rest =
        Ok ((selected @ [i]) @ sel)" "length ((selected @ [i]) @ sel) = limit"
      "distinct ((selected @ [i]) @ sel)" "set sel \<subseteq> set ?rest" by blast
    have "geometry_select_loop limit vectors selected remaining = Ok (selected @ i # sel)"
      using guard pick sel(1) by (subst geometry_select_loop.simps) simp
    with sel mem show ?thesis by (intro exI [of _ "i # sel"]) auto
  qed
qed

lemma geometry_decode_no_panic: "decode_geometry_vector c \<noteq> Panic"
proof -
  have loop: "geometry_loop child rd i cs n v \<noteq> Panic" for child rd i cs n v
    by (induction child rd i cs n v rule: geometry_loop.induct) (auto split: option.splits)
  show ?thesis
    by (auto simp: decode_geometry_vector_def Let_def outcome_simps loop split: if_splits prod.splits)
qed

lemma geometry_select_Ok:
  assumes "frontier \<noteq> []" and "w \<noteq> 0"
    and dec: "traverse decode_geometry_vector
      (take (min (length frontier) (max (saturating_mul w 2) w)) frontier) = Ok vectors"
  shows "\<exists>sel. geometry_aware_select frontier w = Ok (map (\<lambda>i. ef_child (frontier ! i)) (0 # sel)) \<and>
    length (0 # sel) = min (length frontier) w \<and> distinct (0 # sel) \<and>
    (\<forall>i \<in> set (0 # sel). i < length frontier)"
proof -
  define n where "n = min (length frontier) (max (saturating_mul w 2) w)"
  let ?window = "take n frontier"
  have n: "length ?window = n" and pos: "0 < n" and le: "n \<le> length frontier"
    and lim: "min n w = min (length frontier) w"
    using assms(1,2) by (auto simp: n_def)
  have len: "length vectors = n" using traverse_Ok_length [OF dec] n by (simp add: n_def)
  have "\<exists>sel. geometry_select_loop (min n w) vectors [0] [1..<n] = Ok ([0] @ sel) \<and>
      length ([0] @ sel) = min n w \<and> distinct ([0] @ sel) \<and> set sel \<subseteq> set [1..<n]"
    using pos len assms(2) by (intro geometry_select_loop_spec) auto
  then obtain sel where sel: "geometry_select_loop (min n w) vectors [0] [1..<n] = Ok ([0] @ sel)"
    "length ([0] @ sel) = min n w" "distinct ([0] @ sel)" "set sel \<subseteq> set [1..<n]" by blast
  have idx: "\<forall>i \<in> set (0 # sel). i < n" using sel(4) pos by auto
  then have "traverse (\<lambda>i. map_ok ef_child (index_at ?window i)) (0 # sel) =
      Ok (map (\<lambda>i. ef_child (frontier ! i)) (0 # sel))"
    using n by (intro traverse_all_Ok) (auto simp: index_at_def)
  then have "geometry_aware_select frontier w = Ok (map (\<lambda>i. ef_child (frontier ! i)) (0 # sel))"
    using assms sel(1) n by (simp add: geometry_aware_select_def Let_def flip: n_def)
  with sel(2,3) lim idx le show ?thesis by (intro exI [of _ sel]) auto
qed

lemma geometry_select_cases:
  assumes "geometry_aware_select frontier w = Ok sel"
  shows "frontier = [] \<and> sel = [] \<or> w = 0 \<and> sel = [] \<or>
    (\<exists>is. sel = map (\<lambda>i. ef_child (frontier ! i)) (0 # is) \<and> length (0 # is) = min (length frontier) w \<and>
      distinct (0 # is) \<and> (\<forall>i \<in> set (0 # is). i < length frontier) \<and> frontier \<noteq> [] \<and> w \<noteq> 0)"
proof (cases "frontier = [] \<or> w = 0")
  case True
  with assms show ?thesis by (auto simp: geometry_aware_select_def)
next
  case False
  then obtain vectors where dec: "traverse decode_geometry_vector
      (take (min (length frontier) (max (saturating_mul w 2) w)) frontier) = Ok vectors"
    using assms by (auto simp: geometry_aware_select_def Let_def outcome_simps)
  from False obtain "is" where
    eq: "geometry_aware_select frontier w = Ok (map (\<lambda>i. ef_child (frontier ! i)) (0 # is))"
    and "length (0 # is) = min (length frontier) w" "distinct (0 # is)"
    "\<forall>i \<in> set (0 # is). i < length frontier"
    using geometry_select_Ok [OF _ _ dec] by blast
  moreover from eq assms have "sel = map (\<lambda>i. ef_child (frontier ! i)) (0 # is)" by simp
  ultimately show ?thesis using False by blast
qed

lemma geometry_select_no_panic: "geometry_aware_select frontier w \<noteq> Panic"
proof (cases "frontier = [] \<or> w = 0")
  case False
  let ?window = "take (min (length frontier) (max (saturating_mul w 2) w)) frontier"
  show ?thesis
  proof (cases "traverse decode_geometry_vector ?window")
    case (Ok vectors)
    with False geometry_select_Ok [of frontier w vectors] show ?thesis by auto
  next
    case (Err e)
    with False show ?thesis by (simp add: geometry_aware_select_def Let_def)
  next
    case Panic
    then show ?thesis using traverse_eq_Panic geometry_decode_no_panic by metis
  qed
qed (auto simp: geometry_aware_select_def)

interpretation geometry: frontier_policy geometry_aware_select
proof unfold_locales
  fix frontier :: "'score expandable list" and w sel
  show "geometry_aware_select frontier w \<noteq> Panic" by (rule geometry_select_no_panic)
  assume ok: "geometry_aware_select frontier w = Ok sel"
  note cs = geometry_select_cases [OF ok]
  show "length sel = min (length frontier) w" using cs by fastforce
  show "set sel \<subseteq> ef_child ` set frontier" using cs by auto
  assume d: "distinct (map ef_child frontier)"
  show "distinct sel" using cs
  proof (elim disjE conjE exE)
    fix "is" assume sel: "sel = map (\<lambda>i. ef_child (frontier ! i)) (0 # is)"
      and "distinct (0 # is)" and lt: "\<forall>i \<in> set (0 # is). i < length frontier"
    moreover have "inj_on (\<lambda>i. ef_child (frontier ! i)) (set (0 # is))"
      using d lt by (intro inj_onI) (metis length_map nth_eq_iff_index_eq nth_map)
    ultimately show ?thesis by (simp only: sel distinct_map)
  qed simp_all
qed

interpretation published: frontier_policy "published_select p"
  for p
  by (cases p)
    (use top_w.frontier_policy_axioms geometry.frontier_policy_axioms in
      \<open>auto simp: frontier_policy_def top_w_select_def\<close>)


section \<open>Farthest-first selection\<close>

lemma best_candidate_max:
  assumes "best_candidate vectors selected b d cs = Ok i"
    and "min_cosine_distance (vectors ! b) selected vectors = Ok d" and "j \<in> insert b (set cs)"
  shows "\<exists>x y. min_cosine_distance (vectors ! i) selected vectors = Ok x \<and>
    min_cosine_distance (vectors ! j) selected vectors = Ok y \<and> f64_total_key y \<le> f64_total_key x"
  using assms
proof (induction cs arbitrary: b d j)
  case (Cons c cs)
  obtain e where e: "min_cosine_distance (vectors ! c) selected vectors = Ok e"
    using Cons.prems(1) by (auto simp: outcome_simps index_at_Ok)
  define b' d' where "b' = (if f64_total_gt e d then c else b)" and "d' = (if f64_total_gt e d then e else d)"
  have rest: "best_candidate vectors selected b' d' cs = Ok i"
    and b': "min_cosine_distance (vectors ! b') selected vectors = Ok d'"
    using Cons.prems(1,2) e by (auto simp: b'_def d'_def outcome_simps index_at_Ok split: if_splits)
  have keys: "f64_total_key d \<le> f64_total_key d'" "f64_total_key e \<le> f64_total_key d'"
    by (auto simp: d'_def f64_total_gt_def)
  from Cons.IH [OF rest b', of b'] b' obtain x
    where x: "min_cosine_distance (vectors ! i) selected vectors = Ok x" "f64_total_key d' \<le> f64_total_key x"
    by auto
  show ?case
  proof (cases "j \<in> set cs")
    case True
    with Cons.IH [OF rest b', of j] show ?thesis by simp
  next
    case False
    with Cons.prems(3) have "j = b \<or> j = c" by auto
    with x keys Cons.prems(2) e show ?thesis by force
  qed
qed simp

text \<open>
  Each step of the geometry-aware selector picks, among the candidates
  still in its window, one whose least cosine distance to the candidates already picked is greatest.
\<close>

theorem geometry_farthest_first:
  assumes "pick_next vectors selected r rs = Ok i" and "j \<in> set (r # rs)"
  shows "i \<in> set (r # rs) \<and>
    (\<exists>x y. min_cosine_distance (vectors ! i) selected vectors = Ok x \<and>
      min_cosine_distance (vectors ! j) selected vectors = Ok y \<and> \<not> f64_total_gt y x)"
proof -
  from assms(1) obtain d where "min_cosine_distance (vectors ! r) selected vectors = Ok d"
    and "best_candidate vectors selected r d rs = Ok i"
    by (auto simp: pick_next_def outcome_simps index_at_Ok)
  with best_candidate_max [of vectors selected r d rs i j] assms(2) pick_next_mem [OF assms(1)]
  show ?thesis by (auto simp: f64_total_gt_def not_less)
qed

end
