(* ===== verification/Search_Loop.thy ===== *)
theory Search_Loop
  imports Search_Policies
begin

text \<open>
  The search of \<open>src/crates/lexongraph-search/src/lib.rs\<close>: candidates and their order, the loading
  and scoring of blocks, the frontier loop of \<open>search_internal\<close>, its telemetry, and the entry points
  \<open>search\<close>, \<open>search_with_telemetry\<close> and \<open>search_with_observer\<close>, also for a published profile.

  A search reads a store through the operations of \<open>store_ops\<close> and threads its state. The policies
  of a searcher are functions; of their errors the search uses the rendering only, so the error
  type of a policy is \<open>string\<close>. The futures of one chunk of child loads are joined in order, one load
  after the other. A telemetry observer is the list of the summaries it was given.
\<close>

section \<open>Results and errors\<close>

record ('target, 'score) searcher =
  compatibility :: "'target \<Rightarrow> embedding_spec \<Rightarrow> (string, unit) outcome"
  scorer :: "'target \<Rightarrow> byte list \<Rightarrow> embedding_spec \<Rightarrow> (string, 'score) outcome"
  frontier_selector :: "'score expandable list \<Rightarrow> nat \<Rightarrow> (string, block_hash list) outcome"

record leaf_search_result =
  leaf_block_id :: block_hash
  lsr_entry :: leaf_entry
  lsr_position :: nat

record search_result =
  leaves :: "leaf_search_result list"

datatype search_termination_kind =
    SearchSuccess
  | SearchExhausted
  | KindInvalidTraversalWidth
  | KindMissingRootBlock
  | RootLoadFailure
  | KindMissingChildBlock
  | ChildLoadFailure
  | KindMalformedBlock
  | KindIncompatibleEmbedding
  | KindScoringFailure
  | KindFrontierSelectionFailure

record search_summary =
  beam_width :: nat
  distinct_blocks_visited :: nat
  max_routing_depth :: nat
  search_termination :: search_termination_kind

datatype search_error =
    InvalidTraversalWidth nat
  | MissingRootBlock block_hash
  | RootLoad block_store_error
  | MissingChildBlock block_hash
  | ChildLoad block_hash block_store_error
  | MalformedBlock block_hash block_store_error
  | IncompatibleEmbedding block_hash string
  | ScoringFailure block_hash string
  | FrontierSelectionFailure string
  | Exhausted nat nat

fun display_search_error :: "search_error \<Rightarrow> string" where
  "display_search_error (InvalidTraversalWidth w) =
     ''search traversal width must be at least 1, got '' @ show_nat w"
| "display_search_error (MissingRootBlock root_id) =
     ''root block '' @ display_hash root_id @ '' was not present in the block store''"
| "display_search_error (RootLoad e) = ''failed to load root block: '' @ display_store_error e"
| "display_search_error (MissingChildBlock child_id) =
     ''selected child block '' @ display_hash child_id @ '' was not present in the block store''"
| "display_search_error (ChildLoad child_id e) =
     ''failed to load child block '' @ display_hash child_id @ '': '' @ display_store_error e"
| "display_search_error (MalformedBlock block_id e) =
     ''block '' @ display_hash block_id @ '' was malformed or non-conforming: '' @ display_store_error e"
| "display_search_error (IncompatibleEmbedding block_id message) =
     ''block '' @ display_hash block_id @ '' is incompatible with the target embedding: '' @ message"
| "display_search_error (ScoringFailure block_id message) =
     ''failed to score candidates from block '' @ display_hash block_id @ '': '' @ message"
| "display_search_error (FrontierSelectionFailure message) =
     ''failed to select frontier expansion targets: '' @ message"
| "display_search_error (Exhausted requested reachable_leaves) =
     ''search exhausted after finding '' @ show_nat reachable_leaves
       @ '' reachable leaves, fewer than requested '' @ show_nat requested"

fun search_error_source :: "search_error \<Rightarrow> block_store_error option" where
  "search_error_source (RootLoad e) = Some e"
| "search_error_source (ChildLoad _ e) = Some e"
| "search_error_source (MalformedBlock _ e) = Some e"
| "search_error_source _ = None"

type_synonym 'a search_outcome = "(search_error, 'a) outcome"

section \<open>Candidates\<close>

datatype 'score candidate =
    BranchCandidate block_hash nat u64 "byte list" embedding_spec 'score
  | LeafCandidate block_hash u64 leaf_entry 'score

fun candidate_score :: "'score candidate \<Rightarrow> 'score" where
  "candidate_score (BranchCandidate _ _ _ _ _ score) = score"
| "candidate_score (LeafCandidate _ _ _ score) = score"

fun candidate_level :: "'score candidate \<Rightarrow> u64" where
  "candidate_level (BranchCandidate _ _ level _ _ _) = level"
| "candidate_level (LeafCandidate _ level _ _) = level"

fun candidate_identity :: "'score candidate \<Rightarrow> byte list" where
  "candidate_identity (BranchCandidate child _ _ _ _ _) = as_bytes child"
| "candidate_identity (LeafCandidate block_id _ _ _) = as_bytes block_id"

definition is_terminal :: "'score candidate \<Rightarrow> bool" where
  "is_terminal c = (candidate_level c = 0)"

text \<open>\<open>std::cmp::Ordering\<close> and \<open>then_with\<close>.\<close>

datatype ordering = OrdLess | OrdEqual | OrdGreater

definition ord_cmp :: "'a::linorder \<Rightarrow> 'a \<Rightarrow> ordering" where
  "ord_cmp a b = (if a < b then OrdLess else if a = b then OrdEqual else OrdGreater)"

fun then_with :: "ordering \<Rightarrow> ordering \<Rightarrow> ordering" where
  "then_with OrdEqual y = y"
| "then_with x y = x"

definition compare_candidates :: "'score::linorder candidate \<Rightarrow> 'score candidate \<Rightarrow> ordering" where
  "compare_candidates left right =
     then_with (then_with (ord_cmp (candidate_score right) (candidate_score left))
         (ord_cmp (candidate_level left) (candidate_level right)))
       (ord_cmp (candidate_identity left) (candidate_identity right))"

text \<open>\<open>sort_by\<close> is stable: equal elements keep their order.\<close>

fun insert_by :: "('a \<Rightarrow> 'a \<Rightarrow> ordering) \<Rightarrow> 'a \<Rightarrow> 'a list \<Rightarrow> 'a list" where
  "insert_by cmp x [] = [x]"
| "insert_by cmp x (y # ys) =
     (if cmp x y = OrdGreater then y # insert_by cmp x ys else x # y # ys)"

definition sort_by :: "('a \<Rightarrow> 'a \<Rightarrow> ordering) \<Rightarrow> 'a list \<Rightarrow> 'a list" where
  "sort_by cmp xs = foldr (insert_by cmp) xs []"

section \<open>Telemetry\<close>

datatype telemetry_mode = TelemetryDisabled | TelemetryEnabled bool

fun mode_enabled :: "telemetry_mode \<Rightarrow> bool" where
  "mode_enabled TelemetryDisabled = False"
| "mode_enabled (TelemetryEnabled _) = True"

text \<open>Is there an observer?\<close>

fun mode_observer :: "telemetry_mode \<Rightarrow> bool" where
  "mode_observer TelemetryDisabled = False"
| "mode_observer (TelemetryEnabled observer) = observer"

record collector =
  visited_blocks :: "block_hash list option"
  collector_enabled :: bool
  collector_summary :: search_summary

definition new_collector :: "nat \<Rightarrow> bool \<Rightarrow> collector" where
  "new_collector w enabled =
     \<lparr>visited_blocks = (if enabled then Some [] else None), collector_enabled = enabled,
      collector_summary = \<lparr>beam_width = w, distinct_blocks_visited = 0, max_routing_depth = 0,
        search_termination = SearchSuccess\<rparr>\<rparr>"

definition record_visited_block :: "block_hash \<Rightarrow> nat \<Rightarrow> collector \<Rightarrow> collector" where
  "record_visited_block block_id depth tel =
     (case visited_blocks tel of
        None \<Rightarrow> tel
      | Some visited \<Rightarrow>
          let visited' = List.insert block_id visited; summary = collector_summary tel
          in tel\<lparr>visited_blocks := Some visited',
                 collector_summary := summary\<lparr>distinct_blocks_visited := length visited',
                   max_routing_depth := max (max_routing_depth summary) depth\<rparr>\<rparr>)"

fun termination_of :: "search_error \<Rightarrow> search_termination_kind" where
  "termination_of (InvalidTraversalWidth _) = KindInvalidTraversalWidth"
| "termination_of (MissingRootBlock _) = KindMissingRootBlock"
| "termination_of (RootLoad _) = RootLoadFailure"
| "termination_of (MissingChildBlock _) = KindMissingChildBlock"
| "termination_of (ChildLoad _ _) = ChildLoadFailure"
| "termination_of (MalformedBlock _ _) = KindMalformedBlock"
| "termination_of (IncompatibleEmbedding _ _) = KindIncompatibleEmbedding"
| "termination_of (ScoringFailure _ _) = KindScoringFailure"
| "termination_of (FrontierSelectionFailure _) = KindFrontierSelectionFailure"
| "termination_of (Exhausted _ _) = SearchExhausted"

definition set_termination :: "search_termination_kind \<Rightarrow> collector \<Rightarrow> collector" where
  "set_termination kind tel =
     (if collector_enabled tel
      then tel\<lparr>collector_summary := (collector_summary tel)\<lparr>search_termination := kind\<rparr>\<rparr> else tel)"

definition finish_success :: "collector \<Rightarrow> collector" where
  "finish_success tel = set_termination SearchSuccess tel"

definition finish_with_error :: "search_error \<Rightarrow> collector \<Rightarrow> collector" where
  "finish_with_error e tel = set_termination (termination_of e) tel"

definition summary_of :: "collector \<Rightarrow> search_summary option" where
  "summary_of tel = (if collector_enabled tel then Some (collector_summary tel) else None)"

definition emit_search_telemetry :: "bool \<Rightarrow> search_summary option \<Rightarrow> search_summary list" where
  "emit_search_telemetry observer summary =
     (case summary of Some s \<Rightarrow> if observer then [s] else [] | None \<Rightarrow> [])"

section \<open>Loading and scoring one block\<close>

fun classify_store_error :: "block_hash \<Rightarrow> bool \<Rightarrow> block_store_error \<Rightarrow> search_error" where
  "classify_store_error block_id is_root (BackendFailure m) =
     (if is_root then RootLoad (BackendFailure m) else ChildLoad block_id (BackendFailure m))"
| "classify_store_error block_id is_root e = MalformedBlock block_id e"

definition load_validated_block ::
    "deps \<Rightarrow> 's store_ops \<Rightarrow> 's \<Rightarrow> block_hash \<Rightarrow> bool \<Rightarrow> validated_block search_outcome \<times> 's" where
  "load_validated_block d ops s block_id is_root =
     (let (r, s') = store_get d ops s block_id
      in (case r of
            Ok (Some validated) \<Rightarrow> Ok validated
          | Ok None \<Rightarrow> Err (if is_root then MissingRootBlock block_id else MissingChildBlock block_id)
          | Err e \<Rightarrow> Err (classify_store_error block_id is_root e)
          | Panic \<Rightarrow> Panic, s'))"

definition score_branch_entry ::
    "deps \<Rightarrow> ('target, 'score) searcher \<Rightarrow> block_hash \<Rightarrow> 'target \<Rightarrow> block_metadata
       \<Rightarrow> ebcp_descriptor option \<Rightarrow> embedding_spec \<Rightarrow> nat \<Rightarrow> branch_entry \<Rightarrow> 'score candidate search_outcome" where
  "score_branch_entry d se block_id target md branch_ebcp comparison_spec depth entry =
     (case branch_ebcp of
        Some descriptor \<Rightarrow>
          and_then (map_err (\<lambda>e. ScoringFailure block_id (display_block_error e))
            (reconstruct_logical_branch_embedding_f32 d (be_embedding entry) (md_embedding_spec md)
               (Some descriptor))) (\<lambda>reconstructed.
          let embedding = concat (map f32_to_le reconstructed) in
          map_ok (\<lambda>score. BranchCandidate (be_child entry) (depth + 1) (md_level md) embedding
                            comparison_spec score)
            (map_err (ScoringFailure block_id) (scorer se target embedding comparison_spec)))
      | None \<Rightarrow>
          map_ok (\<lambda>score. BranchCandidate (be_child entry) (depth + 1) (md_level md)
                            (be_embedding entry) comparison_spec score)
            (map_err (ScoringFailure block_id)
               (scorer se target (be_embedding entry) comparison_spec)))"

definition score_leaf_entry ::
    "('target, 'score) searcher \<Rightarrow> block_hash \<Rightarrow> 'target \<Rightarrow> block_metadata \<Rightarrow> leaf_entry
       \<Rightarrow> 'score candidate search_outcome" where
  "score_leaf_entry se block_id target md entry =
     map_ok (\<lambda>score. LeafCandidate block_id (md_level md) entry score)
       (map_err (ScoringFailure block_id)
          (scorer se target (le_embedding entry) (md_embedding_spec md)))"

definition block_candidates ::
    "deps \<Rightarrow> ('target, 'score) searcher \<Rightarrow> block_hash \<Rightarrow> 'target \<Rightarrow> typed_entries \<Rightarrow> nat
       \<Rightarrow> 'score candidate list search_outcome" where
  "block_candidates d se block_id target entries depth =
     (case entries of
        BranchEntries md es \<Rightarrow>
          and_then (map_err (\<lambda>e. ScoringFailure block_id (display_block_error e))
            (parse_branch_ebcp_descriptor (md_embedding_spec md) (md_ext md))) (\<lambda>branch_ebcp.
          let comparison_spec =
                (case branch_ebcp of Some ds \<Rightarrow> logical_embedding_spec ds
                 | None \<Rightarrow> md_embedding_spec md) in
          and_then (map_err (IncompatibleEmbedding block_id) (compatibility se target comparison_spec)) (\<lambda>_.
            traverse (score_branch_entry d se block_id target md branch_ebcp comparison_spec depth) es))
      | LeafEntries md es \<Rightarrow>
          and_then (map_err (IncompatibleEmbedding block_id)
                      (compatibility se target (md_embedding_spec md))) (\<lambda>_.
            traverse (score_leaf_entry se block_id target md) es))"

definition build_block_candidates ::
    "deps \<Rightarrow> ('target, 'score) searcher \<Rightarrow> block_hash \<Rightarrow> 'target \<Rightarrow> validated_block \<Rightarrow> nat \<Rightarrow> collector
       \<Rightarrow> 'score candidate list search_outcome \<times> collector" where
  "build_block_candidates d se block_id target validated depth tel =
     (block_candidates d se block_id target (into_entries validated) depth,
      record_visited_block block_id depth tel)"

definition load_block_candidates ::
    "deps \<Rightarrow> ('target, 'score) searcher \<Rightarrow> 's store_ops \<Rightarrow> block_hash \<Rightarrow> 'target \<Rightarrow> 's \<Rightarrow> bool \<Rightarrow> nat
       \<Rightarrow> collector \<Rightarrow> 'score candidate list search_outcome \<times> collector \<times> 's" where
  "load_block_candidates d se ops block_id target s is_root depth tel =
     (let (r, s') = load_validated_block d ops s block_id is_root
      in case r of
           Ok validated \<Rightarrow>
             let (c, tel') = build_block_candidates d se block_id target validated depth tel
             in (c, tel', s')
         | Err e \<Rightarrow> (Err e, tel, s')
         | Panic \<Rightarrow> (Panic, tel, s'))"

section \<open>The frontier\<close>

fun expandable_loop ::
    "block_hash list \<Rightarrow> block_hash list \<Rightarrow> 'score candidate list \<Rightarrow> 'score expandable list" where
  "expandable_loop expanded seen [] = []"
| "expandable_loop expanded seen (LeafCandidate _ _ _ _ # cs) = expandable_loop expanded seen cs"
| "expandable_loop expanded seen (BranchCandidate child depth level emb spec score # cs) =
     (if child \<in> set expanded then expandable_loop expanded seen cs
      else if child \<in> set seen then expandable_loop expanded seen cs
      else \<lparr>ef_child = child, ef_depth = depth, ef_level = level, ef_score = score,
             ef_embedding = emb, ef_embedding_spec = spec\<rparr> #
           expandable_loop expanded (child # seen) cs)"

definition deduplicated_expandable_frontier ::
    "'score candidate list \<Rightarrow> block_hash list \<Rightarrow> 'score expandable list" where
  "deduplicated_expandable_frontier frontier expanded = expandable_loop expanded [] frontier"

fun check_selected :: "block_hash list \<Rightarrow> block_hash list \<Rightarrow> block_hash list \<Rightarrow> unit search_outcome" where
  "check_selected allowed seen [] = Ok ()"
| "check_selected allowed seen (child # rest) =
     (if child \<notin> set allowed
      then Err (FrontierSelectionFailure
             (''frontier selector returned unknown child block '' @ display_hash child))
      else if child \<in> set seen
      then Err (FrontierSelectionFailure
             (''frontier selector returned duplicate child block '' @ display_hash child))
      else check_selected allowed (child # seen) rest)"

definition validate_selected_children ::
    "block_hash list \<Rightarrow> 'score expandable list \<Rightarrow> nat \<Rightarrow> block_hash list search_outcome" where
  "validate_selected_children selected frontier w =
     (let expected_len = min (length frontier) w in
      if length selected \<noteq> expected_len
      then Err (FrontierSelectionFailure
             (''frontier selector returned '' @ show_nat (length selected)
               @ '' child blocks, expected '' @ show_nat expected_len @ '' for frontier size ''
               @ show_nat (length frontier) @ '' and width '' @ show_nat w))
      else map_ok (\<lambda>_. selected) (check_selected (map ef_child frontier) [] selected))"

fun child_in :: "block_hash list \<Rightarrow> 'score candidate \<Rightarrow> bool" where
  "child_in hs (BranchCandidate child _ _ _ _ _) = (child \<in> set hs)"
| "child_in hs (LeafCandidate _ _ _ _) = False"

text \<open>\<open>frontier.retain\<close>: drop the branch candidates whose child is in the set.\<close>

definition retain_not_in :: "block_hash list \<Rightarrow> 'score candidate list \<Rightarrow> 'score candidate list" where
  "retain_not_in hs frontier = filter (\<lambda>c. \<not> child_in hs c) frontier"

fun child_depth :: "block_hash \<Rightarrow> 'score candidate list \<Rightarrow> nat" where
  "child_depth child_id [] = 1"
| "child_depth child_id (BranchCandidate child depth _ _ _ _ # cs) =
     (if child = child_id then depth else child_depth child_id cs)"
| "child_depth child_id (LeafCandidate _ _ _ _ # cs) = child_depth child_id cs"

text \<open>\<open>chunks(n)\<close> for a positive \<open>n\<close>.\<close>

function chunks :: "nat \<Rightarrow> 'a list \<Rightarrow> 'a list list" where
  "chunks n xs = (if n = 0 \<or> xs = [] then [] else take n xs # chunks n (drop n xs))"
  by pat_completeness auto

termination chunks
  by (relation "measure (\<lambda>(_, xs). length xs)") auto

declare chunks.simps [simp del]

definition max_concurrent_child_loads :: nat where
  "max_concurrent_child_loads = 32"

definition child_load_limit :: "nat \<Rightarrow> nat" where
  "child_load_limit w = max 1 (min w max_concurrent_child_loads)"

section \<open>The search loop\<close>

text \<open>\<open>join_all\<close> of the loads of one chunk; a panic of one of them is a panic of all.\<close>

fun load_chunk ::
    "deps \<Rightarrow> 's store_ops \<Rightarrow> (block_hash \<times> nat) list \<Rightarrow> 's
       \<Rightarrow> (block_hash \<times> nat \<times> validated_block search_outcome) list search_outcome \<times> 's" where
  "load_chunk d ops [] s = (Ok [], s)"
| "load_chunk d ops ((child_id, depth) # rest) s =
     (let (r, s1) = load_validated_block d ops s child_id False
      in if r = Panic then (Panic, s1)
         else let (rs, s2) = load_chunk d ops rest s1
              in (map_ok (Cons (child_id, depth, r)) rs, s2))"

record 'score round =
  next_candidates :: "'score candidate list"
  expanded_children :: "block_hash list"
  round_telemetry :: collector

text \<open>The loop over the loaded blocks of one chunk.\<close>

fun process_loaded ::
    "deps \<Rightarrow> ('target, 'score) searcher \<Rightarrow> 'target
       \<Rightarrow> (block_hash \<times> nat \<times> validated_block search_outcome) list \<Rightarrow> 'score round
       \<Rightarrow> unit search_outcome \<times> 'score round" where
  "process_loaded d se target [] st = (Ok (), st)"
| "process_loaded d se target ((child_id, depth, r) # rest) st =
     (case r of
        Err e \<Rightarrow> (Err e, st)
      | Panic \<Rightarrow> (Panic, st)
      | Ok validated \<Rightarrow>
          let (b, tel) = build_block_candidates d se child_id target validated depth (round_telemetry st);
              st1 = st\<lparr>round_telemetry := tel\<rparr>
          in case b of
               Err e \<Rightarrow> (Err e, st1)
             | Panic \<Rightarrow> (Panic, st1)
             | Ok cs \<Rightarrow>
                 process_loaded d se target rest
                   (st1\<lparr>next_candidates := next_candidates st1 @ cs,
                        expanded_children := List.insert child_id (expanded_children st1)\<rparr>))"

text \<open>The loop over the chunks of one round.\<close>

fun process_chunks ::
    "deps \<Rightarrow> ('target, 'score) searcher \<Rightarrow> 's store_ops \<Rightarrow> 'target
       \<Rightarrow> (block_hash \<times> nat) list list \<Rightarrow> 'score round \<Rightarrow> 's
       \<Rightarrow> unit search_outcome \<times> 'score round \<times> 's" where
  "process_chunks d se ops target [] st s = (Ok (), st, s)"
| "process_chunks d se ops target (chunk # rest) st s =
     (let (loaded, s1) = load_chunk d ops chunk s
      in case loaded of
           Err e \<Rightarrow> (Err e, st, s1)
         | Panic \<Rightarrow> (Panic, st, s1)
         | Ok ls \<Rightarrow>
             let (r, st1) = process_loaded d se target ls st
             in case r of
                  Err e \<Rightarrow> (Err e, st1, s1)
                | Panic \<Rightarrow> (Panic, st1, s1)
                | Ok _ \<Rightarrow> process_chunks d se ops target rest st1 s1)"

text \<open>The leaves of a successful search; a branch among them would be \<open>unreachable!\<close>.\<close>

fun leaf_result :: "nat \<times> 'score candidate \<Rightarrow> leaf_search_result search_outcome" where
  "leaf_result (position, LeafCandidate block_id _ entry _) =
     Ok \<lparr>leaf_block_id = block_id, lsr_entry = entry, lsr_position = position\<rparr>"
| "leaf_result (position, BranchCandidate _ _ _ _ _ _) = Panic"

definition take_leaves :: "nat \<Rightarrow> 'score candidate list \<Rightarrow> search_result search_outcome" where
  "take_leaves n frontier =
     map_ok (\<lambda>ls. \<lparr>leaves = ls\<rparr>)
       (traverse leaf_result (zip [0..<length (take n frontier)] (take n frontier)))"

record ('score, 's) search_state =
  frontier :: "'score candidate list"
  expanded :: "block_hash list"
  telemetry :: collector
  store_state :: 's

definition select_round ::
    "('target, 'score) searcher \<Rightarrow> 'score candidate list \<Rightarrow> block_hash list \<Rightarrow> nat
       \<Rightarrow> block_hash list search_outcome" where
  "select_round se fr ex w =
     (let expandable_frontier = deduplicated_expandable_frontier fr ex in
      and_then (map_err FrontierSelectionFailure (frontier_selector se expandable_frontier w))
        (\<lambda>selected. validate_selected_children selected expandable_frontier w))"

text \<open>
  One pass of the loop of \<open>search_internal\<close>: either the search ends with a result, or it continues
  with the next state.
\<close>

definition search_step ::
    "deps \<Rightarrow> ('target, 'score::linorder) searcher \<Rightarrow> 's store_ops \<Rightarrow> 'target \<Rightarrow> nat \<Rightarrow> nat
       \<Rightarrow> ('score, 's) search_state \<Rightarrow> search_result search_outcome option \<times> ('score, 's) search_state" where
  "search_step d se ops target w n st =
     (let fr = sort_by compare_candidates (retain_not_in (expanded st) (frontier st));
          st1 = st\<lparr>frontier := fr\<rparr> in
      if n \<le> length fr \<and> list_all is_terminal (take n fr)
      then (Some (take_leaves n fr), st1)
      else
        case select_round se fr (expanded st) w of
          Err e \<Rightarrow> (Some (Err e), st1)
        | Panic \<Rightarrow> (Some Panic, st1)
        | Ok current_round \<Rightarrow>
            if current_round = []
            then (Some (Err (Exhausted n (length (filter is_terminal fr)))), st1)
            else
              let depths = map (\<lambda>child_id. (child_id, child_depth child_id fr)) current_round;
                  (r, rd, s') = process_chunks d se ops target (chunks (child_load_limit w) depths)
                    \<lparr>next_candidates = [], expanded_children = expanded st,
                     round_telemetry = telemetry st\<rparr> (store_state st);
                  st2 = st1\<lparr>expanded := expanded_children rd, telemetry := round_telemetry rd,
                           store_state := s'\<rparr>
              in case r of
                   Err e \<Rightarrow> (Some (Err e), st2)
                 | Panic \<Rightarrow> (Some Panic, st2)
                 | Ok _ \<Rightarrow> (None, st2\<lparr>frontier := retain_not_in current_round fr @ next_candidates rd\<rparr>))"

partial_function (option) search_loop ::
    "deps \<Rightarrow> ('target, 'score::linorder) searcher \<Rightarrow> 's store_ops \<Rightarrow> 'target \<Rightarrow> nat \<Rightarrow> nat
       \<Rightarrow> ('score, 's) search_state \<Rightarrow> (search_result search_outcome \<times> ('score, 's) search_state) option" where
  "search_loop d se ops target w n st =
     (let (r, st') = search_step d se ops target w n st
      in case r of Some result \<Rightarrow> Some (result, st') | None \<Rightarrow> search_loop d se ops target w n st')"

section \<open>Entry points\<close>

text \<open>Every exit records how the search ended, then hands the summary to the observer.\<close>

definition conclude ::
    "telemetry_mode \<Rightarrow> search_result search_outcome \<Rightarrow> collector
       \<Rightarrow> (search_result \<times> search_summary) search_outcome \<times> search_summary list" where
  "conclude mode r tel =
     (case r of
        Ok result \<Rightarrow>
          let tel' = finish_success tel
          in (Ok (result, collector_summary tel'),
              emit_search_telemetry (mode_observer mode) (summary_of tel'))
      | Err e \<Rightarrow>
          let tel' = finish_with_error e tel
          in (Err e, emit_search_telemetry (mode_observer mode) (summary_of tel'))
      | Panic \<Rightarrow> (Panic, []))"

text \<open>The result, what the observer saw, and the store; nothing when the loop does not end.\<close>

definition search_internal ::
    "deps \<Rightarrow> ('target, 'score::linorder) searcher \<Rightarrow> 's store_ops \<Rightarrow> block_hash \<Rightarrow> 'target \<Rightarrow> nat \<Rightarrow> nat
       \<Rightarrow> 's \<Rightarrow> telemetry_mode
       \<Rightarrow> ((search_result \<times> search_summary) search_outcome \<times> search_summary list \<times> 's) option" where
  "search_internal d se ops root_id target w n s mode =
     (let tel0 = new_collector w (mode_enabled mode) in
      if w = 0
      then let (r, emitted) = conclude mode (Err (InvalidTraversalWidth w)) tel0 in Some (r, emitted, s)
      else
        let (loaded, tel, s1) = load_block_candidates d se ops root_id target s True 0 tel0 in
        case loaded of
          Err e \<Rightarrow> let (r, emitted) = conclude mode (Err e) tel in Some (r, emitted, s1)
        | Panic \<Rightarrow> Some (Panic, [], s1)
        | Ok fr \<Rightarrow>
            map_option (\<lambda>(result, st).
                let (r, emitted) = conclude mode result (telemetry st) in (r, emitted, store_state st))
              (search_loop d se ops target w n
                 \<lparr>frontier = fr, expanded = [], telemetry = tel, store_state = s1\<rparr>))"

definition search ::
    "deps \<Rightarrow> ('target, 'score::linorder) searcher \<Rightarrow> 's store_ops \<Rightarrow> block_hash \<Rightarrow> 'target \<Rightarrow> nat \<Rightarrow> nat
       \<Rightarrow> 's \<Rightarrow> (search_result search_outcome \<times> 's) option" where
  "search d se ops root_id target w n s =
     map_option (\<lambda>(r, _, s'). (map_ok fst r, s'))
       (search_internal d se ops root_id target w n s TelemetryDisabled)"

definition search_with_telemetry ::
    "deps \<Rightarrow> ('target, 'score::linorder) searcher \<Rightarrow> 's store_ops \<Rightarrow> block_hash \<Rightarrow> 'target \<Rightarrow> nat \<Rightarrow> nat
       \<Rightarrow> 's \<Rightarrow> ((search_result \<times> search_summary) search_outcome \<times> 's) option" where
  "search_with_telemetry d se ops root_id target w n s =
     map_option (\<lambda>(r, _, s'). (r, s'))
       (search_internal d se ops root_id target w n s (TelemetryEnabled False))"

text \<open>The second component lists the summaries the observer was given.\<close>

definition search_with_observer ::
    "deps \<Rightarrow> ('target, 'score::linorder) searcher \<Rightarrow> 's store_ops \<Rightarrow> block_hash \<Rightarrow> 'target \<Rightarrow> nat \<Rightarrow> nat
       \<Rightarrow> 's \<Rightarrow> (search_result search_outcome \<times> search_summary list \<times> 's) option" where
  "search_with_observer d se ops root_id target w n s =
     map_option (\<lambda>(r, emitted, s'). (map_ok fst r, emitted, s'))
       (search_internal d se ops root_id target w n s (TelemetryEnabled True))"

section \<open>Searchers of the published profiles\<close>

definition with_frontier_selector ::
    "('target \<Rightarrow> embedding_spec \<Rightarrow> (string, unit) outcome)
       \<Rightarrow> ('target \<Rightarrow> byte list \<Rightarrow> embedding_spec \<Rightarrow> (string, 'score) outcome)
       \<Rightarrow> ('score expandable list \<Rightarrow> nat \<Rightarrow> (string, block_hash list) outcome) \<Rightarrow> ('target, 'score) searcher" where
  "with_frontier_selector ec cs fs =
     \<lparr>compatibility = ec, scorer = cs, frontier_selector = fs\<rparr>"

definition published_policy ::
    "published_selector \<Rightarrow> 'score expandable list \<Rightarrow> nat \<Rightarrow> (string, block_hash list) outcome" where
  "published_policy p fr w = map_err display_geometry_error (published_select p fr w)"

definition new_searcher ::
    "('target \<Rightarrow> embedding_spec \<Rightarrow> (string, unit) outcome)
       \<Rightarrow> ('target \<Rightarrow> byte list \<Rightarrow> embedding_spec \<Rightarrow> (string, 'score) outcome) \<Rightarrow> ('target, 'score) searcher" where
  "new_searcher ec cs = with_frontier_selector ec cs (published_policy TopW)"

definition default_searcher :: "published_selector \<Rightarrow> (encoded_target, cosine_score) searcher" where
  "default_searcher p =
     with_frontier_selector (\<lambda>t spec. map_err display_policy_error (default_ensure_compatible t spec))
       (\<lambda>t bs spec. map_err display_policy_error (default_score t bs spec)) (published_policy p)"

definition profile_searcher ::
    "search_profile \<Rightarrow> (profile_error, (encoded_target, cosine_score) searcher) outcome" where
  "profile_searcher profile =
     (if sp_version profile = published_profile_v0_1_0 then Ok (default_searcher TopW)
      else if sp_version profile = published_profile_v0_2_0 then Ok (default_searcher GeometryAware)
      else Panic)"

record profiled_searcher =
  ps_profile :: search_profile
  ps_inner :: "(encoded_target, cosine_score) searcher"

definition new_profiled_searcher :: "profile_version \<Rightarrow> (profile_error, profiled_searcher) outcome" where
  "new_profiled_searcher v =
     and_then (published_search_profile v) (\<lambda>profile.
       map_ok (\<lambda>inner. \<lparr>ps_profile = profile, ps_inner = inner\<rparr>) (profile_searcher profile))"

definition profiled_search ::
    "deps \<Rightarrow> profiled_searcher \<Rightarrow> 's store_ops \<Rightarrow> block_hash \<Rightarrow> byte list \<Rightarrow> embedding_spec \<Rightarrow> nat \<Rightarrow> nat
       \<Rightarrow> 's \<Rightarrow> (search_result search_outcome \<times> 's) option" where
  "profiled_search d ps ops root_id target_bytes spec w n s =
     search d (ps_inner ps) ops root_id (encode_target (ps_profile ps) target_bytes spec) w n s"

definition profiled_search_with_telemetry ::
    "deps \<Rightarrow> profiled_searcher \<Rightarrow> 's store_ops \<Rightarrow> block_hash \<Rightarrow> byte list \<Rightarrow> embedding_spec \<Rightarrow> nat \<Rightarrow> nat
       \<Rightarrow> 's \<Rightarrow> ((search_result \<times> search_summary) search_outcome \<times> 's) option" where
  "profiled_search_with_telemetry d ps ops root_id target_bytes spec w n s =
     search_with_telemetry d (ps_inner ps) ops root_id
       (encode_target (ps_profile ps) target_bytes spec) w n s"

definition profiled_search_with_observer ::
    "deps \<Rightarrow> profiled_searcher \<Rightarrow> 's store_ops \<Rightarrow> block_hash \<Rightarrow> byte list \<Rightarrow> embedding_spec \<Rightarrow> nat \<Rightarrow> nat
       \<Rightarrow> 's \<Rightarrow> (search_result search_outcome \<times> search_summary list \<times> 's) option" where
  "profiled_search_with_observer d ps ops root_id target_bytes spec w n s =
     search_with_observer d (ps_inner ps) ops root_id
       (encode_target (ps_profile ps) target_bytes spec) w n s"

end
