(* ===== verification/Memory_Store.thy ===== *)
theory Memory_Store
  imports Block_Store
begin

text \<open>
  The volatile store of \<open>src/crates/lexongraph-block-store-memory/src/lib.rs\<close>: a bounded map with
  least-recently-used eviction. The hash map is an association list with one entry per key, the
  recency counter a \<open>64 word\<close> that wraps, sizes are \<open>usize\<close> with saturating arithmetic. The lemmas
  show that the capacity is never exceeded, that the eviction loop ends and its \<open>expect\<close> cannot
  fail, that eviction removes the least recently used blocks, and that the store honours the
  contract \<open>block_store\<close>.
\<close>

section \<open>State\<close>

datatype capacity = ResidentBlocks nat | ResidentBytes nat

record resident_entry =
  re_bytes :: "byte list"
  re_recency :: u64

record mem_state =
  mem_capacity :: capacity
  resident_bytes :: nat
  next_recency :: u64
  entries :: "(block_hash \<times> resident_entry) list"

datatype build_error = ZeroCapacity | CapacityOverflow

fun display_build_error :: "build_error \<Rightarrow> string" where
  "display_build_error ZeroCapacity = ''memory block store capacity must be at least 1''"
| "display_build_error CapacityOverflow =
     ''memory block store capacity overflowed when converting MB to bytes''"

fun limit :: "capacity \<Rightarrow> nat" where
  "limit (ResidentBlocks n) = n"
| "limit (ResidentBytes n) = n"

definition new_with_capacity :: "capacity \<Rightarrow> (build_error, mem_state) outcome" where
  "new_with_capacity cap =
     (if limit cap = 0 then Err ZeroCapacity
      else Ok \<lparr>mem_capacity = cap, resident_bytes = 0, next_recency = 0, entries = []\<rparr>)"

definition new_store :: "nat \<Rightarrow> (build_error, mem_state) outcome" where
  "new_store max_resident_blocks = new_with_capacity (ResidentBlocks max_resident_blocks)"

definition new_cache_mb :: "nat \<Rightarrow> (build_error, mem_state) outcome" where
  "new_cache_mb max_resident_mb =
     and_then (ok_or (checked_mul max_resident_mb 1048576) CapacityOverflow)
       (\<lambda>n. new_with_capacity (ResidentBytes n))"

definition max_resident_blocks :: "mem_state \<Rightarrow> nat" where
  "max_resident_blocks s = (case mem_capacity s of ResidentBlocks n \<Rightarrow> n | ResidentBytes _ \<Rightarrow> 0)"

section \<open>Operations\<close>

definition take_recency :: "mem_state \<Rightarrow> u64 \<times> mem_state" where
  "take_recency s = (next_recency s, s\<lparr>next_recency := next_recency s + 1\<rparr>)"

fun allows_insert :: "capacity \<Rightarrow> nat \<Rightarrow> nat \<Rightarrow> nat \<Rightarrow> bool \<Rightarrow> bool" where
  "allows_insert (ResidentBlocks n) resident_len resident_size new_len replacing_existing =
     (replacing_existing \<or> resident_len < n)"
| "allows_insert (ResidentBytes n) resident_len resident_size new_len replacing_existing =
     (saturating_add resident_size new_len \<le> n)"

text \<open>\<open>min_by_key\<close>: the first entry with the least recency.\<close>

fun min_by_recency :: "(block_hash \<times> resident_entry) list \<Rightarrow> (block_hash \<times> resident_entry) option" where
  "min_by_recency [] = None"
| "min_by_recency (e # es) =
     (case min_by_recency es of
        None \<Rightarrow> Some e
      | Some m \<Rightarrow> if re_recency (snd e) \<le> re_recency (snd m) then Some e else Some m)"

definition evict_lru_excluding :: "block_hash \<Rightarrow> mem_state \<Rightarrow> (string, mem_state) outcome" where
  "evict_lru_excluding excluded s =
     (case min_by_recency (filter (\<lambda>(k, _). k \<noteq> excluded) (entries s)) of
        None \<Rightarrow> Panic
      | Some (k, e) \<Rightarrow>
          Ok (s\<lparr>entries := filter (\<lambda>(k', _). k' \<noteq> k) (entries s),
                resident_bytes := saturating_sub (resident_bytes s) (length (re_bytes e))\<rparr>))"

lemma min_by_recency_mem: "min_by_recency es = Some e \<Longrightarrow> e \<in> set es"
  by (induction es arbitrary: e) (auto split: option.splits if_splits)

lemma evict_shrinks:
  "evict_lru_excluding h s = Ok s' \<Longrightarrow> length (entries s') < length (entries s)"
  by (force simp: evict_lru_excluding_def intro: length_filter_less
      dest: min_by_recency_mem split: option.splits)

function evict_until ::
    "block_hash \<Rightarrow> nat \<Rightarrow> nat \<Rightarrow> bool \<Rightarrow> mem_state \<Rightarrow> (string, mem_state) outcome" where
  "evict_until h old_len new_len replacing_existing s =
     (if allows_insert (mem_capacity s) (length (entries s))
           (saturating_sub (resident_bytes s) old_len) new_len replacing_existing
      then Ok s
      else and_then (evict_lru_excluding h s) (evict_until h old_len new_len replacing_existing))"
  by pat_completeness auto

termination evict_until
  by (relation "measure (\<lambda>(_, _, _, _, s). length (entries s))") (auto dest: evict_shrinks)

declare evict_until.simps [simp del]

fun set_entry ::
    "block_hash \<Rightarrow> resident_entry \<Rightarrow> (block_hash \<times> resident_entry) list
       \<Rightarrow> (block_hash \<times> resident_entry) list" where
  "set_entry h e [] = [(h, e)]"
| "set_entry h e ((k, e') # es) = (if k = h then (h, e) # es else (k, e') # set_entry h e es)"

definition capacity_message :: "nat \<Rightarrow> nat \<Rightarrow> string" where
  "capacity_message new_len n =
     ''block payload of '' @ show_nat new_len @ '' bytes exceeds cache capacity of '' @ show_nat n
       @ '' bytes''"

definition insert_or_refresh ::
    "block_hash \<Rightarrow> byte list \<Rightarrow> mem_state \<Rightarrow> (string, unit) outcome \<times> mem_state" where
  "insert_or_refresh h bs s =
     (let new_len = length bs
      in if (case mem_capacity s of ResidentBytes n \<Rightarrow> n < new_len | ResidentBlocks _ \<Rightarrow> False)
         then (Err (capacity_message new_len (limit (mem_capacity s))), s)
         else
           let (recency, s1) = take_recency s;
               replacing_existing = (map_of (entries s1) h \<noteq> None);
               old_len = (case map_of (entries s1) h of
                            None \<Rightarrow> 0 | Some e \<Rightarrow> length (re_bytes e))
           in case evict_until h old_len new_len replacing_existing s1 of
                Ok s2 \<Rightarrow>
                  (Ok (), s2\<lparr>entries := set_entry h \<lparr>re_bytes = bs, re_recency = recency\<rparr> (entries s2),
                             resident_bytes :=
                               saturating_add (saturating_sub (resident_bytes s2) old_len) new_len\<rparr>)
              | Err e \<Rightarrow> (Err e, s1)
              | Panic \<Rightarrow> (Panic, s1))"

definition mem_refresh :: "block_hash \<Rightarrow> mem_state \<Rightarrow> mem_state" where
  "mem_refresh h s =
     (let (recency, s1) = take_recency s
      in case map_of (entries s1) h of
           None \<Rightarrow> s1
         | Some e \<Rightarrow> s1\<lparr>entries := set_entry h (e\<lparr>re_recency := recency\<rparr>) (entries s1)\<rparr>)"

definition mem_put_block_bytes ::
    "mem_state \<Rightarrow> block_hash \<Rightarrow> byte list \<Rightarrow> unit store_result \<times> mem_state" where
  "mem_put_block_bytes s h bs =
     (let (r, s') = insert_or_refresh h bs s in (map_err BackendFailure r, s'))"

text \<open>\<open>raw_insert\<close> expects the bytes to fit.\<close>

definition raw_insert :: "mem_state \<Rightarrow> block_hash \<Rightarrow> byte list \<Rightarrow> (string, unit) outcome \<times> mem_state" where
  "raw_insert s h bs =
     (let (r, s') = insert_or_refresh h bs s in (case r of Ok u \<Rightarrow> Ok u | _ \<Rightarrow> Panic, s'))"

definition mem_get_block_bytes ::
    "mem_state \<Rightarrow> block_hash \<Rightarrow> byte list option store_result \<times> mem_state" where
  "mem_get_block_bytes s h =
     (case map_of (entries s) h of
        None \<Rightarrow> (Ok None, s)
      | Some e \<Rightarrow> (Ok (Some (re_bytes e)), mem_refresh h s))"

definition mem_iter_block_ids :: "mem_state \<Rightarrow> block_hash store_result list store_result" where
  "mem_iter_block_ids s = Ok (map (\<lambda>(h, _). Ok h) (entries s))"

definition mem_ops :: "mem_state store_ops" where
  "mem_ops = \<lparr>put_block_bytes = mem_put_block_bytes,
              put_block_bytes_batch = default_put_block_bytes_batch,
              get_block_bytes = mem_get_block_bytes, iter_block_ids = mem_iter_block_ids\<rparr>"

section \<open>Invariant\<close>

definition total_bytes :: "(block_hash \<times> resident_entry) list \<Rightarrow> nat" where
  "total_bytes es = sum_list (map (\<lambda>(_, e). length (re_bytes e)) es)"

text \<open>
  One entry per key and a positive limit; a store bounded by blocks holds at most that many, a store
  bounded by bytes counts exactly the bytes it holds and stays within its bound. (A byte bound is a
  multiple of a megabyte, so it is below \<open>usize::MAX\<close> and the saturating sum is exact where it
  matters.)
\<close>

definition mem_inv :: "mem_state \<Rightarrow> bool" where
  "mem_inv s =
     (distinct (map fst (entries s)) \<and> 0 < limit (mem_capacity s) \<and>
      (case mem_capacity s of
         ResidentBlocks n \<Rightarrow> length (entries s) \<le> n
       | ResidentBytes n \<Rightarrow> n < usize_max \<and> resident_bytes s = total_bytes (entries s) \<and>
           total_bytes (entries s) \<le> n))"

definition mem_resident :: "mem_state \<Rightarrow> block_hash \<rightharpoonup> byte list" where
  "mem_resident s h = map_option re_bytes (map_of (entries s) h)"

section \<open>Entries\<close>

lemma map_of_set_entry [simp]: "map_of (set_entry h e es) = (map_of es)(h \<mapsto> e)"
  by (induction h e es rule: set_entry.induct) (auto simp: fun_eq_iff)

lemma keys_set_entry: "fst ` set (set_entry h e es) = insert h (fst ` set es)"
  by (induction h e es rule: set_entry.induct) auto

lemma distinct_set_entry:
  "distinct (map fst es) \<Longrightarrow> distinct (map fst (set_entry h e es))"
proof (induction h e es rule: set_entry.induct)
  case (2 h e k e' es)
  have "k \<noteq> h \<Longrightarrow> k \<notin> fst ` set (set_entry h e es)"
    using 2(2) keys_set_entry [of h e es] by auto
  with 2 show ?case by auto
qed simp

lemma length_set_entry:
  "length (set_entry h e es) = (if map_of es h = None then Suc (length es) else length es)"
  by (induction h e es rule: set_entry.induct) auto

definition old_len :: "block_hash \<Rightarrow> (block_hash \<times> resident_entry) list \<Rightarrow> nat" where
  "old_len h es = (case map_of es h of None \<Rightarrow> 0 | Some e \<Rightarrow> length (re_bytes e))"

lemma total_bytes_simps [simp]:
  "total_bytes [] = 0" "total_bytes ((k, e) # es) = length (re_bytes e) + total_bytes es"
  by (simp_all add: total_bytes_def)

lemma total_set_entry:
  "total_bytes (set_entry h e es) + old_len h es = total_bytes es + length (re_bytes e)"
  by (induction h e es rule: set_entry.induct) (auto simp: old_len_def)

lemma old_len_le_total: "old_len h es \<le> total_bytes es"
  by (induction es) (auto simp: old_len_def)

abbreviation without :: "block_hash \<Rightarrow> (block_hash \<times> resident_entry) list \<Rightarrow> (block_hash \<times> resident_entry) list" where
  "without k es \<equiv> filter (\<lambda>(k', _). k' \<noteq> k) es"

lemma without_absent: "k \<notin> fst ` set es \<Longrightarrow> without k es = es"
  by (induction es) auto

lemma total_without:
  "distinct (map fst es) \<Longrightarrow> (k, e) \<in> set es \<Longrightarrow>
     total_bytes es = length (re_bytes e) + total_bytes (without k es)"
  by (induction es) (auto simp: without_absent image_iff intro!: arg_cong [where f = total_bytes])

lemma total_without_old:
  "distinct (map fst es) \<Longrightarrow> total_bytes es = old_len h es + total_bytes (without h es)"
proof (cases "map_of es h")
  case None
  then have "h \<notin> fst ` set es" by (simp add: map_of_eq_None_iff)
  with None show ?thesis by (simp add: old_len_def without_absent)
next
  case (Some e)
  assume "distinct (map fst es)"
  from total_without [OF this map_of_SomeD [OF Some]] Some show ?thesis by (simp add: old_len_def)
qed

lemma map_of_without: "map_of (without k es) = (map_of es)(k := None)"
  by (induction es) (auto simp: fun_eq_iff)

lemma min_by_recency_least:
  "min_by_recency es = Some m \<Longrightarrow> e \<in> set es \<Longrightarrow> re_recency (snd m) \<le> re_recency (snd e)"
proof (induction es arbitrary: m)
  case (Cons a es)
  show ?case
  proof (cases "min_by_recency es")
    case None
    then have "es = []" by (cases es) (auto split: option.splits if_splits)
    with Cons.prems show ?thesis by simp
  next
    case (Some x)
    with Cons.prems Cons.IH [OF Some] show ?thesis by (auto split: if_splits)
  qed
qed simp

lemma min_by_recency_None: "min_by_recency es = None \<longleftrightarrow> es = []"
  by (cases es) (auto split: option.splits)

section \<open>The eviction loop\<close>

text \<open>What holds of the state whenever the loop condition is tested.\<close>

definition loop_inv :: "block_hash \<Rightarrow> nat \<Rightarrow> nat \<Rightarrow> bool \<Rightarrow> mem_state \<Rightarrow> bool" where
  "loop_inv h old new replacing s =
     (distinct (map fst (entries s)) \<and> 0 < limit (mem_capacity s) \<and>
      replacing = (map_of (entries s) h \<noteq> None) \<and> old = old_len h (entries s) \<and>
      (case mem_capacity s of
         ResidentBlocks n \<Rightarrow> length (entries s) \<le> n
       | ResidentBytes n \<Rightarrow> new \<le> n \<and> n < usize_max \<and>
           resident_bytes s = total_bytes (entries s) \<and> total_bytes (entries s) \<le> n))"

lemma others_remain:
  assumes "loop_inv h old new replacing s"
    and "\<not> allows_insert (mem_capacity s) (length (entries s))
           (saturating_sub (resident_bytes s) old) new replacing"
  shows "without h (entries s) \<noteq> []"
proof (cases "mem_capacity s")
  case (ResidentBlocks n)
  with assms have "map_of (entries s) h = None" and "entries s \<noteq> []"
    by (auto simp: loop_inv_def)
  then show ?thesis by (simp add: without_absent map_of_eq_None_iff)
next
  case (ResidentBytes n)
  with assms have "total_bytes (entries s) \<noteq> old_len h (entries s)"
    by (auto simp: loop_inv_def saturating_add_def saturating_sub_def)
  with assms total_without_old [of "entries s" h] show ?thesis
    by (auto simp: loop_inv_def)
qed

lemma evict_step:
  assumes inv: "loop_inv h old new replacing s" and others: "without h (entries s) \<noteq> []"
  obtains k e where "(k, e) \<in> set (entries s)" and "k \<noteq> h"
    and "\<And>j f. (j, f) \<in> set (entries s) \<Longrightarrow> j \<noteq> h \<Longrightarrow> re_recency e \<le> re_recency f"
    and "evict_lru_excluding h s = Ok (s\<lparr>entries := without k (entries s),
           resident_bytes := saturating_sub (resident_bytes s) (length (re_bytes e))\<rparr>)"
    and "loop_inv h old new replacing (s\<lparr>entries := without k (entries s),
           resident_bytes := saturating_sub (resident_bytes s) (length (re_bytes e))\<rparr>)"
proof -
  obtain k e where m: "min_by_recency (without h (entries s)) = Some (k, e)"
    using others min_by_recency_None by (metis not_None_eq surj_pair)
  then have mem: "(k, e) \<in> set (entries s)" and kh: "k \<noteq> h"
    using min_by_recency_mem [OF m] by auto
  have least: "re_recency e \<le> re_recency f" if "(j, f) \<in> set (entries s)" "j \<noteq> h" for j f
    using min_by_recency_least [OF m, of "(j, f)"] that by simp
  have "total_bytes (entries s) = length (re_bytes e) + total_bytes (without k (entries s))"
    using inv mem by (intro total_without) (simp_all add: loop_inv_def)
  moreover have "old_len h (without k (entries s)) = old_len h (entries s)"
    using kh by (simp add: old_len_def map_of_without)
  ultimately have "loop_inv h old new replacing (s\<lparr>entries := without k (entries s),
      resident_bytes := saturating_sub (resident_bytes s) (length (re_bytes e))\<rparr>)"
    using inv kh length_filter_le [of "\<lambda>(k', _). k' \<noteq> k" "entries s"]
    by (cases "mem_capacity s")
      (auto simp add: loop_inv_def map_of_without saturating_sub_def distinct_map_filter
        simp del: length_filter_le)
  with that [OF mem kh least] m show thesis by (simp add: evict_lru_excluding_def)
qed

text \<open>
  The loop ends with enough room, has removed some entries other than \<open>h\<close> and changed none, and
  no removed entry was more recent than one that stayed.
\<close>

lemma evict_until_spec:
  assumes "loop_inv h old new replacing s"
  shows "\<exists>s2 gone. evict_until h old new replacing s = Ok s2 \<and> loop_inv h old new replacing s2 \<and>
    allows_insert (mem_capacity s2) (length (entries s2))
      (saturating_sub (resident_bytes s2) old) new replacing \<and>
    mem_capacity s2 = mem_capacity s \<and> next_recency s2 = next_recency s \<and> h \<notin> gone \<and>
    entries s2 = filter (\<lambda>(k, _). k \<notin> gone) (entries s) \<and>
    (\<forall>(k, e) \<in> set (entries s). k \<in> gone \<longrightarrow>
       (\<forall>(j, f) \<in> set (entries s2). j \<noteq> h \<longrightarrow> re_recency e \<le> re_recency f))"
  using assms
proof (induction h old new replacing s rule: evict_until.induct)
  case (1 h old new replacing s)
  show ?case
  proof (cases "allows_insert (mem_capacity s) (length (entries s))
      (saturating_sub (resident_bytes s) old) new replacing")
    case True
    with "1.prems" show ?thesis
      by (intro exI [of _ s] exI [of _ "{}"]) (auto simp: evict_until.simps [of h old new replacing s])
  next
    case False
    from others_remain [OF "1.prems" False] obtain k e where
      ke: "(k, e) \<in> set (entries s)" "k \<noteq> h"
      and least: "\<And>j f. (j, f) \<in> set (entries s) \<Longrightarrow> j \<noteq> h \<Longrightarrow> re_recency e \<le> re_recency f"
      and ev: "evict_lru_excluding h s = Ok (s\<lparr>entries := without k (entries s),
           resident_bytes := saturating_sub (resident_bytes s) (length (re_bytes e))\<rparr>)"
      and inv1: "loop_inv h old new replacing (s\<lparr>entries := without k (entries s),
           resident_bytes := saturating_sub (resident_bytes s) (length (re_bytes e))\<rparr>)"
      by (rule evict_step [OF "1.prems"]) blast
    let ?s1 = "s\<lparr>entries := without k (entries s),
        resident_bytes := saturating_sub (resident_bytes s) (length (re_bytes e))\<rparr>"
    from "1.IH" [OF False ev inv1] obtain s2 gone where
      r: "evict_until h old new replacing ?s1 = Ok s2" and rest: "loop_inv h old new replacing s2"
        "allows_insert (mem_capacity s2) (length (entries s2))
          (saturating_sub (resident_bytes s2) old) new replacing"
        "mem_capacity s2 = mem_capacity s" "next_recency s2 = next_recency s" "h \<notin> gone"
      and es: "entries s2 = filter (\<lambda>(k, _). k \<notin> gone) (without k (entries s))"
      and lru: "\<forall>(k', e') \<in> set (without k (entries s)). k' \<in> gone \<longrightarrow>
        (\<forall>(j, f) \<in> set (entries s2). j \<noteq> h \<longrightarrow> re_recency e' \<le> re_recency f)"
      by auto
    have "e' = e" if "(k, e') \<in> set (entries s)" for e'
      using that ke(1) "1.prems" by (auto simp: loop_inv_def dest: eq_key_imp_eq_value)
    then have "\<forall>(k', e') \<in> set (entries s). k' \<in> insert k gone \<longrightarrow>
        (\<forall>(j, f) \<in> set (entries s2). j \<noteq> h \<longrightarrow> re_recency e' \<le> re_recency f)"
      using lru least es by fastforce
    moreover have "entries s2 = filter (\<lambda>(k', _). k' \<notin> insert k gone) (entries s)"
      unfolding es filter_filter by (rule filter_cong) auto
    ultimately show ?thesis
      using r rest False ev ke(2)
      by (intro exI [of _ s2] exI [of _ "insert k gone"])
        (simp add: evict_until.simps [of h old new replacing s])
  qed
qed

section \<open>Inserting and reading\<close>

definition too_large :: "mem_state \<Rightarrow> byte list \<Rightarrow> bool" where
  "too_large s bs =
     (case mem_capacity s of ResidentBytes n \<Rightarrow> n < length bs | ResidentBlocks _ \<Rightarrow> False)"

lemma insert_too_large:
  "too_large s bs \<Longrightarrow> insert_or_refresh h bs s =
     (Err (capacity_message (length bs) (limit (mem_capacity s))), s)"
  by (auto simp: insert_or_refresh_def too_large_def split: capacity.splits)

lemma mem_inv_after_set:
  assumes inv: "loop_inv h (old_len h (entries s2)) (length bs) (map_of (entries s2) h \<noteq> None) s2"
    and room: "allows_insert (mem_capacity s2) (length (entries s2))
      (saturating_sub (resident_bytes s2) (old_len h (entries s2))) (length bs)
      (map_of (entries s2) h \<noteq> None)"
  shows "mem_inv (s2\<lparr>entries := set_entry h \<lparr>re_bytes = bs, re_recency = r\<rparr> (entries s2),
    resident_bytes := saturating_add
      (saturating_sub (resident_bytes s2) (old_len h (entries s2))) (length bs)\<rparr>)"
proof -
  let ?e = "\<lparr>re_bytes = bs, re_recency = r\<rparr>"
  have "total_bytes (set_entry h ?e (entries s2)) =
      total_bytes (entries s2) - old_len h (entries s2) + length bs"
    using total_set_entry [of h ?e "entries s2"] old_len_le_total [of h "entries s2"] by simp
  with inv room distinct_set_entry [of "entries s2" h ?e] show ?thesis
    by (cases "mem_capacity s2")
      (auto simp: mem_inv_def loop_inv_def length_set_entry saturating_add_def saturating_sub_def)
qed

lemma map_of_filter_keys:
  "map_of (filter (\<lambda>(k, _). k \<notin> gone) es) k = (if k \<in> gone then None else map_of es k)"
  by (induction es) auto

lemma insert_spec:
  assumes inv: "mem_inv s" and fits: "\<not> too_large s bs"
  obtains s' gone where "insert_or_refresh h bs s = (Ok (), s')" and "mem_inv s'"
    and "mem_capacity s' = mem_capacity s" and "next_recency s' = next_recency s + 1" and "h \<notin> gone"
    and "\<And>k. map_of (entries s') k =
      (if k = h then Some \<lparr>re_bytes = bs, re_recency = next_recency s\<rparr>
       else if k \<in> gone then None else map_of (entries s) k)"
    and "\<And>k e j f. map_of (entries s) k = Some e \<Longrightarrow> k \<in> gone \<Longrightarrow> j \<noteq> h \<Longrightarrow>
      map_of (entries s') j = Some f \<Longrightarrow> re_recency e \<le> re_recency f"
proof -
  define s1 where "s1 = s\<lparr>next_recency := next_recency s + 1\<rparr>"
  have s1: "entries s1 = entries s" "mem_capacity s1 = mem_capacity s"
    "resident_bytes s1 = resident_bytes s" "next_recency s1 = next_recency s + 1"
    by (simp_all add: s1_def)
  let ?old = "old_len h (entries s)" and ?rep = "map_of (entries s) h \<noteq> None"
  have "loop_inv h ?old (length bs) ?rep s1"
    using inv fits by (cases "mem_capacity s") (auto simp: loop_inv_def mem_inv_def too_large_def s1)
  from evict_until_spec [OF this] obtain s2 gone where
    ev: "evict_until h ?old (length bs) ?rep s1 = Ok s2"
    and inv2: "loop_inv h ?old (length bs) ?rep s2"
    and room: "allows_insert (mem_capacity s2) (length (entries s2))
      (saturating_sub (resident_bytes s2) ?old) (length bs) ?rep"
    and s2: "mem_capacity s2 = mem_capacity s" "next_recency s2 = next_recency s + 1" "h \<notin> gone"
    and es: "entries s2 = filter (\<lambda>(k, _). k \<notin> gone) (entries s)"
    and lru: "\<forall>(k, e) \<in> set (entries s). k \<in> gone \<longrightarrow>
      (\<forall>(j, f) \<in> set (entries s2). j \<noteq> h \<longrightarrow> re_recency e \<le> re_recency f)"
    by (auto simp: s1)
  let ?s' = "s2\<lparr>entries := set_entry h \<lparr>re_bytes = bs, re_recency = next_recency s\<rparr> (entries s2),
    resident_bytes := saturating_add (saturating_sub (resident_bytes s2) ?old) (length bs)\<rparr>"
  have old2: "?old = old_len h (entries s2)" "?rep = (map_of (entries s2) h \<noteq> None)"
    using inv2 by (simp_all add: loop_inv_def)
  have look: "map_of (entries s2) k = (if k \<in> gone then None else map_of (entries s) k)" for k
    by (simp add: es map_of_filter_keys)
  have "insert_or_refresh h bs s = (Ok (), ?s')"
    using fits ev
    by (auto simp: insert_or_refresh_def take_recency_def too_large_def old_len_def Let_def s1_def
        split: capacity.splits)
  moreover have "mem_inv ?s'"
    using inv2 room unfolding old2 by (rule mem_inv_after_set)
  moreover have "re_recency e \<le> re_recency f"
    if "map_of (entries s) k = Some e" "k \<in> gone" "j \<noteq> h" "map_of (entries ?s') j = Some f" for k e j f
    using that lru by (force dest: map_of_SomeD)
  ultimately show thesis using s2 look by (intro that [of ?s' gone]) auto
qed

lemma refresh_spec:
  assumes "map_of (entries s) h = Some e"
  shows "mem_refresh h s = s\<lparr>next_recency := next_recency s + 1,
    entries := set_entry h (e\<lparr>re_recency := next_recency s\<rparr>) (entries s)\<rparr>"
  using assms by (simp add: mem_refresh_def take_recency_def)

lemma refresh_inv:
  assumes inv: "mem_inv s" and e: "map_of (entries s) h = Some e"
  shows "mem_inv (mem_refresh h s)"
proof -
  let ?e = "e\<lparr>re_recency := next_recency s\<rparr>"
  have "total_bytes (set_entry h ?e (entries s)) = total_bytes (entries s)"
    using total_set_entry [of h ?e "entries s"] e by (simp add: old_len_def)
  with inv e distinct_set_entry [of "entries s" h ?e] show ?thesis
    by (cases "mem_capacity s") (simp_all add: refresh_spec [OF e] mem_inv_def length_set_entry)
qed

lemma mem_get_spec:
  assumes "mem_inv s" and "mem_get_block_bytes s h = (r, s')"
  shows "r = Ok (mem_resident s h) \<and> mem_inv s' \<and> mem_resident s' = mem_resident s"
proof (cases "map_of (entries s) h")
  case None
  with assms show ?thesis by (simp add: mem_get_block_bytes_def mem_resident_def)
next
  case (Some e)
  have "mem_resident (mem_refresh h s) = mem_resident s"
    using Some by (auto simp: fun_eq_iff mem_resident_def refresh_spec [OF Some])
  with assms refresh_inv [OF _ Some] Some show ?thesis
    by (auto simp: mem_get_block_bytes_def mem_resident_def)
qed

lemma mem_put_cases:
  assumes "mem_inv s" and "mem_put_block_bytes s h bs = (r, s')"
  shows "(\<exists>e. r = Err (BackendFailure e) \<and> s' = s \<and> too_large s bs) \<or>
    (r = Ok () \<and> \<not> too_large s bs \<and> mem_inv s' \<and> mem_resident s' h = Some bs \<and>
     (\<forall>k. k \<noteq> h \<longrightarrow> mem_resident s' k \<in> {None, mem_resident s k}))"
proof (cases "too_large s bs")
  case True
  with assms(2) show ?thesis by (auto simp: mem_put_block_bytes_def insert_too_large)
next
  case False
  obtain s1 gone where ins: "insert_or_refresh h bs s = (Ok (), s1)" and "mem_inv s1"
    and "\<And>k. map_of (entries s1) k =
      (if k = h then Some \<lparr>re_bytes = bs, re_recency = next_recency s\<rparr>
       else if k \<in> gone then None else map_of (entries s) k)"
    by (rule insert_spec [OF assms(1) False, of h]) blast
  moreover have "r = Ok ()" and "s' = s1"
    using assms(2) ins by (simp_all add: mem_put_block_bytes_def)
  ultimately show ?thesis using False by (simp add: mem_resident_def)
qed

section \<open>The contract\<close>

text \<open>The invariant of a store that only admissible blocks are written to.\<close>

definition mem_inv_in :: "(block_hash \<rightharpoonup> byte list) \<Rightarrow> mem_state \<Rightarrow> bool" where
  "mem_inv_in universe s = (mem_inv s \<and> mem_resident s \<subseteq>\<^sub>m universe)"

lemma mem_iter_lists:
  "mem_iter_block_ids s = Ok items \<Longrightarrow> Ok h \<in> set items \<longleftrightarrow> mem_resident s h \<noteq> None"
proof -
  assume "mem_iter_block_ids s = Ok items"
  then have "items = map (Ok \<circ> fst) (entries s)"
    by (auto simp: mem_iter_block_ids_def comp_def case_prod_unfold)
  then have "Ok h \<in> set items \<longleftrightarrow> h \<in> fst ` set (entries s)" by auto
  then show ?thesis using map_of_eq_None_iff [of "entries s" h] by (simp add: mem_resident_def)
qed

interpretation mem: block_store mem_ops "mem_inv_in universe" mem_resident universe
  for universe :: "block_hash \<rightharpoonup> byte list"
proof unfold_locales
  fix s h bs r s' k v
  assume inv: "mem_inv_in universe s" and uni: "universe h = Some bs"
    and put: "put_block_bytes mem_ops s h bs = (r, s')"
  have "mem_inv s" using inv by (simp add: mem_inv_in_def)
  moreover have "mem_put_block_bytes s h bs = (r, s')" using put by (simp add: mem_ops_def)
  ultimately have c: "(\<exists>e. r = Err (BackendFailure e) \<and> s' = s \<and> too_large s bs) \<or>
    (r = Ok () \<and> \<not> too_large s bs \<and> mem_inv s' \<and> mem_resident s' h = Some bs \<and>
     (\<forall>k. k \<noteq> h \<longrightarrow> mem_resident s' k \<in> {None, mem_resident s k}))"
    by (rule mem_put_cases)
  then show "r \<noteq> Panic" by auto
  have sound: "mem_resident s j = Some y \<or> j = h \<and> y = bs" if "mem_resident s' j = Some y" for j y
    using c that by (cases "j = h") auto
  from sound show "mem_resident s' k = Some v \<Longrightarrow> mem_resident s k = Some v \<or> k = h \<and> v = bs" .
  have "mem_resident s' \<subseteq>\<^sub>m universe"
  proof (unfold map_le_def, rule ballI)
    fix j assume "j \<in> dom (mem_resident s')"
    then obtain y where y: "mem_resident s' j = Some y" by auto
    with sound [OF y] inv uni show "mem_resident s' j = universe j"
      by (auto simp: mem_inv_in_def map_le_def dom_def)
  qed
  with c inv show "mem_inv_in universe s'" by (auto simp: mem_inv_in_def)
next
  fix s h bs s'
  assume "mem_inv_in universe s" and "put_block_bytes mem_ops s h bs = (Ok (), s')"
  then show "mem_resident s' h = Some bs"
    using mem_put_cases [of s h bs "Ok ()" s'] by (auto simp: mem_inv_in_def mem_ops_def)
next
  fix s h g s' k v
  assume "mem_inv_in universe s" and "get_block_bytes mem_ops s h = (g, s')"
  then have "g = Ok (mem_resident s h) \<and> mem_inv s' \<and> mem_resident s' = mem_resident s"
    and "mem_resident s \<subseteq>\<^sub>m universe"
    using mem_get_spec [of s h g s'] by (auto simp: mem_inv_in_def mem_ops_def)
  then show "mem_inv_in universe s'" and "g \<noteq> Panic"
    and "mem_resident s' k = Some v \<Longrightarrow> mem_resident s k = Some v"
    by (simp_all add: mem_inv_in_def)
next
  fix s h x s'
  assume "mem_inv_in universe s" and "get_block_bytes mem_ops s h = (Ok x, s')"
  then show "x = mem_resident s h"
    using mem_get_spec [of s h "Ok x" s'] by (auto simp: mem_inv_in_def mem_ops_def)
next
  fix s h bs s'
  assume "mem_inv_in universe s" and "get_block_bytes mem_ops s h = (Ok (Some bs), s')"
  then show "mem_resident s' h = Some bs"
    using mem_get_spec [of s h "Ok (Some bs)" s'] by (auto simp: mem_inv_in_def mem_ops_def)
next
  fix s h bs
  assume "mem_inv_in universe s" and "mem_resident s h = Some bs"
  then show "universe h = Some bs" by (auto simp: mem_inv_in_def map_le_def dom_def)
next
  fix s items h
  assume "iter_block_ids mem_ops s = Ok items" and "Ok h \<in> set items"
  then show "mem_resident s h \<noteq> None" using mem_iter_lists by (auto simp: mem_ops_def)
qed

section \<open>Properties\<close>

lemma new_store_inv: "new_with_capacity cap = Ok s \<Longrightarrow>
    (case cap of ResidentBlocks _ \<Rightarrow> True | ResidentBytes n \<Rightarrow> n < usize_max) \<Longrightarrow> mem_inv s"
  by (auto simp: new_with_capacity_def mem_inv_def split: if_splits capacity.splits)

lemma megabytes_below_max: "1048576 * m \<noteq> usize_max"
proof
  assume "1048576 * m = usize_max"
  then have "even usize_max" by (metis dvd_triv_left even_mult_iff even_numeral mult.commute)
  then show False by (simp add: usize_max_def)
qed

lemma fresh_inv:
  assumes "new_store n = Ok s \<or> new_cache_mb n = Ok s"
  shows "mem_inv s"
  using assms
proof
  assume "new_store n = Ok s"
  then show ?thesis using new_store_inv by (auto simp: new_store_def)
next
  assume "new_cache_mb n = Ok s"
  then have "new_with_capacity (ResidentBytes (n * 1048576)) = Ok s" and "n * 1048576 \<le> usize_max"
    by (auto simp: new_cache_mb_def outcome_simps checked_mul_def split: if_splits)
  moreover from this(2) have "n * 1048576 < usize_max"
    using megabytes_below_max [of n] by (simp add: mult.commute)
  ultimately show ?thesis using new_store_inv by auto
qed

lemma mem_run_inv:
  "mem_inv s \<Longrightarrow> run_ops mem_ops os s = (answers, s') \<Longrightarrow>
     mem_inv s' \<and> (\<forall>(h, r) \<in> set answers. r \<noteq> Panic)"
proof (induction mem_ops os s arbitrary: answers s' rule: run_ops.induct)
  case (2 h bs rest s)
  then show ?case using mem_put_cases [of s h bs] by (cases "mem_put_block_bytes s h bs")
      (auto simp: mem_ops_def)
next
  case (3 h rest s)
  then show ?case using mem_get_spec [of s h] by (cases "mem_get_block_bytes s h")
      (fastforce simp: mem_ops_def split: prod.splits)
qed simp


text \<open>
  Writing bytes that fit succeeds, reading them back at once returns them, and no
  other block's bytes change, although some may be forgotten; bytes that do not fit are refused and
  leave the store as it was.
\<close>

theorem memory_put_get:
  assumes "mem_inv s"
  shows "if too_large s bs then \<exists>m. mem_put_block_bytes s h bs = (Err (BackendFailure m), s)
    else \<exists>s1 s2. mem_put_block_bytes s h bs = (Ok (), s1) \<and>
      mem_get_block_bytes s1 h = (Ok (Some bs), s2) \<and> mem_inv s2 \<and>
      (\<forall>k. k \<noteq> h \<longrightarrow> mem_resident s2 k \<in> {None, mem_resident s k})"
proof -
  obtain r s1 where put: "mem_put_block_bytes s h bs = (r, s1)" by (cases "mem_put_block_bytes s h bs")
  obtain g s2 where get: "mem_get_block_bytes s1 h = (g, s2)" by (cases "mem_get_block_bytes s1 h")
  show ?thesis
    using mem_put_cases [OF assms put] put get mem_get_spec [of s1 h g s2] by auto
qed


lemma blocks_evict:
  assumes "mem_inv s" and "mem_capacity s = ResidentBlocks n" and "length (entries s) = n"
    and "map_of (entries s) k = None"
  obtains m e where "min_by_recency (entries s) = Some (m, e)"
    and "evict_until k 0 new_len False s = Ok (s\<lparr>entries := without m (entries s),
      resident_bytes := saturating_sub (resident_bytes s) (length (re_bytes e))\<rparr>)"
proof -
  have n: "0 < n" and dist: "distinct (map fst (entries s))"
    using assms(1,2) by (auto simp: mem_inv_def)
  obtain m e where m: "min_by_recency (entries s) = Some (m, e)"
    using n assms(3) min_by_recency_None [of "entries s"] by fastforce
  have wo: "without k (entries s) = entries s"
    using assms(4) by (simp add: without_absent map_of_eq_None_iff)
  have ev: "evict_lru_excluding k s = Ok (s\<lparr>entries := without m (entries s),
      resident_bytes := saturating_sub (resident_bytes s) (length (re_bytes e))\<rparr>)"
    using m wo by (simp add: evict_lru_excluding_def)
  have "length (without m (entries s)) < n"
    using min_by_recency_mem [OF m] assms(3) by (auto intro: length_filter_less)
  with m ev assms(2,3) show thesis
    by (intro that [of m e]) (simp_all add: evict_until.simps [of k 0 new_len False])
qed

lemma put_via_evict:
  assumes "mem_put_block_bytes s k bs = (Ok (), s')"
  obtains s2 where "evict_until k (old_len k (entries s)) (length bs) (map_of (entries s) k \<noteq> None)
      (s\<lparr>next_recency := next_recency s + 1\<rparr>) = Ok s2"
    and "map_of (entries s') = (map_of (entries s2))(k \<mapsto> \<lparr>re_bytes = bs, re_recency = next_recency s\<rparr>)"
proof -
  let ?ev = "evict_until k (old_len k (entries s)) (length bs) (map_of (entries s) k \<noteq> None)
      (s\<lparr>next_recency := next_recency s + 1\<rparr>)"
  show thesis
    using assms that
    by (cases ?ev) (auto simp: mem_put_block_bytes_def insert_or_refresh_def take_recency_def
        old_len_def Let_def split: if_splits)
qed

lemma other_entry:
  assumes "distinct (map fst es)" and "2 \<le> length es"
  shows "\<exists>j f. (j, f) \<in> set es \<and> j \<noteq> h"
proof -
  obtain x y zs where "es = x # y # zs"
    using assms(2) by (cases es; cases "tl es") auto
  with assms(1) show ?thesis by (cases x; cases y) auto
qed

text \<open>When the newest entry is strictly newest, one eviction from two or more entries spares it.\<close>

lemma newest_not_evicted:
  assumes "distinct (map fst es)" and "2 \<le> length es" and "min_by_recency es = Some (m, e)"
    and "map_of es h = Some eh" and "\<And>j f. (j, f) \<in> set es \<Longrightarrow> j \<noteq> h \<Longrightarrow> re_recency f < re_recency eh"
  shows "m \<noteq> h"
proof
  assume "m = h"
  have "(m, e) \<in> set es" using assms(3) by (rule min_by_recency_mem)
  then have "e = eh" using assms(1,4) \<open>m = h\<close> by (metis map_of_eq_Some_iff option.inject)
  obtain j f where jf: "(j, f) \<in> set es" "j \<noteq> h" using other_entry [OF assms(1,2)] by blast
  have "re_recency e \<le> re_recency f" using min_by_recency_least [OF assms(3) jf(1)] by simp
  with assms(5) [OF jf] \<open>e = eh\<close> show False by simp
qed

lemma newest_spared:
  assumes inv: "mem_inv s" and cap: "mem_capacity s = ResidentBlocks n" and "2 \<le> n"
    and h: "map_of (entries s) h = Some eh" and "k \<noteq> h"
    and newest: "\<And>j f. (j, f) \<in> set (entries s) \<Longrightarrow> j \<noteq> h \<Longrightarrow> re_recency f < re_recency eh"
    and put: "mem_put_block_bytes s k bs = (Ok (), s')"
  shows "map_of (entries s') h = Some eh"
proof -
  let ?s1 = "s\<lparr>next_recency := next_recency s + 1\<rparr>"
  obtain se where ev: "evict_until k (old_len k (entries s)) (length bs)
      (map_of (entries s) k \<noteq> None) ?s1 = Ok se"
    and s': "map_of (entries s') = (map_of (entries se))(k \<mapsto>
      \<lparr>re_bytes = bs, re_recency = next_recency s\<rparr>)"
    using put by (rule put_via_evict)
  have "map_of (entries se) h = Some eh"
  proof (cases "map_of (entries s) k \<noteq> None \<or> length (entries s) < n")
    case True
    then have "se = ?s1" using ev cap by (simp add: evict_until.simps)
    then show ?thesis by (simp add: h)
  next
    case False
    then have k: "map_of (entries ?s1) k = None" and len: "length (entries ?s1) = n"
      and "mem_inv ?s1" "mem_capacity ?s1 = ResidentBlocks n"
      using inv cap by (auto simp: mem_inv_def)
    with blocks_evict [of ?s1 n k "length bs"] obtain m e' where
      m: "min_by_recency (entries s) = Some (m, e')"
      and "evict_until k 0 (length bs) False ?s1 = Ok (?s1\<lparr>entries := without m (entries s),
        resident_bytes := saturating_sub (resident_bytes s) (length (re_bytes e'))\<rparr>)"
      by auto
    then have "entries se = without m (entries s)" using ev k by (auto simp: old_len_def)
    moreover have "m \<noteq> h"
      using newest_not_evicted [OF _ _ m h newest] inv len \<open>2 \<le> n\<close> by (simp add: mem_inv_def)
    ultimately show ?thesis by (simp add: map_of_without h)
  qed
  with s' \<open>k \<noteq> h\<close> show ?thesis by simp
qed

text \<open>
  In a store bounded by at least two blocks whose recency counter has not
  wrapped, the block read last is still there after the next write.
\<close>

theorem recently_used_survives:
  assumes inv: "mem_inv s" and cap: "mem_capacity s = ResidentBlocks n" and "2 \<le> n"
    and fresh: "\<forall>(j, f) \<in> set (entries s). re_recency f < next_recency s"
    and get: "mem_get_block_bytes s h = (Ok (Some bs), s1)"
    and put: "mem_put_block_bytes s1 k bs' = (Ok (), s2)" and "k \<noteq> h"
  shows "mem_resident s2 h = Some bs"
proof -
  obtain e where e: "map_of (entries s) h = Some e" and bs: "re_bytes e = bs"
    and s1: "s1 = mem_refresh h s"
    using get by (auto simp: mem_get_block_bytes_def split: option.splits)
  define eh where "eh = e\<lparr>re_recency := next_recency s\<rparr>"
  have es1: "entries s1 = set_entry h eh (entries s)" and cap1: "mem_capacity s1 = ResidentBlocks n"
    using cap by (simp_all add: s1 refresh_spec [OF e] eh_def)
  have inv1: "mem_inv s1" using refresh_inv [OF inv e] by (simp add: s1)
  have newest: "re_recency f < re_recency eh" if "(j, f) \<in> set (entries s1)" "j \<noteq> h" for j f
  proof -
    have "map_of (entries s1) j = Some f" using that(1) inv1 by (simp add: mem_inv_def)
    with that(2) have "(j, f) \<in> set (entries s)" by (simp add: es1 map_of_SomeD)
    with fresh show ?thesis by (auto simp: eh_def)
  qed
  have "map_of (entries s2) h = Some eh"
    using newest_spared [OF inv1 cap1 \<open>2 \<le> n\<close> _ \<open>k \<noteq> h\<close> newest put] by (simp add: es1)
  then show ?thesis using bs by (simp add: mem_resident_def eh_def)
qed

end
