(* ===== verification/Overlay_Store.thy ===== *)
theory Overlay_Store
  imports Memory_Store
begin

text \<open>
  The overlay of \<open>src/crates/lexongraph-block-store-overlay/src/lib.rs\<close>: one store over an ordered
  stack of layers, each a store with a role. Reads walk the layers from the highest priority down and
  refill the cache layers above the hit, direct writes go to the writable layers only, enumeration
  lists every identifier once. The layers are trait objects; their common record of operations
  dispatches on the layer's state. The lemmas show that an overlay whose layers honour the contract
  \<open>block_store\<close> honours it too, so overlays may be stacked, and what its counters count.
\<close>

section \<open>Layers\<close>

datatype layer_role = Cache | Writable | ReadOnly

fun accepts_direct_writes :: "layer_role \<Rightarrow> bool" where
  "accepts_direct_writes Writable = True"
| "accepts_direct_writes _ = False"

fun accepts_refill :: "layer_role \<Rightarrow> bool" where
  "accepts_refill Cache = True"
| "accepts_refill _ = False"

fun display_role :: "layer_role \<Rightarrow> string" where
  "display_role Cache = ''cache''"
| "display_role Writable = ''writable''"
| "display_role ReadOnly = ''read-only''"

text \<open>A layer together with the three atomic counters the overlay keeps for it.\<close>

record 's layer =
  layer_store :: 's
  layer_role :: layer_role
  hits :: u64
  misses :: u64
  errors :: u64

definition new_layer :: "layer_role \<Rightarrow> 's \<Rightarrow> 's layer" where
  "new_layer role s = \<lparr>layer_store = s, layer_role = role, hits = 0, misses = 0, errors = 0\<rparr>"

datatype overlay_build_error = InsufficientLayers nat

fun display_overlay_build_error :: "overlay_build_error \<Rightarrow> string" where
  "display_overlay_build_error (InsufficientLayers n) =
     ''overlay block store requires at least 2 layers, got '' @ show_nat n"

definition overlay_new :: "(layer_role \<times> 's) list \<Rightarrow> (overlay_build_error, 's layer list) outcome" where
  "overlay_new layers =
     (if length layers < 2 then Err (InsufficientLayers (length layers))
      else Ok (map (\<lambda>(role, s). new_layer role s) layers))"

record layer_stats =
  ls_layer_index :: nat
  ls_role :: layer_role
  ls_hits :: u64
  ls_misses :: u64
  ls_errors :: u64

definition overlay_stats :: "'s layer list \<Rightarrow> layer_stats list" where
  "overlay_stats layers =
     map (\<lambda>(i, l). \<lparr>ls_layer_index = i, ls_role = layer_role l, ls_hits = hits l,
             ls_misses = misses l, ls_errors = errors l\<rparr>)
       (zip [0..<length layers] layers)"

section \<open>Operations\<close>

text \<open>
  The write loop: every writable layer is tried, the last error is kept. A panic of a layer ends it.
\<close>

fun overlay_put_loop ::
    "'s store_ops \<Rightarrow> block_hash \<Rightarrow> byte list \<Rightarrow> 's layer list \<Rightarrow> bool \<Rightarrow> block_store_error option
       \<Rightarrow> (bool \<times> block_store_error option) store_result \<times> 's layer list" where
  "overlay_put_loop ops h bs [] attempted last_error = (Ok (attempted, last_error), [])"
| "overlay_put_loop ops h bs (l # ls) attempted last_error =
     (if \<not> accepts_direct_writes (layer_role l)
      then apsnd (Cons l) (overlay_put_loop ops h bs ls attempted last_error)
      else
        let (r, s') = put_block_bytes ops (layer_store l) h bs; l' = l\<lparr>layer_store := s'\<rparr>
        in case r of
             Ok _ \<Rightarrow> apsnd (Cons l') (overlay_put_loop ops h bs ls True last_error)
           | Err e \<Rightarrow> apsnd (Cons l') (overlay_put_loop ops h bs ls True (Some e))
           | Panic \<Rightarrow> (Panic, l' # ls))"

definition overlay_put_block_bytes ::
    "'s store_ops \<Rightarrow> 's layer list \<Rightarrow> block_hash \<Rightarrow> byte list \<Rightarrow> unit store_result \<times> 's layer list" where
  "overlay_put_block_bytes ops layers h bs =
     (let (r, layers') = overlay_put_loop ops h bs layers False None
      in case r of
           Panic \<Rightarrow> (Panic, layers')
         | Err e \<Rightarrow> (Err e, layers')
         | Ok (attempted, last_error) \<Rightarrow>
             if \<not> attempted
             then (Err (BackendFailure
                     ''overlay block store has no layers that accept direct writes''), layers')
             else case last_error of Some e \<Rightarrow> (Err e, layers') | None \<Rightarrow> (Ok (), layers'))"

text \<open>
  \<open>refill_cache_layers\<close>: the writes of the joined futures go to different layers; their results are
  dropped, a panic is not.
\<close>

fun refill_cache_layers ::
    "'s store_ops \<Rightarrow> block_hash \<Rightarrow> byte list \<Rightarrow> 's layer list \<Rightarrow> unit store_result \<times> 's layer list" where
  "refill_cache_layers ops h bs [] = (Ok (), [])"
| "refill_cache_layers ops h bs (l # ls) =
     (if \<not> accepts_refill (layer_role l)
      then apsnd (Cons l) (refill_cache_layers ops h bs ls)
      else
        let (r, s') = put_block_bytes ops (layer_store l) h bs; l' = l\<lparr>layer_store := s'\<rparr>
        in if r = Panic then (Panic, l' # ls)
           else apsnd (Cons l') (refill_cache_layers ops h bs ls))"

text \<open>The read loop: \<open>asked\<close> are the layers tried so far, in order.\<close>

fun overlay_get_loop ::
    "'s store_ops \<Rightarrow> block_hash \<Rightarrow> 's layer list \<Rightarrow> 's layer list \<Rightarrow> block_store_error option
       \<Rightarrow> byte list option store_result \<times> 's layer list" where
  "overlay_get_loop ops h asked [] last_error =
     (case last_error of Some e \<Rightarrow> (Err e, asked) | None \<Rightarrow> (Ok None, asked))"
| "overlay_get_loop ops h asked (l # ls) last_error =
     (let (r, s') = get_block_bytes ops (layer_store l) h; l' = l\<lparr>layer_store := s'\<rparr>
      in case r of
           Panic \<Rightarrow> (Panic, asked @ l' # ls)
         | Ok (Some bs) \<Rightarrow>
             let hit = l'\<lparr>hits := hits l' + 1\<rparr>; (p, asked') = refill_cache_layers ops h bs asked
             in (and_then p (\<lambda>_. Ok (Some bs)), asked' @ hit # ls)
         | Ok None \<Rightarrow>
             overlay_get_loop ops h (asked @ [l'\<lparr>misses := misses l' + 1\<rparr>]) ls last_error
         | Err e \<Rightarrow>
             overlay_get_loop ops h (asked @ [l'\<lparr>errors := errors l' + 1\<rparr>]) ls (Some e))"

definition overlay_get_block_bytes ::
    "'s store_ops \<Rightarrow> 's layer list \<Rightarrow> block_hash \<Rightarrow> byte list option store_result \<times> 's layer list" where
  "overlay_get_block_bytes ops layers h = overlay_get_loop ops h [] layers None"

text \<open>
  Enumeration: the items of one layer, skipping identifiers already seen and ending at an error;
  then the next layer. The first layer's stream is opened before the stream is returned.
\<close>

fun overlay_stream ::
    "block_hash store_result list \<Rightarrow> block_hash store_result list store_result list
       \<Rightarrow> block_hash list \<Rightarrow> block_hash store_result list" where
  "overlay_stream (Ok h # items) later seen =
     (if h \<in> set seen then overlay_stream items later seen
      else Ok h # overlay_stream items later (h # seen))"
| "overlay_stream (Err e # items) later seen = [Err e]"
| "overlay_stream (Panic # items) later seen = [Panic]"
| "overlay_stream [] [] seen = []"
| "overlay_stream [] (Ok items # later) seen = overlay_stream items later seen"
| "overlay_stream [] (Err e # later) seen = [Err e]"
| "overlay_stream [] (Panic # later) seen = [Panic]"

definition overlay_iter_block_ids ::
    "'s store_ops \<Rightarrow> 's layer list \<Rightarrow> block_hash store_result list store_result" where
  "overlay_iter_block_ids ops layers =
     (case map (\<lambda>l. iter_block_ids ops (layer_store l)) layers of
        [] \<Rightarrow> Panic
      | first # later \<Rightarrow> map_ok (\<lambda>items. overlay_stream items later []) first)"

definition overlay_ops :: "'s store_ops \<Rightarrow> 's layer list store_ops" where
  "overlay_ops ops = \<lparr>put_block_bytes = overlay_put_block_bytes ops,
     put_block_bytes_batch = default_put_block_bytes_batch,
     get_block_bytes = overlay_get_block_bytes ops, iter_block_ids = overlay_iter_block_ids ops\<rparr>"

section \<open>The layers as one store\<close>

fun overlay_resident ::
    "('s \<Rightarrow> block_hash \<rightharpoonup> byte list) \<Rightarrow> 's layer list \<Rightarrow> block_hash \<rightharpoonup> byte list" where
  "overlay_resident resident [] h = None"
| "overlay_resident resident (l # ls) h =
     (case resident (layer_store l) h of Some bs \<Rightarrow> Some bs | None \<Rightarrow> overlay_resident resident ls h)"

definition overlay_inv :: "('s \<Rightarrow> bool) \<Rightarrow> 's layer list \<Rightarrow> bool" where
  "overlay_inv ok layers = (layers \<noteq> [] \<and> list_all (\<lambda>l. ok (layer_store l)) layers)"

section \<open>The overlay honours the contract of its layers\<close>

context block_store
begin

abbreviation layer_inv :: "'s layer \<Rightarrow> bool" where
  "layer_inv l \<equiv> inv (layer_store l)"

lemma overlay_resident_iff:
  assumes "list_all layer_inv ls"
  shows "overlay_resident resident ls h = Some bs \<longleftrightarrow>
    (\<exists>l \<in> set ls. resident (layer_store l) h = Some bs)"
  using assms
proof (induction ls)
  case (Cons l ls)
  show ?case
  proof (cases "resident (layer_store l) h")
    case None
    with Cons show ?thesis by simp
  next
    case (Some v)
    have "bs = v" if "l' \<in> set (l # ls)" and "resident (layer_store l') h = Some bs" for l'
      using that Some Cons.prems resident_universe [of "layer_store l" h v]
        resident_universe [of "layer_store l'" h bs] by (auto simp: list_all_iff)
    with Some show ?thesis by auto
  qed
qed simp

text \<open>
  What one operation does to a list of layers: each layer keeps its invariant and holds only what it
  held before, or the block that was written.
\<close>

definition layers_step :: "block_hash \<Rightarrow> byte list option \<Rightarrow> 's layer list \<Rightarrow> 's layer list \<Rightarrow> bool" where
  "layers_step h w ls ls' = list_all2 (\<lambda>l l'. layer_inv l' \<and> layer_role l' = layer_role l \<and>
     (\<forall>k v. resident (layer_store l') k = Some v \<longrightarrow>
        resident (layer_store l) k = Some v \<or> k = h \<and> w = Some v)) ls ls'"

lemma layers_step_refl: "list_all layer_inv ls \<Longrightarrow> layers_step h w ls ls"
  by (auto simp: layers_step_def list_all_iff intro!: list_all2_refl list.rel_refl_strong)

lemma layers_step_Cons:
  "layers_step h w (l # ls) ls' \<longleftrightarrow> (\<exists>l' ms. ls' = l' # ms \<and> layer_inv l' \<and>
     layer_role l' = layer_role l \<and>
     (\<forall>k v. resident (layer_store l') k = Some v \<longrightarrow>
        resident (layer_store l) k = Some v \<or> k = h \<and> w = Some v) \<and> layers_step h w ls ms)"
  by (auto simp: layers_step_def list_all2_Cons1)

lemma layers_step_append:
  "layers_step h w xs xs' \<Longrightarrow> layers_step h w ys ys' \<Longrightarrow> layers_step h w (xs @ ys) (xs' @ ys')"
  unfolding layers_step_def by (rule list_all2_appendI)

lemma layers_step_trans:
  assumes "layers_step h None xs ys" and "layers_step h w ys zs"
  shows "layers_step h w xs zs"
  using assms unfolding layers_step_def
  by (rule list_all2_trans [rotated]) fastforce

lemma layers_step_nth:
  assumes "layers_step h w ls ls'"
  shows "length ls' = length ls"
    and "i < length ls \<Longrightarrow> layer_inv (ls' ! i)"
    and "i < length ls \<Longrightarrow> resident (layer_store (ls' ! i)) k = Some v \<Longrightarrow>
      resident (layer_store (ls ! i)) k = Some v \<or> k = h \<and> w = Some v"
  using assms unfolding layers_step_def list_all2_conv_all_nth by simp_all

lemma layers_step_sound:
  assumes "list_all layer_inv ls" and "layers_step h w ls ls'"
  shows "list_all layer_inv ls' \<and> length ls' = length ls \<and>
    (overlay_resident resident ls' k = Some v \<longrightarrow>
       overlay_resident resident ls k = Some v \<or> k = h \<and> w = Some v)"
proof -
  note len = layers_step_nth(1) [OF assms(2)]
  have inv': "list_all layer_inv ls'"
    using layers_step_nth(2) [OF assms(2)] len by (simp add: list_all_length)
  have "overlay_resident resident ls k = Some v \<or> k = h \<and> w = Some v"
    if res: "overlay_resident resident ls' k = Some v"
  proof -
    obtain l' where "l' \<in> set ls'" "resident (layer_store l') k = Some v"
      using res unfolding overlay_resident_iff [OF inv'] by blast
    then obtain i where i: "i < length ls" and "resident (layer_store (ls' ! i)) k = Some v"
      unfolding in_set_conv_nth len by blast
    with layers_step_nth(3) [OF assms(2) i]
    have "resident (layer_store (ls ! i)) k = Some v \<or> k = h \<and> w = Some v" by blast
    with nth_mem [OF i] show ?thesis unfolding overlay_resident_iff [OF assms(1)] by blast
  qed
  then show ?thesis using len inv' by blast
qed

lemma overlay_put_loop_step:
  assumes "list_all layer_inv ls" and "universe h = Some bs"
    and "overlay_put_loop ops h bs ls attempted last_error = (r, ls')"
  shows "layers_step h (Some bs) ls ls' \<and> (\<exists>a e. r = Ok (a, e) \<and> (e = None \<longrightarrow> last_error = None \<and>
    (a \<longrightarrow> attempted \<or> (\<exists>l \<in> set ls'. resident (layer_store l) h = Some bs))))"
  using assms
proof (induction ls arbitrary: attempted last_error ls')
  case Nil
  then show ?case by (auto simp: layers_step_def)
next
  case (Cons l ls)
  have linv: "inv (layer_store l)" and ls: "list_all layer_inv ls" using Cons.prems(1) by simp_all
  show ?case
  proof (cases "accepts_direct_writes (layer_role l)")
    case False
    with Cons.prems(3) obtain ms where ms: "overlay_put_loop ops h bs ls attempted last_error = (r, ms)"
      and ls': "ls' = l # ms" by (cases "overlay_put_loop ops h bs ls attempted last_error") auto
    from Cons.IH [OF ls Cons.prems(2) ms] linv show ?thesis
      unfolding ls' layers_step_Cons by auto
  next
    case True
    obtain p s' where put: "put_block_bytes ops (layer_store l) h bs = (p, s')"
      by (cases "put_block_bytes ops (layer_store l) h bs")
    note facts = put_inv [OF linv Cons.prems(2) put] put_no_panic [OF linv Cons.prems(2) put]
      put_sound [OF linv Cons.prems(2) put]
    define le' where "le' = (case p of Err e \<Rightarrow> Some e | _ \<Rightarrow> last_error)"
    obtain ms where ms: "overlay_put_loop ops h bs ls True le' = (r, ms)"
      and ls': "ls' = l\<lparr>layer_store := s'\<rparr> # ms"
      using Cons.prems(3) True put facts(2)
      by (cases p; cases "overlay_put_loop ops h bs ls True le'") (auto simp: le'_def)
    have "le' = None \<Longrightarrow> resident s' h = Some bs \<and> last_error = None"
      using put_stores [OF linv Cons.prems(2)] put facts(2) by (cases p) (auto simp: le'_def)
    moreover have "layers_step h (Some bs) (l # ls) ls'"
      using Cons.IH [OF ls Cons.prems(2) ms] facts(1,3) unfolding ls' layers_step_Cons by auto
    ultimately show ?thesis
      using Cons.IH [OF ls Cons.prems(2) ms] unfolding ls' by auto
  qed
qed

lemma refill_step:
  assumes "list_all layer_inv ls" and "universe h = Some bs"
    and "refill_cache_layers ops h bs ls = (r, ls')"
  shows "layers_step h (Some bs) ls ls' \<and> r = Ok ()"
  using assms
proof (induction ls arbitrary: ls')
  case Nil
  then show ?case by (auto simp: layers_step_def)
next
  case (Cons l ls)
  have linv: "inv (layer_store l)" and ls: "list_all layer_inv ls" using Cons.prems(1) by simp_all
  obtain r' ms where ms: "refill_cache_layers ops h bs ls = (r', ms)"
    by (cases "refill_cache_layers ops h bs ls")
  show ?case
  proof (cases "accepts_refill (layer_role l)")
    case False
    with Cons.IH [OF ls Cons.prems(2)] Cons.prems(3) ms linv show ?thesis
      by (auto simp: layers_step_Cons)
  next
    case True
    obtain p s' where put: "put_block_bytes ops (layer_store l) h bs = (p, s')"
      by (cases "put_block_bytes ops (layer_store l) h bs")
    note facts = put_inv [OF linv Cons.prems(2) put] put_no_panic [OF linv Cons.prems(2) put]
      put_sound [OF linv Cons.prems(2) put]
    have "r = r'" and ls': "ls' = l\<lparr>layer_store := s'\<rparr> # ms"
      using Cons.prems(3) True put facts(2) ms by auto
    with Cons.IH [OF ls Cons.prems(2)] ms facts(1,3) show ?thesis
      unfolding ls' layers_step_Cons by auto
  qed
qed

lemma overlay_get_loop_step:
  assumes "list_all layer_inv asked" and "list_all layer_inv ls"
    and "\<forall>l \<in> set asked. last_error = None \<longrightarrow> resident (layer_store l) h = None"
    and "overlay_get_loop ops h asked ls last_error = (r, ls')"
  shows "r \<noteq> Panic \<and>
    (\<forall>bs. r = Ok (Some bs) \<longrightarrow> (\<exists>l \<in> set ls. resident (layer_store l) h = Some bs) \<and>
       (\<exists>l \<in> set ls'. resident (layer_store l) h = Some bs) \<and>
       layers_step h (Some bs) (asked @ ls) ls') \<and>
    (r = Ok None \<longrightarrow> last_error = None \<and>
       (\<forall>l \<in> set (asked @ ls). resident (layer_store l) h = None)) \<and>
    ((\<forall>bs. r \<noteq> Ok (Some bs)) \<longrightarrow> layers_step h None (asked @ ls) ls')"
  using assms
proof (induction ls arbitrary: asked last_error)
  case Nil
  then show ?case by (auto simp: layers_step_refl split: option.splits)
next
  case (Cons l ls)
  obtain g s' where get: "get_block_bytes ops (layer_store l) h = (g, s')"
    by (cases "get_block_bytes ops (layer_store l) h")
  have linv: "inv (layer_store l)" using Cons.prems(2) by simp
  note facts = get_inv [OF linv get] get_no_panic [OF linv get] get_sound [OF linv get]
  let ?l1 = "l\<lparr>layer_store := s'\<rparr>"
  have single: "layers_step h w (l # ls) (m # ls)"
    if "layer_store m = s'" "layer_role m = layer_role l" for m w
    using facts(1,3) that Cons.prems(2) by (simp add: layers_step_Cons layers_step_refl)
  have next_layer: "layers_step h w (asked @ l # ls) ls'"
    if "layer_store m = s'" "layer_role m = layer_role l" "layers_step h w ((asked @ [m]) @ ls) ls'"
    for m w
    using layers_step_trans [OF layers_step_append [OF layers_step_refl [OF Cons.prems(1)]
          single [OF that(1,2)]]] that(3) by simp
  show ?case
  proof (cases g)
    case Panic
    with facts(2) show ?thesis by simp
  next
    case (Err e)
    let ?m = "?l1\<lparr>errors := errors ?l1 + 1\<rparr>"
    have loop: "overlay_get_loop ops h (asked @ [?m]) ls (Some e) = (r, ls')"
      using Cons.prems(4) get Err by simp
    have "list_all layer_inv (asked @ [?m])" "list_all layer_inv ls"
      using Cons.prems(1,2) facts(1) by simp_all
    from Cons.IH [OF this _ loop] next_layer [of ?m] show ?thesis by auto
  next
    case (Ok x)
    have x: "resident (layer_store l) h = x" using get_returns [OF linv] get Ok by simp
    show ?thesis
    proof (cases x)
      case None
      let ?m = "?l1\<lparr>misses := misses ?l1 + 1\<rparr>"
      have loop: "overlay_get_loop ops h (asked @ [?m]) ls last_error = (r, ls')"
        using Cons.prems(4) get Ok None by simp
      have "resident s' h = None" using facts(3) [of h] x None by (cases "resident s' h") auto
      then have "list_all layer_inv (asked @ [?m])" "list_all layer_inv ls"
        "\<forall>l \<in> set (asked @ [?m]). last_error = None \<longrightarrow> resident (layer_store l) h = None"
        using Cons.prems(1-3) facts(1) by simp_all
      from Cons.IH [OF this loop] next_layer [of ?m] x None show ?thesis by auto
    next
      case (Some bs)
      have uni: "universe h = Some bs" using resident_universe [OF linv] x Some by simp
      obtain p asked' where refill: "refill_cache_layers ops h bs asked = (p, asked')"
        by (cases "refill_cache_layers ops h bs asked")
      from refill_step [OF Cons.prems(1) uni refill]
      have p: "p = Ok ()" and asked': "layers_step h (Some bs) asked asked'" by simp_all
      let ?m = "?l1\<lparr>hits := hits ?l1 + 1\<rparr>"
      have r: "r = Ok (Some bs)" and ls': "ls' = asked' @ ?m # ls"
        using Cons.prems(4) get Ok Some refill p by simp_all
      moreover have "resident (layer_store ?m) h = Some bs"
        using get_keeps [OF linv] get Ok Some by simp
      moreover have "layers_step h (Some bs) (asked @ l # ls) ls'"
        unfolding ls' by (intro layers_step_append asked' single) simp_all
      ultimately show ?thesis using x Some by auto
    qed
  qed
qed

end

lemma overlay_stream_source:
  "Ok h \<in> set (overlay_stream items later seen) \<Longrightarrow>
     Ok h \<in> set items \<or> (\<exists>its. Ok its \<in> set later \<and> Ok h \<in> set its)"
  by (induction items later seen rule: overlay_stream.induct) (auto split: if_splits)

lemma overlay_stream_distinct:
  "distinct (overlay_stream items later seen) \<and> (\<forall>h \<in> set seen. Ok h \<notin> set (overlay_stream items later seen))"
  by (induction items later seen rule: overlay_stream.induct) auto

lemma overlay_stream_complete:
  assumes "list_all is_ok items" and "list_all (\<lambda>r. \<exists>its. r = Ok its \<and> list_all is_ok its) later"
  shows "list_all is_ok (overlay_stream items later seen) \<and>
    (Ok h \<in> set (overlay_stream items later seen) \<longleftrightarrow> h \<notin> set seen \<and>
       (Ok h \<in> set items \<or> (\<exists>its. Ok its \<in> set later \<and> Ok h \<in> set its)))"
  using assms
  by (induction items later seen rule: overlay_stream.induct) (auto simp: is_ok_def)

lemma overlay_iter_source:
  assumes "overlay_iter_block_ids ops ls = Ok items" and "Ok h \<in> set items"
  shows "\<exists>l \<in> set ls. \<exists>its. iter_block_ids ops (layer_store l) = Ok its \<and> Ok h \<in> set its"
proof (cases ls)
  case (Cons z zs)
  with assms(1) obtain x where x: "iter_block_ids ops (layer_store z) = Ok x"
    and "items = overlay_stream x (map (\<lambda>l. iter_block_ids ops (layer_store l)) zs) []"
    by (auto simp: overlay_iter_block_ids_def outcome_simps)
  with assms(2) overlay_stream_source [of h x _ "[]"]
  consider "Ok h \<in> set x"
    | its where "Ok its \<in> set (map (\<lambda>l. iter_block_ids ops (layer_store l)) zs)" "Ok h \<in> set its"
    by blast
  then show ?thesis using x Cons by cases auto
qed (use assms(1) in \<open>simp add: overlay_iter_block_ids_def\<close>)

context block_store
begin

lemma overlay_put_spec:
  assumes "overlay_inv inv ls" and "universe h = Some bs"
    and "overlay_put_block_bytes ops ls h bs = (r, ls')"
  shows "layers_step h (Some bs) ls ls' \<and> r \<noteq> Panic \<and>
    (r = Ok () \<longrightarrow> (\<exists>l \<in> set ls'. resident (layer_store l) h = Some bs))"
proof -
  obtain q ms where loop: "overlay_put_loop ops h bs ls False None = (q, ms)"
    by (cases "overlay_put_loop ops h bs ls False None")
  with overlay_put_loop_step [OF _ assms(2) loop] assms(1,3) show ?thesis
    by (auto simp: overlay_put_block_bytes_def overlay_inv_def split: if_splits option.splits)
qed

lemma overlay_step_inv:
  assumes "overlay_inv inv ls" and "layers_step h w ls ls'"
  shows "overlay_inv inv ls'"
  using assms layers_step_sound [of ls h w ls'] by (auto simp: overlay_inv_def)

lemma overlay_get_step:
  assumes "overlay_inv inv ls" and "overlay_get_block_bytes ops ls h = (r, ls')"
  shows "r \<noteq> Panic \<and> layers_step h (case r of Ok (Some bs) \<Rightarrow> Some bs | _ \<Rightarrow> None) ls ls' \<and>
    (\<forall>bs. r = Ok (Some bs) \<longrightarrow> overlay_resident resident ls h = Some bs \<and>
       overlay_resident resident ls' h = Some bs) \<and>
    (r = Ok None \<longrightarrow> overlay_resident resident ls h = None)"
proof -
  have ls: "list_all layer_inv ls" using assms(1) by (simp add: overlay_inv_def)
  from overlay_get_loop_step [of "[]" ls None h r ls'] ls assms(2)
  have step: "r \<noteq> Panic"
    "\<And>bs. r = Ok (Some bs) \<Longrightarrow> (\<exists>l \<in> set ls. resident (layer_store l) h = Some bs) \<and>
       (\<exists>l \<in> set ls'. resident (layer_store l) h = Some bs) \<and> layers_step h (Some bs) ls ls'"
    "r = Ok None \<Longrightarrow> \<forall>l \<in> set ls. resident (layer_store l) h = None"
    "(\<forall>bs. r \<noteq> Ok (Some bs)) \<Longrightarrow> layers_step h None ls ls'"
    by (simp_all add: overlay_get_block_bytes_def)
  have none: "overlay_resident resident ls h = None" if "\<forall>l \<in> set ls. resident (layer_store l) h = None"
    using that by (induction ls) simp_all
  consider (some) bs where "r = Ok (Some bs)" | (none) "r = Ok None" | (err) e where "r = Err e"
    using step(1) by (cases r) auto
  then show ?thesis
  proof cases
    case (some bs)
    from step(2) [OF this] have st: "layers_step h (Some bs) ls ls'" and
      ex: "\<exists>l \<in> set ls. resident (layer_store l) h = Some bs"
      "\<exists>l \<in> set ls'. resident (layer_store l) h = Some bs" by auto
    have "list_all layer_inv ls'" using layers_step_sound [OF ls st] by blast
    then show ?thesis
      using st some ex overlay_resident_iff [OF ls] overlay_resident_iff [of ls'] by simp
  qed (use step(3,4) none in simp_all)
qed

text \<open>The overlay is a store that honours the contract, for the same universe of blocks.\<close>

lemma overlay_block_store:
  "block_store (overlay_ops ops) (overlay_inv inv) (overlay_resident resident) universe"
proof unfold_locales
  fix ls h bs r ls' k v
  assume inv: "overlay_inv inv ls" and uni: "universe h = Some bs"
    and put: "put_block_bytes (overlay_ops ops) ls h bs = (r, ls')"
  have put': "overlay_put_block_bytes ops ls h bs = (r, ls')" using put by (simp add: overlay_ops_def)
  from overlay_put_spec [OF inv uni put'] have st: "layers_step h (Some bs) ls ls'" and "r \<noteq> Panic"
    by auto
  from this(2) show "r \<noteq> Panic" .
  show "overlay_inv inv ls'" using inv st by (rule overlay_step_inv)
  show "overlay_resident resident ls' k = Some v \<Longrightarrow> overlay_resident resident ls k = Some v \<or> k = h \<and> v = bs"
    using layers_step_sound [OF _ st, of k v] inv by (auto simp: overlay_inv_def)
next
  fix ls h bs ls'
  assume inv: "overlay_inv inv ls" and uni: "universe h = Some bs"
    and put: "put_block_bytes (overlay_ops ops) ls h bs = (Ok (), ls')"
  have put': "overlay_put_block_bytes ops ls h bs = (Ok (), ls')" using put by (simp add: overlay_ops_def)
  from overlay_put_spec [OF inv uni put'] have st: "layers_step h (Some bs) ls ls'"
    and ex: "\<exists>l \<in> set ls'. resident (layer_store l) h = Some bs" by auto
  have "list_all layer_inv ls'" using overlay_step_inv [OF inv st] by (simp add: overlay_inv_def)
  then show "overlay_resident resident ls' h = Some bs" using ex by (simp add: overlay_resident_iff)
next
  fix ls h g ls' k v
  assume inv: "overlay_inv inv ls" and get: "get_block_bytes (overlay_ops ops) ls h = (g, ls')"
  have get': "overlay_get_block_bytes ops ls h = (g, ls')" using get by (simp add: overlay_ops_def)
  note step = overlay_get_step [OF inv get']
  from step show "g \<noteq> Panic" by blast
  from step inv show "overlay_inv inv ls'" by (blast intro: overlay_step_inv)
  show "overlay_resident resident ls' k = Some v \<Longrightarrow> overlay_resident resident ls k = Some v"
    using step layers_step_sound [of ls h _ ls' k v] inv
    by (fastforce simp: overlay_inv_def split: outcome.splits option.splits)
next
  fix ls h x ls'
  assume "overlay_inv inv ls" and "get_block_bytes (overlay_ops ops) ls h = (Ok x, ls')"
  then show "x = overlay_resident resident ls h"
    using overlay_get_step [of ls h "Ok x" ls'] by (cases x) (auto simp: overlay_ops_def)
next
  fix ls h bs ls'
  assume "overlay_inv inv ls" and "get_block_bytes (overlay_ops ops) ls h = (Ok (Some bs), ls')"
  then show "overlay_resident resident ls' h = Some bs"
    using overlay_get_step [of ls h "Ok (Some bs)" ls'] by (simp add: overlay_ops_def)
next
  fix ls h bs
  assume "overlay_inv inv ls" and "overlay_resident resident ls h = Some bs"
  then show "universe h = Some bs"
    by (auto simp: overlay_inv_def overlay_resident_iff list_all_iff dest: resident_universe)
next
  fix ls items h
  assume inv: "overlay_inv inv ls" and it: "iter_block_ids (overlay_ops ops) ls = Ok items" and "Ok h \<in> set items"
  then obtain l its where "l \<in> set ls" and "iter_block_ids ops (layer_store l) = Ok its" and "Ok h \<in> set its"
    using overlay_iter_source [of ops ls items h] by (auto simp: overlay_ops_def)
  with inv have "resident (layer_store l) h \<noteq> None" "list_all layer_inv ls"
    by (auto simp: overlay_inv_def list_all_iff dest: iter_lists)
  then show "overlay_resident resident ls h \<noteq> None"
    using overlay_resident_iff [of ls h] \<open>l \<in> set ls\<close> by auto
qed

end

interpretation overlay_mem: block_store "overlay_ops mem_ops" "overlay_inv (mem_inv_in universe)"
    "overlay_resident mem_resident" universe
  for universe :: "block_hash \<rightharpoonup> byte list"
  by (rule mem.overlay_block_store)

section \<open>Overlays of memory stores\<close>


definition missed :: "'s layer \<Rightarrow> 's layer" where
  "missed l = l\<lparr>misses := misses l + 1\<rparr>"

definition refilled :: "block_hash \<Rightarrow> byte list \<Rightarrow> mem_state layer \<Rightarrow> mem_state layer" where
  "refilled h bs l =
     (if layer_role l = Cache then l\<lparr>layer_store := snd (mem_put_block_bytes (layer_store l) h bs)\<rparr>
      else l)"

lemma mem_ops_simps [simp]:
  "put_block_bytes mem_ops = mem_put_block_bytes" "get_block_bytes mem_ops = mem_get_block_bytes"
  "iter_block_ids mem_ops = mem_iter_block_ids"
  by (simp_all add: mem_ops_def)

lemma accepts_refill_iff: "accepts_refill role \<longleftrightarrow> role = Cache"
  by (cases role) auto

lemma accepts_direct_writes_iff: "accepts_direct_writes role \<longleftrightarrow> role = Writable"
  by (cases role) auto

lemma refill_mem:
  "list_all (\<lambda>l. mem_inv (layer_store l)) ls \<Longrightarrow>
     refill_cache_layers mem_ops h bs ls = (Ok (), map (refilled h bs) ls)"
proof (induction ls)
  case (Cons l ls)
  obtain r s' where put: "mem_put_block_bytes (layer_store l) h bs = (r, s')"
    by (cases "mem_put_block_bytes (layer_store l) h bs")
  have "r \<noteq> Panic" using mem_put_cases [of "layer_store l" h bs r s'] put Cons.prems by auto
  with Cons put show ?case by (simp add: refilled_def accepts_refill_iff)
qed simp

lemma get_loop_misses:
  "\<forall>l \<in> set pre. mem_resident (layer_store l) h = None \<Longrightarrow>
     overlay_get_loop mem_ops h asked (pre @ rest) le =
     overlay_get_loop mem_ops h (asked @ map missed pre) rest le"
proof (induction pre arbitrary: asked)
  case (Cons l pre)
  then have "mem_get_block_bytes (layer_store l) h = (Ok None, layer_store l)"
    by (auto simp: mem_get_block_bytes_def mem_resident_def split: option.splits)
  moreover have "l\<lparr>layer_store := layer_store l, misses := misses l + 1\<rparr> = missed l"
    by (simp add: missed_def)
  ultimately show ?case using Cons by (simp add: missed_def)
qed simp

text \<open>
  A read of a block whose highest holder is layer \<open>j\<close> returns its bytes,
  counts a miss in every layer above and a hit in layer \<open>j\<close>, leaves the layers below alone, and
  afterwards every cache layer above that can hold the block does.
\<close>

theorem overlay_read_through:
  assumes "list_all (\<lambda>l. mem_inv (layer_store l)) ls" and "j < length ls"
    and "mem_resident (layer_store (ls ! j)) h = Some bs"
    and "\<forall>i < j. mem_resident (layer_store (ls ! i)) h = None"
  shows "\<exists>ls'. overlay_get_block_bytes mem_ops ls h = (Ok (Some bs), ls') \<and> length ls' = length ls \<and>
    hits (ls' ! j) = hits (ls ! j) + 1 \<and>
    (\<forall>i < j. misses (ls' ! i) = misses (ls ! i) + 1 \<and> hits (ls' ! i) = hits (ls ! i) \<and>
       (layer_role (ls ! i) = Cache \<and> \<not> too_large (layer_store (ls ! i)) bs \<longrightarrow>
          mem_resident (layer_store (ls' ! i)) h = Some bs)) \<and>
    (\<forall>i. j < i \<and> i < length ls \<longrightarrow> ls' ! i = ls ! i)"
proof -
  define pre l post where "pre = take j ls" and "l = ls ! j" and "post = drop (Suc j) ls"
  have ls: "ls = pre @ l # post" and len: "length pre = j"
    using assms(2) by (simp_all add: pre_def l_def post_def id_take_nth_drop)
  have inv: "list_all (\<lambda>l. mem_inv (layer_store l)) pre" and linv: "mem_inv (layer_store l)"
    using assms(1) by (simp_all add: ls)
  have pre: "\<forall>l \<in> set pre. mem_resident (layer_store l) h = None"
    using assms(4) by (auto simp: in_set_conv_nth len ls nth_append)
  have lres: "mem_resident (layer_store l) h = Some bs" using assms(3) by (simp add: l_def)
  obtain g s' where get: "mem_get_block_bytes (layer_store l) h = (g, s')"
    by (cases "mem_get_block_bytes (layer_store l) h")
  have g: "g = Ok (Some bs)" using mem_get_spec [OF linv get] lres by simp
  let ?hit = "l\<lparr>layer_store := s', hits := hits l + 1\<rparr>"
  let ?up = "map (refilled h bs \<circ> missed) pre"
  have "list_all (\<lambda>l. mem_inv (layer_store l)) (map missed pre)"
    using inv by (simp add: list_all_iff missed_def)
  then have "overlay_get_block_bytes mem_ops ls h = (Ok (Some bs), ?up @ ?hit # post)"
    using get_loop_misses [OF pre, of "[]" "l # post" None] get g
    by (simp add: overlay_get_block_bytes_def ls refill_mem)
  moreover have "misses (refilled h bs (missed m)) = misses m + 1 \<and>
      hits (refilled h bs (missed m)) = hits m \<and> (layer_role m = Cache \<and> \<not> too_large (layer_store m) bs \<longrightarrow>
      mem_resident (layer_store (refilled h bs (missed m))) h = Some bs)" if "m \<in> set pre" for m
    using mem_put_cases [of "layer_store m" h bs] inv that
    by (cases "mem_put_block_bytes (layer_store m) h bs")
      (auto simp: refilled_def missed_def list_all_iff)
  ultimately show ?thesis
    by (intro exI [of _ "?up @ ?hit # post"]) (auto simp: ls len nth_append nth_Cons')
qed

lemma put_loop_mem:
  assumes "list_all (\<lambda>l. mem_inv (layer_store l)) ls"
    and "overlay_put_loop mem_ops h bs ls attempted le = (r, ls')"
  shows "ls' = map (\<lambda>l. if layer_role l = Writable
      then l\<lparr>layer_store := snd (mem_put_block_bytes (layer_store l) h bs)\<rparr> else l) ls \<and>
    (\<exists>a e. r = Ok (a, e) \<and> (a \<longleftrightarrow> attempted \<or> (\<exists>l \<in> set ls. layer_role l = Writable)) \<and>
      (e = None \<longleftrightarrow> le = None \<and>
         (\<forall>l \<in> set ls. layer_role l = Writable \<longrightarrow> \<not> too_large (layer_store l) bs)))"
  using assms
proof (induction ls arbitrary: attempted le ls')
  case (Cons l ls)
  obtain p s' where put: "mem_put_block_bytes (layer_store l) h bs = (p, s')"
    by (cases "mem_put_block_bytes (layer_store l) h bs")
  have p: "p = Ok () \<and> \<not> too_large (layer_store l) bs \<or>
      (\<exists>e. p = Err e) \<and> too_large (layer_store l) bs"
    using mem_put_cases [OF _ put] Cons.prems(1) by auto
  have ls: "list_all (\<lambda>l. mem_inv (layer_store l)) ls" using Cons.prems(1) by simp
  define le' where "le' = (case p of Err e \<Rightarrow> Some e | _ \<Rightarrow> le)"
  show ?case
  proof (cases "layer_role l = Writable")
    case True
    obtain ms where ms: "overlay_put_loop mem_ops h bs ls True le' = (r, ms)"
      and ls': "ls' = l\<lparr>layer_store := s'\<rparr> # ms"
      using Cons.prems(2) True put p
      by (cases p; cases "overlay_put_loop mem_ops h bs ls True le'")
        (auto simp: le'_def accepts_direct_writes_iff)
    have "le' = None \<longleftrightarrow> le = None \<and> \<not> too_large (layer_store l) bs" using p by (auto simp: le'_def)
    with Cons.IH [OF ls ms] True put show ?thesis unfolding ls' by auto
  next
    case False
    obtain ms where ms: "overlay_put_loop mem_ops h bs ls attempted le = (r, ms)"
      and ls': "ls' = l # ms"
      using Cons.prems(2) False
      by (cases "overlay_put_loop mem_ops h bs ls attempted le")
        (auto simp: accepts_direct_writes_iff)
    from Cons.IH [OF ls ms] False show ?thesis unfolding ls' by auto
  qed
qed auto

text \<open>
  A write reaches exactly the writable layers, and succeeds exactly when
  there is one and every one of them can hold the block.
\<close>

theorem overlay_write_targets:
  assumes "list_all (\<lambda>l. mem_inv (layer_store l)) ls"
  shows "\<exists>r. overlay_put_block_bytes mem_ops ls h bs =
      (r, map (\<lambda>l. if layer_role l = Writable
         then l\<lparr>layer_store := snd (mem_put_block_bytes (layer_store l) h bs)\<rparr> else l) ls) \<and>
    (r = Ok () \<longleftrightarrow> (\<exists>l \<in> set ls. layer_role l = Writable) \<and>
       (\<forall>l \<in> set ls. layer_role l = Writable \<longrightarrow> \<not> too_large (layer_store l) bs))"
proof -
  obtain q ms where loop: "overlay_put_loop mem_ops h bs ls False None = (q, ms)"
    by (cases "overlay_put_loop mem_ops h bs ls False None")
  from put_loop_mem [OF assms loop] obtain a e where q: "q = Ok (a, e)"
    and "a \<longleftrightarrow> (\<exists>l \<in> set ls. layer_role l = Writable)"
    and "e = None \<longleftrightarrow> (\<forall>l \<in> set ls. layer_role l = Writable \<longrightarrow> \<not> too_large (layer_store l) bs)"
    and ms: "ms = map (\<lambda>l. if layer_role l = Writable
      then l\<lparr>layer_store := snd (mem_put_block_bytes (layer_store l) h bs)\<rparr> else l) ls"
    by auto
  then show ?thesis
    using loop unfolding overlay_put_block_bytes_def ms [symmetric]
    by (cases a; cases e) auto
qed

lemma all_ok_traverse:
  assumes "list_all is_ok items"
  shows "\<exists>ids. items = map Ok ids \<and> traverse (\<lambda>item. item) items = Ok ids"
proof -
  have "is_ok r \<Longrightarrow> r \<in> range Ok" for r by (cases r) (auto simp: is_ok_def)
  then have "\<forall>r \<in> set items. r \<in> range Ok" using assms by (auto simp: list_all_iff)
  then obtain ids where ids: "items = map Ok ids" by (metis ex_map_conv imageE)
  have "traverse (\<lambda>item. item) (map Ok ids) = Ok ids" by (induction ids) auto
  with ids show ?thesis by blast
qed

lemma overlay_resident_None:
  "overlay_resident resident ls h \<noteq> None \<longleftrightarrow> (\<exists>l \<in> set ls. resident (layer_store l) h \<noteq> None)"
  by (induction ls) (auto split: option.splits)

text \<open>
  Enumerating an overlay of memory stores lists every block some layer holds,
  each exactly once.
\<close>

theorem overlay_enumeration:
  assumes "ls \<noteq> []"
  shows "\<exists>ids. list_block_ids (overlay_ops mem_ops) ls = Ok ids \<and> distinct ids \<and>
    set ids = {h. overlay_resident mem_resident ls h \<noteq> None}"
proof -
  obtain z zs where ls: "ls = z # zs" using assms by (cases ls) auto
  define its :: "mem_state layer \<Rightarrow> block_hash store_result list"
    where "its = (\<lambda>l. map (\<lambda>(h, _). Ok h) (entries (layer_store l)))"
  let ?items = "overlay_stream (its z) (map (\<lambda>l. Ok (its l)) zs) []"
  have iter: "overlay_iter_block_ids mem_ops ls = Ok ?items"
    by (simp add: overlay_iter_block_ids_def ls mem_iter_block_ids_def its_def)
  have ok: "list_all is_ok (its l)" for l by (auto simp: list_all_iff is_ok_def its_def)
  have mem: "Ok h \<in> set (its l) \<longleftrightarrow> mem_resident (layer_store l) h \<noteq> None" for l h
    by (rule mem_iter_lists) (simp add: mem_iter_block_ids_def its_def)
  have comp: "list_all is_ok ?items \<and> (Ok h \<in> set ?items \<longleftrightarrow>
      (\<exists>l \<in> set ls. mem_resident (layer_store l) h \<noteq> None))" for h
    using overlay_stream_complete [OF ok [of z], of "map (\<lambda>l. Ok (its l)) zs" "[]" h] ok
    unfolding mem [symmetric] by (auto simp: list_all_iff ls image_iff)
  then obtain ids where ids: "?items = map Ok ids" and tr: "traverse (\<lambda>item. item) ?items = Ok ids"
    using all_ok_traverse by blast
  have "distinct ids"
    using overlay_stream_distinct [of "its z" "map (\<lambda>l. Ok (its l)) zs" "[]"]
    unfolding ids by (simp add: distinct_map)
  moreover have "h \<in> set ids \<longleftrightarrow> overlay_resident mem_resident ls h \<noteq> None" for h
    using comp [of h] unfolding ids overlay_resident_None by auto
  ultimately show ?thesis using iter tr by (auto simp: list_block_ids_def overlay_ops_def)
qed

end
