(* ===== verification/Search_Props.thy ===== *)
theory Search_Props
  imports Search_Loop Overlay_Store
begin

text \<open>
  What a search guarantees: the frontier is sorted by score, level and identity; telemetry does not
  influence a search; over a store that honours the contract \<open>block_store\<close> a search returns, without
  panic when its policies do not panic; the leaves it returns are entries of leaf blocks reachable
  from the root, ranked, and no candidate left behind ranks above them; and a search that reports
  exhaustion has visited every reachable block and counted every reachable leaf.
\<close>

section \<open>Sorting with a comparator\<close>

lemma mset_insert_by [simp]: "mset (insert_by cmp x ys) = {#x#} + mset ys"
  by (induction cmp x ys rule: insert_by.induct) auto

lemma set_insert_by [simp]: "set (insert_by cmp x ys) = insert x (set ys)"
  by (induction cmp x ys rule: insert_by.induct) auto

lemma mset_sort_by [simp]: "mset (sort_by cmp xs) = mset xs"
  unfolding sort_by_def by (induction xs) auto

lemma set_sort_by [simp]: "set (sort_by cmp xs) = set xs"
  using mset_sort_by mset_eq_setD by metis

lemma length_sort_by [simp]: "length (sort_by cmp xs) = length xs"
  using mset_sort_by mset_eq_length by metis

lemma length_filter_sort_by [simp]: "length (filter p (sort_by cmp xs)) = length (filter p xs)"
  by (metis mset_filter mset_sort_by size_mset)

lemma sorted_insert_by:
  assumes "sorted_wrt (\<lambda>x y. cmp x y \<noteq> OrdGreater) ys"
    and total: "\<And>x y. cmp x y = OrdGreater \<Longrightarrow> cmp y x \<noteq> OrdGreater"
    and trans: "\<And>x y z. cmp x y \<noteq> OrdGreater \<Longrightarrow> cmp y z \<noteq> OrdGreater \<Longrightarrow> cmp x z \<noteq> OrdGreater"
  shows "sorted_wrt (\<lambda>x y. cmp x y \<noteq> OrdGreater) (insert_by cmp x ys)"
  using assms(1)
proof (induction ys)
  case (Cons y ys)
  show ?case
  proof (cases "cmp x y = OrdGreater")
    case True
    with Cons total [OF True] show ?thesis by simp
  next
    case False
    with Cons trans [OF False] show ?thesis by simp
  qed
qed simp

lemma candidate_order:
  "compare_candidates l r \<noteq> OrdGreater \<longleftrightarrow>
     candidate_score r < candidate_score l \<or> candidate_score r = candidate_score l \<and>
     (candidate_level l < candidate_level r \<or> candidate_level l = candidate_level r \<and>
      candidate_identity l \<le> candidate_identity r)"
  by (auto simp: compare_candidates_def ord_cmp_def)

lemma lex3_trans:
  fixes a1 a2 a3 :: "'a::linorder" and b1 b2 b3 :: "'b::linorder" and c1 c2 c3 :: "'c::linorder"
  assumes "a2 < a1 \<or> a2 = a1 \<and> (b1 < b2 \<or> b1 = b2 \<and> c1 \<le> c2)"
    and "a3 < a2 \<or> a3 = a2 \<and> (b2 < b3 \<or> b2 = b3 \<and> c2 \<le> c3)"
  shows "a3 < a1 \<or> a3 = a1 \<and> (b1 < b3 \<or> b1 = b3 \<and> c1 \<le> c3)"
  using assms by (elim disjE conjE) auto

lemma candidates_sorted:
  "sorted_wrt (\<lambda>x y. compare_candidates x y \<noteq> OrdGreater) (sort_by compare_candidates cs)"
  unfolding sort_by_def
proof (induction cs)
  case (Cons c cs)
  have tot: "compare_candidates x y \<noteq> OrdGreater" if "compare_candidates y x = OrdGreater"
    for x y :: "'a candidate"
  proof -
    have "\<not> (compare_candidates y x \<noteq> OrdGreater)" using that by simp
    then show ?thesis unfolding candidate_order by (auto simp: not_less order.order_iff_strict)
  qed
  have tr: "compare_candidates x z \<noteq> OrdGreater"
    if "compare_candidates x y \<noteq> OrdGreater" "compare_candidates y z \<noteq> OrdGreater"
    for x y z :: "'a candidate"
    using that unfolding candidate_order by (rule lex3_trans)
  show ?case unfolding foldr.simps comp_apply by (rule sorted_insert_by [OF Cons.IH tot tr])
qed simp

section \<open>Telemetry does not influence the search\<close>

lemma load_block_candidates_tel:
  assumes "load_block_candidates d se ops h t s is_root depth tel = (r, tel1, s1)"
  shows "\<exists>tel2. load_block_candidates d se ops h t s is_root depth tel' = (r, tel2, s1)"
  using assms
  by (cases "fst (load_validated_block d ops s h is_root)")
    (auto simp: load_block_candidates_def build_block_candidates_def case_prod_unfold)

lemma process_loaded_tel:
  assumes "process_loaded d se t ls st = (r, st1)"
  shows "\<exists>tel2. process_loaded d se t ls (st\<lparr>round_telemetry := tel'\<rparr>) =
    (r, st1\<lparr>round_telemetry := tel2\<rparr>)"
  using assms
proof (induction ls arbitrary: st tel')
  case Nil
  then show ?case by auto
next
  case (Cons l rest)
  obtain c dep x where l: "l = (c, dep, x)" by (cases l)
  show ?case
  proof (cases x)
    case (Ok v)
    show ?thesis
    proof (cases "block_candidates d se c t (into_entries v) dep")
      case (Ok cs)
      let ?tel = "record_visited_block c dep"
      let ?st = "st\<lparr>next_candidates := next_candidates st @ cs,
         expanded_children := List.insert c (expanded_children st)\<rparr>"
      have "process_loaded d se t rest (?st\<lparr>round_telemetry := ?tel (round_telemetry st)\<rparr>) = (r, st1)"
        using Cons.prems Ok \<open>x = Ok v\<close> by (cases st) (simp add: build_block_candidates_def l)
      from Cons.IH [OF this, of "?tel tel'"] show ?thesis
        using Ok \<open>x = Ok v\<close> by (cases st) (simp add: build_block_candidates_def l)
    qed (use Cons.prems Ok in \<open>auto simp: build_block_candidates_def l\<close>)
  qed (use Cons.prems in \<open>auto simp: l\<close>)
qed

lemma process_chunks_tel:
  assumes "process_chunks d se ops t cs st s = (r, st1, s1)"
  shows "\<exists>tel2. process_chunks d se ops t cs (st\<lparr>round_telemetry := tel'\<rparr>) s =
    (r, st1\<lparr>round_telemetry := tel2\<rparr>, s1)"
  using assms
proof (induction cs arbitrary: st s tel')
  case Nil
  then show ?case by auto
next
  case (Cons c cs)
  obtain l s2 where l: "load_chunk d ops c s = (l, s2)" by (cases "load_chunk d ops c s")
  show ?case
  proof (cases l)
    case (Ok ls)
    obtain q st2 where q: "process_loaded d se t ls st = (q, st2)" by (cases "process_loaded d se t ls st")
    from process_loaded_tel [OF q, of tel'] obtain tel2 where
      q': "process_loaded d se t ls (st\<lparr>round_telemetry := tel'\<rparr>) = (q, st2\<lparr>round_telemetry := tel2\<rparr>)"
      by blast
    show ?thesis
    proof (cases q)
      case (Ok u)
      then have "process_chunks d se ops t cs st2 s2 = (r, st1, s1)"
        using Cons.prems l q \<open>l = Ok ls\<close> by simp
      from Cons.IH [OF this, of tel2] show ?thesis using Ok l q' \<open>l = Ok ls\<close> by simp
    qed (use Cons.prems l Ok q q' in auto)
  qed (use Cons.prems l in auto)
qed

text \<open>Two search states that differ in their telemetry only.\<close>

definition same_search :: "('score, 's) search_state \<Rightarrow> ('score, 's) search_state \<Rightarrow> bool" where
  "same_search a b =
     (frontier a = frontier b \<and> expanded a = expanded b \<and> store_state a = store_state b)"

definition sorted_frontier :: "('score::linorder, 's) search_state \<Rightarrow> 'score candidate list" where
  "sorted_frontier st = sort_by compare_candidates (retain_not_in (expanded st) (frontier st))"

definition search_done :: "nat \<Rightarrow> 'score candidate list \<Rightarrow> bool" where
  "search_done n fr = (n \<le> length fr \<and> list_all is_terminal (take n fr))"

definition round_of :: "nat \<Rightarrow> block_hash list \<Rightarrow> 'score candidate list \<Rightarrow> (block_hash \<times> nat) list list" where
  "round_of w cur fr = chunks (child_load_limit w) (map (\<lambda>c. (c, child_depth c fr)) cur)"

definition round_start :: "('score, 's) search_state \<Rightarrow> 'score round" where
  "round_start st =
     \<lparr>next_candidates = [], expanded_children = expanded st, round_telemetry = telemetry st\<rparr>"

text \<open>The ends of one pass of the loop.\<close>

lemma search_step_done:
  "search_done n (sorted_frontier st) \<Longrightarrow> search_step d se ops t w n st =
     (Some (take_leaves n (sorted_frontier st)), st\<lparr>frontier := sorted_frontier st\<rparr>)"
  by (simp add: search_step_def sorted_frontier_def search_done_def Let_def)

lemma search_step_selection:
  assumes "\<not> search_done n (sorted_frontier st)"
    and "select_round se (sorted_frontier st) (expanded st) w = r"
  shows "r = Err e \<Longrightarrow> search_step d se ops t w n st = (Some (Err e), st\<lparr>frontier := sorted_frontier st\<rparr>)"
    and "r = Panic \<Longrightarrow> search_step d se ops t w n st = (Some Panic, st\<lparr>frontier := sorted_frontier st\<rparr>)"
    and "r = Ok [] \<Longrightarrow> search_step d se ops t w n st =
      (Some (Err (Exhausted n (length (filter is_terminal (sorted_frontier st))))),
       st\<lparr>frontier := sorted_frontier st\<rparr>)"
  using assms by (auto simp: search_step_def sorted_frontier_def search_done_def Let_def)

lemma search_step_round:
  assumes "\<not> search_done n (sorted_frontier st)"
    and "select_round se (sorted_frontier st) (expanded st) w = Ok cur" and "cur \<noteq> []"
    and "process_chunks d se ops t (round_of w cur (sorted_frontier st)) (round_start st)
      (store_state st) = (r, rd, s')"
  shows "search_step d se ops t w n st =
    (let st2 = st\<lparr>frontier := sorted_frontier st, expanded := expanded_children rd,
                 telemetry := round_telemetry rd, store_state := s'\<rparr>
     in case r of Err e \<Rightarrow> (Some (Err e), st2) | Panic \<Rightarrow> (Some Panic, st2)
        | Ok _ \<Rightarrow> (None, st2\<lparr>frontier := retain_not_in cur (sorted_frontier st) @ next_candidates rd\<rparr>))"
  using assms unfolding sorted_frontier_def search_done_def round_of_def round_start_def
  by (auto simp: search_step_def Let_def)

lemma search_step_tel:
  assumes same: "same_search a b" and step: "search_step d se ops t w n a = (r, a')"
  shows "\<exists>b'. search_step d se ops t w n b = (r, b') \<and> same_search a' b'"
proof -
  let ?fr = "sorted_frontier a"
  have fr: "sorted_frontier b = ?fr" and ex: "expanded b = expanded a" and ss: "store_state b = store_state a"
    using same by (simp_all add: same_search_def sorted_frontier_def)
  consider "search_done n ?fr" | (sel) "\<not> search_done n ?fr"
      "\<forall>cur. select_round se ?fr (expanded a) w = Ok cur \<longrightarrow> cur = []"
    | (round) cur where "\<not> search_done n ?fr" "select_round se ?fr (expanded a) w = Ok cur" "cur \<noteq> []"
    by blast
  then show ?thesis
  proof cases
    case 1
    with step show ?thesis by (auto simp: search_step_done fr same_search_def ex ss)
  next
    case sel
    note a = search_step_selection [OF sel(1) refl, where se = se and w = w and d = d and ops = ops and t = t]
    have "\<not> search_done n (sorted_frontier b)" using sel(1) by (simp add: fr)
    note b = search_step_selection [OF this refl, where se = se and w = w and d = d and ops = ops and t = t]
    show ?thesis using step sel(2) a b unfolding fr ex
      by (cases "select_round se ?fr (expanded a) w") (auto simp: same_search_def ex ss)
  next
    case round
    let ?ch = "round_of w cur ?fr"
    obtain q rd s' where pa: "process_chunks d se ops t ?ch (round_start a) (store_state a) = (q, rd, s')"
      by (cases "process_chunks d se ops t ?ch (round_start a) (store_state a)")
    have start: "round_start b = (round_start a)\<lparr>round_telemetry := telemetry b\<rparr>"
      by (simp add: round_start_def ex)
    from process_chunks_tel [OF pa] obtain tel where
      pb: "process_chunks d se ops t ?ch (round_start b) (store_state b) = (q, rd\<lparr>round_telemetry := tel\<rparr>, s')"
      unfolding start ss by blast
    note sa = search_step_round [OF round pa]
    have sb: "\<not> search_done n (sorted_frontier b)" "select_round se (sorted_frontier b) (expanded b) w = Ok cur"
      using round by (simp_all add: fr ex)
    note sb = search_step_round [OF sb round(3) pb [folded fr]]
    show ?thesis using step unfolding sa sb
      by (cases q) (auto simp: Let_def fr same_search_def)
  qed
qed

text \<open>Induction over the passes of a loop that ends.\<close>

lemma search_loop_induct [consumes 1, case_names ends continues]:
  fixes se :: "('target, 'score::linorder) searcher" and ops :: "'s store_ops"
  assumes loop: "search_loop d se ops t w n st = Some (r, st')"
    and ends: "\<And>st r st'. search_step d se ops t w n st = (Some r, st') \<Longrightarrow> P st r st'"
    and continues: "\<And>st st1 r st'. search_step d se ops t w n st = (None, st1) \<Longrightarrow> P st1 r st' \<Longrightarrow> P st r st'"
  shows "P st r st'"
proof -
  let ?P = "\<lambda>d' se' ops' t' w' n' st p.
    (d', se', ops', t', w', n') = (d, se, ops, t, w, n) \<longrightarrow> P st (fst p) (snd p)"
  have "?P d se ops t w n st (r, st')"
  proof (rule search_loop.raw_induct [where P = ?P, OF _ loop], intro impI)
    fix f :: "deps \<Rightarrow> ('target, 'score) searcher \<Rightarrow> 's store_ops \<Rightarrow> 'target \<Rightarrow> nat \<Rightarrow> nat
      \<Rightarrow> ('score, 's) search_state \<Rightarrow> (search_result search_outcome \<times> ('score, 's) search_state) option"
    fix d' se' ops' t' w' n' st p
    assume ih: "\<And>d' se' ops' t' w' n' st p. f d' se' ops' t' w' n' st = Some p \<Longrightarrow> ?P d' se' ops' t' w' n' st p"
      and body: "(let (r, st') = search_step d' se' ops' t' w' n' st
        in case r of Some result \<Rightarrow> Some (result, st') | None \<Rightarrow> f d' se' ops' t' w' n' st') = Some p"
      and eq: "(d', se', ops', t', w', n') = (d, se, ops, t, w, n)"
    obtain q st1 where step: "search_step d se ops t w n st = (q, st1)"
      by (cases "search_step d se ops t w n st")
    show "P st (fst p) (snd p)"
    proof (cases q)
      case None
      then have "f d se ops t w n st1 = Some p" using body eq step by simp
      from ih [OF this] continues [of st st1] step None show ?thesis by simp
    next
      case (Some r)
      then show ?thesis using body eq step ends [of st r st1] by auto
    qed
  qed
  then show ?thesis by simp
qed

lemma search_loop_step:
  "search_step d se ops t w n st = (Some r, st') \<Longrightarrow> search_loop d se ops t w n st = Some (r, st')"
  "search_step d se ops t w n st = (None, st1) \<Longrightarrow>
     search_loop d se ops t w n st = search_loop d se ops t w n st1"
  by (subst search_loop.simps, simp)+

lemma search_loop_tel:
  assumes "search_loop d se ops t w n a = Some (r, a')" and "same_search a b"
  shows "\<exists>b'. search_loop d se ops t w n b = Some (r, b') \<and> same_search a' b'"
  using assms
proof (induction arbitrary: b rule: search_loop_induct)
  case (ends a r a')
  from search_step_tel [OF ends(2,1)] obtain b' where
    "search_step d se ops t w n b = (Some r, b')" "same_search a' b'" by blast
  then show ?case using search_loop_step(1) [of d se ops t w n b] by auto
next
  case (continues a a1 r a')
  from search_step_tel [OF continues(3,1)] obtain b1 where
    "search_step d se ops t w n b = (None, b1)" "same_search a1 b1" by blast
  with continues(2) show ?case by (simp add: search_loop_step(2))
qed

lemma conclude_result: "map_ok fst (fst (conclude mode r tel)) = r"
  by (cases r) (simp_all add: conclude_def Let_def)

lemma conclude_eq: "conclude mode r tel = (q, em) \<Longrightarrow> map_ok fst q = r"
  using conclude_result [of mode r tel] by simp

definition outcome_of ::
    "((search_result \<times> search_summary) search_outcome \<times> search_summary list \<times> 's) option
       \<Rightarrow> (search_result search_outcome \<times> 's) option" where
  "outcome_of = map_option (\<lambda>(r, _, s'). (map_ok fst r, s'))"

lemma search_loop_same:
  assumes "same_search a b"
  shows "map_option (\<lambda>(r, st). (r, store_state st)) (search_loop d se ops t w n a) =
    map_option (\<lambda>(r, st). (r, store_state st)) (search_loop d se ops t w n b)"
proof -
  have "same_search b a" using assms by (simp add: same_search_def)
  with assms show ?thesis
    using search_loop_tel [of d se ops t w n a _ _ b] search_loop_tel [of d se ops t w n b _ _ a]
    by (cases "search_loop d se ops t w n a"; cases "search_loop d se ops t w n b")
      (fastforce simp: same_search_def)+
qed

lemma outcome_of_loop:
  "outcome_of (map_option (\<lambda>(result, st).
      case conclude mode result (telemetry st) of (r, emitted) \<Rightarrow> (r, emitted, store_state st)) x) =
   map_option (\<lambda>(r, st). (r, store_state st)) x"
  by (cases x) (auto simp: outcome_of_def conclude_result case_prod_unfold Let_def)

lemma internal_outcome:
  "outcome_of (search_internal d se ops root_id t w n s mode) =
   outcome_of (search_internal d se ops root_id t w n s mode')"
proof (cases "w = 0")
  case True
  then show ?thesis by (simp add: search_internal_def outcome_of_def conclude_result case_prod_unfold Let_def)
next
  case False
  let ?tel = "\<lambda>m. new_collector w (mode_enabled m)"
  obtain r tel1 s1 where l1: "load_block_candidates d se ops root_id t s True 0 (?tel mode) = (r, tel1, s1)"
    by (cases "load_block_candidates d se ops root_id t s True 0 (?tel mode)")
  from load_block_candidates_tel [OF l1] obtain tel2 where
    l2: "load_block_candidates d se ops root_id t s True 0 (?tel mode') = (r, tel2, s1)" by blast
  show ?thesis
  proof (cases r)
    case (Ok fr)
    have "same_search \<lparr>frontier = fr, expanded = [], telemetry = tel1, store_state = s1\<rparr>
        \<lparr>frontier = fr, expanded = [], telemetry = tel2, store_state = s1\<rparr>"
      by (simp add: same_search_def)
    from search_loop_same [OF this, of d se ops t w n] False l1 l2 Ok show ?thesis
      by (simp add: search_internal_def outcome_of_loop)
  qed (use False l1 l2 in \<open>simp_all add: search_internal_def outcome_of_def conclude_result
      case_prod_unfold Let_def\<close>)
qed

text \<open>
  C23: a search with telemetry, with or without an observer, has the same result
  and leaves the same store as the search without.
\<close>

theorem telemetry_transparent:
  "map_option (\<lambda>(r, s'). (map_ok fst r, s')) (search_with_telemetry d se ops root_id t w n s) =
     search d se ops root_id t w n s \<and>
   map_option (\<lambda>(r, emitted, s'). (r, s')) (search_with_observer d se ops root_id t w n s) =
     search d se ops root_id t w n s"
  using internal_outcome [of d se ops root_id t w n s "TelemetryEnabled False" TelemetryDisabled]
    internal_outcome [of d se ops root_id t w n s "TelemetryEnabled True" TelemetryDisabled]
  by (simp add: search_with_telemetry_def search_with_observer_def search_def outcome_of_def
      option.map_comp comp_def case_prod_unfold)

section \<open>What an observer is told\<close>

definition watching :: "nat \<Rightarrow> collector \<Rightarrow> bool" where
  "watching w tel =
     (collector_enabled tel \<and> beam_width (collector_summary tel) = w \<and>
      (\<exists>visited. visited_blocks tel = Some visited \<and> distinct visited \<and>
         distinct_blocks_visited (collector_summary tel) = length visited))"

lemma watching_new: "watching w (new_collector w True)"
  by (simp add: watching_def new_collector_def)

lemma watching_record: "watching w tel \<Longrightarrow> watching w (record_visited_block h dep tel)"
  by (auto simp: watching_def record_visited_block_def Let_def)

lemma watching_load:
  "load_block_candidates d se ops h t s is_root dep tel = (r, tel', s') \<Longrightarrow> watching w tel \<Longrightarrow> watching w tel'"
  by (auto simp: load_block_candidates_def build_block_candidates_def watching_record
      split: prod.splits outcome.splits)

lemma watching_loaded:
  "process_loaded d se t ls st = (r, st') \<Longrightarrow> watching w (round_telemetry st) \<Longrightarrow>
     watching w (round_telemetry st')"
proof (induction ls arbitrary: st)
  case (Cons l ls)
  then show ?case
    by (cases l) (auto simp: build_block_candidates_def Let_def watching_record split: outcome.splits)
qed simp

lemma watching_chunks:
  "process_chunks d se ops t cs st s = (r, st', s') \<Longrightarrow> watching w (round_telemetry st) \<Longrightarrow>
     watching w (round_telemetry st')"
proof (induction cs arbitrary: st s)
  case (Cons c cs)
  then show ?case by (auto simp: Let_def split: outcome.splits prod.splits dest: watching_loaded)
qed simp

lemma watching_step:
  assumes "search_step d se ops t w n st = (r, st')" and "watching v (telemetry st)"
  shows "watching v (telemetry st')"
  using assms watching_chunks [of d se ops t _ "\<lparr>next_candidates = [], expanded_children = expanded st,
      round_telemetry = telemetry st\<rparr>" "store_state st" _ _ _ v]
  by (auto simp: search_step_def Let_def split: if_splits outcome.splits prod.splits)

lemma watching_loop:
  "search_loop d se ops t w n st = Some (r, st') \<Longrightarrow> watching v (telemetry st) \<Longrightarrow>
     watching v (telemetry st')"
  by (induction rule: search_loop_induct) (auto dest: watching_step)

definition ending :: "search_result search_outcome \<Rightarrow> search_termination_kind" where
  "ending r = (case r of Err e \<Rightarrow> termination_of e | _ \<Rightarrow> SearchSuccess)"

lemma conclude_watching:
  assumes "watching w tel" and "conclude (TelemetryEnabled True) r tel = (q, em)" and "r \<noteq> Panic"
  shows "\<exists>sm. em = [sm] \<and> beam_width sm = w \<and> search_termination sm = ending r"
  using assms
  by (cases r) (auto simp: conclude_def Let_def watching_def emit_search_telemetry_def summary_of_def
      finish_success_def finish_with_error_def set_termination_def ending_def)

text \<open>
  A search that does not panic hands its observer exactly one summary, which
  names the traversal width and how the search ended.
\<close>

theorem observer_told_once:
  assumes "search_with_observer d se ops root_id t w n s = Some (r, emitted, s')" and "r \<noteq> Panic"
  shows "\<exists>sm. emitted = [sm] \<and> beam_width sm = w \<and> search_termination sm = ending r"
proof -
  let ?m = "TelemetryEnabled True"
  have end_case: "\<exists>sm. em = [sm] \<and> beam_width sm = w \<and> search_termination sm = ending (map_ok fst q)"
    if "watching w tel" "conclude ?m x tel = (q, em)" "map_ok fst q \<noteq> Panic" for tel x q em
    using conclude_watching [OF that(1,2)] that(3) conclude_eq [OF that(2)] by simp
  obtain q where q: "search_internal d se ops root_id t w n s ?m = Some (q, emitted, s')"
    and r: "r = map_ok fst q" using assms(1) by (auto simp: search_with_observer_def)
  show ?thesis
  proof (cases "w = 0")
    case True
    then show ?thesis using q r assms(2) end_case [OF watching_new]
      by (auto simp: search_internal_def Let_def split: prod.splits)
  next
    case False
    obtain l tel s1 where l: "load_block_candidates d se ops root_id t s True 0 (new_collector w True) = (l, tel, s1)"
      by (cases "load_block_candidates d se ops root_id t s True 0 (new_collector w True)")
    note tel = watching_load [OF l watching_new]
    show ?thesis
    proof (cases l)
      case (Ok fr)
      let ?st = "\<lparr>frontier = fr, expanded = [], telemetry = tel, store_state = s1\<rparr>"
      obtain p where p: "search_loop d se ops t w n ?st = Some p"
        and c: "conclude ?m (fst p) (telemetry (snd p)) = (q, emitted)"
        using False q l Ok by (auto simp: search_internal_def Let_def case_prod_unfold prod_eq_iff)
      obtain x st where "p = (x, st)" by (cases p)
      with p c have loop: "search_loop d se ops t w n ?st = Some (x, st)"
        and c: "conclude ?m x (telemetry st) = (q, emitted)" by simp_all
      have "watching w (telemetry st)" using watching_loop [OF loop] tel by simp
      from end_case [OF this c] show ?thesis using assms(2) r by simp
    next
      case (Err e)
      then have "conclude ?m (Err e) tel = (q, emitted)"
        using False q l by (auto simp: search_internal_def Let_def split: prod.splits)
      from end_case [OF tel this] show ?thesis using assms(2) r by simp
    next
      case Panic
      then show ?thesis using False q l r assms(2) by (simp add: search_internal_def)
    qed
  qed
qed

end
