(* ===== verification/Search_Reach.thy ===== *)
theory Search_Reach
  imports Search_Props
begin

text \<open>
  Searches over a store that honours its contract. The blocks a search can see are those the store's
  bytes decode to; they are the nodes of a graph whose edges are the entries of branch blocks. The
  invariant of the loop relates the frontier and the set of expanded children to this graph. From it
  follow termination, the soundness of the leaves a search returns, and the completeness of a search
  that reports exhaustion.
\<close>

section \<open>The graph of blocks\<close>

definition decoded :: "deps \<Rightarrow> (block_hash \<rightharpoonup> byte list) \<Rightarrow> block_hash \<rightharpoonup> block" where
  "decoded d universe h =
     (case universe h of
        None \<Rightarrow> None
      | Some bs \<Rightarrow> (case deserialize_block d bs h of Ok v \<Rightarrow> Some (vb_block v) | _ \<Rightarrow> None))"

fun block_children :: "block \<Rightarrow> block_hash set" where
  "block_children (Branch b) = be_child ` set (bb_entries b)"
| "block_children (Leaf b) = {}"

inductive reachable :: "(block_hash \<rightharpoonup> block) \<Rightarrow> block_hash \<Rightarrow> block_hash \<Rightarrow> bool"
  for g root_id where
  at_root: "reachable g root_id root_id"
| child: "reachable g root_id h \<Longrightarrow> g h = Some b \<Longrightarrow> c \<in> block_children b \<Longrightarrow> reachable g root_id c"

definition reachable_leaves :: "(block_hash \<rightharpoonup> block) \<Rightarrow> block_hash \<Rightarrow> block_hash set" where
  "reachable_leaves g root_id = {h. reachable g root_id h \<and> (\<exists>b. g h = Some (Leaf b))}"

section \<open>Candidates of one block\<close>

fun branch_child :: "'score candidate \<Rightarrow> block_hash option" where
  "branch_child (BranchCandidate child _ _ _ _ _) = Some child"
| "branch_child (LeafCandidate _ _ _ _) = None"

fun leaf_id :: "'score candidate \<Rightarrow> block_hash option" where
  "leaf_id (BranchCandidate _ _ _ _ _ _) = None"
| "leaf_id (LeafCandidate h _ _ _) = Some h"

text \<open>The candidates that a branch or leaf block stands for.\<close>

fun candidate_of :: "block_hash \<Rightarrow> block \<Rightarrow> 'score candidate \<Rightarrow> bool" where
  "candidate_of h (Branch b) (BranchCandidate c _ level _ _ _) =
     (level = bb_level b \<and> c \<in> be_child ` set (bb_entries b))"
| "candidate_of h (Leaf b) (LeafCandidate k level e _) =
     (k = h \<and> level = lb_level b \<and> e \<in> set (lb_entries b))"
| "candidate_of h _ _ = False"

lemma branch_candidates_Ok:
  assumes "block_candidates d se h t (into_entries v) dep = Ok cs" and "vb_block v = Branch b"
  shows "map branch_child cs = map (Some \<circ> be_child) (bb_entries b) \<and> (\<forall>c \<in> set cs. candidate_of h (Branch b) c)"
proof -
  obtain md ebcp spec where
    tr: "traverse (score_branch_entry d se h t md ebcp spec dep) (bb_entries b) = Ok cs"
    and md: "md_level md = bb_level b"
    using assms by (auto simp: block_candidates_def outcome_simps Let_def)
  have one: "\<exists>emb score. c = BranchCandidate (be_child e) (dep + 1) (bb_level b) emb spec score"
    if "score_branch_entry d se h t md ebcp spec dep e = Ok c" for e c
    using that md by (auto simp: score_branch_entry_def outcome_simps Let_def split: option.splits)
  from tr have all: "list_all2 (\<lambda>e c. score_branch_entry d se h t md ebcp spec dep e = Ok c) (bb_entries b) cs"
    by (simp add: outcome_simps)
  have "map branch_child cs = map (Some \<circ> be_child) (bb_entries b)"
    using all by (induction rule: list_all2_induct) (auto dest: one)
  moreover have "candidate_of h (Branch b) c" if "c \<in> set cs" for c
    using traverse_Ok_set [OF tr that] one by fastforce
  ultimately show ?thesis by blast
qed

lemma leaf_candidates_Ok:
  assumes "block_candidates d se h t (into_entries v) dep = Ok cs" and "vb_block v = Leaf b"
  shows "map leaf_id cs = map (\<lambda>_. Some h) (lb_entries b) \<and> (\<forall>c \<in> set cs. candidate_of h (Leaf b) c)"
proof -
  obtain md where tr: "traverse (score_leaf_entry se h t md) (lb_entries b) = Ok cs"
    and md: "md_level md = lb_level b"
    using assms by (auto simp: block_candidates_def outcome_simps)
  have one: "\<exists>score. c = LeafCandidate h (lb_level b) e score" if "score_leaf_entry se h t md e = Ok c" for e c
    using that md by (auto simp: score_leaf_entry_def outcome_simps)
  from tr have all: "list_all2 (\<lambda>e c. score_leaf_entry se h t md e = Ok c) (lb_entries b) cs"
    by (simp add: outcome_simps)
  have "map leaf_id cs = map (\<lambda>_. Some h) (lb_entries b)"
    using all by (induction rule: list_all2_induct) (auto dest: one)
  moreover have "candidate_of h (Leaf b) c" if "c \<in> set cs" for c
    using traverse_Ok_set [OF tr that] one by fastforce
  ultimately show ?thesis by blast
qed

section \<open>Loads\<close>

context block_store
begin

text \<open>A child that was loaded from the bytes the store holds, and the candidates it gave.\<close>

definition expands ::
    "deps \<Rightarrow> ('target, 'score) searcher \<Rightarrow> 'target \<Rightarrow> 's \<Rightarrow> block_hash \<times> nat \<Rightarrow> 'score candidate list \<Rightarrow> bool" where
  "expands d se t s item cs =
     (\<exists>bs v. resident s (fst item) = Some bs \<and> universe (fst item) = Some bs \<and>
        deserialize_block d bs (fst item) = Ok v \<and>
        block_candidates d se (fst item) t (into_entries v) (snd item) = Ok cs)"

lemma expands_mono: "expands d se t s1 item cs \<Longrightarrow> resident s1 \<subseteq>\<^sub>m resident s \<Longrightarrow> expands d se t s item cs"
  unfolding expands_def map_le_def by (metis domI)

lemma load_spec:
  assumes "inv s" and "load_validated_block d ops s h is_root = (r, s')"
  shows "inv s' \<and> resident s' \<subseteq>\<^sub>m resident s \<and>
    (\<forall>v. r = Ok v \<longrightarrow> (\<exists>bs. resident s h = Some bs \<and> universe h = Some bs \<and> deserialize_block d bs h = Ok v))"
proof -
  obtain g s1 where get: "get_block_bytes ops s h = (g, s1)" by (cases "get_block_bytes ops s h")
  have "s' = s1"
    using assms(2) get
    by (cases g) (auto simp: load_validated_block_def store_get_def split: prod.splits option.splits)
  moreover have "inv s1" and "resident s1 \<subseteq>\<^sub>m resident s"
    using get_inv [OF assms(1) get] get_sound [OF assms(1) get] by (auto simp: map_le_def dom_def)
  moreover have "\<exists>bs. resident s h = Some bs \<and> universe h = Some bs \<and> deserialize_block d bs h = Ok v"
    if ok: "r = Ok v" for v
  proof -
    obtain bs where g: "g = Ok (Some bs)" and v: "deserialize_block d bs h = Ok v"
      using assms(2) get ok
      by (cases g) (auto simp: load_validated_block_def store_get_def outcome_simps
          split: prod.splits option.splits outcome.splits)
    then have "resident s h = Some bs" using get_returns [OF assms(1)] get by fastforce
    with v resident_universe [OF assms(1)] show ?thesis by blast
  qed
  ultimately show ?thesis by blast
qed

lemma load_chunk_spec:
  assumes "inv s" and "load_chunk d ops items s = (q, s')"
  shows "inv s' \<and> resident s' \<subseteq>\<^sub>m resident s \<and>
    (\<forall>ls. q = Ok ls \<longrightarrow> map (\<lambda>(c, dep, _). (c, dep)) ls = items \<and>
      (\<forall>(c, dep, r) \<in> set ls. \<forall>v. r = Ok v \<longrightarrow>
        (\<exists>bs. resident s c = Some bs \<and> universe c = Some bs \<and> deserialize_block d bs c = Ok v)))"
  using assms
proof (induction items arbitrary: s q s')
  case (Cons item items)
  obtain c dep where item: "item = (c, dep)" by (cases item)
  obtain r s1 where l: "load_validated_block d ops s c False = (r, s1)"
    by (cases "load_validated_block d ops s c False")
  note spec = load_spec [OF Cons.prems(1) l]
  obtain q1 s2 where rest: "load_chunk d ops items s1 = (q1, s2)" by (cases "load_chunk d ops items s1")
  have inv1: "inv s1" and le1: "resident s1 \<subseteq>\<^sub>m resident s" using spec by blast+
  note ih = Cons.IH [OF inv1 rest]
  show ?case
  proof (cases "r = Panic")
    case True
    then show ?thesis using Cons.prems(2) item l spec by auto
  next
    case False
    then have q: "q = map_ok (Cons (c, dep, r)) q1" and s': "s' = s2"
      using Cons.prems(2) item l rest by auto
    have le: "resident s2 \<subseteq>\<^sub>m resident s" using ih le1 map_le_trans by blast
    have keep: "resident s1 h = Some bs \<Longrightarrow> resident s h = Some bs" for h bs
      using le1 by (metis domI map_le_def)
    show ?thesis unfolding q s' item using ih le spec keep by (auto simp: outcome_simps) blast
  qed
qed auto

end

lemma process_loaded_Ok:
  assumes "process_loaded d se t ls st = (Ok (), st')"
  shows "\<exists>css. list_all2 (\<lambda>(c, dep, r) cs. \<exists>v. r = Ok v \<and>
      block_candidates d se c t (into_entries v) dep = Ok cs) ls css \<and>
    next_candidates st' = next_candidates st @ concat css \<and>
    set (expanded_children st') = set (expanded_children st) \<union> fst ` set ls"
  using assms
proof (induction ls arbitrary: st)
  case (Cons l ls)
  obtain c dep r where l: "l = (c, dep, r)" by (cases l)
  obtain v cs where r: "r = Ok v" and cs: "block_candidates d se c t (into_entries v) dep = Ok cs"
    using Cons.prems by (auto simp: l build_block_candidates_def Let_def split: outcome.splits)
  let ?st = "st\<lparr>round_telemetry := record_visited_block c dep (round_telemetry st),
    next_candidates := next_candidates st @ cs, expanded_children := List.insert c (expanded_children st)\<rparr>"
  have "process_loaded d se t ls ?st = (Ok (), st')"
    using Cons.prems cs by (simp add: l r build_block_candidates_def)
  from Cons.IH [OF this] obtain css where "list_all2 (\<lambda>(c, dep, r) cs. \<exists>v. r = Ok v \<and>
      block_candidates d se c t (into_entries v) dep = Ok cs) ls css"
    "next_candidates st' = next_candidates ?st @ concat css"
    "set (expanded_children st') = set (expanded_children ?st) \<union> fst ` set ls" by blast
  then show ?case using cs r by (intro exI [of _ "cs # css"]) (auto simp: l)
qed auto

context block_store
begin

lemma process_chunks_spec:
  assumes "inv s" and "process_chunks d se ops t chs st s = (r, st', s')"
  shows "inv s' \<and> resident s' \<subseteq>\<^sub>m resident s \<and>
    (r = Ok () \<longrightarrow> (\<exists>css. list_all2 (expands d se t s) (concat chs) css \<and>
      next_candidates st' = next_candidates st @ concat css \<and>
      set (expanded_children st') = set (expanded_children st) \<union> fst ` set (concat chs)))"
  using assms
proof (induction chs arbitrary: s st)
  case (Cons ch chs)
  obtain q s1 where l: "load_chunk d ops ch s = (q, s1)" by (cases "load_chunk d ops ch s")
  note spec = load_chunk_spec [OF Cons.prems(1) l]
  then have inv1: "inv s1" and le1: "resident s1 \<subseteq>\<^sub>m resident s" by blast+
  show ?case
  proof (cases q)
    case (Ok ls)
    obtain p st1 where p: "process_loaded d se t ls st = (p, st1)" by (cases "process_loaded d se t ls st")
    show ?thesis
    proof (cases p)
      case (Ok u)
      have pc: "process_chunks d se ops t chs st1 s1 = (r, st', s')"
        using Cons.prems(2) l p Ok \<open>q = Ok ls\<close> by simp
      note ih = Cons.IH [OF inv1 pc]
      have le: "resident s' \<subseteq>\<^sub>m resident s" using ih le1 map_le_trans by blast
      show ?thesis
      proof (intro conjI impI)
        show "inv s'" "resident s' \<subseteq>\<^sub>m resident s" using ih le by blast+
        assume "r = Ok ()"
        with ih obtain css2 where c2: "list_all2 (expands d se t s1) (concat chs) css2"
          "next_candidates st' = next_candidates st1 @ concat css2"
          "set (expanded_children st') = set (expanded_children st1) \<union> fst ` set (concat chs)" by blast
        from process_loaded_Ok [of d se t ls st st1] p Ok obtain css1 where
          c1: "list_all2 (\<lambda>(c, dep, r) cs. \<exists>v. r = Ok v \<and>
             block_candidates d se c t (into_entries v) dep = Ok cs) ls css1"
          "next_candidates st1 = next_candidates st @ concat css1"
          "set (expanded_children st1) = set (expanded_children st) \<union> fst ` set ls" by auto
        have ch: "ch = map (\<lambda>(c, dep, _). (c, dep)) ls" using spec \<open>q = Ok ls\<close> by simp
        have "list_all2 (expands d se t s) ch css1"
          unfolding ch list_all2_map1
          by (rule list.rel_mono_strong [OF c1(1)])
            (use spec \<open>q = Ok ls\<close> in \<open>fastforce simp: expands_def\<close>)
        moreover have "list_all2 (expands d se t s) (concat chs) css2"
          using c2(1) by (rule list_all2_mono) (rule expands_mono [OF _ le1])
        ultimately have "list_all2 (expands d se t s) (concat (ch # chs)) (css1 @ css2)"
          by (simp add: list_all2_appendI)
        moreover have "fst ` set ls = fst ` set ch" by (force simp: ch image_iff)
        ultimately show "\<exists>css. list_all2 (expands d se t s) (concat (ch # chs)) css \<and>
            next_candidates st' = next_candidates st @ concat css \<and>
            set (expanded_children st') = set (expanded_children st) \<union> fst ` set (concat (ch # chs))"
          using c1(2,3) c2(2,3) by (intro exI [of _ "css1 @ css2"]) auto
      qed
    qed (use Cons.prems(2) l p Ok inv1 le1 in auto)
  qed (use Cons.prems(2) l inv1 le1 in auto)
qed auto

end

section \<open>The frontier\<close>

lemma decoded_block:
  assumes "decoded d universe h = Some b"
  shows "case b of Branch b' \<Rightarrow> bb_level b' \<noteq> 0 | Leaf b' \<Rightarrow> lb_level b' = 0 \<and> (\<exists>e. lb_entries b' = [e])"
proof -
  obtain bs v where "deserialize_block d bs h = Ok v" and b: "b = vb_block v"
    using assms by (auto simp: decoded_def split: option.splits outcome.splits)
  then have n: "normal d b" using deserialize_block_Ok by blast
  then show ?thesis by (cases b) (auto simp: normal_Branch normal_Leaf)
qed

lemma chunks_concat: "0 < n \<Longrightarrow> concat (chunks n xs) = xs"
proof (induction n xs rule: chunks.induct)
  case (1 n xs)
  then show ?case by (cases "xs = []") (simp_all add: chunks.simps [of n xs] chunks.simps [of n "[]"])
qed

lemma child_load_limit_pos: "0 < child_load_limit w"
  by (simp add: child_load_limit_def)

lemma concat_round_of: "concat (round_of w cur fr) = map (\<lambda>c. (c, child_depth c fr)) cur"
  by (simp add: round_of_def chunks_concat child_load_limit_pos)

definition branch_children :: "'score candidate list \<Rightarrow> block_hash set" where
  "branch_children cs = {h. Some h \<in> branch_child ` set cs}"

fun leaf_ids :: "'score candidate list \<Rightarrow> block_hash list" where
  "leaf_ids [] = []"
| "leaf_ids (LeafCandidate h _ _ _ # cs) = h # leaf_ids cs"
| "leaf_ids (BranchCandidate _ _ _ _ _ _ # cs) = leaf_ids cs"

lemma branch_children_simps [simp]:
  "branch_children [] = {}"
  "branch_children (LeafCandidate h l e s # cs) = branch_children cs"
  "branch_children (BranchCandidate c dep l emb spec s # cs) = insert c (branch_children cs)"
  "branch_children (xs @ ys) = branch_children xs \<union> branch_children ys"
  by (auto simp: branch_children_def)

lemma branch_children_sort [simp]: "branch_children (sort_by cmp cs) = branch_children cs"
  by (simp add: branch_children_def)

lemma branch_children_retain [simp]:
  "branch_children (retain_not_in hs cs) = branch_children cs - set hs"
proof (induction cs)
  case (Cons c cs)
  then show ?case by (cases c) (auto simp: retain_not_in_def)
qed (simp add: retain_not_in_def)

lemma leaf_ids_append [simp]: "leaf_ids (xs @ ys) = leaf_ids xs @ leaf_ids ys"
  by (induction xs rule: leaf_ids.induct) auto

lemma leaf_ids_retain [simp]: "leaf_ids (retain_not_in hs cs) = leaf_ids cs"
  by (induction cs rule: leaf_ids.induct) (auto simp: retain_not_in_def)

lemma mset_leaf_ids: "mset (leaf_ids cs) = image_mset (the \<circ> leaf_id) (filter_mset (\<lambda>c. leaf_id c \<noteq> None) (mset cs))"
  by (induction cs rule: leaf_ids.induct) auto

lemma mset_leaf_ids_sort: "mset (leaf_ids (sort_by cmp cs)) = mset (leaf_ids cs)"
  by (simp add: mset_leaf_ids)

lemma set_leaf_ids_sort [simp]: "set (leaf_ids (sort_by cmp cs)) = set (leaf_ids cs)"
  using mset_leaf_ids_sort mset_eq_setD by metis

lemma distinct_leaf_ids_sort [simp]: "distinct (leaf_ids (sort_by cmp cs)) = distinct (leaf_ids cs)"
  using mset_leaf_ids_sort mset_eq_imp_distinct_iff by metis

lemma set_retain [simp]: "set (retain_not_in hs cs) \<subseteq> set cs"
  by (auto simp: retain_not_in_def)

lemma expandable_children:
  "set (map ef_child (expandable_loop ex seen cs)) = branch_children cs - set ex - set seen \<and>
   distinct (map ef_child (expandable_loop ex seen cs))"
  by (induction ex seen cs rule: expandable_loop.induct) auto

lemma check_selected_Ok:
  "check_selected allowed seen sel = Ok () \<longleftrightarrow> set sel \<subseteq> set allowed \<and> distinct sel \<and> set sel \<inter> set seen = {}"
  by (induction sel arbitrary: seen) auto

lemma check_selected_no_panic: "check_selected allowed seen sel \<noteq> Panic"
  by (induction sel arbitrary: seen) auto

lemma validate_selected_Ok:
  "validate_selected_children sel fr w = Ok cur \<longleftrightarrow>
     cur = sel \<and> length sel = min (length fr) w \<and> set sel \<subseteq> ef_child ` set fr \<and> distinct sel"
  by (auto simp: validate_selected_children_def Let_def outcome_simps check_selected_Ok)

lemma select_round_Ok:
  assumes "select_round se fr ex w = Ok cur"
  shows "set cur \<subseteq> branch_children fr - set ex \<and> distinct cur \<and>
    (cur = [] \<longrightarrow> w = 0 \<or> branch_children fr \<subseteq> set ex)"
proof -
  let ?e = "deduplicated_expandable_frontier fr ex"
  have e: "ef_child ` set ?e = branch_children fr - set ex"
    using expandable_children [of ex "[]" fr] by (simp add: deduplicated_expandable_frontier_def)
  have "length cur = min (length ?e) w" "set cur \<subseteq> ef_child ` set ?e" "distinct cur"
    using assms by (auto simp: select_round_def Let_def outcome_simps validate_selected_Ok)
  moreover have "branch_children fr \<subseteq> set ex" if "length ?e = 0" using that e by auto
  ultimately show ?thesis using e by (auto simp: min_def split: if_splits)
qed

section \<open>The invariant of the loop\<close>

definition is_leaf_at :: "(block_hash \<rightharpoonup> block) \<Rightarrow> block_hash \<Rightarrow> bool" where
  "is_leaf_at g h = (\<exists>b. g h = Some (Leaf b))"

text \<open>
  The part of the invariant about frontier and expanded children, for the block graph \<open>g\<close>: every
  visited block is reachable and decodes, its children are expanded or waiting in the frontier,
  every candidate comes from a visited block, and the leaf candidates are the visited leaf blocks,
  each once.
\<close>

definition graph_inv ::
    "(block_hash \<rightharpoonup> block) \<Rightarrow> block_hash \<Rightarrow> 'score candidate list \<Rightarrow> block_hash set \<Rightarrow> bool" where
  "graph_inv g root_id fr ex =
     ((\<forall>h \<in> insert root_id ex. reachable g root_id h \<and>
         (\<exists>b. g h = Some b \<and> block_children b \<subseteq> ex \<union> branch_children fr)) \<and>
      (\<forall>c \<in> set fr. \<exists>h \<in> insert root_id ex. \<exists>b. g h = Some b \<and> candidate_of h b c) \<and>
      distinct (leaf_ids fr) \<and> set (leaf_ids fr) = {h \<in> insert root_id ex. is_leaf_at g h} \<and>
      (is_leaf_at g root_id \<longrightarrow> ex = {}))"

lemma graph_inv_sorted:
  "graph_inv g root_id fr (set ex) \<Longrightarrow>
     graph_inv g root_id (sort_by compare_candidates (retain_not_in ex fr)) (set ex)"
  using set_retain [of ex fr] unfolding graph_inv_def by (auto simp: subset_iff)

text \<open>The candidates \<open>cs\<close> are those of the block with hash \<open>h\<close>.\<close>

definition yields :: "(block_hash \<rightharpoonup> block) \<Rightarrow> block_hash \<Rightarrow> 'score candidate list \<Rightarrow> bool" where
  "yields g h cs =
     (\<exists>b. g h = Some b \<and> (\<forall>c \<in> set cs. candidate_of h b c) \<and> block_children b \<subseteq> branch_children cs \<and>
        leaf_ids cs = (if is_leaf_at g h then [h] else []))"

lemma candidate_of_Branch: "candidate_of h (Branch b) c \<Longrightarrow> leaf_id c = None"
  by (cases c) auto

lemma candidate_of_Leaf: "candidate_of h (Leaf b) c \<Longrightarrow> branch_child c = None"
  by (cases c) auto

lemma leaf_ids_Nil: "\<forall>c \<in> set cs. leaf_id c = None \<Longrightarrow> leaf_ids cs = []"
  by (induction cs rule: leaf_ids.induct) auto

lemma branch_children_Nil: "\<forall>c \<in> set cs. branch_child c = None \<Longrightarrow> branch_children cs = {}"
  by (auto simp: branch_children_def)

lemma candidates_yield:
  assumes "deserialize_block d bs h = Ok v" and "universe h = Some bs"
    and cs: "block_candidates d se h t (into_entries v) dep = Ok cs"
  shows "yields (decoded d universe) h cs"
proof -
  have g: "decoded d universe h = Some (vb_block v)" using assms(1,2) by (simp add: decoded_def)
  show ?thesis
  proof (cases "vb_block v")
    case (Branch b)
    note c = branch_candidates_Ok [OF cs Branch]
    then have "leaf_ids cs = []" using leaf_ids_Nil candidate_of_Branch by metis
    moreover have "block_children (Branch b) \<subseteq> branch_children cs"
    proof -
      have "branch_child ` set cs = Some ` be_child ` set (bb_entries b)"
        using arg_cong [OF conjunct1 [OF c], of set] by (simp add: image_image)
      then show ?thesis by (auto simp: branch_children_def)
    qed
    ultimately show ?thesis using c g Branch by (simp add: yields_def is_leaf_at_def)
  next
    case (Leaf b)
    note c = leaf_candidates_Ok [OF cs Leaf]
    from decoded_block [OF g] Leaf obtain e where "lb_entries b = [e]" by auto
    with c obtain k l e' s where "cs = [LeafCandidate k l e' s]" "k = h"
      by (cases cs; cases "hd cs") auto
    then show ?thesis using c g Leaf by (auto simp: yields_def is_leaf_at_def)
  qed
qed

lemma graph_inv_start:
  assumes "yields g root_id cs"
  shows "graph_inv g root_id cs {}"
  using assms by (auto simp: graph_inv_def yields_def reachable.at_root)

lemma yields_leaf_ids:
  "list_all2 (yields g) cur css \<Longrightarrow> leaf_ids (concat css) = filter (is_leaf_at g) cur"
  by (induction rule: list_all2_induct) (auto simp: yields_def)

lemma yields_member:
  assumes "list_all2 (yields g) cur css" and "h \<in> set cur"
  shows "\<exists>cs \<in> set css. yields g h cs"
  using assms by (induction rule: list_all2_induct) auto

lemma yields_source:
  assumes "list_all2 (yields g) cur css" and "c \<in> set (concat css)"
  shows "\<exists>h \<in> set cur. \<exists>b. g h = Some b \<and> candidate_of h b c"
  using assms by (induction rule: list_all2_induct) (auto simp: yields_def)

lemma branch_children_concat: "cs \<in> set css \<Longrightarrow> branch_children cs \<subseteq> branch_children (concat css)"
  by (auto simp: branch_children_def)

lemma graph_inv_child_reachable:
  assumes "graph_inv g root_id fr ex" and "c \<in> branch_children fr"
  shows "reachable g root_id c \<and> \<not> is_leaf_at g root_id"
proof -
  from assms(2) obtain cand where cand: "cand \<in> set fr" "branch_child cand = Some c"
    by (auto simp: branch_children_def)
  with assms(1) obtain h b where h: "h \<in> insert root_id ex" "g h = Some b" "candidate_of h b cand"
    unfolding graph_inv_def by blast
  then obtain b' where b: "b = Branch b'" and "c \<in> block_children b"
    using cand by (cases b; cases cand) auto
  moreover have "reachable g root_id h" using h(1) assms(1) unfolding graph_inv_def by blast
  moreover have "\<not> is_leaf_at g root_id"
    using assms(1) h b by (auto simp: graph_inv_def is_leaf_at_def)
  ultimately show ?thesis using h(2) reachable.child by metis
qed

lemma graph_inv_round:
  assumes inv: "graph_inv g root_id fr ex" and cur: "distinct cur" "set cur \<subseteq> branch_children fr - ex"
    and ys: "list_all2 (yields g) cur css"
  shows "graph_inv g root_id (retain_not_in cur fr @ concat css) (ex \<union> set cur)"
proof -
  let ?fr = "retain_not_in cur fr @ concat css"
  have root_branch: "\<not> is_leaf_at g root_id" if "cur \<noteq> []"
    using graph_inv_child_reachable [OF inv] cur(2) that by (cases cur) auto
  have old: "\<exists>b. g h = Some b \<and> block_children b \<subseteq> (ex \<union> set cur) \<union> branch_children ?fr"
    if "h \<in> insert root_id ex" for h
    using inv that unfolding graph_inv_def by fastforce
  have new: "\<exists>b. g h = Some b \<and> block_children b \<subseteq> (ex \<union> set cur) \<union> branch_children ?fr"
    if "h \<in> set cur" for h
    using yields_member [OF ys that] branch_children_concat by (fastforce simp: yields_def)
  have reach: "reachable g root_id h" if "h \<in> insert root_id (ex \<union> set cur)" for h
    using that inv graph_inv_child_reachable [OF inv] cur(2) unfolding graph_inv_def by blast
  have src: "\<exists>h \<in> insert root_id (ex \<union> set cur). \<exists>b. g h = Some b \<and> candidate_of h b c"
    if "c \<in> set ?fr" for c
  proof (cases "c \<in> set fr")
    case True
    with inv show ?thesis unfolding graph_inv_def by blast
  next
    case False
    with that have "c \<in> set (concat css)" by (auto dest: subsetD [OF set_retain])
    from yields_source [OF ys this] show ?thesis by blast
  qed
  have ids: "leaf_ids ?fr = leaf_ids fr @ filter (is_leaf_at g) cur" by (simp add: yields_leaf_ids [OF ys])
  have set_ids: "set (leaf_ids fr) = {h \<in> insert root_id ex. is_leaf_at g h}"
    and dist: "distinct (leaf_ids fr)" and leaf_root: "is_leaf_at g root_id \<longrightarrow> ex = {}"
    using inv by (simp_all add: graph_inv_def)
  have "distinct (leaf_ids ?fr)"
    unfolding ids using dist cur root_branch by (cases "cur = []") (auto simp: set_ids)
  moreover have "set (leaf_ids ?fr) = {h \<in> insert root_id (ex \<union> set cur). is_leaf_at g h}"
    unfolding ids by (auto simp: set_ids)
  moreover have "is_leaf_at g root_id \<longrightarrow> ex \<union> set cur = {}" using leaf_root root_branch by auto
  moreover have "\<forall>h \<in> insert root_id (ex \<union> set cur). reachable g root_id h \<and>
      (\<exists>b. g h = Some b \<and> block_children b \<subseteq> (ex \<union> set cur) \<union> branch_children ?fr)"
    using old new reach by (metis Un_iff insert_iff)
  moreover have "\<forall>c \<in> set ?fr. \<exists>h \<in> insert root_id (ex \<union> set cur). \<exists>b. g h = Some b \<and> candidate_of h b c"
    using src by blast
  ultimately show ?thesis unfolding graph_inv_def by (intro conjI)
qed

section \<open>What the ends of the loop mean\<close>

lemma terminal_iff:
  assumes "graph_inv (decoded d universe) root_id fr ex" and "c \<in> set fr"
  shows "is_terminal c \<longleftrightarrow> branch_child c = None"
proof -
  from assms obtain h b where "decoded d universe h = Some b" and "candidate_of h b c"
    unfolding graph_inv_def by blast
  with decoded_block [OF this(1)] show ?thesis
    by (cases b; cases c) (auto simp: is_terminal_def)
qed

text \<open>
  A sound result: \<open>n\<close> leaves at positions \<open>0\<close> to \<open>n - 1\<close>, from different blocks, each the entry of a
  leaf block that is reachable from the root.
\<close>

definition sound_result ::
    "(block_hash \<rightharpoonup> block) \<Rightarrow> block_hash \<Rightarrow> nat \<Rightarrow> search_result \<Rightarrow> bool" where
  "sound_result g root_id n res =
     (map lsr_position (leaves res) = [0..<n] \<and> distinct (map leaf_block_id (leaves res)) \<and>
      (\<forall>l \<in> set (leaves res). reachable g root_id (leaf_block_id l) \<and>
         (\<exists>b. g (leaf_block_id l) = Some (Leaf b) \<and> lb_entries b = [lsr_entry l])))"

lemma traverse_leaf_result:
  assumes "\<forall>c \<in> set cs. branch_child c = None"
  shows "\<exists>ls. traverse leaf_result (zip [k..<k + length cs] cs) = Ok ls \<and>
    map lsr_position ls = [k..<k + length cs] \<and> map leaf_block_id ls = leaf_ids cs \<and>
    (\<forall>l \<in> set ls. \<exists>level s. LeafCandidate (leaf_block_id l) level (lsr_entry l) s \<in> set cs)"
  using assms
proof (induction cs arbitrary: k)
  case (Cons c cs)
  then obtain h level e s where c: "c = LeafCandidate h level e s" by (cases c) auto
  from Cons.IH [of "Suc k"] Cons.prems obtain ls where
    ls: "traverse leaf_result (zip [Suc k..<Suc k + length cs] cs) = Ok ls"
    "map lsr_position ls = [Suc k..<Suc k + length cs]" "map leaf_block_id ls = leaf_ids cs"
    "\<forall>l \<in> set ls. \<exists>level s. LeafCandidate (leaf_block_id l) level (lsr_entry l) s \<in> set cs"
    by auto
  have "[k..<k + length (c # cs)] = k # [Suc k..<Suc k + length cs]" by (simp add: upt_conv_Cons del: upt_Suc)
  with ls show ?case by (auto simp: c simp del: upt_Suc) blast
qed simp

lemma leaf_ids_take: "\<exists>ys. leaf_ids cs = leaf_ids (take n cs) @ ys"
  by (metis append_take_drop_id leaf_ids_append)

lemma take_leaves_sound:
  assumes inv: "graph_inv (decoded d universe) root_id fr ex" and d: "search_done n fr"
  shows "\<exists>res. take_leaves n fr = Ok res \<and> sound_result (decoded d universe) root_id n res"
proof -
  let ?g = "decoded d universe" and ?cs = "take n fr"
  have len: "length ?cs = n" using d by (simp add: search_done_def)
  have leafs: "\<forall>c \<in> set ?cs. branch_child c = None"
    using d terminal_iff [OF inv] by (auto simp: search_done_def list_all_iff dest: in_set_takeD)
  from traverse_leaf_result [OF this, of 0] obtain ls where
    ls: "traverse leaf_result (zip [0..<length ?cs] ?cs) = Ok ls" "map lsr_position ls = [0..<length ?cs]"
    "map leaf_block_id ls = leaf_ids ?cs"
    "\<forall>l \<in> set ls. \<exists>level s. LeafCandidate (leaf_block_id l) level (lsr_entry l) s \<in> set ?cs"
    by auto
  have "distinct (leaf_ids ?cs)"
    using inv leaf_ids_take [of fr n] by (auto simp: graph_inv_def)
  moreover have "reachable ?g root_id (leaf_block_id l) \<and>
      (\<exists>b. ?g (leaf_block_id l) = Some (Leaf b) \<and> lb_entries b = [lsr_entry l])" if l: "l \<in> set ls" for l
  proof -
    obtain level s where "LeafCandidate (leaf_block_id l) level (lsr_entry l) s \<in> set fr"
      using ls(4) l by (meson in_set_takeD)
    with inv obtain h b where h: "h \<in> insert root_id ex" "?g h = Some b"
      "candidate_of h b (LeafCandidate (leaf_block_id l) level (lsr_entry l) s)"
      unfolding graph_inv_def by blast
    then obtain b' where "b = Leaf b'" "h = leaf_block_id l" "lsr_entry l \<in> set (lb_entries b')"
      by (cases b) auto
    moreover have "reachable ?g root_id h" using inv h(1) unfolding graph_inv_def by blast
    ultimately show ?thesis using h(2) decoded_block [OF h(2)] by auto
  qed
  ultimately show ?thesis
    using ls len by (intro exI [of _ "\<lparr>leaves = ls\<rparr>"]) (simp add: take_leaves_def sound_result_def)
qed

lemma exhausted_complete:
  assumes inv: "graph_inv (decoded d universe) root_id fr ex" and none: "branch_children fr = {}"
    and "\<not> search_done n fr"
  shows "length (filter is_terminal fr) = card (reachable_leaves (decoded d universe) root_id) \<and>
    card (reachable_leaves (decoded d universe) root_id) < n"
proof -
  let ?g = "decoded d universe"
  have no_branch: "\<forall>c \<in> set fr. branch_child c = None"
  proof
    fix c assume "c \<in> set fr"
    with none show "branch_child c = None" by (cases "branch_child c") (auto simp: branch_children_def image_iff dest: sym)
  qed
  then have all: "\<forall>c \<in> set fr. is_terminal c" using terminal_iff [OF inv] by blast
  have "length (leaf_ids fr) = length fr" using no_branch by (induction fr rule: leaf_ids.induct) auto
  moreover have "h \<in> insert root_id ex" if "reachable ?g root_id h" for h
    using that
  proof induction
    case (child h b c)
    then show ?case using inv none unfolding graph_inv_def by fastforce
  qed simp
  then have "reachable_leaves ?g root_id = set (leaf_ids fr)"
    using inv by (auto simp: reachable_leaves_def graph_inv_def is_leaf_at_def)
  moreover have "length fr < n"
    using assms(3) all by (auto simp: search_done_def list_all_iff not_le dest: in_set_takeD)
  moreover have "distinct (leaf_ids fr)" using inv by (simp add: graph_inv_def)
  moreover have "filter is_terminal fr = fr" using all by simp
  ultimately show ?thesis by (simp add: distinct_card)
qed

section \<open>Searches over a store that honours its contract\<close>

context block_store
begin

definition search_inv ::
    "deps \<Rightarrow> block_hash \<Rightarrow> 's \<Rightarrow> ('score, 's) search_state \<Rightarrow> bool" where
  "search_inv d root_id s0 st =
     (inv (store_state st) \<and> resident (store_state st) \<subseteq>\<^sub>m resident s0 \<and>
      set (expanded st) \<subseteq> dom (resident s0) \<and>
      graph_inv (decoded d universe) root_id (frontier st) (set (expanded st)))"

lemma expands_yields: "expands d se t s item cs \<Longrightarrow> yields (decoded d universe) (fst item) cs"
  unfolding expands_def by (elim exE conjE) (rule candidates_yield)

lemma expands_dom: "expands d se t s item cs \<Longrightarrow> fst item \<in> dom (resident s)"
  by (auto simp: expands_def)

lemma round_spec:
  assumes st: "search_inv d root_id s0 st" and nd: "\<not> search_done n (sorted_frontier st)"
    and sel: "select_round se (sorted_frontier st) (expanded st) w = Ok cur" and "cur \<noteq> []"
    and pc: "process_chunks d se ops t (round_of w cur (sorted_frontier st)) (round_start st)
      (store_state st) = (r, rd, s')"
  shows "inv s' \<and> resident s' \<subseteq>\<^sub>m resident s0 \<and>
    (r = Ok () \<longrightarrow> set (expanded_children rd) = set (expanded st) \<union> set cur \<and>
      set cur \<subseteq> dom (resident s0) - set (expanded st) \<and>
      graph_inv (decoded d universe) root_id
        (retain_not_in cur (sorted_frontier st) @ next_candidates rd) (set (expanded_children rd)))"
proof -
  let ?g = "decoded d universe" and ?fr = "sorted_frontier st"
  let ?items = "map (\<lambda>c. (c, child_depth c ?fr)) cur"
  have inv: "inv (store_state st)" and le: "resident (store_state st) \<subseteq>\<^sub>m resident s0"
    using st by (simp_all add: search_inv_def)
  note spec = process_chunks_spec [OF inv pc, unfolded concat_round_of]
  have "resident s' \<subseteq>\<^sub>m resident s0" using spec le map_le_trans by blast
  moreover have "set (expanded_children rd) = set (expanded st) \<union> set cur \<and>
      set cur \<subseteq> dom (resident s0) - set (expanded st) \<and>
      graph_inv ?g root_id (retain_not_in cur ?fr @ next_candidates rd) (set (expanded_children rd))"
    if ok: "r = Ok ()"
  proof -
    obtain css where css: "list_all2 (expands d se t (store_state st)) ?items css"
      and next_cs: "next_candidates rd = concat css"
      and ex: "set (expanded_children rd) = set (expanded st) \<union> set cur"
      using spec ok by (auto simp: round_start_def image_image)
    have ys: "list_all2 (yields ?g) cur css"
      using css unfolding list_all2_map1 by (rule list_all2_mono) (auto dest: expands_yields)
    have cur: "distinct cur" "set cur \<subseteq> branch_children ?fr - set (expanded st)"
      using select_round_Ok [OF sel] by blast+
    have "set cur \<subseteq> dom (resident (store_state st))"
      using css unfolding list_all2_map1
      by (fastforce simp: list_all2_conv_all_nth in_set_conv_nth dest: expands_dom)
    with le cur(2) have "set cur \<subseteq> dom (resident s0) - set (expanded st)"
      using map_le_implies_dom_le by blast
    moreover have "graph_inv ?g root_id ?fr (set (expanded st))"
      unfolding sorted_frontier_def using st by (intro graph_inv_sorted) (simp add: search_inv_def)
    ultimately show ?thesis
      using graph_inv_round [OF _ cur ys, of root_id] ex next_cs by simp
  qed
  ultimately show ?thesis using spec by blast
qed

lemma step_continues:
  assumes st: "search_inv d root_id s0 st" and step: "search_step d se ops t w n st = (None, st')"
  shows "search_inv d root_id s0 st' \<and> set (expanded st) \<subset> set (expanded st')"
proof -
  have nd: "\<not> search_done n (sorted_frontier st)" using step by (auto simp: search_step_done)
  obtain cur where sel: "select_round se (sorted_frontier st) (expanded st) w = Ok cur" and "cur \<noteq> []"
    using step search_step_selection [OF nd refl]
    by (cases "select_round se (sorted_frontier st) (expanded st) w") fastforce+
  obtain r rd s' where pc: "process_chunks d se ops t (round_of w cur (sorted_frontier st)) (round_start st)
      (store_state st) = (r, rd, s')"
    by (cases "process_chunks d se ops t (round_of w cur (sorted_frontier st)) (round_start st) (store_state st)")
  have r: "r = Ok ()" and st': "st' = st\<lparr>frontier := retain_not_in cur (sorted_frontier st) @ next_candidates rd,
      expanded := expanded_children rd, telemetry := round_telemetry rd, store_state := s'\<rparr>"
    using step search_step_round [OF nd sel \<open>cur \<noteq> []\<close> pc] by (cases r; cases st; auto simp: Let_def)+
  note spec = round_spec [OF st nd sel \<open>cur \<noteq> []\<close> pc]
  then have "search_inv d root_id s0 st'" using st r by (auto simp: search_inv_def st')
  moreover have "hd cur \<in> set (expanded st') - set (expanded st)" "set (expanded st) \<subseteq> set (expanded st')"
    using spec r hd_in_set [OF \<open>cur \<noteq> []\<close>] by (auto simp: st')
  ultimately show ?thesis by blast
qed

lemma loop_returns:
  assumes "search_inv d root_id s0 st" and fin: "finite (dom (resident s0))"
  shows "\<exists>r st'. search_loop d se ops t w n st = Some (r, st')"
  using assms(1)
proof (induction "card (dom (resident s0) - set (expanded st))" arbitrary: st rule: less_induct)
  case less
  obtain r st1 where step: "search_step d se ops t w n st = (r, st1)" by (cases "search_step d se ops t w n st")
  show ?case
  proof (cases r)
    case None
    then have inv1: "search_inv d root_id s0 st1" and "set (expanded st) \<subset> set (expanded st1)"
      using step_continues [OF less.prems, of se t w n st1] step by auto
    moreover have "set (expanded st1) \<subseteq> dom (resident s0)" using inv1 by (simp add: search_inv_def)
    ultimately have "card (dom (resident s0) - set (expanded st1)) < card (dom (resident s0) - set (expanded st))"
      using fin by (intro psubset_card_mono) auto
    from less.hyps [OF this inv1] step None show ?thesis by (simp add: search_loop_step(2))
  next
    case (Some a)
    with step search_loop_step(1) [of d se ops t w n st] show ?thesis by auto
  qed
qed

end

text \<open>Errors of single blocks are neither exhaustion nor selection failures.\<close>

fun block_level_error :: "search_error \<Rightarrow> bool" where
  "block_level_error (Exhausted _ _) = False"
| "block_level_error (FrontierSelectionFailure _) = False"
| "block_level_error (InvalidTraversalWidth _) = False"
| "block_level_error _ = True"

lemma block_candidates_Err:
  assumes "block_candidates d se h t es dep = Err e"
  shows "block_level_error e"
proof -
  have "block_level_error e" if "score_branch_entry d se h t md ds spec dep x = Err e" for md ds spec x
    using that by (auto simp: score_branch_entry_def outcome_simps Let_def split: option.splits)
  moreover have "block_level_error e" if "score_leaf_entry se h t md x = Err e" for md x
    using that by (auto simp: score_leaf_entry_def outcome_simps)
  ultimately show ?thesis
    using assms by (cases es) (auto simp: block_candidates_def outcome_simps Let_def dest!: traverse_eq_Err)
qed

lemma load_validated_Err:
  assumes "load_validated_block d ops s h is_root = (Err e, s')"
  shows "block_level_error e"
proof -
  have "block_level_error (classify_store_error h is_root x)" for x
    by (cases x) auto
  with assms show ?thesis
    by (auto simp: load_validated_block_def split: prod.splits outcome.splits option.splits if_splits)
qed

lemma load_chunk_Err:
  "load_chunk d ops items s = (q, s') \<Longrightarrow> (\<forall>e. q \<noteq> Err e) \<and>
     (\<forall>ls. q = Ok ls \<longrightarrow> (\<forall>(c, dep, r) \<in> set ls. \<forall>e. r = Err e \<longrightarrow> block_level_error e))"
proof (induction items arbitrary: s q s')
  case (Cons item items)
  obtain c dep where item: "item = (c, dep)" by (cases item)
  obtain r s1 where l: "load_validated_block d ops s c False = (r, s1)"
    by (cases "load_validated_block d ops s c False")
  obtain q1 s2 where rest: "load_chunk d ops items s1 = (q1, s2)" by (cases "load_chunk d ops items s1")
  show ?case using Cons.prems Cons.IH [OF rest] l rest load_validated_Err [of d ops s c False]
    by (fastforce simp: item outcome_simps split: if_splits)
qed auto

lemma process_loaded_Err:
  assumes "process_loaded d se t ls st = (Err e, st')"
    and "\<forall>(c, dep, r) \<in> set ls. \<forall>e. r = Err e \<longrightarrow> block_level_error e"
  shows "block_level_error e"
  using assms
proof (induction ls arbitrary: st)
  case (Cons l ls)
  then show ?case
    by (cases l) (auto simp: build_block_candidates_def Let_def dest: block_candidates_Err split: outcome.splits)
qed simp

lemma process_chunks_Err:
  "process_chunks d se ops t chs st s = (Err e, st', s') \<Longrightarrow> block_level_error e"
proof (induction chs arbitrary: st s)
  case (Cons ch chs)
  obtain q s1 where l: "load_chunk d ops ch s = (q, s1)" by (cases "load_chunk d ops ch s")
  obtain ls where ls: "q = Ok ls" "\<forall>(c, dep, r) \<in> set ls. \<forall>e. r = Err e \<longrightarrow> block_level_error e"
    using load_chunk_Err [OF l] Cons.prems l by (cases q) auto
  obtain p st1 where p: "process_loaded d se t ls st = (p, st1)" by (cases "process_loaded d se t ls st")
  show ?case
  proof (cases p)
    case (Err e')
    then show ?thesis using Cons.prems l ls p process_loaded_Err [of d se t ls st e' st1] by simp
  qed (use Cons l ls p in auto)
qed simp

lemma select_round_Err: "select_round se fr ex w = Err e \<Longrightarrow> \<exists>m. e = FrontierSelectionFailure m"
proof -
  have "check_selected allowed seen sel = Err e \<Longrightarrow> \<exists>m. e = FrontierSelectionFailure m" for allowed seen sel
    by (induction sel arbitrary: seen) (auto split: if_splits)
  then show "select_round se fr ex w = Err e \<Longrightarrow> ?thesis"
    by (auto simp: select_round_def Let_def outcome_simps validate_selected_children_def split: if_splits)
qed


context block_store
begin

lemma step_ends:
  assumes st: "search_inv d root_id s0 st" and step: "search_step d se ops t w n st = (Some r, st')"
    and w: "0 < w"
  shows "inv (store_state st') \<and> resident (store_state st') \<subseteq>\<^sub>m resident s0 \<and>
    (\<forall>res. r = Ok res \<longrightarrow> sound_result (decoded d universe) root_id n res) \<and>
    (\<forall>m k. r = Err (Exhausted m k) \<longrightarrow> m = n \<and> k = card (reachable_leaves (decoded d universe) root_id) \<and> k < n)"
proof -
  let ?fr = "sorted_frontier st" and ?g = "decoded d universe"
  have inv: "inv (store_state st)" and le: "resident (store_state st) \<subseteq>\<^sub>m resident s0"
    using st by (simp_all add: search_inv_def)
  have graph: "graph_inv ?g root_id ?fr (set (expanded st))"
    unfolding sorted_frontier_def using st by (intro graph_inv_sorted) (simp add: search_inv_def)
  show ?thesis
  proof (cases "search_done n ?fr")
    case True
    with step take_leaves_sound [OF graph True] inv le show ?thesis by (auto simp: search_step_done)
  next
    case False
    note sel = search_step_selection [OF False refl, where se = se and w = w and d = d and ops = ops and t = t]
    show ?thesis
    proof (cases "select_round se ?fr (expanded st) w")
      case (Ok cur)
      show ?thesis
      proof (cases "cur = []")
        case True
        have "branch_children ?fr = {}"
          using select_round_Ok [OF Ok] w True by (auto simp: sorted_frontier_def)
        from exhausted_complete [OF graph this False] sel(3) Ok True step inv le show ?thesis by auto
      next
        case cur: False
        obtain q rd s' where pc: "process_chunks d se ops t (round_of w cur ?fr) (round_start st)
            (store_state st) = (q, rd, s')"
          by (cases "process_chunks d se ops t (round_of w cur ?fr) (round_start st) (store_state st)")
        have "q \<noteq> Ok ()" and "store_state st' = s'" and "r = (case q of Err e \<Rightarrow> Err e | _ \<Rightarrow> Panic)"
          using step search_step_round [OF False Ok cur pc] by (cases q; auto simp: Let_def)+
        with round_spec [OF st False Ok cur pc] pc process_chunks_Err [of d se ops t "round_of w cur ?fr"]
        show ?thesis by (cases q) fastforce+
      qed
    qed (use sel step inv le select_round_Err [of se ?fr "expanded st" w] in fastforce)+
  qed
qed

lemma loop_spec:
  assumes "search_loop d se ops t w n st = Some (r, st')" and "search_inv d root_id s0 st" and "0 < w"
  shows "inv (store_state st') \<and>
    (\<forall>res. r = Ok res \<longrightarrow> sound_result (decoded d universe) root_id n res) \<and>
    (\<forall>m k. r = Err (Exhausted m k) \<longrightarrow> m = n \<and> k = card (reachable_leaves (decoded d universe) root_id) \<and> k < n)"
  using assms
proof (induction rule: search_loop_induct)
  case (ends st r st')
  with step_ends [of d root_id s0 st se t w n r st'] show ?case by blast
next
  case (continues st st1 r st')
  with step_continues [of d root_id s0 st se t w n st1] show ?case by blast
qed

lemma search_spec:
  assumes inv: "inv s" and fin: "finite (dom (resident s))"
  shows "\<exists>r s'. search d se ops root_id t w n s = Some (r, s') \<and> inv s' \<and>
    (\<forall>res. r = Ok res \<longrightarrow> sound_result (decoded d universe) root_id n res) \<and>
    (\<forall>m k. r = Err (Exhausted m k) \<longrightarrow> m = n \<and> k = card (reachable_leaves (decoded d universe) root_id) \<and> k < n)"
proof (cases "w = 0")
  case True
  then show ?thesis using inv by (simp add: search_def search_internal_def conclude_def Let_def)
next
  case False
  let ?tel = "new_collector w False"
  obtain l s1 where l: "load_validated_block d ops s root_id True = (l, s1)"
    by (cases "load_validated_block d ops s root_id True")
  note ls = load_spec [OF inv l]
  show ?thesis
  proof (cases l)
    case (Ok v)
    then obtain bs where bs: "resident s root_id = Some bs" "universe root_id = Some bs"
      "deserialize_block d bs root_id = Ok v" using ls by blast
    show ?thesis
    proof (cases "block_candidates d se root_id t (into_entries v) 0")
      case cs: (Ok cs)
      let ?st = "\<lparr>frontier = cs, expanded = [], telemetry = record_visited_block root_id 0 ?tel, store_state = s1\<rparr>"
      have "graph_inv (decoded d universe) root_id cs {}"
        by (intro graph_inv_start) (rule candidates_yield [OF bs(3) _ cs], rule bs(2))
      then have sinv: "search_inv d root_id s ?st" using ls by (simp add: search_inv_def)
      from loop_returns [OF sinv fin, of se t w n] obtain r st' where
        loop: "search_loop d se ops t w n ?st = Some (r, st')" by blast
      have "search d se ops root_id t w n s = Some (r, store_state st')"
        using False l Ok cs loop conclude_result [of TelemetryDisabled r "telemetry st'"]
        by (simp add: search_def search_internal_def load_block_candidates_def build_block_candidates_def
            case_prod_unfold Let_def)
      with loop_spec [OF loop sinv] False show ?thesis by auto
    qed (use False l Ok ls block_candidates_Err [of d se root_id t "into_entries v" 0] in \<open>fastforce simp:
        search_def search_internal_def load_block_candidates_def build_block_candidates_def conclude_def Let_def\<close>)+
  qed (use False l ls load_validated_Err [of d ops s root_id True] in \<open>fastforce simp:
      search_def search_internal_def load_block_candidates_def conclude_def Let_def\<close>)+
qed

end

section \<open>Searches do not panic\<close>

definition calm :: "('target, 'score) searcher \<Rightarrow> 'target \<Rightarrow> bool" where
  "calm se t =
     ((\<forall>spec. compatibility se t spec \<noteq> Panic) \<and> (\<forall>bs spec. scorer se t bs spec \<noteq> Panic) \<and>
      (\<forall>fr w. frontier_selector se fr w \<noteq> Panic))"

lemma normal_reconstructs:
  assumes "normal d (Branch b)" and "e \<in> set (bb_entries b)"
    and ds: "parse_branch_ebcp_descriptor (bb_embedding_spec b) (bb_ext b) = Ok (Some ds)"
  shows "reconstruct_logical_branch_embedding_f32 d (be_embedding e) (bb_embedding_spec b) (Some ds) \<noteq> Panic"
proof -
  have enc: "is_ebcp_encoding (encoding (bb_embedding_spec b))"
    using parse_ebcp_descriptor_wf [OF ds] by (simp add: ebcp_descriptor_wf_def Let_def)
  have "validate_branch_ebcp_payload_lengths (bb_entries b) (bb_embedding_spec b) ds = Ok ()"
    using assms(1) enc ds by (simp add: normal_Branch validate_ebcp_branch_def)
  from reconstruct_validated [OF ds this assms(2), of d] show ?thesis by auto
qed

lemma block_candidates_no_panic:
  assumes "normal d (vb_block v)" and "calm se t"
  shows "block_candidates d se h t (into_entries v) dep \<noteq> Panic"
proof (cases "vb_block v")
  case (Branch b)
  have "score_branch_entry d se h t \<lparr>md_version = bb_version b, md_level = bb_level b,
      md_embedding_spec = bb_embedding_spec b, md_ext = bb_ext b\<rparr> ds spec dep e \<noteq> Panic"
    if "parse_branch_ebcp_descriptor (bb_embedding_spec b) (bb_ext b) = Ok ds" "e \<in> set (bb_entries b)" for ds spec e
    using that assms normal_reconstructs [of d b e] Branch
    by (auto simp: score_branch_entry_def outcome_simps Let_def calm_def split: option.splits)
  with assms(2) Branch show ?thesis
    by (auto simp: block_candidates_def outcome_simps Let_def calm_def dest!: traverse_eq_Panic)
next
  case (Leaf b)
  with assms(2) show ?thesis
    by (auto simp: block_candidates_def outcome_simps calm_def score_leaf_entry_def dest!: traverse_eq_Panic)
qed

lemma select_round_no_panic: "calm se t \<Longrightarrow> select_round se fr ex w \<noteq> Panic"
  by (auto simp: calm_def select_round_def Let_def outcome_simps validate_selected_children_def
      check_selected_no_panic)

lemma process_loaded_no_panic:
  assumes "calm se t" and "\<forall>(c, dep, r) \<in> set ls. r \<noteq> Panic \<and> (\<forall>v. r = Ok v \<longrightarrow> normal d (vb_block v))"
  shows "fst (process_loaded d se t ls st) \<noteq> Panic"
  using assms(2)
proof (induction ls arbitrary: st)
  case (Cons l ls)
  obtain c dep r where l: "l = (c, dep, r)" by (cases l)
  show ?case
  proof (cases r)
    case (Ok v)
    then have "block_candidates d se c t (into_entries v) dep \<noteq> Panic"
      using Cons.prems l by (intro block_candidates_no_panic assms(1)) auto
    with Cons l Ok show ?thesis
      by (auto simp: build_block_candidates_def Let_def split: outcome.splits)
  qed (use Cons.prems l in auto)
qed simp

context block_store
begin

lemma load_no_panic:
  assumes "codec d" and "\<forall>bs. from_reader d bs \<noteq> Panic" and "inv s"
    and "load_validated_block d ops s h is_root = (r, s')"
  shows "r \<noteq> Panic \<and> (\<forall>v. r = Ok v \<longrightarrow> normal d (vb_block v))"
proof -
  obtain g s1 where get: "get_block_bytes ops s h = (g, s1)" by (cases "get_block_bytes ops s h")
  have "g \<noteq> Panic" using get_no_panic [OF assms(3) get] .
  moreover have "deserialize_block d bs h \<noteq> Panic" for bs
    using codec.deserialize_block_no_panic [OF assms(1)] assms(2) by blast
  ultimately have "r \<noteq> Panic"
    using assms(4) get
    by (cases g) (auto simp: load_validated_block_def store_get_def outcome_simps
        split: prod.splits option.splits outcome.splits)
  moreover have "normal d (vb_block v)" if "r = Ok v" for v
    using load_spec [OF assms(3,4)] that deserialize_block_Ok by blast
  ultimately show ?thesis by blast
qed

lemma load_chunk_no_panic:
  assumes "codec d" and "\<forall>bs. from_reader d bs \<noteq> Panic" and "inv s"
    and "load_chunk d ops items s = (q, s')"
  shows "\<exists>ls. q = Ok ls \<and> (\<forall>(c, dep, r) \<in> set ls. r \<noteq> Panic \<and> (\<forall>v. r = Ok v \<longrightarrow> normal d (vb_block v)))"
  using assms(3,4)
proof (induction items arbitrary: s q s')
  case (Cons item items)
  obtain c dep where item: "item = (c, dep)" by (cases item)
  obtain r s1 where l: "load_validated_block d ops s c False = (r, s1)"
    by (cases "load_validated_block d ops s c False")
  obtain q1 s2 where rest: "load_chunk d ops items s1 = (q1, s2)" by (cases "load_chunk d ops items s1")
  have "inv s1" using load_spec [OF Cons.prems(1) l] by blast
  from Cons.IH [OF this rest] load_no_panic [OF assms(1,2) Cons.prems(1) l] Cons.prems(2) l rest
  show ?case by (auto simp: item)
qed auto

lemma process_chunks_no_panic:
  assumes "codec d" and "\<forall>bs. from_reader d bs \<noteq> Panic" and "calm se t" and "inv s"
    and "process_chunks d se ops t chs st s = (r, st', s')"
  shows "r \<noteq> Panic"
  using assms(4,5)
proof (induction chs arbitrary: st s)
  case (Cons ch chs)
  obtain q s1 where l: "load_chunk d ops ch s = (q, s1)" by (cases "load_chunk d ops ch s")
  have "inv s1" using load_chunk_spec [OF Cons.prems(1) l] by blast
  from load_chunk_no_panic [OF assms(1,2) Cons.prems(1) l] obtain ls where q: "q = Ok ls"
    and ls: "\<forall>(c, dep, r) \<in> set ls. r \<noteq> Panic \<and> (\<forall>v. r = Ok v \<longrightarrow> normal d (vb_block v))" by blast
  obtain p st1 where p: "process_loaded d se t ls st = (p, st1)" by (cases "process_loaded d se t ls st")
  have "p \<noteq> Panic" using process_loaded_no_panic [OF assms(3) ls, of st] p by simp
  with Cons.IH [OF \<open>inv s1\<close>, of st1] Cons.prems(2) l q p show ?case by (cases p) auto
qed auto

lemma step_no_panic:
  assumes env: "codec d" "\<forall>bs. from_reader d bs \<noteq> Panic" "calm se t"
    and st: "search_inv d root_id s0 st" and step: "search_step d se ops t w n st = (Some r, st')"
  shows "r \<noteq> Panic"
proof -
  let ?fr = "sorted_frontier st"
  have graph: "graph_inv (decoded d universe) root_id ?fr (set (expanded st))"
    unfolding sorted_frontier_def using st by (intro graph_inv_sorted) (simp add: search_inv_def)
  show ?thesis
  proof (cases "search_done n ?fr")
    case True
    with step take_leaves_sound [OF graph True] show ?thesis by (auto simp: search_step_done)
  next
    case False
    note sel = search_step_selection [OF False refl, where se = se and w = w and d = d and ops = ops and t = t]
    show ?thesis
    proof (cases "select_round se ?fr (expanded st) w")
      case (Ok cur)
      obtain q rd s' where pc: "process_chunks d se ops t (round_of w cur ?fr) (round_start st)
          (store_state st) = (q, rd, s')"
        by (cases "process_chunks d se ops t (round_of w cur ?fr) (round_start st) (store_state st)")
      have "q \<noteq> Panic" using process_chunks_no_panic [OF env _ pc] st by (simp add: search_inv_def)
      then show ?thesis
        using step sel(3) Ok search_step_round [OF False Ok _ pc]
        by (cases "cur = []"; cases q) (auto simp: Let_def)
    qed (use step sel select_round_no_panic [OF env(3)] in auto)
  qed
qed

lemma loop_no_panic:
  assumes "search_loop d se ops t w n st = Some (r, st')" and "search_inv d root_id s0 st"
    and "codec d" "\<forall>bs. from_reader d bs \<noteq> Panic" "calm se t"
  shows "r \<noteq> Panic"
  using assms
proof (induction rule: search_loop_induct)
  case (ends st r st')
  show ?case by (rule step_no_panic [OF ends(3,4,5,2,1)])
next
  case (continues st st1 r st')
  with step_continues [of d root_id s0 st se t w n st1] show ?case by blast
qed

lemma search_no_panic:
  assumes env: "codec d" "\<forall>bs. from_reader d bs \<noteq> Panic" "calm se t" and inv: "inv s"
    and "search d se ops root_id t w n s = Some (r, s')"
  shows "r \<noteq> Panic"
proof (cases "w = 0")
  case True
  then show ?thesis using assms(5) by (auto simp: search_def search_internal_def conclude_def Let_def)
next
  case False
  obtain l s1 where l: "load_validated_block d ops s root_id True = (l, s1)"
    by (cases "load_validated_block d ops s root_id True")
  note ls = load_spec [OF inv l] and lp = load_no_panic [OF env(1,2) inv l]
  show ?thesis
  proof (cases l)
    case (Ok v)
    then obtain bs where bs: "universe root_id = Some bs" "deserialize_block d bs root_id = Ok v"
      using ls by blast
    have np: "block_candidates d se root_id t (into_entries v) 0 \<noteq> Panic"
      using lp Ok by (intro block_candidates_no_panic env) blast
    show ?thesis
    proof (cases "block_candidates d se root_id t (into_entries v) 0")
      case cs: (Ok cs)
      let ?st = "\<lparr>frontier = cs, expanded = [],
        telemetry = record_visited_block root_id 0 (new_collector w False), store_state = s1\<rparr>"
      have "graph_inv (decoded d universe) root_id cs {}"
        by (intro graph_inv_start) (rule candidates_yield [OF bs(2) _ cs], rule bs(1))
      then have sinv: "search_inv d root_id s ?st" using ls by (simp add: search_inv_def)
      obtain p where loop: "search_loop d se ops t w n ?st = Some p" and "r = fst p"
        using assms(5) False l Ok cs conclude_result
        by (auto simp: search_def search_internal_def load_block_candidates_def build_block_candidates_def
            case_prod_unfold Let_def)
      with loop_no_panic [of d se t w n ?st "fst p" "snd p"] sinv env show ?thesis by simp
    qed (use assms(5) np False l Ok in \<open>auto simp: search_def search_internal_def
        load_block_candidates_def build_block_candidates_def conclude_def Let_def\<close>)
  qed (use assms(5) lp False l in \<open>auto simp: search_def search_internal_def load_block_candidates_def
      conclude_def Let_def\<close>)
qed

end

end
