(* ===== verification/Search_Correct.thy ===== *)
theory Search_Correct
  imports Search_Reach
begin

text \<open>
  The guarantees of a search, stated for overlays of memory stores and for the searchers of the
  published profiles.
\<close>

section \<open>Searches over an overlay of memory stores\<close>

lemma overlay_finite: "finite (dom (overlay_resident mem_resident ls))"
proof (induction ls)
  case (Cons l ls)
  have "finite (dom (mem_resident (layer_store l)))"
  proof -
    have "dom (mem_resident s) = dom (map_of (entries s))" for s by (auto simp: mem_resident_def)
    then show ?thesis by (simp add: finite_dom_map_of)
  qed
  moreover have "dom (overlay_resident mem_resident (l # ls)) \<subseteq>
      dom (mem_resident (layer_store l)) \<union> dom (overlay_resident mem_resident ls)"
    by (auto split: option.splits)
  ultimately show ?case using Cons finite_subset by blast
qed (simp add: dom_def)

text \<open>
  C3: every search over an overlay of memory stores returns, whatever the policies do,
  and keeps the stores within their invariants.
\<close>

theorem search_returns:
  assumes "overlay_inv (mem_inv_in universe) ls"
  shows "\<exists>r ls'. search d se (overlay_ops mem_ops) root_id t w n ls = Some (r, ls') \<and>
    overlay_inv (mem_inv_in universe) ls'"
  using overlay_mem.search_spec [OF assms overlay_finite, of d se root_id t w n] by blast

lemma overlay_search_spec:
  assumes "overlay_inv (mem_inv_in universe) ls"
    and "search d se (overlay_ops mem_ops) root_id t w n ls = Some (r, ls')"
  shows "(\<forall>res. r = Ok res \<longrightarrow> sound_result (decoded d universe) root_id n res) \<and>
    (\<forall>m k. r = Err (Exhausted m k) \<longrightarrow> m = n \<and> k = card (reachable_leaves (decoded d universe) root_id) \<and> k < n)"
  using overlay_mem.search_spec [OF assms(1) overlay_finite, of d se root_id t w n] assms(2) by auto

text \<open>
  C1: a successful search returns exactly the requested number of leaves, ranked
  from 0, from different blocks, each the entry of a leaf block that a chain of branch entries
  reaches from the root.
\<close>

theorem search_result_sound:
  assumes "overlay_inv (mem_inv_in universe) ls"
    and "search d se (overlay_ops mem_ops) root_id t w n ls = Some (Ok res, ls')"
  shows "map lsr_position (leaves res) = [0..<n] \<and> distinct (map leaf_block_id (leaves res)) \<and>
    (\<forall>l \<in> set (leaves res). reachable (decoded d universe) root_id (leaf_block_id l) \<and>
      (\<exists>b. decoded d universe (leaf_block_id l) = Some (Leaf b) \<and> lb_entries b = [lsr_entry l]))"
  using overlay_search_spec [OF assms] by (simp add: sound_result_def)

text \<open>
  C2: a search that reports exhaustion has seen everything: the count it
  reports is the number of leaf blocks reachable from the root, and it is below the request.
\<close>

theorem search_exhausted_complete:
  assumes "overlay_inv (mem_inv_in universe) ls"
    and "search d se (overlay_ops mem_ops) root_id t w n ls = Some (Err (Exhausted m k), ls')"
  shows "m = n \<and> k = card (reachable_leaves (decoded d universe) root_id) \<and> k < n"
  using overlay_search_spec [OF assms] by simp

section \<open>Ranking\<close>

fun candidate_leaf :: "'score candidate \<Rightarrow> (block_hash \<times> leaf_entry) option" where
  "candidate_leaf (LeafCandidate h _ e _) = Some (h, e)"
| "candidate_leaf (BranchCandidate _ _ _ _ _ _) = None"

lemma leaf_result_candidates:
  "traverse leaf_result (zip ks cs) = Ok ls \<Longrightarrow> length ks = length cs \<Longrightarrow>
     map (\<lambda>l. Some (leaf_block_id l, lsr_entry l)) ls = map candidate_leaf cs"
proof (induction ks cs arbitrary: ls rule: list_induct2')
  case (4 k ks c cs)
  then show ?case by (cases c) (auto simp: outcome_simps)
qed auto

lemma sorted_wrt_take_drop:
  assumes "sorted_wrt R xs" and "x \<in> set (take n xs)" and "y \<in> set (drop n xs)"
  shows "R x y"
proof -
  have "sorted_wrt R (take n xs @ drop n xs)" using assms(1) by simp
  with assms(2,3) show ?thesis unfolding sorted_wrt_append by blast
qed

lemma order_score: "compare_candidates x y \<noteq> OrdGreater \<Longrightarrow> candidate_score y \<le> candidate_score x"
  by (auto simp: candidate_order)

text \<open>
  C14: when a search succeeds, its leaves are the first \<open>n\<close> of the sorted frontier,
  by falling score, and nothing left in the frontier, leaf or unexpanded branch, scores higher than
  a returned leaf.
\<close>

theorem search_best_first:
  assumes "search_step d se ops t w n st = (Some (Ok res), st')"
  shows "mset (frontier st') = mset (retain_not_in (expanded st) (frontier st)) \<and>
    map (\<lambda>l. Some (leaf_block_id l, lsr_entry l)) (leaves res) = map candidate_leaf (take n (frontier st')) \<and>
    sorted_wrt (\<lambda>x y. candidate_score y \<le> candidate_score x) (frontier st') \<and>
    (\<forall>c \<in> set (take n (frontier st')). \<forall>c' \<in> set (drop n (frontier st')).
       candidate_score c' \<le> candidate_score c)"
proof -
  let ?fr = "sorted_frontier st"
  have sorted: "sorted_wrt (\<lambda>x y. compare_candidates x y \<noteq> OrdGreater) ?fr"
    unfolding sorted_frontier_def by (rule candidates_sorted)
  have desc: "sorted_wrt (\<lambda>x y. candidate_score y \<le> candidate_score x) ?fr"
    by (rule sorted_wrt_mono_rel [OF _ sorted]) (rule order_score)
  have d: "search_done n ?fr"
  proof (rule ccontr)
    assume nd: "\<not> search_done n ?fr"
    note sel = search_step_selection [OF nd refl, where se = se and w = w and d = d and ops = ops and t = t]
    show False
    proof (cases "select_round se ?fr (expanded st) w")
      case (Ok cur)
      obtain q rd s' where pc: "process_chunks d se ops t (round_of w cur ?fr) (round_start st)
          (store_state st) = (q, rd, s')"
        by (cases "process_chunks d se ops t (round_of w cur ?fr) (round_start st) (store_state st)")
      show False using assms sel(3) Ok search_step_round [OF nd Ok _ pc]
        by (cases "cur = []"; cases q) (auto simp: Let_def)
    qed (use assms sel in auto)
  qed
  then have fr: "frontier st' = ?fr" and res: "take_leaves n ?fr = Ok res"
    using assms by (auto simp: search_step_done)
  have "map (\<lambda>l. Some (leaf_block_id l, lsr_entry l)) (leaves res) = map candidate_leaf (take n ?fr)"
    using res leaf_result_candidates [of "[0..<length (take n ?fr)]" "take n ?fr"]
    by (auto simp: take_leaves_def outcome_simps simp del: length_take)
  moreover have "mset ?fr = mset (retain_not_in (expanded st) (frontier st))"
    by (simp add: sorted_frontier_def)
  ultimately show ?thesis
    unfolding fr using desc sorted_wrt_take_drop [OF desc] by blast
qed

section \<open>Published profiles\<close>

lemma published_policy_no_panic: "published_policy p fr w \<noteq> Panic"
  using published.select_no_panic [of p fr w] by (simp add: published_policy_def outcome_simps)

lemma default_searcher_calm: "calm (default_searcher p) t"
  by (simp add: calm_def default_searcher_def with_frontier_selector_def outcome_simps
      default_ensure_no_panic default_score_no_panic published_policy_no_panic)

lemma new_profiled_searcher_cases:
  "new_profiled_searcher v =
     (if v = published_profile_v0_1_0
      then Ok \<lparr>ps_profile = \<lparr>sp_version = v\<rparr>, ps_inner = default_searcher TopW\<rparr>
      else if v = published_profile_v0_2_0
      then Ok \<lparr>ps_profile = \<lparr>sp_version = v\<rparr>, ps_inner = default_searcher GeometryAware\<rparr>
      else Err (UnsupportedPublishedProfileVersion v))"
  by (auto simp: new_profiled_searcher_def published_search_profile_def profile_searcher_def)

text \<open>
  Exactly the two published versions build a searcher, every other version is
  refused with an error that names it, and none panics.
\<close>

theorem published_profiles:
  "new_profiled_searcher v \<noteq> Panic \<and>
   (v \<in> {new_profile_version 0 1 0, new_profile_version 0 2 0} \<longleftrightarrow> is_ok (new_profiled_searcher v)) \<and>
   (\<forall>e. new_profiled_searcher v = Err e \<longleftrightarrow>
      e = UnsupportedPublishedProfileVersion v \<and> \<not> is_ok (new_profiled_searcher v))"
  by (auto simp: new_profiled_searcher_cases is_ok_def published_profile_v0_1_0_def
      published_profile_v0_2_0_def)

text \<open>
  C15: with a codec whose reader does not panic, a search with the searcher of
  a published profile over an overlay of memory stores returns without a panic, for every target,
  width and request, whatever bytes the stores hold.
\<close>

theorem profiled_search_no_panic:
  assumes "overlay_inv (mem_inv_in universe) ls" and "codec d" and "\<forall>bs. from_reader d bs \<noteq> Panic"
    and "new_profiled_searcher v = Ok ps"
  shows "\<exists>r ls'. profiled_search d ps (overlay_ops mem_ops) root_id target spec w n ls = Some (r, ls') \<and>
    r \<noteq> Panic"
proof -
  obtain p where "ps_inner ps = default_searcher p"
    using assms(4) by (auto simp: new_profiled_searcher_cases split: if_splits)
  then have "calm (ps_inner ps) (encode_target (ps_profile ps) target spec)"
    by (simp add: default_searcher_calm)
  from overlay_mem.search_no_panic [OF assms(2,3) this assms(1), of root_id w n]
    overlay_mem.search_spec [OF assms(1) overlay_finite, of d "ps_inner ps" root_id
      "encode_target (ps_profile ps) target spec" w n]
  show ?thesis unfolding profiled_search_def by blast
qed

section \<open>Frontier selection never fails with the default selector\<close>

context frontier_policy
begin

lemma selection_validates:
  assumes "select (deduplicated_expandable_frontier fr ex) w = Ok sel"
  shows "validate_selected_children sel (deduplicated_expandable_frontier fr ex) w = Ok sel"
  using select_length [OF assms] select_subset [OF assms] select_distinct [OF _ assms]
    expandable_children [of ex "[]" fr]
  by (simp add: validate_selected_Ok deduplicated_expandable_frontier_def)

end

lemma published_round_failure:
  assumes "frontier_selector se = published_policy p" and "select_round se fr ex w = Err e"
  shows "\<exists>g. e = FrontierSelectionFailure (display_geometry_error g) \<and>
    published_select p (deduplicated_expandable_frontier fr ex) w = Err g"
proof (cases "published_select p (deduplicated_expandable_frontier fr ex) w")
  case (Ok sel)
  with assms published.selection_validates [OF Ok] show ?thesis
    by (simp add: select_round_def published_policy_def)
qed (use assms in \<open>auto simp: select_round_def published_policy_def\<close>)

lemma step_selection_failure:
  assumes "search_step d se ops t w n st = (Some (Err (FrontierSelectionFailure m)), st')"
  shows "\<exists>fr ex. select_round se fr ex w = Err (FrontierSelectionFailure m)"
proof (cases "search_done n (sorted_frontier st)")
  case True
  then show ?thesis
    using assms by (auto simp: search_step_done take_leaves_def outcome_simps dest!: traverse_eq_Err
        elim!: leaf_result.elims)
next
  case False
  let ?fr = "sorted_frontier st"
  note sel = search_step_selection [OF False refl, where se = se and w = w and d = d and ops = ops and t = t]
  show ?thesis
  proof (cases "select_round se ?fr (expanded st) w")
    case (Ok cur)
    obtain q rd s' where pc: "process_chunks d se ops t (round_of w cur ?fr) (round_start st)
        (store_state st) = (q, rd, s')"
      by (cases "process_chunks d se ops t (round_of w cur ?fr) (round_start st) (store_state st)")
    show ?thesis
      using assms sel(3) Ok search_step_round [OF False Ok _ pc] process_chunks_Err [of d se ops t "round_of w cur ?fr"] pc
      by (cases "cur = []"; cases q) (force simp: Let_def)+
  qed (use assms sel in auto)
qed

lemma search_selection_failure:
  assumes "search d se ops root_id t w n s = Some (Err (FrontierSelectionFailure m), s')"
  shows "\<exists>fr ex. select_round se fr ex w = Err (FrontierSelectionFailure m)"
proof -
  have loop: "\<exists>fr ex. select_round se fr ex w = Err (FrontierSelectionFailure m)"
    if "search_loop d se ops t w n st = Some (r, st')" "r = Err (FrontierSelectionFailure m)" for st r st'
    using that by (induction rule: search_loop_induct) (auto dest: step_selection_failure)
  have w: "w \<noteq> 0"
    using assms by (cases "w = 0") (auto simp: search_def search_internal_def conclude_def Let_def)
  obtain l tel s1 where l: "load_block_candidates d se ops root_id t s True 0 (new_collector w False) = (l, tel, s1)"
    by (cases "load_block_candidates d se ops root_id t s True 0 (new_collector w False)")
  have "block_level_error e" if "l = Err e" for e
    using l that load_validated_Err [of d ops s root_id True] block_candidates_Err
    by (fastforce simp: load_block_candidates_def build_block_candidates_def split: prod.splits outcome.splits)
  moreover have "l \<noteq> Panic" using assms w l by (auto simp: search_def search_internal_def)
  ultimately obtain cs where cs: "l = Ok cs"
    using assms w l by (cases l) (fastforce simp: search_def search_internal_def conclude_def Let_def)+
  then obtain p where "search_loop d se ops t w n
      \<lparr>frontier = cs, expanded = [], telemetry = tel, store_state = s1\<rparr> = Some p"
    and "fst p = Err (FrontierSelectionFailure m)"
    using assms w l conclude_result
    by (auto simp: search_def search_internal_def case_prod_unfold Let_def)
  then show ?thesis by (cases p) (auto intro: loop)
qed

text \<open>
  A searcher built by \<open>Searcher::new\<close> never reports a selection failure, for any
  policies and any store.
\<close>

theorem top_w_never_fails:
  "search d (new_searcher ec cs) ops root_id t w n s \<noteq> Some (Err (FrontierSelectionFailure m), s')"
proof
  assume "search d (new_searcher ec cs) ops root_id t w n s = Some (Err (FrontierSelectionFailure m), s')"
  from search_selection_failure [OF this] obtain fr ex where
    "select_round (new_searcher ec cs) fr ex w = Err (FrontierSelectionFailure m)" by blast
  from published_round_failure [OF _ this, of TopW] show False
    by (simp add: new_searcher_def with_frontier_selector_def)
qed

section \<open>A leaf as the root\<close>

lemma search_leaf_root:
  assumes get: "get_block_bytes ops s root_id = (Ok (Some bs), s1)"
    and dec: "deserialize_block d bs root_id = Ok v" and leaf: "vb_block v = Leaf b"
    and "lb_level b = 0" and "lb_entries b = [e]"
    and ec: "compatibility se t (lb_embedding_spec b) = Ok ()"
    and cs: "scorer se t (le_embedding e) (lb_embedding_spec b) = Ok score"
    and fs: "frontier_selector se [] w = Ok []" and "0 < w"
  shows "search d se ops root_id t w n s =
    Some (if n \<le> 1 then Ok \<lparr>leaves = take n [\<lparr>leaf_block_id = root_id, lsr_entry = e, lsr_position = 0\<rparr>]\<rparr>
          else Err (Exhausted n 1), s1)"
proof -
  let ?c = "LeafCandidate root_id 0 e score"
  let ?tel = "record_visited_block root_id 0 (new_collector w False)"
  let ?st = "\<lparr>frontier = [?c], expanded = [], telemetry = ?tel, store_state = s1\<rparr>"
  have "load_validated_block d ops s root_id True = (Ok v, s1)"
    using get dec by (simp add: load_validated_block_def store_get_def)
  moreover have "block_candidates d se root_id t (into_entries v) 0 = Ok [?c]"
    using leaf assms(4,5) ec cs by (simp add: block_candidates_def score_leaf_entry_def)
  ultimately have load: "load_block_candidates d se ops root_id t s True 0 (new_collector w False) =
      (Ok [?c], ?tel, s1)"
    by (simp add: load_block_candidates_def build_block_candidates_def)
  have fr: "sorted_frontier ?st = [?c]" by (simp add: sorted_frontier_def retain_not_in_def sort_by_def)
  have sel: "select_round se [?c] [] w = Ok []"
    using fs by (simp add: select_round_def deduplicated_expandable_frontier_def validate_selected_children_def)
  have "fst (search_step d se ops t w n ?st) = Some (if n \<le> 1
      then Ok \<lparr>leaves = take n [\<lparr>leaf_block_id = root_id, lsr_entry = e, lsr_position = 0\<rparr>]\<rparr>
      else Err (Exhausted n 1)) \<and> store_state (snd (search_step d se ops t w n ?st)) = s1"
  proof (cases "n \<le> 1")
    case True
    then have "search_done n (sorted_frontier ?st)" by (cases n) (auto simp: search_done_def fr is_terminal_def)
    with True show ?thesis
      by (cases n) (auto simp: search_step_done fr take_leaves_def upt_conv_Cons)
  next
    case False
    then have "\<not> search_done n (sorted_frontier ?st)" by (simp add: search_done_def fr)
    from search_step_selection(3) [OF this refl, where se = se and w = w and d = d and ops = ops and t = t]
      sel False show ?thesis
      by (simp add: fr is_terminal_def)
  qed
  then obtain st' where "search_step d se ops t w n ?st = (Some (if n \<le> 1
      then Ok \<lparr>leaves = take n [\<lparr>leaf_block_id = root_id, lsr_entry = e, lsr_position = 0\<rparr>]\<rparr>
      else Err (Exhausted n 1)), st')" and "store_state st' = s1"
    by (metis prod.collapse)
  from search_loop_step(1) [OF this(1)] this(2) load \<open>0 < w\<close> show ?thesis
    using conclude_result by (auto simp: search_def search_internal_def case_prod_unfold Let_def)
qed

end
