(* ===== verification/Cbor_Codec.thy ===== *)
theory Cbor_Codec
  imports Block_V2
begin

text \<open>
  A concrete instance of the libraries behind the block crate: a CBOR writer and reader following
  RFC 8949 (definite lengths, shortest heads, floats in 64-bit width), SHA-256 (FIPS 180-4) and the
  widening of a half-precision number. It shows that the laws of \<open>codec\<close> and \<open>readable_codec\<close> can
  hold, and it is the codec every concrete example of the development runs on.
\<close>

section \<open>Writing\<close>

definition be_bytes :: "nat \<Rightarrow> nat \<Rightarrow> byte list" where
  "be_bytes k n = rev (le_bytes k n)"

definition be_nat :: "byte list \<Rightarrow> nat" where
  "be_nat bs = le_nat (rev bs)"

definition cbor_head :: "nat \<Rightarrow> nat \<Rightarrow> byte list" where
  "cbor_head major n =
     (if n < 24 then [word_of_nat (32 * major + n)]
      else if n < 256 then word_of_nat (32 * major + 24) # be_bytes 1 n
      else if n < 65536 then word_of_nat (32 * major + 25) # be_bytes 2 n
      else if n < 4294967296 then word_of_nat (32 * major + 26) # be_bytes 4 n
      else word_of_nat (32 * major + 27) # be_bytes 8 n)"

definition byte_of_char :: "char \<Rightarrow> byte" where
  "byte_of_char c = word_of_nat (of_char c)"

definition char_of_byte :: "byte \<Rightarrow> char" where
  "char_of_byte b = char_of (unat b)"

fun cbor_encode :: "cbor \<Rightarrow> byte list" where
  "cbor_encode (Integer i) =
     (if 0 \<le> i then cbor_head 0 (nat i) else cbor_head 1 (nat (- 1 - i)))"
| "cbor_encode (Bytes bs) = cbor_head 2 (length bs) @ bs"
| "cbor_encode (Text t) = cbor_head 3 (length t) @ map byte_of_char t"
| "cbor_encode (Array vs) = cbor_head 4 (length vs) @ concat (map cbor_encode vs)"
| "cbor_encode (Map es) =
     cbor_head 5 (length es) @ concat (map (\<lambda>e. cbor_encode (fst e) @ cbor_encode (snd e)) es)"
| "cbor_encode (Tag t v) = cbor_head 6 (unat t) @ cbor_encode v"
| "cbor_encode (Bool b) = [if b then 0xF5 else 0xF4]"
| "cbor_encode Null = [0xF6]"
| "cbor_encode (Float f) = 0xFB # be_bytes 8 (unat f)"
| "cbor_encode (OtherValue n) = [0xF7]"

section \<open>Reading\<close>

definition take_be :: "nat \<Rightarrow> byte list \<Rightarrow> (nat \<times> byte list) option" where
  "take_be k bs = (if length bs < k then None else Some (be_nat (take k bs), drop k bs))"

definition cbor_argument :: "nat \<Rightarrow> byte list \<Rightarrow> (nat \<times> byte list) option" where
  "cbor_argument ai bs =
     (if ai < 24 then Some (ai, bs) else if ai = 24 then take_be 1 bs
      else if ai = 25 then take_be 2 bs else if ai = 26 then take_be 4 bs
      else if ai = 27 then take_be 8 bs else None)"

fun pairs_of :: "cbor list \<Rightarrow> (cbor \<times> cbor) list" where
  "pairs_of (k # v # vs) = (k, v) # pairs_of vs"
| "pairs_of _ = []"

fun cbor_decode :: "nat \<Rightarrow> byte list \<Rightarrow> (cbor \<times> byte list) option"
and cbor_decode_list :: "nat \<Rightarrow> nat \<Rightarrow> byte list \<Rightarrow> (cbor list \<times> byte list) option" where
  "cbor_decode 0 bs = None"
| "cbor_decode (Suc fuel) [] = None"
| "cbor_decode (Suc fuel) (b # bs) =
     (let major = unat b div 32; ai = unat b mod 32
      in case cbor_argument ai bs of
        None \<Rightarrow> None
      | Some (n, rest) \<Rightarrow>
          if major = 0 then Some (Integer (int n), rest)
          else if major = 1 then Some (Integer (- 1 - int n), rest)
          else if major = 2
          then if length rest < n then None else Some (Bytes (take n rest), drop n rest)
          else if major = 3
          then if length rest < n then None
               else Some (Text (map char_of_byte (take n rest)), drop n rest)
          else if major = 4
          then map_option (\<lambda>(vs, r). (Array vs, r)) (cbor_decode_list fuel n rest)
          else if major = 5
          then map_option (\<lambda>(vs, r). (Map (pairs_of vs), r)) (cbor_decode_list fuel (2 * n) rest)
          else if major = 6
          then map_option (\<lambda>(v, r). (Tag (word_of_nat n) v, r)) (cbor_decode fuel rest)
          else if ai = 20 then Some (Bool False, rest)
          else if ai = 21 then Some (Bool True, rest)
          else if ai = 22 then Some (Null, rest)
          else if ai = 27 then Some (Float (word_of_nat n), rest)
          else None)"
| "cbor_decode_list fuel 0 bs = Some ([], bs)"
| "cbor_decode_list fuel (Suc n) bs =
     (case cbor_decode fuel bs of
        None \<Rightarrow> None
      | Some (v, rest) \<Rightarrow>
          map_option (\<lambda>(vs, r). (v # vs, r)) (cbor_decode_list fuel n rest))"

declare cbor_decode.simps(3) [simp del]

definition cbor_read :: "byte list \<Rightarrow> (string, cbor \<times> nat) outcome" where
  "cbor_read bs =
     (case cbor_decode (length bs) bs of
        None \<Rightarrow> Err ''not well-formed''
      | Some (v, rest) \<Rightarrow> Ok (v, length bs - length rest))"

section \<open>The values the format can carry\<close>

fun cbor_ok :: "cbor \<Rightarrow> bool" where
  "cbor_ok (Integer i) = (- 18446744073709551616 \<le> i \<and> i < 18446744073709551616)"
| "cbor_ok (Bytes bs) = (length bs < 18446744073709551616)"
| "cbor_ok (Text t) = (length t < 18446744073709551616)"
| "cbor_ok (Array vs) = (length vs < 18446744073709551616 \<and> list_all cbor_ok vs)"
| "cbor_ok (Map es) =
     (length es < 18446744073709551616 \<and> list_all (\<lambda>e. cbor_ok (fst e) \<and> cbor_ok (snd e)) es)"
| "cbor_ok (Tag t v) = cbor_ok v"
| "cbor_ok (OtherValue n) = False"
| "cbor_ok _ = True"

section \<open>The reader inverts the writer\<close>

lemma be_bytes_length [simp]: "length (be_bytes k n) = k"
  by (simp add: be_bytes_def)

lemma be_nat_be_bytes: "n < 256 ^ k \<Longrightarrow> be_nat (be_bytes k n) = n"
  by (simp add: be_nat_def be_bytes_def le_nat_le_bytes)

lemma take_be_bytes: "n < 256 ^ k \<Longrightarrow> take_be k (be_bytes k n @ rest) = Some (n, rest)"
  by (simp add: take_be_def be_nat_be_bytes)

lemma char_byte_inverse [simp]: "char_of_byte (byte_of_char c) = c"
proof -
  have "(of_char c :: nat) < 256" by simp
  then show ?thesis
    by (simp add: char_of_byte_def byte_of_char_def unsigned_of_nat take_bit_eq_mod)
qed

lemma head_byte:
  assumes "major < 8" and "ai < 32"
  shows "unat (word_of_nat (32 * major + ai) :: byte) div 32 = major"
    and "unat (word_of_nat (32 * major + ai) :: byte) mod 32 = ai"
proof -
  have "unat (word_of_nat m :: byte) = m" if "m < 256" for m
    using that by (simp add: unsigned_of_nat take_bit_eq_mod)
  from this [of "32 * major + ai"] assms
  have "unat (word_of_nat (32 * major + ai) :: byte) = 32 * major + ai" by simp
  then show "unat (word_of_nat (32 * major + ai) :: byte) div 32 = major"
    and "unat (word_of_nat (32 * major + ai) :: byte) mod 32 = ai"
    using assms by simp_all
qed

text \<open>Every head starts with a byte that gives the major type back and is followed by its argument.\<close>

lemma cbor_head_read:
  assumes "n < 18446744073709551616" and "major < 8"
  obtains b arg where "cbor_head major n = b # arg" and "unat b div 32 = major"
    and "\<And>rest. cbor_argument (unat b mod 32) (arg @ rest) = Some (n, rest)"
proof -
  consider (tiny) "n < 24" | (one) "24 \<le> n" "n < 256" | (two) "256 \<le> n" "n < 65536"
    | (four) "65536 \<le> n" "n < 4294967296" | (eight) "4294967296 \<le> n"
    by linarith
  then show thesis
  proof cases
    case tiny
    with head_byte [OF assms(2), of n] show ?thesis
      by (intro that [of "word_of_nat (32 * major + n)" "[]"])
        (simp_all add: cbor_head_def cbor_argument_def)
  next
    case one
    with head_byte [OF assms(2), of 24] take_be_bytes [of n 1] show ?thesis
      by (intro that [of "word_of_nat (32 * major + 24)" "be_bytes 1 n"])
        (simp_all add: cbor_head_def cbor_argument_def)
  next
    case two
    with head_byte [OF assms(2), of 25] take_be_bytes [of n 2] show ?thesis
      by (intro that [of "word_of_nat (32 * major + 25)" "be_bytes 2 n"])
        (simp_all add: cbor_head_def cbor_argument_def)
  next
    case four
    with head_byte [OF assms(2), of 26] take_be_bytes [of n 4] show ?thesis
      by (intro that [of "word_of_nat (32 * major + 26)" "be_bytes 4 n"])
        (simp_all add: cbor_head_def cbor_argument_def)
  next
    case eight
    with head_byte [OF assms(2), of 27] take_be_bytes [of n 8] assms(1) show ?thesis
      by (intro that [of "word_of_nat (32 * major + 27)" "be_bytes 8 n"])
        (simp_all add: cbor_head_def cbor_argument_def)
  qed
qed

lemma cbor_head_not_Nil: "cbor_head major n \<noteq> []"
  by (simp add: cbor_head_def)

lemma cbor_decode_list_encode:
  assumes "\<And>v r. v \<in> set vs \<Longrightarrow> cbor_decode fuel (cbor_encode v @ r) = Some (v, r)"
  shows "cbor_decode_list fuel (length vs) (concat (map cbor_encode vs) @ r) = Some (vs, r)"
  using assms by (induction vs arbitrary: r) auto

lemma pairs_of_flat: "pairs_of (concat (map (\<lambda>e. [fst e, snd e]) es)) = es"
  by (induction es) auto

lemma length_in_concat: "x \<in> set xs \<Longrightarrow> length x \<le> length (concat xs)"
  by (induction xs) auto

text \<open>Reading a head of each major type.\<close>

lemma cbor_decode_head:
  assumes "n < 18446744073709551616"
  shows "cbor_decode (Suc fuel) (cbor_head 0 n @ rest) = Some (Integer (int n), rest)"
    and "cbor_decode (Suc fuel) (cbor_head 1 n @ rest) = Some (Integer (- 1 - int n), rest)"
    and "cbor_decode (Suc fuel) (cbor_head 2 n @ rest) =
      (if length rest < n then None else Some (Bytes (take n rest), drop n rest))"
    and "cbor_decode (Suc fuel) (cbor_head 3 n @ rest) =
      (if length rest < n then None else Some (Text (map char_of_byte (take n rest)), drop n rest))"
    and "cbor_decode (Suc fuel) (cbor_head 4 n @ rest) =
      map_option (\<lambda>(vs, r). (Array vs, r)) (cbor_decode_list fuel n rest)"
    and "cbor_decode (Suc fuel) (cbor_head 5 n @ rest) =
      map_option (\<lambda>(vs, r). (Map (pairs_of vs), r)) (cbor_decode_list fuel (2 * n) rest)"
    and "cbor_decode (Suc fuel) (cbor_head 6 n @ rest) =
      map_option (\<lambda>(v, r). (Tag (word_of_nat n) v, r)) (cbor_decode fuel rest)"
proof -
  have step: "cbor_decode (Suc fuel) (cbor_head major n @ rest) =
      (if major = 0 then Some (Integer (int n), rest)
       else if major = 1 then Some (Integer (- 1 - int n), rest)
       else if major = 2
       then if length rest < n then None else Some (Bytes (take n rest), drop n rest)
       else if major = 3
       then if length rest < n then None
            else Some (Text (map char_of_byte (take n rest)), drop n rest)
       else if major = 4
       then map_option (\<lambda>(vs, r). (Array vs, r)) (cbor_decode_list fuel n rest)
       else if major = 5
       then map_option (\<lambda>(vs, r). (Map (pairs_of vs), r)) (cbor_decode_list fuel (2 * n) rest)
       else map_option (\<lambda>(v, r). (Tag (word_of_nat n) v, r)) (cbor_decode fuel rest))"
    if "major < 7" for major
  proof -
    have "major < 8" using that by simp
    with assms obtain b arg where "cbor_head major n = b # arg" and "unat b div 32 = major"
      and "cbor_argument (unat b mod 32) (arg @ rest) = Some (n, rest)"
      by (rule cbor_head_read) blast
    then show ?thesis using that by (simp add: cbor_decode.simps(3))
  qed
  show "cbor_decode (Suc fuel) (cbor_head 0 n @ rest) = Some (Integer (int n), rest)"
    and "cbor_decode (Suc fuel) (cbor_head 1 n @ rest) = Some (Integer (- 1 - int n), rest)"
    and "cbor_decode (Suc fuel) (cbor_head 2 n @ rest) =
      (if length rest < n then None else Some (Bytes (take n rest), drop n rest))"
    and "cbor_decode (Suc fuel) (cbor_head 3 n @ rest) =
      (if length rest < n then None else Some (Text (map char_of_byte (take n rest)), drop n rest))"
    and "cbor_decode (Suc fuel) (cbor_head 4 n @ rest) =
      map_option (\<lambda>(vs, r). (Array vs, r)) (cbor_decode_list fuel n rest)"
    and "cbor_decode (Suc fuel) (cbor_head 5 n @ rest) =
      map_option (\<lambda>(vs, r). (Map (pairs_of vs), r)) (cbor_decode_list fuel (2 * n) rest)"
    and "cbor_decode (Suc fuel) (cbor_head 6 n @ rest) =
      map_option (\<lambda>(v, r). (Tag (word_of_nat n) v, r)) (cbor_decode fuel rest)"
    by (simp_all add: step)
qed

lemma cbor_encode_nonempty: "length (cbor_encode v) \<le> fuel \<Longrightarrow> \<exists>fuel'. fuel = Suc fuel'"
  by (cases v; cases fuel) (auto simp: cbor_head_not_Nil split: if_splits)

lemma cbor_decode_encode:
  "cbor_ok v \<Longrightarrow> length (cbor_encode v) \<le> fuel \<Longrightarrow> cbor_decode fuel (cbor_encode v @ r) = Some (v, r)"
proof (induction v arbitrary: fuel r)
  case (Array vs)
  obtain fuel' where fuel: "fuel = Suc fuel'" using cbor_encode_nonempty [OF Array.prems(2)] by blast
  have "cbor_decode fuel' (cbor_encode v @ r) = Some (v, r)" if "v \<in> set vs" for v r
    using Array.IH [OF that] Array.prems that
      length_in_concat [of "cbor_encode v" "map cbor_encode vs"]
    by (cases "cbor_head 4 (length vs)") (auto simp: list_all_iff fuel cbor_head_not_Nil)
  from cbor_decode_list_encode [of vs fuel' r, OF this] Array.prems(1) show ?case
    by (simp add: fuel cbor_decode_head)
next
  case (Map es)
  obtain fuel' where fuel: "fuel = Suc fuel'" using cbor_encode_nonempty [OF Map.prems(2)] by blast
  let ?vs = "concat (map (\<lambda>e. [fst e, snd e]) es)"
  have flat: "concat (map cbor_encode ?vs) =
      concat (map (\<lambda>e. cbor_encode (fst e) @ cbor_encode (snd e)) es)"
    and len: "length ?vs = 2 * length es"
    by (induction es) auto
  have "cbor_decode fuel' (cbor_encode v @ r) = Some (v, r)" if v: "v \<in> set ?vs" for v r
  proof -
    have "length (cbor_encode v) \<le> fuel'"
      using length_in_concat [of "cbor_encode v" "map cbor_encode ?vs"] v Map.prems fuel
      unfolding flat by (cases "cbor_head 5 (length es)") (auto simp: cbor_head_not_Nil)
    with v Map.IH Map.prems show ?thesis by (fastforce simp: list_all_iff)
  qed
  from cbor_decode_list_encode [of ?vs fuel' r, OF this]
  have "cbor_decode_list fuel' (2 * length es)
      (concat (map (\<lambda>e. cbor_encode (fst e) @ cbor_encode (snd e)) es) @ r) = Some (?vs, r)"
    unfolding flat len .
  with Map.prems(1) show ?case by (simp add: fuel cbor_decode_head pairs_of_flat)
next
  case (Tag t v)
  obtain fuel' where fuel: "fuel = Suc fuel'" using cbor_encode_nonempty [OF Tag.prems(2)] by blast
  have "unat t < 18446744073709551616" using unsigned_less [of t] by simp
  moreover have "length (cbor_encode v) \<le> fuel'"
    using Tag.prems(2) fuel by (cases "cbor_head 6 (unat t)") (auto simp: cbor_head_not_Nil)
  ultimately show ?case using Tag by (simp add: fuel cbor_decode_head)
next
  case (Float f)
  obtain fuel' where fuel: "fuel = Suc fuel'" using cbor_encode_nonempty [OF Float.prems(2)] by blast
  have "unat f < 256 ^ 8" using unsigned_less [of f] by simp
  with take_be_bytes [of "unat f" 8 r] show ?case
    by (simp add: fuel cbor_decode.simps(3) cbor_argument_def)
next
  case (Bool b)
  obtain fuel' where fuel: "fuel = Suc fuel'" using cbor_encode_nonempty [OF Bool.prems(2)] by blast
  show ?case by (simp add: fuel cbor_decode.simps(3) cbor_argument_def)
next
  case Null
  obtain fuel' where fuel: "fuel = Suc fuel'" using cbor_encode_nonempty [OF Null.prems(2)] by blast
  show ?case by (simp add: fuel cbor_decode.simps(3) cbor_argument_def)
next
  case (Integer i)
  obtain fuel' where "fuel = Suc fuel'" using cbor_encode_nonempty [OF Integer.prems(2)] by blast
  with Integer.prems(1) cbor_decode_head(1) [of "nat i" fuel' r]
    cbor_decode_head(2) [of "nat (- 1 - i)" fuel' r]
  show ?case by (cases "0 \<le> i") auto
next
  case (Bytes bs)
  obtain fuel' where "fuel = Suc fuel'" using cbor_encode_nonempty [OF Bytes.prems(2)] by blast
  with Bytes.prems(1) show ?case by (simp add: cbor_decode_head)
next
  case (Text t)
  obtain fuel' where "fuel = Suc fuel'" using cbor_encode_nonempty [OF Text.prems(2)] by blast
  with Text.prems(1) show ?case by (simp add: cbor_decode_head o_def)
qed simp

lemma cbor_read_encode: "cbor_ok v \<Longrightarrow> cbor_read (cbor_encode v) = Ok (v, length (cbor_encode v))"
  using cbor_decode_encode [of v "length (cbor_encode v)" "[]"] by (simp add: cbor_read_def)

lemma cbor_read_no_panic: "cbor_read bs \<noteq> Panic"
  by (auto simp: cbor_read_def split: option.splits)

section \<open>SHA-256\<close>

definition sha_rotr :: "nat \<Rightarrow> u32 \<Rightarrow> u32" where
  "sha_rotr n x = drop_bit n x OR push_bit (32 - n) x"

text \<open>
  The constants are the first 32 fractional bits of the cube roots of the first 64 primes, and the
  initial state those of the square roots of the first eight.
\<close>

fun icbrt :: "nat \<Rightarrow> nat" where
  "icbrt n =
     (if n = 0 then 0 else let r = 2 * icbrt (n div 8) in if (r + 1) ^ 3 \<le> n then r + 1 else r)"

declare icbrt.simps [simp del]

definition sha_primes :: "nat list" where
  "sha_primes = filter (\<lambda>n. list_all (\<lambda>k. n mod k \<noteq> 0) [2..<n]) [2..<312]"

definition sha_k :: "u32 list" where
  "sha_k = map (\<lambda>p. word_of_nat (icbrt (p * 2 ^ 96))) sha_primes"

definition sha_init :: "nat \<Rightarrow> u32" where
  "sha_init i = word_of_nat (isqrt (sha_primes ! i * 2 ^ 64))"

text \<open>The message schedule, newest word first.\<close>

fun sha_schedule :: "nat \<Rightarrow> u32 list \<Rightarrow> u32 list" where
  "sha_schedule 0 ws = ws"
| "sha_schedule (Suc n) ws =
     (let w2 = ws ! 1; w7 = ws ! 6; w15 = ws ! 14; w16 = ws ! 15;
          s0 = sha_rotr 7 w15 XOR sha_rotr 18 w15 XOR drop_bit 3 w15;
          s1 = sha_rotr 17 w2 XOR sha_rotr 19 w2 XOR drop_bit 10 w2
      in sha_schedule n ((w16 + s0 + w7 + s1) # ws))"

type_synonym sha_state = "u32 \<times> u32 \<times> u32 \<times> u32 \<times> u32 \<times> u32 \<times> u32 \<times> u32"

fun sha_round :: "u32 \<times> u32 \<Rightarrow> sha_state \<Rightarrow> sha_state" where
  "sha_round (k, w) (a, b, c, e4, e, f, g, h) =
     (let s1 = sha_rotr 6 e XOR sha_rotr 11 e XOR sha_rotr 25 e;
          ch = (e AND f) XOR (NOT e AND g);
          t1 = h + s1 + ch + k + w;
          s0 = sha_rotr 2 a XOR sha_rotr 13 a XOR sha_rotr 22 a;
          maj = (a AND b) XOR (a AND c) XOR (b AND c)
      in (t1 + s0 + maj, a, b, c, e4 + t1, e, f, g))"

fun sha_add :: "sha_state \<Rightarrow> sha_state \<Rightarrow> sha_state" where
  "sha_add (a, b, c, e4, e, f, g, h) (a', b', c', e4', e', f', g', h') =
     (a + a', b + b', c + c', e4 + e4', e + e', f + f', g + g', h + h')"

definition sha_block :: "sha_state \<Rightarrow> byte list \<Rightarrow> sha_state" where
  "sha_block s chunk =
     (let ws = rev (map (\<lambda>bs. word_of_nat (be_nat bs)) (chunks_exact 4 chunk))
      in sha_add s (fold sha_round (zip sha_k (rev (sha_schedule 48 ws))) s))"

definition sha_pad :: "byte list \<Rightarrow> byte list" where
  "sha_pad bs =
     bs @ [0x80] @ replicate ((119 - length bs mod 64) mod 64) 0 @ be_bytes 8 (8 * length bs)"

definition sha256 :: "byte list \<Rightarrow> byte list" where
  "sha256 bs =
     (case fold (\<lambda>chunk s. sha_block s chunk) (chunks_exact 64 (sha_pad bs))
            (sha_init 0, sha_init 1, sha_init 2, sha_init 3, sha_init 4, sha_init 5, sha_init 6,
             sha_init 7) of
        (a, b, c, e4, e, f, g, h) \<Rightarrow>
          concat (map (\<lambda>w. be_bytes 4 (unat w)) [a, b, c, e4, e, f, g, h]))"

lemma sha256_length: "length (sha256 bs) = 32"
  by (simp add: sha256_def split: prod.splits)

section \<open>The instance\<close>

definition half_to_f32 :: "byte \<Rightarrow> byte \<Rightarrow> f32" where
  "half_to_f32 lo hi =
     (let sgn = push_bit 24 (ucast (hi AND 0x80)) :: f32;
          e = unat hi div 4 mod 32;
          m = unat hi mod 4 * 256 + unat lo
      in if e = 31 then sgn OR 0x7F800000 OR word_of_nat (m * 8192)
         else if e = 0 then sgn OR f32_mul (f32_of_int (int m)) 0x33800000
         else sgn OR word_of_nat ((e + 112) * 8388608 + m * 8192))"

definition rfc_deps :: deps where
  "rfc_deps = \<lparr>into_writer = (\<lambda>v. Ok (cbor_encode v)), from_reader = cbor_read,
               sha256_digest = sha256, f16_to_f32 = half_to_f32\<rparr>"

interpretation rfc: readable_codec rfc_deps cbor_ok
proof unfold_locales
  show "\<exists>bs. into_writer rfc_deps v = Ok bs" for v by (simp add: rfc_deps_def)
  show "into_writer rfc_deps (Integer (int n)) = Ok [word_of_nat n]" if "n < 24" for n
    using that by (simp add: rfc_deps_def cbor_head_def)
  show "length (sha256_digest rfc_deps bs) = 32" for bs by (simp add: rfc_deps_def sha256_length)
  show "from_reader rfc_deps bs = Ok (v, length bs)"
    if "cbor_ok v" and "into_writer rfc_deps v = Ok bs" for v bs
    using that by (auto simp: rfc_deps_def cbor_read_encode)
qed

end
