(* ===== verification/Block_Examples.thy ===== *)
theory Block_Examples
  imports Cbor_Codec
begin

text \<open>
  Concrete blocks on the RFC 8949 codec, at which the properties of the block crate are applied.
\<close>

section \<open>Example blocks\<close>

definition ex_hash :: "byte \<Rightarrow> block_hash" where
  "ex_hash b = BlockHash (replicate 32 b)"

definition ex_spec :: embedding_spec where
  "ex_spec = \<lparr>dims = 1, encoding = ''f32le''\<rparr>"

definition ex_entry :: "byte \<Rightarrow> branch_entry" where
  "ex_entry b = \<lparr>be_embedding = [0, 0, 0x80, b], be_child = ex_hash b\<rparr>"

definition ex_branch_block :: "branch_entry list \<Rightarrow> branch_block" where
  "ex_branch_block es = \<lparr>bb_version = 1, bb_level = 1, bb_embedding_spec = ex_spec,
     bb_entries = es, bb_ext = None\<rparr>"

definition ex_branch :: block where
  "ex_branch = Branch (ex_branch_block [ex_entry 0x40, ex_entry 0x3F])"

definition ex_branch_normal :: block where
  "ex_branch_normal = Branch (ex_branch_block [ex_entry 0x3F, ex_entry 0x40])"

definition ex_leaf_entry :: leaf_entry where
  "ex_leaf_entry = \<lparr>le_embedding = [0, 0, 0x80, 0x3F], le_metadata = [(int_value 1, Text ''title'')],
     le_content = \<lparr>media_type = ''text/plain'', body = [0x68, 0x69]\<rparr>\<rparr>"

definition ex_v2_leaf :: v2_block where
  "ex_v2_leaf = \<lparr>v2_version = 2, type_name = ''leaf'',
     v2_content = Map (leaf_content_entries ex_spec [ex_leaf_entry] None)\<rparr>"

lemma ex_branch_normalizes: "normalize_block rfc_deps ex_branch = Ok ex_branch_normal"
  by code_simp

lemma ex_branch_wf: "hashes_wf ex_branch"
  by (simp add: ex_branch_def ex_branch_block_def ex_entry_def ex_hash_def hash_wf_def)

lemma ex_branch_readable: "cbor_ok (block_value ex_branch_normal)"
  by (simp add: ex_branch_normal_def ex_branch_block_def ex_entry_def ex_hash_def block_value_def
      ex_spec_def embedding_spec_to_value_def branch_entry_to_value_def int_value_def)

lemma rfc_writer [simp]: "into_writer rfc_deps v = Ok (cbor_encode v)"
  by (simp add: rfc_deps_def)

lemma rfc_reader_no_panic: "from_reader rfc_deps bs \<noteq> Panic"
  by (simp add: rfc_deps_def cbor_read_no_panic)

lemma ex_branch_serializes: "\<exists>s. serialize_block rfc_deps ex_branch = Ok s"
  by (auto simp: rfc.serialize_block_Ok ex_branch_normalizes)

lemma ex_branch_accepted:
  "\<exists>bs h v. deserialize_block rfc_deps bs h = Ok v \<and> vb_block v = ex_branch_normal"
  using ex_branch_serializes
    rfc.deserialize_serialized [OF ex_branch_normalizes ex_branch_wf ex_branch_readable]
  by fastforce

lemma ex_v2_leaf_normal: "v2_normal rfc_deps ex_v2_leaf"
proof -
  have "leaf_content_wf rfc_deps ex_spec [ex_leaf_entry] None"
    by (simp add: leaf_content_wf_def ex_spec_def validate_embedding_spec_def is_ebcp_encoding_def
        ex_leaf_entry_def canonical_def sort_map_entries_def)
  then show ?thesis
    by (simp add: v2_normal_def v2_normalize_block_def ex_v2_leaf_def v2_normalize_content_def
        normalize_leaf_content_fix)
qed

lemma ex_v2_leaf_readable: "cbor_ok (versioned_value (V2 ex_v2_leaf))"
  by (simp add: v2_block_value_def ex_v2_leaf_def leaf_content_entries_def ex_spec_def
      embedding_spec_to_value_def leaf_entry_to_value_def ex_leaf_entry_def content_to_value_def
      int_value_def)

lemma ex_v2_leaf_normalizes: "normalize_versioned rfc_deps (V2 ex_v2_leaf) = Ok (V2 ex_v2_leaf)"
  using ex_v2_leaf_normal by (simp add: v2_normal_def)

lemma ex_v2_leaf_serializes: "\<exists>s. serialize_versioned_block rfc_deps (V2 ex_v2_leaf) = Ok s"
  using ex_v2_leaf_normal by (auto simp: rfc.v2_serialize_block_Ok v2_normal_def)

section \<open>The properties at the examples\<close>

theorem block_roundtrip_witness:
  "\<exists>s. serialize_block rfc_deps ex_branch = Ok s \<and>
     deserialize_block rfc_deps (ser_bytes s) (ser_hash s) =
       Ok \<lparr>vb_block = ex_branch_normal, vb_hash = ser_hash s\<rparr>"
  using block_roundtrip [OF rfc.readable_codec_axioms ex_branch_normalizes ex_branch_wf
      ex_branch_readable] ex_branch_serializes by blast

theorem accepted_block_canonical_witness:
  "\<exists>bs h v. deserialize_block rfc_deps bs h = Ok v \<and> vb_block v = ex_branch_normal \<and>
     serialize_block rfc_deps (vb_block v) = Ok \<lparr>ser_bytes = bs, ser_hash = h\<rparr>"
  using ex_branch_accepted accepted_block_canonical by blast

theorem block_no_panic_witness:
  "deserialize_block rfc_deps [0xFF] (ex_hash 0) \<noteq> Panic \<and> serialize_block rfc_deps ex_branch \<noteq> Panic"
  using block_no_panic [OF rfc.codec_axioms rfc_reader_no_panic] by blast

theorem order_independent_witness:
  "\<exists>s. serialize_block rfc_deps ex_branch = Ok s \<and> serialize_block rfc_deps ex_branch_normal = Ok s"
proof -
  have "same_contents ex_branch ex_branch_normal"
    by (simp add: ex_branch_def ex_branch_normal_def ex_branch_block_def)
  with ex_branch_serializes order_independent show ?thesis by blast
qed

theorem versioned_roundtrip_witness:
  "\<exists>s. serialize_versioned_block rfc_deps (V2 ex_v2_leaf) = Ok s \<and>
     deserialize_versioned_block rfc_deps (ser_bytes s) (ser_hash s) =
       Ok (DecodedV2 \<lparr>v2v_block = ex_v2_leaf, v2v_hash = ser_hash s\<rparr>)"
  using versioned_roundtrip [OF rfc.readable_codec_axioms ex_v2_leaf_normalizes _ ex_v2_leaf_readable]
    ex_v2_leaf_serializes by fastforce

lemma ex_v1_facts:
  "normalize_versioned rfc_deps (V1 ex_branch) = Ok (V1 ex_branch_normal)"
  "normalize_versioned rfc_deps (V1 ex_branch_normal) = Ok (V1 ex_branch_normal)"
  "versioned_wf (V1 ex_branch)" "versioned_wf (V1 ex_branch_normal)"
  using ex_branch_normalizes normalize_block_idem [OF ex_branch_normalizes] ex_branch_wf
    normalize_block_hashes_wf [OF ex_branch_normalizes]
  by (simp_all add: normal_def)

theorem hash_identifies_block_witness:
  "\<exists>s t. serialize_versioned_block rfc_deps (V1 ex_branch) = Ok s \<and>
     serialize_versioned_block rfc_deps (V1 ex_branch_normal) = Ok t \<and> ser_hash s = ser_hash t \<and>
     (V1 ex_branch_normal = V1 ex_branch_normal \<or>
      (ser_bytes s \<noteq> ser_bytes t \<and>
       sha256_digest rfc_deps (ser_bytes s) = sha256_digest rfc_deps (ser_bytes t)))"
proof -
  obtain s where s: "serialize_block rfc_deps ex_branch = Ok s" using ex_branch_serializes by blast
  then have st: "serialize_versioned_block rfc_deps (V1 ex_branch) = Ok s"
    "serialize_versioned_block rfc_deps (V1 ex_branch_normal) = Ok s"
    using rfc.serialize_normalized [OF ex_branch_normalizes] by simp_all
  have rd: "cbor_ok (versioned_value (V1 ex_branch_normal))" using ex_branch_readable by simp
  from hash_identifies_block [OF rfc.readable_codec_axioms st refl ex_v1_facts(1,2) rd rd
      ex_v1_facts(3,4)] st
  show ?thesis by blast
qed

section \<open>An EBCP branch\<close>

definition ex_ebcp_spec :: embedding_spec where
  "ex_ebcp_spec = \<lparr>dims = 1, encoding = ''ambient-delta-uq''\<rparr>"

definition ex_ebcp_descriptor :: ebcp_descriptor where
  "ex_ebcp_descriptor = \<lparr>ebcp_version = 1,
     logical_embedding_spec = \<lparr>dims = 1, encoding = ''f32le''\<rparr>,
     base_centroid = Some [0x3F800000], rotation = None,
     quantization = Some (Uniform 4 [0x3F000000])\<rparr>"

definition ex_ebcp_entry :: branch_entry where
  "ex_ebcp_entry = \<lparr>be_embedding = [0x05], be_child = ex_hash 1\<rparr>"

lemma ex_ebcp_parses:
  "parse_branch_ebcp_descriptor ex_ebcp_spec (Some (ebcp_extension_map ex_ebcp_descriptor)) =
     Ok (Some ex_ebcp_descriptor)"
  by (rule ebcp_descriptor_unnormalized)
    (simp add: ebcp_descriptor_wf_def Let_def ex_ebcp_spec_def ex_ebcp_descriptor_def
      is_ebcp_encoding_def f32_vector_wf_def usize_max_def bad_scale_def ebcp_parts_error_def
      float_eval)

lemma ex_ebcp_valid:
  "validate_branch_ebcp_payload_lengths [ex_ebcp_entry] ex_ebcp_spec ex_ebcp_descriptor = Ok ()"
  by (simp add: validate_branch_ebcp_payload_lengths_def ebcp_payload_bit_len_def ex_ebcp_spec_def
      ex_ebcp_descriptor_def ex_ebcp_entry_def packed_bit_len_to_byte_len_def checked_mul_def
      checked_add_def usize_max_def usize_of_u64_def validate_zero_ebcp_padding_bits_def)

end
