(* ===== verification/Store_Examples.thy ===== *)
theory Store_Examples
  imports Overlay_Store Block_Examples
begin

text \<open>
  Concrete memory stores and overlays, at which the properties of the stores are applied.
\<close>

section \<open>A store of two blocks\<close>

definition ex_store :: mem_state where
  "ex_store = \<lparr>mem_capacity = ResidentBlocks 2, resident_bytes = 2, next_recency = 2,
     entries = [(ex_hash 1, \<lparr>re_bytes = [1], re_recency = 0\<rparr>),
                (ex_hash 2, \<lparr>re_bytes = [2], re_recency = 1\<rparr>)]\<rparr>"

definition ex_empty_store :: mem_state where
  "ex_empty_store = \<lparr>mem_capacity = ResidentBlocks 2, resident_bytes = 0, next_recency = 0, entries = []\<rparr>"

definition ex_universe :: "block_hash \<rightharpoonup> byte list" where
  "ex_universe = [ex_hash 1 \<mapsto> [1], ex_hash 2 \<mapsto> [2], ex_hash 3 \<mapsto> [3]]"

definition ex_layers :: "mem_state layer list" where
  "ex_layers = [new_layer Cache ex_empty_store, new_layer Writable ex_store]"

lemma ex_hash_eq [simp]: "ex_hash a = ex_hash b \<longleftrightarrow> a = b"
  by (simp add: ex_hash_def)

lemma ex_store_inv: "mem_inv ex_store"
  by (simp add: mem_inv_def ex_store_def)

lemma ex_empty_store_inv: "mem_inv ex_empty_store"
  by (simp add: mem_inv_def ex_empty_store_def)

lemma ex_resident: "mem_resident ex_store = [ex_hash 1 \<mapsto> [1], ex_hash 2 \<mapsto> [2]]"
  "mem_resident ex_empty_store = Map.empty"
  by (auto simp: mem_resident_def ex_store_def ex_empty_store_def fun_eq_iff)

lemma ex_layers_inv: "list_all (\<lambda>l. mem_inv (layer_store l)) ex_layers"
  by (simp add: ex_layers_def new_layer_def ex_store_inv ex_empty_store_inv)

lemma ex_overlay_inv: "overlay_inv (mem_inv_in ex_universe) ex_layers"
  by (simp add: overlay_inv_def ex_layers_def new_layer_def mem_inv_in_def ex_store_inv
      ex_empty_store_inv ex_resident ex_universe_def map_le_def)

lemma ex_not_too_large: "\<not> too_large ex_store bs" "\<not> too_large ex_empty_store bs"
  by (simp_all add: too_large_def ex_store_def ex_empty_store_def)

text \<open>Writing a third block displaces the first.\<close>

lemma ex_put:
  "mem_put_block_bytes ex_store (ex_hash 3) [3] =
     (Ok (), \<lparr>mem_capacity = ResidentBlocks 2, resident_bytes = 2, next_recency = 3,
       entries = [(ex_hash 2, \<lparr>re_bytes = [2], re_recency = 1\<rparr>),
                  (ex_hash 3, \<lparr>re_bytes = [3], re_recency = 2\<rparr>)]\<rparr>)"
  by (simp add: mem_put_block_bytes_def insert_or_refresh_def take_recency_def ex_store_def
      evict_until.simps evict_lru_excluding_def saturating_sub_def saturating_add_def usize_max_def)

text \<open>Reading the first block before that makes the second one go.\<close>

lemma ex_get:
  "mem_get_block_bytes ex_store (ex_hash 1) =
     (Ok (Some [1]), \<lparr>mem_capacity = ResidentBlocks 2, resident_bytes = 2, next_recency = 3,
       entries = [(ex_hash 1, \<lparr>re_bytes = [1], re_recency = 2\<rparr>),
                  (ex_hash 2, \<lparr>re_bytes = [2], re_recency = 1\<rparr>)]\<rparr>)"
  by (simp add: mem_get_block_bytes_def mem_refresh_def take_recency_def ex_store_def)

lemma ex_get_put:
  "mem_put_block_bytes (snd (mem_get_block_bytes ex_store (ex_hash 1))) (ex_hash 3) [3] =
     (Ok (), \<lparr>mem_capacity = ResidentBlocks 2, resident_bytes = 2, next_recency = 4,
       entries = [(ex_hash 1, \<lparr>re_bytes = [1], re_recency = 2\<rparr>),
                  (ex_hash 3, \<lparr>re_bytes = [3], re_recency = 3\<rparr>)]\<rparr>)"
  by (simp add: ex_get mem_put_block_bytes_def insert_or_refresh_def take_recency_def word_le_nat_alt
      evict_until.simps evict_lru_excluding_def saturating_sub_def saturating_add_def usize_max_def)

section \<open>The properties at the examples\<close>




end
