(* ===== verification/Search_Examples.thy ===== *)
theory Search_Examples
  imports Search_Correct Store_Examples
begin

text \<open>
  Concrete searches, at which the properties of the search crate are applied: the root is a leaf
  block on the RFC 8949 codec, held by the lower layer of an overlay.
\<close>

section \<open>A stored leaf\<close>

definition ex_leaf :: leaf_block where
  "ex_leaf = \<lparr>lb_version = 1, lb_level = 0, lb_embedding_spec = ex_spec, lb_entries = [ex_leaf_entry],
     lb_ext = None\<rparr>"

definition ex_leaf_bytes :: "byte list" where
  "ex_leaf_bytes = cbor_encode (block_value (Leaf ex_leaf))"

definition ex_leaf_hash :: block_hash where
  "ex_leaf_hash = compute_block_hash rfc_deps ex_leaf_bytes"

lemma ex_leaf_normalizes: "normalize_block rfc_deps (Leaf ex_leaf) = Ok (Leaf ex_leaf)"
  by code_simp

lemma ex_leaf_readable: "cbor_ok (block_value (Leaf ex_leaf))"
  by (simp add: ex_leaf_def block_value_def ex_spec_def embedding_spec_to_value_def
      leaf_entry_to_value_def ex_leaf_entry_def content_to_value_def int_value_def)

lemma ex_leaf_serializes:
  "serialize_block rfc_deps (Leaf ex_leaf) = Ok \<lparr>ser_bytes = ex_leaf_bytes, ser_hash = ex_leaf_hash\<rparr>"
  by (simp add: rfc.serialize_block_eq ex_leaf_normalizes ex_leaf_bytes_def ex_leaf_hash_def
      del: normalize_block.simps)

lemma ex_leaf_deserializes:
  "deserialize_block rfc_deps ex_leaf_bytes ex_leaf_hash =
     Ok \<lparr>vb_block = Leaf ex_leaf, vb_hash = ex_leaf_hash\<rparr>"
  using rfc.deserialize_serialized [OF ex_leaf_normalizes _ ex_leaf_readable ex_leaf_serializes] by simp

definition ex_leaf_universe :: "block_hash \<rightharpoonup> byte list" where
  "ex_leaf_universe = [ex_leaf_hash \<mapsto> ex_leaf_bytes]"

definition ex_leaf_store :: mem_state where
  "ex_leaf_store = \<lparr>mem_capacity = ResidentBlocks 2, resident_bytes = length ex_leaf_bytes,
     next_recency = 1, entries = [(ex_leaf_hash, \<lparr>re_bytes = ex_leaf_bytes, re_recency = 0\<rparr>)]\<rparr>"

definition ex_search_layers :: "mem_state layer list" where
  "ex_search_layers = [new_layer Cache ex_empty_store, new_layer Writable ex_leaf_store]"

lemma ex_search_inv: "overlay_inv (mem_inv_in ex_leaf_universe) ex_search_layers"
  by (auto simp: overlay_inv_def ex_search_layers_def new_layer_def mem_inv_in_def mem_inv_def
      ex_leaf_store_def ex_empty_store_def mem_resident_def ex_leaf_universe_def map_le_def split: if_splits)

lemma ex_search_get:
  "\<exists>ls'. get_block_bytes (overlay_ops mem_ops) ex_search_layers ex_leaf_hash = (Ok (Some ex_leaf_bytes), ls')"
proof -
  have get: "mem_get_block_bytes ex_leaf_store ex_leaf_hash = (Ok (Some ex_leaf_bytes), mem_refresh ex_leaf_hash ex_leaf_store)"
    by (simp add: mem_get_block_bytes_def ex_leaf_store_def)
  have miss: "mem_get_block_bytes ex_empty_store ex_leaf_hash = (Ok None, ex_empty_store)"
    by (simp add: mem_get_block_bytes_def ex_empty_store_def)
  have "refill_cache_layers mem_ops h bs [l] = (Ok (), map (refilled h bs) [l])"
    if "layer_store l = ex_empty_store" for h bs l
    using that ex_empty_store_inv by (intro refill_mem) simp
  with get miss show ?thesis
    by (simp add: overlay_ops_def overlay_get_block_bytes_def ex_search_layers_def new_layer_def
        del: refill_cache_layers.simps)
qed

definition ex_searcher :: "(unit, nat) searcher" where
  "ex_searcher = new_searcher (\<lambda>_ _. Ok ()) (\<lambda>_ _ _. Ok 7)"

lemma ex_search:
  "\<exists>ls'. search rfc_deps ex_searcher (overlay_ops mem_ops) ex_leaf_hash () 1 n ex_search_layers =
     Some (if n \<le> 1 then Ok \<lparr>leaves = take n [\<lparr>leaf_block_id = ex_leaf_hash, lsr_entry = ex_leaf_entry,
                                               lsr_position = 0\<rparr>]\<rparr>
           else Err (Exhausted n 1), ls')"
proof -
  obtain ls' where "get_block_bytes (overlay_ops mem_ops) ex_search_layers ex_leaf_hash = (Ok (Some ex_leaf_bytes), ls')"
    using ex_search_get by blast
  from search_leaf_root [OF this ex_leaf_deserializes, of ex_leaf ex_leaf_entry ex_searcher "()" 7 1 n]
  show ?thesis
    by (simp add: ex_leaf_def ex_searcher_def new_searcher_def with_frontier_selector_def published_policy_def)
qed

section \<open>The properties at the examples\<close>

theorem search_returns_witness:
  "\<exists>r ls'. search rfc_deps ex_searcher (overlay_ops mem_ops) ex_leaf_hash () 1 1 ex_search_layers = Some (r, ls')"
  using search_returns [OF ex_search_inv, of rfc_deps ex_searcher ex_leaf_hash "()" 1 1] by blast

theorem search_result_sound_witness:
  "\<exists>ls'. search rfc_deps ex_searcher (overlay_ops mem_ops) ex_leaf_hash () 1 1 ex_search_layers =
      Some (Ok \<lparr>leaves = [\<lparr>leaf_block_id = ex_leaf_hash, lsr_entry = ex_leaf_entry, lsr_position = 0\<rparr>]\<rparr>, ls') \<and>
     reachable (decoded rfc_deps ex_leaf_universe) ex_leaf_hash ex_leaf_hash \<and>
     (\<exists>b. decoded rfc_deps ex_leaf_universe ex_leaf_hash = Some (Leaf b) \<and> lb_entries b = [ex_leaf_entry])"
proof -
  obtain ls' where found: "search rfc_deps ex_searcher (overlay_ops mem_ops) ex_leaf_hash () 1 1 ex_search_layers =
      Some (Ok \<lparr>leaves = [\<lparr>leaf_block_id = ex_leaf_hash, lsr_entry = ex_leaf_entry, lsr_position = 0\<rparr>]\<rparr>, ls')"
    using ex_search [of 1] by auto
  from search_result_sound [OF ex_search_inv found] found show ?thesis by auto
qed

theorem search_exhausted_complete_witness:
  "card (reachable_leaves (decoded rfc_deps ex_leaf_universe) ex_leaf_hash) = 1"
proof -
  obtain ls' where "search rfc_deps ex_searcher (overlay_ops mem_ops) ex_leaf_hash () 1 2 ex_search_layers =
      Some (Err (Exhausted 2 1), ls')"
    using ex_search [of 2] by auto
  from search_exhausted_complete [OF ex_search_inv this] show ?thesis by simp
qed

definition ex_state :: "(nat, mem_state) search_state" where
  "ex_state = \<lparr>frontier = [LeafCandidate (ex_hash 1) 0 ex_leaf_entry 3, LeafCandidate (ex_hash 2) 0 ex_leaf_entry 7],
     expanded = [], telemetry = new_collector 1 False, store_state = ex_store\<rparr>"

definition ex_result :: search_result where
  "ex_result = \<lparr>leaves = [\<lparr>leaf_block_id = ex_hash 2, lsr_entry = ex_leaf_entry, lsr_position = 0\<rparr>]\<rparr>"

theorem search_best_first_witness:
  "\<exists>st'. search_step rfc_deps ex_searcher mem_ops () 1 1 ex_state = (Some (Ok ex_result), st') \<and>
    (\<forall>c \<in> set (take 1 (frontier st')). \<forall>c' \<in> set (drop 1 (frontier st')).
       candidate_score c' \<le> candidate_score c)"
proof -
  have fr: "sorted_frontier ex_state =
      [LeafCandidate (ex_hash 2) 0 ex_leaf_entry 7, LeafCandidate (ex_hash 1) 0 ex_leaf_entry 3]"
    by (simp add: sorted_frontier_def retain_not_in_def sort_by_def compare_candidates_def ord_cmp_def
        ex_state_def)
  have "search_done 1 (sorted_frontier ex_state)" and "take_leaves 1 (sorted_frontier ex_state) = Ok ex_result"
    by (simp_all add: fr search_done_def is_terminal_def take_leaves_def ex_result_def)
  then have step: "search_step rfc_deps ex_searcher mem_ops () 1 1 ex_state =
      (Some (Ok ex_result), ex_state\<lparr>frontier := sorted_frontier ex_state\<rparr>)"
    by (simp only: search_step_done)
  from step search_best_first [OF step] show ?thesis by blast
qed

theorem profiled_search_no_panic_witness:
  "\<exists>ps r ls'. new_profiled_searcher published_profile_v0_2_0 = Ok ps \<and>
     profiled_search rfc_deps ps (overlay_ops mem_ops) ex_leaf_hash [0, 0, 0x80, 0x3F] ex_spec 1 1 ex_search_layers =
       Some (r, ls') \<and> r \<noteq> Panic"
proof -
  have "\<exists>ps. new_profiled_searcher published_profile_v0_2_0 = Ok ps"
    by (simp add: new_profiled_searcher_cases)
  then obtain ps where ps: "new_profiled_searcher published_profile_v0_2_0 = Ok ps" by blast
  have "\<forall>bs. from_reader rfc_deps bs \<noteq> Panic" using rfc_reader_no_panic by blast
  from profiled_search_no_panic [OF ex_search_inv rfc.codec_axioms this ps] ps show ?thesis by blast
qed

theorem cosine_score_order_witness:
  "CosineScore (total_order_key_f64 0) < CosineScore (total_order_key_f64 f64_one)"
proof -
  have "cosine_from_f64 0 = Ok (CosineScore (total_order_key_f64 0))"
    "cosine_from_f64 f64_one = Ok (CosineScore (total_order_key_f64 f64_one))"
    by (simp_all add: cosine_from_f64_def float_eval)
  from cosine_score_order [OF this] show ?thesis by (simp add: float_eval)
qed

definition ex_expandable :: "byte \<Rightarrow> nat expandable" where
  "ex_expandable b = \<lparr>ef_child = ex_hash b, ef_depth = 1, ef_level = 1, ef_score = 5,
     ef_embedding = [0, 0, 0x80, 0x3F], ef_embedding_spec = ex_spec\<rparr>"


end
