(* ===== verification/Clustering.thy ===== *)
theory Clustering
  imports Ieee_Float
begin

text \<open>
  The contract of streaming clustering (\<open>src/crates/lexongraph-streaming-clustering/src/lib.rs\<close>):
  its configuration, reports and errors, the validation of configurations and embeddings, and the
  traits \<open>StreamingClusterTrainer\<close> and \<open>StreamingClusterClassifier\<close>. The trainer trait is an
  interface with a protocol: the state a trainer reports moves through ingesting, finishing a pass
  and completing the training, and a misplaced call is an error it does not recover from. The
  protocol is an automaton; a trainer implements it when every operation answers and moves as the
  automaton says, and then whole sequences of calls do.
\<close>

section \<open>Data\<close>

type_synonym cluster_id = u32
type_synonym embedding = "f32 list"

record balance_constraints =
  min_cluster_occupancy :: "u32 option"
  max_cluster_occupancy :: "u32 option"
  max_cluster_size_ratio :: "f64 option"
  soft_balance_penalty :: "f64 option"

record clustering_config =
  cluster_count :: u32
  dimensions :: nat
  cfg_balance :: "balance_constraints option"
  random_seed :: "u64 option"

datatype metric_direction = LargerIsBetter | SmallerIsBetter

datatype trainer_state = Idle | Ingesting | PassComplete | TrainingComplete | ErrorState

datatype pass_readiness = AnalysisOnly | PartitionReady

record pass_report =
  observed_count :: nat
  requested_cluster_count :: u32
  readiness :: pass_readiness
  realized_cluster_count :: "u32 option"
  quality_metric :: f64
  balance_metric :: f64
  quality_direction :: metric_direction
  balance_direction :: metric_direction
  cluster_ids :: "cluster_id list option"

datatype clustering_error =
    InvalidConfiguration string
  | InvalidTransition trainer_state string
  | UnsatisfiableConstraint string
  | MalformedInput string

type_synonym 'a clustering_result = "(clustering_error, 'a) outcome"

fun debug_trainer_state :: "trainer_state \<Rightarrow> string" where
  "debug_trainer_state Idle = ''Idle''"
| "debug_trainer_state Ingesting = ''Ingesting''"
| "debug_trainer_state PassComplete = ''PassComplete''"
| "debug_trainer_state TrainingComplete = ''TrainingComplete''"
| "debug_trainer_state ErrorState = ''Error''"

fun display_clustering_error :: "clustering_error \<Rightarrow> string" where
  "display_clustering_error (InvalidConfiguration m) =
     ''invalid streaming clustering configuration: '' @ m"
| "display_clustering_error (InvalidTransition st operation) =
     ''invalid streaming clustering transition: cannot call '' @ operation @ '' while in ''
       @ debug_trainer_state st"
| "display_clustering_error (UnsatisfiableConstraint m) =
     ''unsatisfiable streaming clustering constraint: '' @ m"
| "display_clustering_error (MalformedInput m) = ''malformed streaming clustering input: '' @ m"

section \<open>Validation\<close>

definition validate_balance :: "balance_constraints \<Rightarrow> unit clustering_result" where
  "validate_balance c =
     (if min_cluster_occupancy c = Some 0
      then Err (InvalidConfiguration ''min_cluster_occupancy must be positive when provided'')
      else if max_cluster_occupancy c = Some 0
      then Err (InvalidConfiguration ''max_cluster_occupancy must be positive when provided'')
      else if (case (min_cluster_occupancy c, max_cluster_occupancy c) of
                 (Some lo, Some hi) \<Rightarrow> hi < lo | _ \<Rightarrow> False)
      then Err (InvalidConfiguration ''min_cluster_occupancy cannot exceed max_cluster_occupancy'')
      else if (case max_cluster_size_ratio c of
                 Some r \<Rightarrow> \<not> f64_is_finite r \<or> f64_less r 0 \<or> f64_eq_zero r | None \<Rightarrow> False)
      then Err (InvalidConfiguration ''max_cluster_size_ratio must be finite and positive'')
      else if (case soft_balance_penalty c of
                 Some p \<Rightarrow> \<not> f64_is_finite p \<or> f64_less p 0 | None \<Rightarrow> False)
      then Err (InvalidConfiguration ''soft_balance_penalty must be finite and non-negative'')
      else Ok ())"

definition validate_config :: "clustering_config \<Rightarrow> unit clustering_result" where
  "validate_config c =
     (if cluster_count c = 0 then Err (InvalidConfiguration ''cluster_count must be positive'')
      else if dimensions c = 0 then Err (InvalidConfiguration ''dimensions must be positive'')
      else case cfg_balance c of None \<Rightarrow> Ok () | Some b \<Rightarrow> validate_balance b)"

definition validate_embedding :: "embedding \<Rightarrow> nat \<Rightarrow> unit clustering_result" where
  "validate_embedding emb n =
     (if length emb \<noteq> n
      then Err (MalformedInput (''expected embedding dimensionality '' @ show_nat n @ '', got ''
             @ show_nat (length emb)))
      else if list_ex (\<lambda>x. \<not> f32_is_finite x) emb
      then Err (MalformedInput ''embeddings must not contain NaN or infinite values'')
      else Ok ())"

text \<open>The provided method \<open>assign_batch\<close> of a classifier.\<close>

definition assign_batch ::
    "(embedding \<Rightarrow> cluster_id clustering_result) \<Rightarrow> embedding list \<Rightarrow> cluster_id list clustering_result" where
  "assign_batch assign embeddings = traverse assign embeddings"

section \<open>The trainer protocol\<close>

text \<open>A trainer as the operations of the trait; each hands back the trainer it leaves.\<close>

record ('t, 'c) trainer_ops =
  trainer_state_of :: "'t \<Rightarrow> trainer_state"
  ingest_batch :: "'t \<Rightarrow> embedding list \<Rightarrow> unit clustering_result \<times> 't"
  finish_pass :: "'t \<Rightarrow> pass_report clustering_result \<times> 't"
  complete_training :: "'t \<Rightarrow> unit clustering_result \<times> 't"
  into_classifier :: "'t \<Rightarrow> 'c clustering_result"

datatype trainer_call = IngestBatch "embedding list" | FinishPass | CompleteTraining

text \<open>One call: how it ended, without the report of a pass, and the trainer afterwards.\<close>

definition perform ::
    "('t, 'c) trainer_ops \<Rightarrow> trainer_call \<Rightarrow> 't \<Rightarrow> (clustering_error, unit) outcome \<times> 't" where
  "perform ops c t =
     (case c of
        IngestBatch es \<Rightarrow> ingest_batch ops t es
      | FinishPass \<Rightarrow> apfst (map_ok (\<lambda>_. ())) (finish_pass ops t)
      | CompleteTraining \<Rightarrow> complete_training ops t)"

fun perform_all ::
    "('t, 'c) trainer_ops \<Rightarrow> trainer_call list \<Rightarrow> 't \<Rightarrow> (clustering_error, unit) outcome list \<times> 't" where
  "perform_all ops [] t = ([], t)"
| "perform_all ops (c # cs) t =
     (let (r, t1) = perform ops c t; (rs, t2) = perform_all ops cs t1 in (r # rs, t2))"

text \<open>The automaton: may the call be made, and the state after it.\<close>

fun call_allowed :: "trainer_call \<Rightarrow> trainer_state \<Rightarrow> bool" where
  "call_allowed (IngestBatch _) st = (st \<in> {Idle, Ingesting, PassComplete})"
| "call_allowed FinishPass st = (st = Ingesting)"
| "call_allowed CompleteTraining st = (st = PassComplete)"

fun state_after :: "trainer_call \<Rightarrow> trainer_state \<Rightarrow> bool \<Rightarrow> trainer_state" where
  "state_after (IngestBatch es) st succeeded =
     (if call_allowed (IngestBatch es) st then Ingesting else ErrorState)"
| "state_after FinishPass st succeeded = (if succeeded then PassComplete else ErrorState)"
| "state_after CompleteTraining st succeeded = (if succeeded then TrainingComplete else ErrorState)"

fun automaton_run :: "trainer_call list \<Rightarrow> bool list \<Rightarrow> trainer_state \<Rightarrow> trainer_state" where
  "automaton_run (c # cs) (b # bs) st = automaton_run cs bs (state_after c st b)"
| "automaton_run _ _ st = st"

lemma perform_all_append:
  "perform_all ops (cs @ [c]) t =
     (let (rs, t1) = perform_all ops cs t; (r, t2) = perform ops c t1 in (rs @ [r], t2))"
  by (induction cs arbitrary: t) (auto simp: Let_def split: prod.splits)

locale streaming_trainer =
  fixes ops :: "('t, 'c) trainer_ops"
    and inv :: "'t \<Rightarrow> bool"
  assumes call_inv: "inv t \<Longrightarrow> perform ops c t = (r, t') \<Longrightarrow> inv t'"
    and call_no_panic: "inv t \<Longrightarrow> perform ops c t = (r, t') \<Longrightarrow> r \<noteq> Panic"
    and call_state: "inv t \<Longrightarrow> perform ops c t = (r, t') \<Longrightarrow>
        trainer_state_of ops t' = state_after c (trainer_state_of ops t) (is_ok r)"
    and call_refused: "inv t \<Longrightarrow> perform ops c t = (r, t') \<Longrightarrow>
        \<not> call_allowed c (trainer_state_of ops t) \<Longrightarrow> \<exists>m. r = Err (InvalidTransition (trainer_state_of ops t) m)"
    and complete_allowed: "inv t \<Longrightarrow> perform ops CompleteTraining t = (r, t') \<Longrightarrow>
        trainer_state_of ops t = PassComplete \<Longrightarrow> r = Ok ()"
    and classifier_iff: "inv t \<Longrightarrow>
        (\<exists>c. into_classifier ops t = Ok c) \<longleftrightarrow> trainer_state_of ops t = TrainingComplete"
begin

lemma run_inv: "perform_all ops cs t = (rs, t') \<Longrightarrow> inv t \<Longrightarrow> inv t' \<and> Panic \<notin> set rs \<and> length rs = length cs"
proof (induction cs arbitrary: t rs)
  case (Cons c cs)
  then obtain r t1 rs' where step: "perform ops c t = (r, t1)" and rest: "perform_all ops cs t1 = (rs', t')"
    and rs: "rs = r # rs'" by (auto split: prod.splits)
  from Cons.IH [OF rest call_inv [OF Cons.prems(2) step]] call_no_panic [OF Cons.prems(2) step] rs
  show ?case by simp
qed simp

lemma run_refines:
  "perform_all ops cs t = (rs, t') \<Longrightarrow> inv t \<Longrightarrow>
     trainer_state_of ops t' = automaton_run cs (map is_ok rs) (trainer_state_of ops t)"
proof (induction cs arbitrary: t rs)
  case (Cons c cs)
  then obtain r t1 rs' where step: "perform ops c t = (r, t1)" and rest: "perform_all ops cs t1 = (rs', t')"
    and rs: "rs = r # rs'" by (auto split: prod.splits)
  from Cons.IH [OF rest call_inv [OF Cons.prems(2) step]] call_state [OF Cons.prems(2) step] rs
  show ?case by simp
qed simp

lemma error_final:
  "perform_all ops cs t = (rs, t') \<Longrightarrow> inv t \<Longrightarrow> trainer_state_of ops t = ErrorState \<Longrightarrow>
     trainer_state_of ops t' = ErrorState \<and> (\<forall>r \<in> set rs. \<not> is_ok r)"
proof (induction cs arbitrary: t rs)
  case (Cons c cs)
  then obtain r t1 rs' where step: "perform ops c t = (r, t1)" and rest: "perform_all ops cs t1 = (rs', t')"
    and rs: "rs = r # rs'" by (auto split: prod.splits)
  have "\<not> call_allowed c ErrorState" by (cases c) auto
  then have "\<not> is_ok r" using call_refused [OF Cons.prems(2) step] Cons.prems(3) by (auto simp: is_ok_def)
  moreover have "trainer_state_of ops t1 = ErrorState"
    using call_state [OF Cons.prems(2) step] Cons.prems(3) \<open>\<not> is_ok r\<close> by (cases c) auto
  ultimately show ?case using Cons.IH [OF rest call_inv [OF Cons.prems(2) step]] rs by simp
qed simp

text \<open>
  A classifier exists only when the last two calls finished a pass and completed the training.
\<close>

lemma last_call:
  assumes "perform_all ops cs t = (rs, t')" and "inv t" and "trainer_state_of ops t = Idle"
    and "trainer_state_of ops t' \<notin> {Idle, Ingesting, ErrorState}"
  shows "\<exists>cs' c rs' t1. cs = cs' @ [c] \<and> rs = rs' @ [Ok ()] \<and> perform_all ops cs' t = (rs', t1) \<and>
    trainer_state_of ops t' = state_after c (trainer_state_of ops t1) True \<and>
    call_allowed c (trainer_state_of ops t1)"
proof -
  have "cs \<noteq> []" using assms(1,3,4) by auto
  then obtain cs' c where cs: "cs = cs' @ [c]" by (metis rev_exhaust)
  obtain rs' t1 where run: "perform_all ops cs' t = (rs', t1)" by fastforce
  obtain r t2 where step: "perform ops c t1 = (r, t2)" by fastforce
  have rs: "rs = rs' @ [r]" and "t2 = t'"
    using assms(1) by (simp_all add: cs perform_all_append run step)
  have inv1: "inv t1" using run_inv [OF run assms(2)] by simp
  note state = call_state [OF inv1 step]
  have "is_ok r"
    using state assms(4) \<open>t2 = t'\<close> by (cases c) (auto split: if_splits)
  moreover from this have "call_allowed c (trainer_state_of ops t1)"
    using call_refused [OF inv1 step] by (cases r) (auto simp: is_ok_def)
  ultimately show ?thesis
    using cs run rs \<open>t2 = t'\<close> state by (cases r) (auto simp: is_ok_def)
qed

lemma classifier_history:
  assumes run: "perform_all ops cs t = (rs, t')" and inv: "inv t" and idle: "trainer_state_of ops t = Idle"
    and classifier: "into_classifier ops t' = Ok c"
  shows "\<exists>cs' rs'. cs = cs' @ [FinishPass, CompleteTraining] \<and> rs = rs' @ [Ok (), Ok ()]"
proof -
  have "inv t'" using run_inv [OF run inv] by simp
  then have final: "trainer_state_of ops t' = TrainingComplete" using classifier classifier_iff by blast
  then have "trainer_state_of ops t' \<notin> {Idle, Ingesting, ErrorState}" by simp
  from last_call [OF run inv idle this] final obtain cs1 rs1 c1 t1 where
    cs: "cs = cs1 @ [c1]" and rs: "rs = rs1 @ [Ok ()]" and run1: "perform_all ops cs1 t = (rs1, t1)"
    and st: "state_after c1 (trainer_state_of ops t1) True = TrainingComplete"
    and allowed: "call_allowed c1 (trainer_state_of ops t1)" by (elim exE conjE) simp
  from st have c1: "c1 = CompleteTraining" by (cases c1) (auto split: if_splits)
  with allowed have passed: "trainer_state_of ops t1 = PassComplete" by simp
  then have "trainer_state_of ops t1 \<notin> {Idle, Ingesting, ErrorState}" by simp
  from last_call [OF run1 inv idle this] passed obtain cs2 rs2 c2 t2 where
    cs1: "cs1 = cs2 @ [c2]" and rs1: "rs1 = rs2 @ [Ok ()]"
    and st1: "state_after c2 (trainer_state_of ops t2) True = PassComplete" by (elim exE conjE) simp
  from st1 have "c2 = FinishPass" by (cases c2) (auto split: if_splits)
  with cs rs cs1 rs1 c1 show ?thesis by simp
qed

end

end
