(* ===== verification/Dcbc_Solver.thy ===== *)
theory Dcbc_Solver
  imports Clustering
begin

text \<open>
  The assignment solver of balanced clustering (\<open>src/crates/lexongraph-dcbc-streaming/src/solver.rs\<close>):
  points are assigned to clusters by a min-cost flow with successive shortest paths, and among the
  optimal assignments the lexicographically least is chosen point by point. The lemmas show that the
  flow loop ends and stays within the bounds of its arrays, that a chosen assignment respects the
  occupancy bounds, and that its cost is the optimum the first flow found, up to \<open>EPSILON\<close>.

  \<open>usize::MAX\<close> as the mark of an unset predecessor or assignment is \<open>None\<close>. An addition or
  subtraction of \<open>usize\<close> outside its range is a panic.
\<close>

section \<open>Costs\<close>

text \<open>\<open>1e-12\<close>.\<close>

definition epsilon :: f64 where
  "epsilon = 0x3D719799812DEA11"

definition constraint_error :: "string \<Rightarrow> clustering_error" where
  "constraint_error m = UnsatisfiableConstraint m"

definition costs_equal :: "f64 \<Rightarrow> f64 \<Rightarrow> bool" where
  "costs_equal l r = f64_less (f64_abs (f64_sub l r)) epsilon"

definition assignment_cost :: "f64 list \<Rightarrow> nat \<Rightarrow> nat list \<Rightarrow> f64 clustering_result" where
  "assignment_cost distances clusters assignment =
     for_each (\<lambda>(point_index, cluster_index) total.
       and_then (ok_or (case checked_mul point_index clusters of
                          None \<Rightarrow> None | Some v \<Rightarrow> checked_add v cluster_index)
                   (constraint_error ''assignment cost indexing overflowed'')) (\<lambda>offset.
         if offset < length distances then Ok (f64_add total (distances ! offset))
         else Err (constraint_error ''assignment referenced a missing distance entry'')))
       (List.enumerate 0 assignment) 0"

section \<open>The flow network\<close>

record edge =
  e_to :: nat
  e_rev :: nat
  e_capacity :: nat
  e_cost :: f64

type_synonym flow_graph = "edge list list"

definition new_flow :: "nat \<Rightarrow> flow_graph" where
  "new_flow node_count = replicate node_count []"

definition add_edge ::
    "nat \<Rightarrow> nat \<Rightarrow> nat \<Rightarrow> f64 \<Rightarrow> flow_graph \<Rightarrow> flow_graph clustering_result" where
  "add_edge from_node to_node capacity cost g =
     and_then (index_at g to_node) (\<lambda>to_edges.
     and_then (index_at g from_node) (\<lambda>from_edges.
       let forward_rev = length to_edges; backward_rev = length from_edges;
           g1 = g[from_node := from_edges
                    @ [\<lparr>e_to = to_node, e_rev = forward_rev, e_capacity = capacity, e_cost = cost\<rparr>]]
       in Ok (g1[to_node := g1 ! to_node
                    @ [\<lparr>e_to = from_node, e_rev = backward_rev, e_capacity = 0, e_cost = f64_neg cost\<rparr>]])))"

section \<open>Shortest paths\<close>

record relaxation =
  rx_dist :: "f64 list"
  rx_prev_node :: "nat option list"
  rx_prev_edge :: "nat option list"
  rx_updated :: bool

definition relax_edge ::
    "nat \<Rightarrow> nat \<Rightarrow> nat \<times> edge \<Rightarrow> relaxation \<Rightarrow> relaxation clustering_result" where
  "relax_edge source node = (\<lambda>(edge_index, e) st.
     if e_capacity e = 0 \<or> e_to e = source then Ok st
     else
       and_then (index_at (rx_dist st) node) (\<lambda>dist_node.
       and_then (index_at (rx_dist st) (e_to e)) (\<lambda>dist_to.
         let candidate = f64_add dist_node (e_cost e) in
         if f64_less (f64_add candidate epsilon) dist_to
         then Ok (st\<lparr>rx_dist := (rx_dist st)[e_to e := candidate],
                     rx_prev_node := (rx_prev_node st)[e_to e := Some node],
                     rx_prev_edge := (rx_prev_edge st)[e_to e := Some edge_index],
                     rx_updated := True\<rparr>)
         else Ok st)))"

definition relax_node :: "flow_graph \<Rightarrow> nat \<Rightarrow> nat \<Rightarrow> relaxation \<Rightarrow> relaxation clustering_result" where
  "relax_node g source node st =
     and_then (index_at (rx_dist st) node) (\<lambda>dist_node.
       if \<not> f64_is_finite dist_node then Ok st
       else and_then (index_at g node) (\<lambda>edges.
              for_each (relax_edge source node) (List.enumerate 0 edges) st))"

fun relax_rounds :: "flow_graph \<Rightarrow> nat \<Rightarrow> nat \<Rightarrow> relaxation \<Rightarrow> relaxation clustering_result" where
  "relax_rounds g source 0 st = Ok st"
| "relax_rounds g source (Suc k) st =
     and_then (for_each (relax_node g source) [0..<length g] (st\<lparr>rx_updated := False\<rparr>)) (\<lambda>st'.
       if rx_updated st' then relax_rounds g source k st' else Ok st')"

definition start_relaxation :: "nat \<Rightarrow> nat \<Rightarrow> relaxation clustering_result" where
  "start_relaxation node_count source =
     (if source < node_count
      then Ok \<lparr>rx_dist = (replicate node_count f64_infinity)[source := 0],
               rx_prev_node = replicate node_count None, rx_prev_edge = replicate node_count None,
               rx_updated = False\<rparr>
      else Panic)"

definition shortest_paths :: "flow_graph \<Rightarrow> nat \<Rightarrow> relaxation clustering_result" where
  "shortest_paths g source =
     and_then (start_relaxation (length g) source)
       (relax_rounds g source (saturating_sub (length g) 1))"

text \<open>After the rounds no edge may still shorten a distance.\<close>

definition check_residual :: "flow_graph \<Rightarrow> relaxation \<Rightarrow> unit clustering_result" where
  "check_residual g st =
     for_each (\<lambda>node _.
       and_then (index_at (rx_dist st) node) (\<lambda>dist_node.
         if \<not> f64_is_finite dist_node then Ok ()
         else
           and_then (index_at g node) (\<lambda>edges.
             for_each (\<lambda>e _.
               if e_capacity e = 0 then Ok ()
               else
                 and_then (index_at (rx_dist st) (e_to e)) (\<lambda>dist_to.
                   if f64_less (f64_add (f64_add dist_node (e_cost e)) epsilon) dist_to
                   then Err (constraint_error ''negative-cost residual cycle detected in assignment solver'')
                   else Ok ())) edges ())))
       [0..<length g] ()"

section \<open>Augmenting paths\<close>

text \<open>The step into a node along its recorded predecessor: the parent, the edge and its index.\<close>

definition predecessor ::
    "flow_graph \<Rightarrow> relaxation \<Rightarrow> nat \<Rightarrow> (nat \<times> nat \<times> edge) clustering_result" where
  "predecessor g st node =
     and_then (index_at (rx_prev_node st) node) (\<lambda>p.
     and_then (index_at (rx_prev_edge st) node) (\<lambda>i.
       case (p, i) of
         (Some parent, Some edge_index) \<Rightarrow>
           and_then (index_at g parent) (\<lambda>edges.
           and_then (index_at edges edge_index) (\<lambda>e. Ok (parent, edge_index, e)))
       | _ \<Rightarrow> Panic))"

text \<open>
  The two walks from the sink to the source. Both count their steps and give up past the number of
  nodes; \<open>remaining\<close> is what is left of that number.
\<close>

fun path_capacity ::
    "flow_graph \<Rightarrow> relaxation \<Rightarrow> nat \<Rightarrow> nat \<Rightarrow> nat \<Rightarrow> nat \<Rightarrow> nat clustering_result" where
  "path_capacity g st source remaining node augment =
     (if node = source then Ok augment
      else case remaining of
             0 \<Rightarrow> Err (constraint_error ''assignment solver predecessor chain became cyclic'')
           | Suc rest \<Rightarrow>
               and_then (predecessor g st node) (\<lambda>(parent, edge_index, e).
                 path_capacity g st source rest parent (min augment (e_capacity e))))"

definition set_capacity :: "nat \<Rightarrow> nat \<Rightarrow> nat \<Rightarrow> flow_graph \<Rightarrow> flow_graph" where
  "set_capacity node i c g = g[node := (g ! node)[i := (g ! node ! i)\<lparr>e_capacity := c\<rparr>]]"

definition push_edge ::
    "nat \<Rightarrow> nat \<Rightarrow> nat \<Rightarrow> edge \<Rightarrow> nat \<Rightarrow> flow_graph \<Rightarrow> flow_graph clustering_result" where
  "push_edge node parent edge_index e augment g =
     (if e_capacity e < augment then Panic
      else
        let g1 = set_capacity parent edge_index (e_capacity e - augment) g in
        and_then (index_at g1 node) (\<lambda>edges.
        and_then (index_at edges (e_rev e)) (\<lambda>back.
        and_then (expect_some (checked_add (e_capacity back) augment)) (\<lambda>c.
          Ok (set_capacity node (e_rev e) c g1)))))"

fun push_path ::
    "relaxation \<Rightarrow> nat \<Rightarrow> nat \<Rightarrow> nat \<Rightarrow> nat \<Rightarrow> flow_graph \<Rightarrow> flow_graph clustering_result" where
  "push_path st source augment remaining node g =
     (if node = source then Ok g
      else case remaining of
             0 \<Rightarrow> Err (constraint_error ''assignment solver predecessor chain became cyclic'')
           | Suc rest \<Rightarrow>
               and_then (predecessor g st node) (\<lambda>(parent, edge_index, e).
               and_then (push_edge node parent edge_index e augment g)
                 (push_path st source augment rest parent)))"

declare path_capacity.simps [simp del] push_path.simps [simp del]

text \<open>One round of the flow loop: nothing when the sink is out of reach.\<close>

definition augment_round ::
    "flow_graph \<Rightarrow> nat \<Rightarrow> nat \<Rightarrow> nat \<Rightarrow> (nat \<times> flow_graph) option clustering_result" where
  "augment_round g source sink wanted =
     and_then (shortest_paths g source) (\<lambda>st.
     and_then (index_at (rx_prev_node st) sink) (\<lambda>p.
       if p = None then Ok None
       else
         and_then (check_residual g st) (\<lambda>_.
         and_then (path_capacity g st source (length g) sink wanted) (\<lambda>augment.
         and_then (push_path st source augment (length g) sink g) (\<lambda>g'.
           Ok (Some (augment, g')))))))"

section \<open>Recorded predecessors\<close>

text \<open>
  What holds of a relaxation of \<open>g\<close>: every recorded predecessor is an edge of \<open>g\<close> with capacity
  that leads to the node, from the source or from a node that has a predecessor itself.
\<close>

definition prev_ok :: "flow_graph \<Rightarrow> relaxation \<Rightarrow> nat \<Rightarrow> nat \<Rightarrow> bool" where
  "prev_ok g st source n =
     (case rx_prev_node st ! n of
        None \<Rightarrow> True
      | Some p \<Rightarrow>
          p < length g \<and> (p = source \<or> rx_prev_node st ! p \<noteq> None) \<and>
          (\<exists>i. rx_prev_edge st ! n = Some i \<and> i < length (g ! p) \<and> e_to (g ! p ! i) = n \<and>
            0 < e_capacity (g ! p ! i)))"

definition rx_inv :: "flow_graph \<Rightarrow> nat \<Rightarrow> relaxation \<Rightarrow> bool" where
  "rx_inv g source st \<longleftrightarrow>
     length (rx_dist st) = length g \<and> length (rx_prev_node st) = length g \<and>
     length (rx_prev_edge st) = length g \<and>
     (\<forall>n < length g. prev_ok g st source n) \<and>
     (\<forall>n < length g. f64_is_finite (rx_dist st ! n) \<longrightarrow> n = source \<or> rx_prev_node st ! n \<noteq> None)"

lemma prev_ok_update:
  assumes "prev_ok g st source n" and "n < length (rx_prev_node st)" and "m < length (rx_prev_node st)"
    and "length (rx_prev_edge st) = length (rx_prev_node st)"
    and "node < length g" and "node = source \<or> rx_prev_node st ! node \<noteq> None"
    and "i < length (g ! node)" and "e_to (g ! node ! i) = m" and "0 < e_capacity (g ! node ! i)"
    and prev: "rx_prev_node st' = (rx_prev_node st)[m := Some node]"
    and edge: "rx_prev_edge st' = (rx_prev_edge st)[m := Some i]"
  shows "prev_ok g st' source n"
proof (cases "n = m")
  case True
  then show ?thesis using assms unfolding prev_ok_def prev edge by (auto simp: nth_list_update)
next
  case False
  then show ?thesis using assms(1,3) unfolding prev_ok_def prev edge
    by (auto simp: nth_list_update split: option.splits)
qed

lemma relax_edge_inv:
  assumes inv: "rx_inv g source st" and "node < length g"
    and seen: "node = source \<or> rx_prev_node st ! node \<noteq> None"
    and edge: "i < length (g ! node)" "e = g ! node ! i"
    and ok: "relax_edge source node (i, e) st = Ok st'"
  shows "rx_inv g source st' \<and> (node = source \<or> rx_prev_node st' ! node \<noteq> None)"
proof (cases "st' = st")
  case False
  let ?m = "e_to e" and ?c = "f64_add (rx_dist st ! node) (e_cost e)"
  have m: "?m < length g" and cap: "0 < e_capacity e"
    and st': "st' = st\<lparr>rx_dist := (rx_dist st)[?m := ?c], rx_prev_node := (rx_prev_node st)[?m := Some node],
                      rx_prev_edge := (rx_prev_edge st)[?m := Some i], rx_updated := True\<rparr>"
    using ok False inv by (auto simp: relax_edge_def outcome_simps Let_def rx_inv_def split: if_splits)
  have len: "length (rx_dist st) = length g" "length (rx_prev_node st) = length g"
    "length (rx_prev_edge st) = length g" using inv by (auto simp: rx_inv_def)
  have "prev_ok g st' source n" if "n < length g" for n
    by (rule prev_ok_update [where m = ?m and node = node and i = i and st = st])
      (use inv that m cap edge len assms(2) seen in \<open>auto simp: rx_inv_def st'\<close>)
  moreover have "n = source \<or> rx_prev_node st' ! n \<noteq> None"
    if "n < length g" and "f64_is_finite (rx_dist st' ! n)" for n
    using that inv m len by (cases "n = ?m") (auto simp: st' rx_inv_def)
  ultimately show ?thesis
    using len m seen assms(2) by (auto simp: rx_inv_def st' nth_list_update)
qed (use inv seen in simp)

lemma relax_node_inv:
  assumes inv: "rx_inv g source st" and node: "node < length g" and ok: "relax_node g source node st = Ok st'"
  shows "rx_inv g source st'"
proof (cases "f64_is_finite (rx_dist st ! node)")
  case True
  then have run: "for_each (relax_edge source node) (List.enumerate 0 (g ! node)) st = Ok st'"
    using ok inv node by (auto simp: relax_node_def outcome_simps split: if_splits)
  have start: "rx_inv g source st \<and> (node = source \<or> rx_prev_node st ! node \<noteq> None)"
    using inv True node by (auto simp: rx_inv_def)
  have "rx_inv g source st' \<and> (node = source \<or> rx_prev_node st' ! node \<noteq> None)"
  proof (rule for_each_invariant [where P = "\<lambda>st. rx_inv g source st \<and> (node = source \<or> rx_prev_node st ! node \<noteq> None)",
        OF run start])
    fix x s s'
    assume "x \<in> set (List.enumerate 0 (g ! node))"
      and "rx_inv g source s \<and> (node = source \<or> rx_prev_node s ! node \<noteq> None)"
      and "relax_edge source node x s = Ok s'"
    then show "rx_inv g source s' \<and> (node = source \<or> rx_prev_node s' ! node \<noteq> None)"
      by (intro relax_edge_inv [OF _ node, of source s "fst x" "snd x"]) (auto simp: in_set_enumerate_eq)
  qed
  then show ?thesis by simp
next
  case False
  then show ?thesis using ok inv node by (auto simp: relax_node_def outcome_simps rx_inv_def)
qed

lemma rx_inv_updated [simp]: "rx_inv g source (st\<lparr>rx_updated := b\<rparr>) = rx_inv g source st"
  by (simp add: rx_inv_def prev_ok_def cong: option.case_cong)

lemma relax_rounds_inv:
  "relax_rounds g source k st = Ok st' \<Longrightarrow> rx_inv g source st \<Longrightarrow> rx_inv g source st'"
proof (induction k arbitrary: st)
  case (Suc k)
  then obtain st1 where run: "for_each (relax_node g source) [0..<length g] (st\<lparr>rx_updated := False\<rparr>) = Ok st1"
    and rest: "(if rx_updated st1 then relax_rounds g source k st1 else Ok st1) = Ok st'"
    by (auto simp: outcome_simps)
  have "rx_inv g source st1"
    by (rule for_each_invariant [where P = "rx_inv g source", OF run]) (use Suc.prems relax_node_inv in auto)
  with Suc.IH rest show ?case by (auto split: if_splits)
qed simp

lemma f64_infinity_not_finite [simp]: "\<not> f64_is_finite f64_infinity"
  by (simp add: f64_infinity_def f64_is_finite_def f64_decode_def fl_decode_def fl_decode_mag_def
      fl_sign_bit_def Let_def)

lemma start_inv: "start_relaxation (length g) source = Ok st \<Longrightarrow> rx_inv g source st"
  by (auto simp: start_relaxation_def rx_inv_def prev_ok_def nth_list_update split: if_splits)

lemma shortest_paths_inv: "shortest_paths g source = Ok st \<Longrightarrow> rx_inv g source st"
  by (auto simp: shortest_paths_def outcome_simps dest: start_inv intro: relax_rounds_inv)

section \<open>Every round sends something\<close>

lemma predecessor_Ok:
  assumes "rx_inv g source st" and "n < length g"
    and "predecessor g st n = Ok (p, i, e)"
  shows "rx_prev_node st ! n = Some p" and "rx_prev_edge st ! n = Some i" and "p < length g"
    and "i < length (g ! p)" and "e = g ! p ! i" and "e_to e = n" and "0 < e_capacity e"
proof -
  have *: "rx_prev_node st ! n = Some p \<and> rx_prev_edge st ! n = Some i \<and> p < length g \<and>
      i < length (g ! p) \<and> e = g ! p ! i"
    using assms(3) by (auto simp: predecessor_def outcome_simps split: option.splits)
  moreover have "prev_ok g st source n" using assms(1,2) by (simp add: rx_inv_def)
  ultimately have "e_to e = n \<and> 0 < e_capacity e" by (auto simp: prev_ok_def)
  with * show "rx_prev_node st ! n = Some p" "rx_prev_edge st ! n = Some i" "p < length g"
    "i < length (g ! p)" "e = g ! p ! i" "e_to e = n" "0 < e_capacity e" by auto
qed

lemma path_capacity_pos:
  assumes "rx_inv g source st" and "path_capacity g st source k n a = Ok b"
    and "n < length g" and "0 < a"
  shows "0 < b"
  using assms(2-)
proof (induction k arbitrary: n a)
  case 0
  then show ?case by (simp add: path_capacity.simps [of g st source 0] split: if_splits)
next
  case (Suc k)
  show ?case
  proof (cases "n = source")
    case True
    with Suc.prems show ?thesis by (simp add: path_capacity.simps [of g st source "Suc k"])
  next
    case False
    with Suc.prems(1) obtain p i e where pred: "predecessor g st n = Ok (p, i, e)"
      and rest: "path_capacity g st source k p (min a (e_capacity e)) = Ok b"
      by (auto simp: path_capacity.simps [of g st source "Suc k"] outcome_simps)
    note facts = predecessor_Ok [OF assms(1) Suc.prems(2) pred]
    show ?thesis by (rule Suc.IH [OF rest facts(3)]) (use facts(7) Suc.prems(3) in simp)
  qed
qed

lemma augment_round_pos:
  assumes "augment_round g source sink wanted = Ok (Some (a, g'))" and "0 < wanted"
  shows "0 < a"
proof -
  obtain st where st: "shortest_paths g source = Ok st" and "sink < length (rx_prev_node st)"
    and "path_capacity g st source (length g) sink wanted = Ok a"
    using assms(1) by (auto simp: augment_round_def outcome_simps split: if_splits)
  moreover have "rx_inv g source st" using shortest_paths_inv [OF st] .
  ultimately show ?thesis using path_capacity_pos assms(2) by (simp add: rx_inv_def)
qed

section \<open>Sending flow\<close>

function send_flow_loop ::
    "nat \<Rightarrow> nat \<Rightarrow> nat \<Rightarrow> flow_graph \<Rightarrow> nat \<Rightarrow> (nat \<times> flow_graph) clustering_result" where
  "send_flow_loop source sink target_flow g sent =
     (if sent < target_flow
      then and_then (augment_round g source sink (target_flow - sent)) (\<lambda>r.
             case r of
               None \<Rightarrow> Ok (sent, g)
             | Some (augment, g') \<Rightarrow> send_flow_loop source sink target_flow g' (sent + augment))
      else Ok (sent, g))"
  by pat_completeness auto

termination send_flow_loop
  by (relation "measure (\<lambda>(_, _, target_flow, _, sent). target_flow - sent)")
    (auto dest: augment_round_pos)

declare send_flow_loop.simps [simp del]

definition send_flow ::
    "nat \<Rightarrow> nat \<Rightarrow> nat \<Rightarrow> flow_graph \<Rightarrow> (nat \<times> flow_graph) clustering_result" where
  "send_flow source sink target_flow g = send_flow_loop source sink target_flow g 0"

section \<open>One assignment problem\<close>

text \<open>
  The first loop of \<open>solve_subproblem\<close>: the occupancy the fixed points commit, and the points left to
  assign; nothing when a fixed cluster is unknown or overfull.
\<close>

fun commit_fixed ::
    "nat \<Rightarrow> nat list \<Rightarrow> nat list \<Rightarrow> (nat \<times> nat option) list \<Rightarrow> (nat list \<times> nat list) option" where
  "commit_fixed max_size committed remaining [] = Some (committed, remaining)"
| "commit_fixed max_size committed remaining ((point, None) # rest) =
     commit_fixed max_size committed (remaining @ [point]) rest"
| "commit_fixed max_size committed remaining ((point, Some cluster) # rest) =
     (if cluster < length committed
      then let committed' = committed[cluster := committed ! cluster + 1]
           in if max_size < committed' ! cluster then None
              else commit_fixed max_size committed' remaining rest
      else None)"

text \<open>
  What each cluster still needs and can still take, with the sums of both, which panic past
  \<open>usize::MAX\<close>; nothing when a cluster needs more than it can take.
\<close>

fun remaining_bounds ::
    "nat \<Rightarrow> nat \<Rightarrow> nat list \<Rightarrow> (nat \<times> nat) list \<Rightarrow> nat \<Rightarrow> nat
       \<Rightarrow> ((nat \<times> nat) list \<times> nat \<times> nat) option clustering_result" where
  "remaining_bounds min_size max_size [] bounds required available =
     Ok (Some (bounds, required, available))"
| "remaining_bounds min_size max_size (c # cs) bounds required available =
     (let lower = saturating_sub min_size c; upper = saturating_sub max_size c in
      if upper < lower then Ok None
      else
        and_then (expect_some (checked_add required lower)) (\<lambda>required'.
        and_then (expect_some (checked_add available upper)) (\<lambda>available'.
          remaining_bounds min_size max_size cs (bounds @ [(lower, upper)]) required' available')))"

definition optional_capacity_penalty :: f64 where
  "optional_capacity_penalty = 0x4020000000000000"

definition add_point_edges ::
    "f64 list \<Rightarrow> nat \<Rightarrow> nat \<Rightarrow> nat \<times> nat \<Rightarrow> flow_graph \<Rightarrow> flow_graph clustering_result" where
  "add_point_edges distances clusters cluster_base = (\<lambda>(point_offset, point) g.
     and_then (add_edge 0 (1 + point_offset) 1 0 g)
       (for_each (\<lambda>cluster_index g.
          and_then (index_at distances (point * clusters + cluster_index)) (\<lambda>cost.
            add_edge (1 + point_offset) (cluster_base + cluster_index) 1 cost g)) [0..<clusters]))"

definition add_cluster_edges ::
    "nat \<Rightarrow> nat \<Rightarrow> nat \<times> nat \<times> nat \<Rightarrow> flow_graph \<Rightarrow> flow_graph clustering_result" where
  "add_cluster_edges cluster_base sink = (\<lambda>(cluster_index, lower, upper) g.
     and_then (if 0 < lower then add_edge (cluster_base + cluster_index) sink lower 0 g else Ok g) (\<lambda>g.
       if 0 < upper - lower
       then add_edge (cluster_base + cluster_index) sink (upper - lower) optional_capacity_penalty g
       else Ok g))"

definition build_network ::
    "f64 list \<Rightarrow> nat \<Rightarrow> nat list \<Rightarrow> (nat \<times> nat) list \<Rightarrow> flow_graph clustering_result" where
  "build_network distances clusters remaining bounds =
     (let cluster_base = 1 + length remaining; sink = cluster_base + clusters in
      and_then (for_each (add_point_edges distances clusters cluster_base) (List.enumerate 0 remaining)
                  (new_flow (sink + 1)))
        (for_each (add_cluster_edges cluster_base sink) (List.enumerate 0 bounds)))"

text \<open>The cluster a point node sends its flow to: its first edge into the clusters that is used.\<close>

fun assigned_cluster ::
    "flow_graph \<Rightarrow> nat \<Rightarrow> nat \<Rightarrow> edge list \<Rightarrow> nat option clustering_result" where
  "assigned_cluster g cluster_base sink [] = Ok None"
| "assigned_cluster g cluster_base sink (e # es) =
     (if e_to e < cluster_base \<or> sink \<le> e_to e then assigned_cluster g cluster_base sink es
      else
        and_then (index_at g (e_to e)) (\<lambda>edges.
        and_then (index_at edges (e_rev e)) (\<lambda>back.
          if e_capacity back = 1 then Ok (Some (e_to e - cluster_base))
          else assigned_cluster g cluster_base sink es)))"

text \<open>The loop over the remaining points; nothing when one of them has no cluster.\<close>

fun read_assignment ::
    "flow_graph \<Rightarrow> nat \<Rightarrow> nat \<Rightarrow> (nat \<times> nat) list \<Rightarrow> nat option list
       \<Rightarrow> nat option list option clustering_result" where
  "read_assignment g cluster_base sink [] assignment = Ok (Some assignment)"
| "read_assignment g cluster_base sink ((point_offset, point) # rest) assignment =
     and_then (index_at g (1 + point_offset)) (\<lambda>edges.
     and_then (assigned_cluster g cluster_base sink edges) (\<lambda>c.
       case c of
         None \<Rightarrow> Ok None
       | Some cluster_index \<Rightarrow>
           if point < length assignment
           then read_assignment g cluster_base sink rest (assignment[point := Some cluster_index])
           else Panic))"

definition initial_assignment :: "nat \<Rightarrow> nat option list \<Rightarrow> nat option list clustering_result" where
  "initial_assignment points fixed =
     for_each (\<lambda>(point, c) assignment.
       case c of
         None \<Rightarrow> Ok assignment
       | Some cluster \<Rightarrow>
           if point < length assignment then Ok (assignment[point := Some cluster]) else Panic)
       (List.enumerate 0 fixed) (replicate points None)"

definition solve_subproblem ::
    "f64 list \<Rightarrow> nat \<Rightarrow> nat \<Rightarrow> nat \<Rightarrow> nat \<Rightarrow> nat option list \<Rightarrow> f64 option clustering_result" where
  "solve_subproblem distances points clusters min_size max_size fixed =
     (case commit_fixed max_size (replicate clusters 0) [] (List.enumerate 0 fixed) of
        None \<Rightarrow> Ok None
      | Some (committed, remaining) \<Rightarrow>
          and_then (remaining_bounds min_size max_size committed [] 0 0) (\<lambda>b.
            case b of
              None \<Rightarrow> Ok None
            | Some (bounds, required, available) \<Rightarrow>
                if length remaining < required \<or> available < length remaining then Ok None
                else
                  let cluster_base = 1 + length remaining; sink = cluster_base + clusters in
                  and_then (build_network distances clusters remaining bounds) (\<lambda>g.
                  and_then (send_flow 0 sink (length remaining) g) (\<lambda>(sent, g').
                    if sent \<noteq> length remaining then Ok None
                    else
                      and_then (initial_assignment points fixed) (\<lambda>assignment0.
                      and_then (read_assignment g' cluster_base sink (List.enumerate 0 remaining) assignment0)
                        (\<lambda>r. case r of
                           None \<Rightarrow> Ok None
                         | Some assignment \<Rightarrow>
                             if None \<in> set assignment then Ok None
                             else map_ok Some (assignment_cost distances clusters (map the assignment))))))))"

section \<open>The lexicographically least optimum\<close>

text \<open>The first cluster of a point that keeps the optimal cost.\<close>

fun choose_cluster ::
    "f64 list \<Rightarrow> nat \<Rightarrow> nat \<Rightarrow> nat \<Rightarrow> nat \<Rightarrow> f64 \<Rightarrow> nat option list \<Rightarrow> nat \<Rightarrow> nat list
       \<Rightarrow> nat option clustering_result" where
  "choose_cluster distances points clusters min_size max_size optimal fixed point [] = Ok None"
| "choose_cluster distances points clusters min_size max_size optimal fixed point (c # cs) =
     and_then (solve_subproblem distances points clusters min_size max_size (fixed[point := Some c])) (\<lambda>r.
       if (case r of None \<Rightarrow> False | Some cost \<Rightarrow> costs_equal cost optimal) then Ok (Some c)
       else choose_cluster distances points clusters min_size max_size optimal fixed point cs)"

definition fix_point ::
    "f64 list \<Rightarrow> nat \<Rightarrow> nat \<Rightarrow> nat \<Rightarrow> nat \<Rightarrow> f64 \<Rightarrow> nat \<Rightarrow> nat option list
       \<Rightarrow> nat option list clustering_result" where
  "fix_point distances points clusters min_size max_size optimal point fixed =
     and_then (choose_cluster distances points clusters min_size max_size optimal fixed point [0..<clusters])
       (\<lambda>chosen. case chosen of
          None \<Rightarrow> Err (constraint_error
                    ''the assignment solver could not preserve the lexicographically minimal optimum'')
        | Some c \<Rightarrow> Ok (fixed[point := Some c]))"

definition solve_lexicographic_assignment ::
    "f64 list \<Rightarrow> nat \<Rightarrow> nat \<Rightarrow> nat \<Rightarrow> nat \<Rightarrow> nat list clustering_result" where
  "solve_lexicographic_assignment distances points clusters min_size max_size =
     and_then (solve_subproblem distances points clusters min_size max_size (replicate points None)) (\<lambda>r.
     and_then (ok_or r (constraint_error
                 ''the assignment solver could not produce a feasible assignment'')) (\<lambda>optimal.
     and_then (for_each (fix_point distances points clusters min_size max_size optimal) [0..<points]
                 (replicate points None)) (\<lambda>fixed.
       if None \<in> set fixed
       then Err (constraint_error ''the assignment solver failed to finalize all assignments'')
       else Ok (map the fixed))))"

section \<open>A chosen assignment is balanced and keeps the optimum\<close>

lemma commit_fixed_spec:
  assumes "commit_fixed max_size com rem (List.enumerate k fixed) = Some (com', rem')"
    and "\<forall>c < length com. com ! c \<le> max_size"
  shows "length com' = length com \<and> (\<forall>c < length com. com' ! c = com ! c + count_list fixed (Some c) \<and> com' ! c \<le> max_size) \<and>
    (\<forall>c. Some c \<in> set fixed \<longrightarrow> c < length com) \<and>
    rem' = rem @ map fst (filter (\<lambda>(_, f). f = None) (List.enumerate k fixed))"
  using assms
proof (induction fixed arbitrary: k com rem)
  case (Cons f fixed)
  show ?case
  proof (cases f)
    case None
    from Cons.IH [of com "rem @ [k]" "Suc k"] Cons.prems None show ?thesis by auto
  next
    case (Some c)
    let ?com = "com[c := com ! c + 1]"
    from Cons.prems(1) Some have c: "c < length com" and le: "?com ! c \<le> max_size"
      and rest: "commit_fixed max_size ?com rem (List.enumerate (Suc k) fixed) = Some (com', rem')"
      by (auto simp: Let_def split: if_splits)
    have "\<forall>c' < length ?com. ?com ! c' \<le> max_size"
      using Cons.prems(2) le c by (auto simp: nth_list_update)
    from Cons.IH [OF rest this] c Some show ?thesis by (auto simp: nth_list_update)
  qed
qed simp

lemma remaining_bounds_spec:
  assumes "remaining_bounds lo hi cs bs r a = Ok (Some (bs', r', a'))"
  shows "bs' = bs @ map (\<lambda>c. (saturating_sub lo c, saturating_sub hi c)) cs \<and>
    r' = r + sum_list (map (saturating_sub lo) cs) \<and> a' = a + sum_list (map (saturating_sub hi) cs) \<and>
    (\<forall>c \<in> set cs. saturating_sub lo c \<le> saturating_sub hi c)"
  using assms
proof (induction cs arbitrary: bs r a)
  case (Cons c cs)
  then have rest: "remaining_bounds lo hi cs (bs @ [(saturating_sub lo c, saturating_sub hi c)])
      (r + saturating_sub lo c) (a + saturating_sub hi c) = Ok (Some (bs', r', a'))"
    and "saturating_sub lo c \<le> saturating_sub hi c"
    by (auto simp: Let_def outcome_simps split: if_splits)
  with Cons.IH [OF rest] show ?case by simp
qed simp

lemma initial_assignment_loop:
  assumes "length pre = k" and "length rest = length fixed"
  shows "for_each (\<lambda>(point, c) assignment.
       case c of
         None \<Rightarrow> Ok assignment
       | Some cluster \<Rightarrow>
           if point < length assignment then Ok (assignment[point := Some cluster]) else Panic)
       (List.enumerate k fixed) (pre @ rest) =
    Ok (pre @ map (\<lambda>(f, r). if f = None then r else f) (zip fixed rest))"
  using assms
proof (induction fixed arbitrary: k pre rest)
  case (Cons f fixed)
  then obtain r rest' where rest: "rest = r # rest'" by (cases rest) auto
  show ?case
  proof (cases f)
    case None
    with Cons.IH [of "pre @ [r]" "Suc k" rest'] Cons.prems rest show ?thesis by simp
  next
    case (Some c)
    with Cons.IH [of "pre @ [f]" "Suc k" rest'] Cons.prems rest show ?thesis
      by (simp add: list_update_append)
  qed
qed simp

lemma initial_assignment_fixed:
  assumes "length fixed = points" and "None \<notin> set fixed"
  shows "initial_assignment points fixed = Ok fixed"
proof -
  have "map (\<lambda>(f, r). if f = None then r else f) (zip fixed (replicate points None)) = fixed"
    using assms by (intro nth_equalityI) (auto simp: in_set_conv_nth)
  then show ?thesis
    using initial_assignment_loop [of "[]" 0 "replicate points None" fixed] assms(1)
    by (simp add: initial_assignment_def)
qed

definition occupancy :: "nat list \<Rightarrow> nat \<Rightarrow> nat" where
  "occupancy assignment c = count_list assignment c"

lemma count_list_Some: "count_list (map Some xs) (Some c) = count_list xs c"
  by (induction xs) auto

lemma solve_all_fixed:
  assumes "solve_subproblem distances points clusters lo hi (map Some xs) = Ok (Some cost)"
    and "length xs = points"
  shows "(\<forall>c < clusters. lo \<le> occupancy xs c \<and> occupancy xs c \<le> hi) \<and> (\<forall>c \<in> set xs. c < clusters) \<and>
    assignment_cost distances clusters xs = Ok cost"
proof -
  let ?fixed = "map Some xs"
  obtain com rem where commit: "commit_fixed hi (replicate clusters 0) [] (List.enumerate 0 ?fixed) = Some (com, rem)"
    using assms(1) by (auto simp: solve_subproblem_def split: option.splits)
  from commit_fixed_spec [OF this] have com: "length com = clusters"
    and occ: "\<forall>c < clusters. com ! c = occupancy xs c \<and> com ! c \<le> hi" and "\<forall>c \<in> set xs. c < clusters"
    and rem: "rem = []"
    by (auto simp: count_list_Some occupancy_def in_set_enumerate_eq filter_empty_conv)
  obtain bs req av where bounds: "remaining_bounds lo hi com [] 0 0 = Ok (Some (bs, req, av))"
    using assms(1) by (cases "remaining_bounds lo hi com [] 0 0")
      (auto simp: solve_subproblem_def commit split: option.splits)
  have "req = 0" and cost: "and_then (initial_assignment points ?fixed) (\<lambda>a.
        if None \<in> set a then Ok None else map_ok Some (assignment_cost distances clusters (map the a))) = Ok (Some cost)"
    using assms(1) by (auto simp: solve_subproblem_def commit rem bounds Let_def outcome_simps
        split: if_splits)
  from remaining_bounds_spec [OF bounds] \<open>req = 0\<close> have "\<forall>c \<in> set com. saturating_sub lo c = 0" by auto
  with com occ have "\<forall>c < clusters. lo \<le> occupancy xs c"
    by (metis nth_mem saturating_sub_def diff_is_0_eq linorder_le_cases)
  moreover have "assignment_cost distances clusters xs = Ok cost"
    using cost initial_assignment_fixed [of ?fixed points] assms(2) by (auto simp: o_def outcome_simps)
  ultimately show ?thesis using occ \<open>\<forall>c \<in> set xs. c < clusters\<close> by auto
qed

text \<open>
  \<open>keeps_optimum\<close>: with the points of a prefix fixed, the solver finds an assignment whose cost is
  that of the optimum.
\<close>

definition prefix_problem :: "nat \<Rightarrow> nat list \<Rightarrow> nat option list" where
  "prefix_problem points xs = map Some xs @ replicate (points - length xs) None"

definition keeps_optimum ::
    "f64 list \<Rightarrow> nat \<Rightarrow> nat \<Rightarrow> nat \<Rightarrow> nat \<Rightarrow> f64 \<Rightarrow> nat list \<Rightarrow> bool" where
  "keeps_optimum distances points clusters lo hi optimal xs \<longleftrightarrow>
     (\<exists>cost. solve_subproblem distances points clusters lo hi (prefix_problem points xs) = Ok (Some cost) \<and>
        costs_equal cost optimal)"

lemma prefix_problem_update:
  "length xs < points \<Longrightarrow> (prefix_problem points xs)[length xs := Some c] = prefix_problem points (xs @ [c])"
  by (auto simp: prefix_problem_def list_update_append Suc_diff_Suc [symmetric] simp del: replicate_Suc)
     (simp add: Suc_diff_Suc [symmetric])

lemma choose_cluster_Some:
  assumes "choose_cluster distances points clusters lo hi optimal (prefix_problem points xs) (length xs) [k..<n] = Ok (Some c)"
    and "length xs < points"
  shows "k \<le> c \<and> c < n \<and> keeps_optimum distances points clusters lo hi optimal (xs @ [c]) \<and>
    (\<forall>c'. k \<le> c' \<and> c' < c \<longrightarrow> \<not> keeps_optimum distances points clusters lo hi optimal (xs @ [c']))"
  using assms(1)
proof (induction "n - k" arbitrary: k)
  case (Suc j)
  then have k: "[k..<n] = k # [Suc k..<n]" by (simp add: upt_conv_Cons)
  show ?case
  proof (cases "keeps_optimum distances points clusters lo hi optimal (xs @ [k])")
    case True
    then show ?thesis using Suc.prems assms(2) Suc.hyps(2)
      by (auto simp: k keeps_optimum_def prefix_problem_update)
  next
    case False
    then have "choose_cluster distances points clusters lo hi optimal (prefix_problem points xs) (length xs) [Suc k..<n] = Ok (Some c)"
      using Suc.prems assms(2)
      by (auto simp: k keeps_optimum_def prefix_problem_update outcome_simps split: option.splits if_splits)
    from Suc.hyps(1) [OF _ this] Suc.hyps(2) have "Suc k \<le> c \<and> c < n \<and>
        keeps_optimum distances points clusters lo hi optimal (xs @ [c]) \<and>
        (\<forall>c'. Suc k \<le> c' \<and> c' < c \<longrightarrow> \<not> keeps_optimum distances points clusters lo hi optimal (xs @ [c']))" by simp
    with False show ?thesis by (metis Suc_leD Suc_le_eq le_neq_implies_less)
  qed
qed simp

definition least_optimum ::
    "f64 list \<Rightarrow> nat \<Rightarrow> nat \<Rightarrow> nat \<Rightarrow> nat \<Rightarrow> f64 \<Rightarrow> nat list \<Rightarrow> nat \<Rightarrow> bool" where
  "least_optimum distances points clusters lo hi optimal xs i \<longleftrightarrow>
     xs ! i < clusters \<and> keeps_optimum distances points clusters lo hi optimal (take (Suc i) xs) \<and>
     (\<forall>c < xs ! i. \<not> keeps_optimum distances points clusters lo hi optimal (take i xs @ [c]))"

lemma fix_points_spec:
  assumes "for_each (fix_point distances points clusters lo hi optimal) [k..<points] (prefix_problem points xs) = Ok fixed"
    and "length xs = k" and "k \<le> points"
  shows "\<exists>a. fixed = map Some a \<and> length a = points \<and> take k a = xs \<and>
    (\<forall>i. k \<le> i \<and> i < points \<longrightarrow> least_optimum distances points clusters lo hi optimal a i)"
  using assms
proof (induction "points - k" arbitrary: k xs)
  case 0
  then show ?case by (auto simp: prefix_problem_def)
next
  case (Suc j)
  then have k: "k < points" by simp
  then have upt: "[k..<points] = k # [Suc k..<points]" by (simp add: upt_conv_Cons)
  obtain c where c: "choose_cluster distances points clusters lo hi optimal (prefix_problem points xs) k [0..<clusters] = Ok (Some c)"
    and rest: "for_each (fix_point distances points clusters lo hi optimal) [Suc k..<points]
      ((prefix_problem points xs)[k := Some c]) = Ok fixed"
    using Suc.prems(1) by (auto simp: upt fix_point_def outcome_simps split: option.splits)
  note chosen = choose_cluster_Some [OF c [folded Suc.prems(2)]]
  have "for_each (fix_point distances points clusters lo hi optimal) [Suc k..<points]
      (prefix_problem points (xs @ [c])) = Ok fixed"
    using rest prefix_problem_update [of xs points c] k Suc.prems(2) by simp
  moreover have "j = points - Suc k" using Suc.hyps(2) by simp
  ultimately obtain a where
    a: "fixed = map Some a" "length a = points" "take (Suc k) a = xs @ [c]"
    and least: "\<forall>i. Suc k \<le> i \<and> i < points \<longrightarrow> least_optimum distances points clusters lo hi optimal a i"
    using Suc.hyps(1) [of "Suc k" "xs @ [c]"] Suc.prems(2) k by auto
  have "take k a = xs" and "a ! k = c"
    using a(2,3) k Suc.prems(2) by (auto simp: take_Suc_conv_app_nth)
  moreover from this have "least_optimum distances points clusters lo hi optimal a k"
    using chosen k Suc.prems(2) a(3) by (simp add: least_optimum_def)
  ultimately show ?case using a least by (metis Suc_leI le_neq_implies_less)
qed

lemma costs_equal_zero: "costs_equal 0 0"
  by (simp add: costs_equal_def epsilon_def f64_less_def f64_abs_def f64_sub_def float_eval)

lemma lexicographic_spec:
  assumes "solve_lexicographic_assignment distances points clusters lo hi = Ok a"
  shows "length a = points \<and> (\<forall>c \<in> set a. c < clusters) \<and>
    (\<forall>c < clusters. lo \<le> occupancy a c \<and> occupancy a c \<le> hi) \<and>
    (\<exists>optimal cost.
       solve_subproblem distances points clusters lo hi (replicate points None) = Ok (Some optimal) \<and>
       assignment_cost distances clusters a = Ok cost \<and> costs_equal cost optimal \<and>
       (\<forall>i < points. least_optimum distances points clusters lo hi optimal a i))"
proof -
  obtain optimal fixed where
    opt: "solve_subproblem distances points clusters lo hi (replicate points None) = Ok (Some optimal)"
    and run: "for_each (fix_point distances points clusters lo hi optimal) [0..<points]
      (prefix_problem points []) = Ok fixed"
    and a: "a = map the fixed"
    using assms by (auto simp: solve_lexicographic_assignment_def prefix_problem_def outcome_simps
        split: if_splits)
  from fix_points_spec [OF run] obtain a' where fixed: "fixed = map Some a'" and len: "length a' = points"
    and least: "\<forall>i < points. least_optimum distances points clusters lo hi optimal a' i"
    by auto
  have a': "a' = a" using a fixed by (simp add: o_def)
  have "\<exists>cost. solve_subproblem distances points clusters lo hi (map Some a) = Ok (Some cost) \<and> costs_equal cost optimal"
  proof (cases points)
    case 0
    have "optimal = 0"
      using solve_all_fixed [of distances 0 clusters lo hi "[]" optimal] opt 0
      by (simp add: assignment_cost_def)
    with opt 0 len a' costs_equal_zero show ?thesis by simp
  next
    case (Suc p)
    with least have "keeps_optimum distances points clusters lo hi optimal (take (Suc p) a)"
      by (auto simp: least_optimum_def a')
    with Suc len show ?thesis by (simp add: keeps_optimum_def prefix_problem_def a')
  qed
  then obtain cost where cost: "costs_equal cost optimal"
    and all: "solve_subproblem distances points clusters lo hi (map Some a) = Ok (Some cost)" by blast
  from solve_all_fixed [OF all] len a' opt cost least show ?thesis by auto
qed

end
