(* ===== verification/Dcbc_Flow.thy ===== *)
theory Dcbc_Flow
  imports Dcbc_Solver
begin

text \<open>
  The flow network of the assignment solver is well formed from its construction to the last
  augmentation: every edge and its reverse name each other, and their capacities together stay
  within \<open>usize\<close>. So the solver never indexes outside its arrays, never lets a capacity run below
  zero, and never panics.
\<close>

section \<open>Well-formed networks\<close>

text \<open>The reverse of edge \<open>i\<close> of node \<open>u\<close>, as a position, and the conditions on an edge.\<close>

definition edge_at :: "flow_graph \<Rightarrow> nat \<Rightarrow> nat \<Rightarrow> bool" where
  "edge_at g u i \<longleftrightarrow> u < length g \<and> i < length (g ! u)"

definition edge_wf :: "flow_graph \<Rightarrow> nat \<Rightarrow> nat \<Rightarrow> bool" where
  "edge_wf g u i \<longleftrightarrow>
     (let e = g ! u ! i; v = e_to e; j = e_rev e in
      v \<noteq> u \<and> edge_at g v j \<and> e_to (g ! v ! j) = u \<and> e_rev (g ! v ! j) = i \<and>
      e_capacity e + e_capacity (g ! v ! j) \<le> usize_max)"

definition graph_wf :: "flow_graph \<Rightarrow> bool" where
  "graph_wf g \<longleftrightarrow> (\<forall>u i. edge_at g u i \<longrightarrow> edge_wf g u i)"

lemma new_flow_wf: "graph_wf (new_flow n)"
  by (auto simp: graph_wf_def edge_at_def new_flow_def)

lemma add_edge_spec:
  assumes wf: "graph_wf g" and "u < length g" and "v < length g" and "u \<noteq> v" and "capacity \<le> usize_max"
  shows "\<exists>g'. add_edge u v capacity cost g = Ok g' \<and> graph_wf g' \<and> length g' = length g"
proof -
  let ?f = "\<lparr>e_to = v, e_rev = length (g ! v), e_capacity = capacity, e_cost = cost\<rparr>"
  let ?b = "\<lparr>e_to = u, e_rev = length (g ! u), e_capacity = 0, e_cost = f64_neg cost\<rparr>"
  let ?g = "g[u := g ! u @ [?f], v := g ! v @ [?b]]"
  have add: "add_edge u v capacity cost g = Ok ?g"
    using assms by (simp add: add_edge_def index_at_def Let_def)
  have node: "?g ! w = (if w = v then g ! v @ [?b] else if w = u then g ! u @ [?f] else g ! w)" if "w < length g" for w
    using that assms by (auto simp: nth_list_update)
  have old: "?g ! w ! i = g ! w ! i" if "edge_at g w i" for w i
    using that node [of w] by (auto simp: edge_at_def nth_append)
  have grown: "edge_at ?g w i" if "edge_at g w i" for w i
    using that node [of w] by (auto simp: edge_at_def)
  have "edge_wf ?g w i" if at: "edge_at ?g w i" for w i
  proof (cases "edge_at g w i")
    case True
    with wf have "edge_wf g w i" by (simp add: graph_wf_def)
    with True show ?thesis by (auto simp: edge_wf_def Let_def old grown)
  next
    case False
    have w: "w < length g" using at by (simp add: edge_at_def)
    with False at node [OF w] have "w = v \<and> i = length (g ! v) \<or> w = u \<and> i = length (g ! u)"
      by (auto simp: edge_at_def split: if_splits)
    then show ?thesis using assms(2-) node by (auto simp: edge_wf_def edge_at_def Let_def)
  qed
  with add show ?thesis by (intro exI [of _ ?g]) (auto simp: graph_wf_def)
qed

section \<open>Pushing flow along an edge\<close>

definition same_shape :: "flow_graph \<Rightarrow> flow_graph \<Rightarrow> bool" where
  "same_shape g h \<longleftrightarrow> length h = length g \<and>
     (\<forall>u < length g. length (h ! u) = length (g ! u) \<and>
        (\<forall>i < length (g ! u). e_to (h ! u ! i) = e_to (g ! u ! i) \<and> e_rev (h ! u ! i) = e_rev (g ! u ! i)))"

lemma same_shape_refl [simp]: "same_shape g g"
  by (simp add: same_shape_def)

lemma same_shape_trans: "same_shape g h \<Longrightarrow> same_shape h k \<Longrightarrow> same_shape g k"
  by (simp add: same_shape_def)

lemma same_shape_edge_at: "same_shape g h \<Longrightarrow> edge_at h u i = edge_at g u i"
  by (auto simp: same_shape_def edge_at_def)

lemma set_capacity_nth:
  assumes "edge_at g u i" and "edge_at g v j"
  shows "set_capacity u i c g ! v ! j =
    (if v = u \<and> j = i then (g ! u ! i)\<lparr>e_capacity := c\<rparr> else g ! v ! j)"
  using assms by (auto simp: set_capacity_def edge_at_def nth_list_update)

lemma set_capacity_edge_at: "edge_at g u i \<Longrightarrow> edge_at (set_capacity u i c g) v j = edge_at g v j"
  by (auto simp: set_capacity_def edge_at_def nth_list_update)

lemma set_capacity_shape: "edge_at g u i \<Longrightarrow> same_shape g (set_capacity u i c g)"
  by (auto simp: same_shape_def set_capacity_def edge_at_def nth_list_update)

lemma push_edge_spec:
  assumes wf: "graph_wf g" and at: "edge_at g p i" and e: "e = g ! p ! i" and n: "e_to e = n"
    and le: "augment \<le> e_capacity e"
  shows "\<exists>g'. push_edge n p i e augment g = Ok g' \<and> graph_wf g' \<and> same_shape g g' \<and>
    (\<forall>u j. edge_at g u j \<and> (u, j) \<noteq> (p, i) \<longrightarrow> e_capacity (g ! u ! j) \<le> e_capacity (g' ! u ! j))"
proof -
  let ?r = "e_rev e" and ?g1 = "set_capacity p i (e_capacity e - augment) g"
  let ?b = "g ! n ! ?r"
  let ?g2 = "set_capacity n ?r (e_capacity ?b + augment) ?g1"
  have ew: "n \<noteq> p" "edge_at g n ?r" "e_to ?b = p" "e_rev ?b = i" "e_capacity e + e_capacity ?b \<le> usize_max"
    using wf at e n by (auto simp: graph_wf_def edge_wf_def Let_def)
  have at1: "edge_at ?g1 n ?r" using ew at by (simp add: set_capacity_edge_at)
  have b1: "?g1 ! n ! ?r = ?b" using at ew by (simp add: set_capacity_nth)
  have push: "push_edge n p i e augment g = Ok ?g2"
    using le at1 b1 ew(5) by (simp add: push_edge_def Let_def index_at_def edge_at_def checked_add_def)
  have cap: "?g2 ! u ! j = (if (u, j) = (n, ?r) then ?b\<lparr>e_capacity := e_capacity ?b + augment\<rparr>
      else if (u, j) = (p, i) then e\<lparr>e_capacity := e_capacity e - augment\<rparr> else g ! u ! j)"
    if "edge_at g u j" for u j
    using that at at1 ew e by (simp add: set_capacity_nth set_capacity_edge_at)
  have shape: "same_shape g ?g2"
    using set_capacity_shape [OF at] set_capacity_shape [OF at1] by (rule same_shape_trans)
  have "edge_wf ?g2 u j" if uj: "edge_at g u j" for u j
  proof -
    have w: "edge_wf g u j" using wf uj by (simp add: graph_wf_def)
    define v r where "v = e_to (g ! u ! j)" and "r = e_rev (g ! u ! j)"
    have vr: "edge_at g v r" "e_to (g ! v ! r) = u" "e_rev (g ! v ! r) = j" "v \<noteq> u"
      "e_capacity (g ! u ! j) + e_capacity (g ! v ! r) \<le> usize_max"
      using w by (auto simp: edge_wf_def v_def r_def Let_def)
    have paired: "(v, r) = (n, ?r) \<longleftrightarrow> (u, j) = (p, i)" "(v, r) = (p, i) \<longleftrightarrow> (u, j) = (n, ?r)"
      using vr ew e n v_def r_def by auto
    have "e_to (?g2 ! u ! j) = v" "e_rev (?g2 ! u ! j) = r"
      using uj cap [OF uj] v_def r_def e n ew by auto
    moreover have "e_to (?g2 ! v ! r) = u" "e_rev (?g2 ! v ! r) = j"
      using cap [OF vr(1)] vr e ew n by auto
    moreover have "e_capacity (?g2 ! u ! j) + e_capacity (?g2 ! v ! r) \<le> usize_max"
      using cap [OF uj] cap [OF vr(1)] paired vr(5) ew(1,5) le e by (auto split: if_splits)
    ultimately show ?thesis using vr(1,4) same_shape_edge_at [OF shape] by (simp add: edge_wf_def Let_def)
  qed
  then have "graph_wf ?g2" by (simp add: graph_wf_def same_shape_edge_at [OF shape])
  moreover have "e_capacity (g ! u ! j) \<le> e_capacity (?g2 ! u ! j)" if "edge_at g u j" "(u, j) \<noteq> (p, i)" for u j
    using cap [OF that(1)] that(2) by auto
  ultimately show ?thesis using push shape by blast
qed

section \<open>Pushing flow along a path\<close>

text \<open>The path from a node back to the source, by its number of steps, which it determines.\<close>

fun reaches :: "relaxation \<Rightarrow> nat \<Rightarrow> nat \<Rightarrow> nat \<Rightarrow> bool" where
  "reaches st source 0 n \<longleftrightarrow> n = source"
| "reaches st source (Suc k) n \<longleftrightarrow>
     n \<noteq> source \<and> (case rx_prev_node st ! n of None \<Rightarrow> False | Some p \<Rightarrow> reaches st source k p)"

lemma reaches_unique: "reaches st source j n \<Longrightarrow> reaches st source k n \<Longrightarrow> j = k"
proof (induction j arbitrary: k n)
  case 0
  then show ?case by (cases k) auto
next
  case (Suc j)
  then show ?case by (cases k) (auto split: option.splits)
qed

text \<open>Recorded predecessors are edges of the network, and those of a path have room.\<close>

definition prev_edges :: "flow_graph \<Rightarrow> relaxation \<Rightarrow> bool" where
  "prev_edges g st \<longleftrightarrow>
     length (rx_prev_node st) = length g \<and> length (rx_prev_edge st) = length g \<and>
     (\<forall>n < length g. \<forall>p. rx_prev_node st ! n = Some p \<longrightarrow>
        (\<exists>i. rx_prev_edge st ! n = Some i \<and> edge_at g p i \<and> e_to (g ! p ! i) = n))"

lemma rx_inv_prev_edges: "rx_inv g source st \<Longrightarrow> prev_edges g st"
  by (fastforce simp: rx_inv_def prev_edges_def prev_ok_def edge_at_def)

lemma same_shape_to: "same_shape g h \<Longrightarrow> edge_at g u i \<Longrightarrow> e_to (h ! u ! i) = e_to (g ! u ! i)"
  by (simp add: same_shape_def edge_at_def)

lemma same_shape_length: "same_shape g h \<Longrightarrow> length h = length g"
  by (simp add: same_shape_def)

lemma prev_edges_shape: "prev_edges g st \<Longrightarrow> same_shape g h \<Longrightarrow> prev_edges h st"
  unfolding prev_edges_def using same_shape_length [of g h]
  by (simp add: same_shape_edge_at) (blast dest: same_shape_to [THEN trans])

fun path_room :: "flow_graph \<Rightarrow> relaxation \<Rightarrow> nat \<Rightarrow> nat \<Rightarrow> nat \<Rightarrow> bool" where
  "path_room g st a 0 n \<longleftrightarrow> True"
| "path_room g st a (Suc k) n \<longleftrightarrow>
     (case (rx_prev_node st ! n, rx_prev_edge st ! n) of
        (Some p, Some i) \<Rightarrow> a \<le> e_capacity (g ! p ! i) \<and> path_room g st a k p
      | _ \<Rightarrow> False)"

lemma predecessor_step:
  assumes "prev_edges g st" and "n < length g" and "rx_prev_node st ! n = Some p"
  obtains i where "predecessor g st n = Ok (p, i, g ! p ! i)" and "rx_prev_edge st ! n = Some i"
    and "edge_at g p i" and "e_to (g ! p ! i) = n"
  using assms by (auto simp: prev_edges_def predecessor_def index_at_def edge_at_def)

lemma path_capacity_spec:
  assumes "rx_inv g source st"
  shows "n < length g \<Longrightarrow> n = source \<or> rx_prev_node st ! n \<noteq> None \<Longrightarrow>
    path_capacity g st source k n a \<noteq> Panic \<and>
    (\<forall>b. path_capacity g st source k n a = Ok b \<longrightarrow>
      b \<le> a \<and> (\<exists>j \<le> k. reaches st source j n \<and> path_room g st b j n))"
proof (induction k arbitrary: n a)
  case 0
  then show ?case by (simp add: path_capacity.simps [of g st source 0])
next
  case (Suc k)
  show ?case
  proof (cases "n = source")
    case True
    then show ?thesis by (auto simp: path_capacity.simps [of g st source "Suc k"] intro: exI [of _ 0])
  next
    case False
    with Suc.prems obtain p where p: "rx_prev_node st ! n = Some p" by auto
    have "prev_ok g st source n" using assms Suc.prems by (simp add: rx_inv_def)
    with p have pr: "p < length g" "p = source \<or> rx_prev_node st ! p \<noteq> None" by (auto simp: prev_ok_def)
    obtain i where pred: "predecessor g st n = Ok (p, i, g ! p ! i)" and i: "rx_prev_edge st ! n = Some i"
      using predecessor_step [OF rx_inv_prev_edges [OF assms] Suc.prems(1) p] by metis
    let ?a = "min a (e_capacity (g ! p ! i))"
    have eq: "path_capacity g st source (Suc k) n a = path_capacity g st source k p ?a"
      using False by (simp add: path_capacity.simps [of g st source "Suc k"] pred)
    note IH = Suc.IH [OF pr, of ?a]
    have "b \<le> a \<and> (\<exists>j \<le> Suc k. reaches st source j n \<and> path_room g st b j n)"
      if "path_capacity g st source k p ?a = Ok b" for b
    proof -
      from IH that obtain j where j: "b \<le> ?a" "j \<le> k" "reaches st source j p" "path_room g st b j p" by blast
      then have "reaches st source (Suc j) n" and "path_room g st b (Suc j) n" using False p i by simp_all
      with j(1,2) show ?thesis by (intro conjI exI [of _ "Suc j"]) simp_all
    qed
    with IH show ?thesis unfolding eq by blast
  qed
qed

lemma path_room_pushed:
  assumes "prev_edges g st" and "\<And>u j. edge_at g u j \<Longrightarrow> (u, j) \<noteq> (p, i) \<Longrightarrow> e_capacity (g ! u ! j) \<le> e_capacity (h ! u ! j)"
    and "e_to (g ! p ! i) = m" and "reaches st source k m"
  shows "path_room g st a j n \<Longrightarrow> reaches st source j n \<Longrightarrow> n < length g \<Longrightarrow> j < k \<Longrightarrow> path_room h st a j n"
proof (induction j arbitrary: n)
  case (Suc j)
  then obtain q l where q: "rx_prev_node st ! n = Some q" and l: "rx_prev_edge st ! n = Some l"
    and room: "a \<le> e_capacity (g ! q ! l)" "path_room g st a j q" and rq: "reaches st source j q"
    by (auto split: option.splits)
  have at: "edge_at g q l" "e_to (g ! q ! l) = n" using assms(1) Suc.prems(3) q l by (auto simp: prev_edges_def)
  have "n \<noteq> m" using reaches_unique assms(4) Suc.prems(2,4) by blast
  then have "(q, l) \<noteq> (p, i)" using at assms(3) by auto
  with assms(2) at room have "a \<le> e_capacity (h ! q ! l)" by (meson order_trans)
  moreover have "path_room h st a j q"
    using Suc.IH [OF room(2) rq] at Suc.prems(4) by (simp add: edge_at_def)
  ultimately show ?case using q l by simp
qed simp

lemma push_path_spec:
  "graph_wf g \<Longrightarrow> prev_edges g st \<Longrightarrow> n < length g \<Longrightarrow> reaches st source j n \<Longrightarrow> path_room g st a j n \<Longrightarrow> j \<le> k \<Longrightarrow>
     \<exists>g'. push_path st source a k n g = Ok g' \<and> graph_wf g' \<and> same_shape g g'"
proof (induction j arbitrary: k n g)
  case 0
  then show ?case by (simp add: push_path.simps [of st source a k])
next
  case (Suc j)
  from Suc.prems(4,5) obtain p where p: "rx_prev_node st ! n = Some p" and n: "n \<noteq> source"
    and rp: "reaches st source j p" by (auto split: option.splits)
  obtain i where pred: "predecessor g st n = Ok (p, i, g ! p ! i)" and i: "rx_prev_edge st ! n = Some i"
    and at: "edge_at g p i" and to_n: "e_to (g ! p ! i) = n"
    using predecessor_step [OF Suc.prems(2,3) p] by metis
  from Suc.prems(5) p i have room: "a \<le> e_capacity (g ! p ! i)" "path_room g st a j p" by auto
  from push_edge_spec [OF Suc.prems(1) at refl to_n room(1)] obtain g1 where
    push: "push_edge n p i (g ! p ! i) a g = Ok g1" and wf1: "graph_wf g1" and shape: "same_shape g g1"
    and caps: "\<And>u j. edge_at g u j \<Longrightarrow> (u, j) \<noteq> (p, i) \<Longrightarrow> e_capacity (g ! u ! j) \<le> e_capacity (g1 ! u ! j)"
    by blast
  have pl: "p < length g" using at by (simp add: edge_at_def)
  have room1: "path_room g1 st a j p"
    by (rule path_room_pushed [OF Suc.prems(2) caps to_n Suc.prems(4) room(2) rp pl]) simp_all
  obtain k' where k: "k = Suc k'" "j \<le> k'" using Suc.prems(6) by (cases k) auto
  have pl1: "p < length g1" using pl same_shape_length [OF shape] by simp
  from Suc.IH [OF wf1 prev_edges_shape [OF Suc.prems(2) shape] pl1 rp room1 k(2)]
  obtain g' where g': "push_path st source a k' p g1 = Ok g'" "graph_wf g'" "same_shape g1 g'" by blast
  have "push_path st source a k n g = Ok g'"
    using n push pred g'(1) by (simp add: push_path.simps [of st source a "Suc k'"] k(1))
  then show ?case using g' same_shape_trans [OF shape] by blast
qed

section \<open>A round of the flow loop\<close>

lemma edge_to_length: "graph_wf g \<Longrightarrow> edge_at g u i \<Longrightarrow> e_to (g ! u ! i) < length g"
  by (auto simp: graph_wf_def edge_wf_def edge_at_def Let_def)

lemma relax_edge_no_panic:
  assumes "graph_wf g" and "length (rx_dist st) = length g" and "edge_at g node i"
  shows "relax_edge source node (i, g ! node ! i) st \<noteq> Panic"
  using assms edge_to_length [OF assms(1,3)]
  by (auto simp: relax_edge_def index_at_def edge_at_def Let_def)

lemma relax_edge_length: "relax_edge source node x st = Ok st' \<Longrightarrow> length (rx_dist st') = length (rx_dist st)"
  by (cases x) (auto simp: relax_edge_def outcome_simps Let_def split: if_splits)

lemma relax_node_no_panic:
  assumes "graph_wf g" and "length (rx_dist st) = length g" and "node < length g"
  shows "relax_node g source node st \<noteq> Panic"
proof -
  have "for_each (relax_edge source node) (List.enumerate 0 (g ! node)) st \<noteq> Panic"
  proof (rule for_each_no_panic [where P = "\<lambda>st :: relaxation. length (rx_dist st) = length g"])
    fix x and s :: relaxation assume x: "x \<in> set (List.enumerate 0 (g ! node))" and len: "length (rx_dist s) = length g"
    then show "relax_edge source node x s \<noteq> Panic"
      using relax_edge_no_panic [OF assms(1) len, of node "fst x" source] assms(3)
      by (auto simp: in_set_enumerate_eq edge_at_def)
  qed (use assms(2) relax_edge_length in auto)
  then show ?thesis using assms(2,3) by (auto simp: relax_node_def index_at_def)
qed

lemma relax_rounds_no_panic:
  "graph_wf g \<Longrightarrow> rx_inv g source st \<Longrightarrow> relax_rounds g source k st \<noteq> Panic"
proof (induction k arbitrary: st)
  case (Suc k)
  let ?round = "for_each (relax_node g source) [0..<length g] (st\<lparr>rx_updated := False\<rparr>)"
  have "?round \<noteq> Panic"
  proof (rule for_each_no_panic [where P = "rx_inv g source"])
    fix node s assume "node \<in> set [0..<length g]" and "rx_inv g source s"
    then show "relax_node g source node s \<noteq> Panic"
      using relax_node_no_panic [OF Suc.prems(1)] by (simp add: rx_inv_def)
  qed (use Suc.prems relax_node_inv in auto)
  moreover have "rx_inv g source st'" if "?round = Ok st'" for st'
    by (rule for_each_invariant [where P = "rx_inv g source", OF that]) (use Suc.prems relax_node_inv in auto)
  ultimately show ?case using Suc by (auto simp: outcome_simps split: if_splits)
qed simp

lemma shortest_paths_no_panic: "graph_wf g \<Longrightarrow> source < length g \<Longrightarrow> shortest_paths g source \<noteq> Panic"
  using relax_rounds_no_panic start_inv
  by (auto simp: shortest_paths_def outcome_simps) (simp add: start_relaxation_def)

lemma check_residual_no_panic:
  assumes wf: "graph_wf g" and inv: "rx_inv g source st"
  shows "check_residual g st \<noteq> Panic"
  unfolding check_residual_def
proof (rule for_each_no_panic [where P = "\<lambda>_. True"])
  fix node u assume "node \<in> set [0..<length g]"
  then have node: "node < length g" by simp
  let ?body = "\<lambda>e (_ :: unit). if e_capacity e = 0 then Ok ()
      else and_then (index_at (rx_dist st) (e_to e)) (\<lambda>dist_to.
        if f64_less (f64_add (f64_add (rx_dist st ! node) (e_cost e)) epsilon) dist_to
        then Err (constraint_error ''negative-cost residual cycle detected in assignment solver'') else Ok ())"
  have "for_each ?body (g ! node) () \<noteq> Panic"
  proof (rule for_each_no_panic [where P = "\<lambda>_. True"])
    fix e :: edge and s :: unit assume "e \<in> set (g ! node)"
    then obtain i where "edge_at g node i" and "e = g ! node ! i"
      using node by (auto simp: in_set_conv_nth edge_at_def)
    then show "?body e s \<noteq> Panic"
      using edge_to_length [OF wf] inv by (auto simp: index_at_def rx_inv_def)
  qed simp_all
  then show "and_then (index_at (rx_dist st) node) (\<lambda>dist_node.
      if \<not> f64_is_finite dist_node then Ok ()
      else and_then (index_at g node) (\<lambda>edges.
        for_each (\<lambda>e _.
          if e_capacity e = 0 then Ok ()
          else and_then (index_at (rx_dist st) (e_to e)) (\<lambda>dist_to.
            if f64_less (f64_add (f64_add dist_node (e_cost e)) epsilon) dist_to
            then Err (constraint_error ''negative-cost residual cycle detected in assignment solver'')
            else Ok ())) edges ())) \<noteq> Panic"
    using node inv by (simp add: index_at_def rx_inv_def)
qed simp_all

lemma augment_round_spec:
  assumes wf: "graph_wf g" and "source < length g" and "sink < length g"
  shows "augment_round g source sink wanted \<noteq> Panic \<and>
    (\<forall>a g'. augment_round g source sink wanted = Ok (Some (a, g')) \<longrightarrow>
       a \<le> wanted \<and> graph_wf g' \<and> same_shape g g')"
proof (cases "shortest_paths g source")
  case (Ok st)
  then have inv: "rx_inv g source st" by (rule shortest_paths_inv)
  then have sink: "sink < length (rx_prev_node st)" using assms(3) by (simp add: rx_inv_def)
  show ?thesis
  proof (cases "rx_prev_node st ! sink")
    case None
    with Ok sink show ?thesis by (simp add: augment_round_def index_at_def)
  next
    case (Some p)
    note cap = path_capacity_spec [OF inv assms(3), of "length g" wanted]
    have push: "\<exists>g'. push_path st source a (length g) sink g = Ok g' \<and> graph_wf g' \<and> same_shape g g'"
      if "path_capacity g st source (length g) sink wanted = Ok a" for a
    proof -
      from cap Some that obtain j where "j \<le> length g" and "reaches st source j sink" and "path_room g st a j sink" by auto
      then show ?thesis using push_path_spec [OF wf rx_inv_prev_edges [OF inv] assms(3)] by blast
    qed
    have "path_capacity g st source (length g) sink wanted \<noteq> Panic"
      and le: "a \<le> wanted" if "path_capacity g st source (length g) sink wanted = Ok a" for a
      using cap Some that by auto
    then show ?thesis
      using Ok sink Some cap check_residual_no_panic [OF wf inv] push
      by (auto simp: augment_round_def index_at_def outcome_simps)
  qed
qed (use shortest_paths_no_panic [OF assms(1,2)] in \<open>simp_all add: augment_round_def\<close>)

lemma send_flow_loop_spec:
  "graph_wf g \<Longrightarrow> source < length g \<Longrightarrow> sink < length g \<Longrightarrow>
     send_flow_loop source sink wanted g sent \<noteq> Panic \<and>
     (\<forall>n g'. send_flow_loop source sink wanted g sent = Ok (n, g') \<longrightarrow> graph_wf g' \<and> same_shape g g')"
proof (induction source sink wanted g sent rule: send_flow_loop.induct)
  case (1 source sink wanted g sent)
  note round = augment_round_spec [OF "1.prems", of "wanted - sent"]
  show ?case
  proof (cases "sent < wanted \<and> (\<exists>a g'. augment_round g source sink (wanted - sent) = Ok (Some (a, g')))")
    case True
    then obtain a g' where step: "augment_round g source sink (wanted - sent) = Ok (Some (a, g'))" by auto
    with round have wf: "graph_wf g'" and shape: "same_shape g g'" by auto
    have eq: "send_flow_loop source sink wanted g sent = send_flow_loop source sink wanted g' (sent + a)"
      using True step by (simp add: send_flow_loop.simps [of source sink wanted g sent])
    from "1.IH" [of "Some (a, g')" "(a, g')" a g'] True step wf shape "1.prems"
    have "send_flow_loop source sink wanted g' (sent + a) \<noteq> Panic \<and>
     (\<forall>n h. send_flow_loop source sink wanted g' (sent + a) = Ok (n, h) \<longrightarrow> graph_wf h \<and> same_shape g' h)"
      by (simp add: same_shape_length)
    then show ?thesis unfolding eq using same_shape_trans [OF shape] by blast
  next
    case False
    then show ?thesis using round "1.prems"
      by (cases "augment_round g source sink (wanted - sent)")
        (auto simp: send_flow_loop.simps [of source sink wanted g sent] split: option.splits)
  qed
qed

section \<open>The solver does not panic\<close>

lemma for_each_total:
  assumes "P s" and "\<And>x s. x \<in> set xs \<Longrightarrow> P s \<Longrightarrow> \<exists>s'. f x s = Ok s' \<and> P s'"
  shows "\<exists>s'. for_each f xs s = Ok s' \<and> P s'"
  using assms
proof (induction xs arbitrary: s)
  case (Cons x xs)
  from Cons.prems(2) [of x s] Cons.prems(1) obtain s1 where "f x s = Ok s1" and "P s1" by auto
  with Cons.IH [of s1] Cons.prems(2) show ?case by auto
qed simp

abbreviation network :: "nat \<Rightarrow> flow_graph \<Rightarrow> bool" where
  "network n g \<equiv> graph_wf g \<and> length g = n"

lemma add_point_edges_total:
  assumes "network n g" and "cluster_base + clusters < n" and "1 + point_offset < cluster_base"
    and "(point + 1) * clusters \<le> length distances"
  shows "\<exists>g'. add_point_edges distances clusters cluster_base (point_offset, point) g = Ok g' \<and> network n g'"
proof -
  let ?u = "1 + point_offset"
  obtain g1 where g1: "add_edge 0 ?u 1 0 g = Ok g1" "network n g1"
    using add_edge_spec [of g 0 ?u 1 0] assms by (auto simp: usize_max_def)
  have "\<exists>g'. for_each (\<lambda>cluster_index g.
      and_then (index_at distances (point * clusters + cluster_index)) (\<lambda>cost.
        add_edge ?u (cluster_base + cluster_index) 1 cost g)) [0..<clusters] g1 = Ok g' \<and> network n g'"
  proof (rule for_each_total [where P = "network n"])
    fix c g assume "c \<in> set [0..<clusters]" and net: "network n g"
    then have c: "c < clusters" by simp
    then have "point * clusters + c < length distances" using assms(4) by (simp add: algebra_simps)
    then show "\<exists>g'. and_then (index_at distances (point * clusters + c)) (\<lambda>cost.
        add_edge ?u (cluster_base + c) 1 cost g) = Ok g' \<and> network n g'"
      using add_edge_spec [of g ?u "cluster_base + c" 1] net assms(2,3) c
      by (simp add: index_at_def usize_max_def)
  qed (use g1 in simp)
  with g1 show ?thesis by (simp add: add_point_edges_def)
qed

lemma add_cluster_edges_total:
  assumes "network n g" and "sink < n" and "cluster_base + cluster_index < sink" and "upper \<le> usize_max"
    and "lower \<le> upper"
  shows "\<exists>g'. add_cluster_edges cluster_base sink (cluster_index, lower, upper) g = Ok g' \<and> network n g'"
proof -
  have "\<exists>g1. (if 0 < lower then add_edge (cluster_base + cluster_index) sink lower 0 g else Ok g) = Ok g1 \<and> network n g1"
    using add_edge_spec [of g "cluster_base + cluster_index" sink lower 0] assms by auto
  then obtain g1 where g1: "(if 0 < lower then add_edge (cluster_base + cluster_index) sink lower 0 g else Ok g) = Ok g1"
    and net: "network n g1" by blast
  have "\<exists>g2. (if 0 < upper - lower
      then add_edge (cluster_base + cluster_index) sink (upper - lower) optional_capacity_penalty g1 else Ok g1) = Ok g2 \<and>
      network n g2"
    using add_edge_spec [of g1 "cluster_base + cluster_index" sink "upper - lower" optional_capacity_penalty] assms net
    by auto
  then show ?thesis by (simp add: add_cluster_edges_def g1 cong: if_cong)
qed

lemma build_network_total:
  assumes "length bounds = clusters" and "\<forall>(lower, upper) \<in> set bounds. lower \<le> upper \<and> upper \<le> usize_max"
    and "\<forall>p \<in> set remaining. (p + 1) * clusters \<le> length distances"
  shows "\<exists>g. build_network distances clusters remaining bounds = Ok g \<and> network (2 + length remaining + clusters) g"
proof -
  let ?n = "2 + length remaining + clusters" and ?base = "1 + length remaining"
  let ?sink = "?base + clusters"
  have "network ?n (new_flow (?sink + 1))" by (simp add: new_flow_wf) (simp add: new_flow_def)
  then have "\<exists>g1. for_each (add_point_edges distances clusters ?base) (List.enumerate 0 remaining) (new_flow (?sink + 1)) = Ok g1 \<and>
      network ?n g1"
  proof (rule for_each_total)
    fix x g assume x: "x \<in> set (List.enumerate 0 remaining)" and "network ?n g"
    moreover from x have "snd x \<in> set remaining" by (auto simp: in_set_enumerate_eq) (metis nth_mem)
    ultimately show "\<exists>g'. add_point_edges distances clusters ?base x g = Ok g' \<and> network ?n g'"
      using add_point_edges_total [of g ?n ?base clusters "fst x" "snd x" distances] assms(3)
      by (auto simp: in_set_enumerate_eq)
  qed
  then obtain g1 where g1: "for_each (add_point_edges distances clusters ?base) (List.enumerate 0 remaining)
      (new_flow (?sink + 1)) = Ok g1" and net: "network ?n g1" by blast
  from net have "\<exists>g2. for_each (add_cluster_edges ?base ?sink) (List.enumerate 0 bounds) g1 = Ok g2 \<and> network ?n g2"
  proof (rule for_each_total)
    fix x g assume x: "x \<in> set (List.enumerate 0 bounds)" and "network ?n g"
    moreover obtain i l u where "x = (i, l, u)" by (cases x)
    moreover from this x have "(l, u) \<in> set bounds" and "i < length bounds"
      by (auto simp: in_set_enumerate_eq) (metis nth_mem)
    ultimately show "\<exists>g'. add_cluster_edges ?base ?sink x g = Ok g' \<and> network ?n g'"
      using add_cluster_edges_total [of g ?n ?sink ?base i u l] assms(1,2) by auto
  qed
  then show ?thesis using g1 by (simp add: build_network_def Let_def)
qed

lemma assigned_cluster_no_panic:
  assumes "graph_wf g" and "node < length g" and "set es \<subseteq> set (g ! node)"
  shows "assigned_cluster g cluster_base sink es \<noteq> Panic"
  using assms(3)
proof (induction es)
  case (Cons e es)
  then obtain i where "edge_at g node i" and "e = g ! node ! i"
    using assms(2) by (auto simp: in_set_conv_nth edge_at_def)
  then have "edge_at g (e_to e) (e_rev e)" using assms(1) by (auto simp: graph_wf_def edge_wf_def Let_def)
  with Cons show ?case by (simp add: index_at_def edge_at_def)
qed simp

lemma read_assignment_no_panic:
  assumes "graph_wf g" and "\<forall>(offset, p) \<in> set rest. 1 + offset < length g \<and> p < length a"
  shows "read_assignment g cluster_base sink rest a \<noteq> Panic"
  using assms(2)
proof (induction rest arbitrary: a)
  case (Cons x rest)
  obtain i p where x: "x = (i, p)" by (cases x)
  have "assigned_cluster g cluster_base sink (g ! (1 + i)) \<noteq> Panic"
    using assigned_cluster_no_panic [OF assms(1), of "1 + i" "g ! (1 + i)"] Cons.prems x by simp
  moreover have "read_assignment g cluster_base sink rest (a[p := c]) \<noteq> Panic" for c
    using Cons x by simp
  ultimately show ?case using Cons.prems
    by (auto simp: x index_at_def outcome_simps split: option.splits)
qed simp

lemma assignment_cost_no_panic: "assignment_cost distances clusters a \<noteq> Panic"
  unfolding assignment_cost_def
  by (rule for_each_no_panic [where P = "\<lambda>_. True"]) (auto simp: outcome_simps split: if_splits)

lemma remaining_bounds_no_panic:
  "available + length cs * hi \<le> usize_max \<Longrightarrow> required \<le> available \<Longrightarrow>
     remaining_bounds lo hi cs bs required available \<noteq> Panic"
proof (induction cs arbitrary: bs required available)
  case (Cons c cs)
  have "saturating_sub hi c \<le> hi" by (simp add: saturating_sub_def)
  with Cons show ?case by (auto simp: Let_def checked_add_def outcome_simps)
qed simp

lemma commit_fixed_remaining:
  assumes "commit_fixed hi (replicate clusters 0) [] (List.enumerate 0 fixed) = Some (com, rem)"
  shows "length com = clusters" and "\<forall>p \<in> set rem. p < length fixed" and "\<forall>c \<in> set com. c \<le> hi"
proof -
  note spec = commit_fixed_spec [OF assms]
  show "length com = clusters" and "\<forall>c \<in> set com. c \<le> hi" using spec by (auto simp: in_set_conv_nth)
  show "\<forall>p \<in> set rem. p < length fixed" using spec by (auto simp: in_set_enumerate_eq)
qed

lemma solve_subproblem_no_panic:
  assumes "length distances = points * clusters" and "clusters * hi \<le> usize_max" and "length fixed = points"
  shows "solve_subproblem distances points clusters lo hi fixed \<noteq> Panic"
proof (cases "commit_fixed hi (replicate clusters 0) [] (List.enumerate 0 fixed)")
  case (Some cr)
  obtain com rem where commit: "commit_fixed hi (replicate clusters 0) [] (List.enumerate 0 fixed) = Some (com, rem)"
    using Some by (cases cr) auto
  note com = commit_fixed_remaining [OF commit]
  have "remaining_bounds lo hi com [] 0 0 \<noteq> Panic"
    using remaining_bounds_no_panic com(1) assms(2) by simp
  moreover have "remaining_bounds lo hi com [] 0 0 \<noteq> Err e" for e
  proof -
    have "remaining_bounds lo hi cs bs r a \<noteq> Err e" for cs bs r a
      by (induction cs arbitrary: bs r a) (auto simp: Let_def outcome_simps checked_add_def split: if_splits)
    then show ?thesis .
  qed
  ultimately consider "remaining_bounds lo hi com [] 0 0 = Ok None" |
    bs req av where "remaining_bounds lo hi com [] 0 0 = Ok (Some (bs, req, av))"
    by (cases "remaining_bounds lo hi com [] 0 0") (auto, metis option.exhaust surj_pair)
  then show ?thesis
  proof cases
    case 1
    then show ?thesis by (simp add: solve_subproblem_def commit)
  next
    case 2
    note bounds = remaining_bounds_spec [OF 2]
    let ?base = "1 + length rem"
    let ?sink = "?base + clusters"
    have "length bs = clusters" using bounds com(1) by simp
    moreover have "\<forall>(l, u) \<in> set bs. l \<le> u \<and> u \<le> usize_max"
    proof -
      have "hi \<le> usize_max" if "com \<noteq> []"
        using assms(2) com(1) that by (cases clusters) (auto intro: order_trans)
      then have "saturating_sub hi c \<le> usize_max" if "c \<in> set com" for c
        using that by (cases com) (auto simp: saturating_sub_def)
      then show ?thesis using bounds by auto
    qed
    moreover have "\<forall>p \<in> set rem. (p + 1) * clusters \<le> length distances"
      using com(2) assms(1,3) by (metis Suc_eq_plus1 Suc_leI mult_le_mono1)
    ultimately obtain g where g: "build_network distances clusters rem bs = Ok g"
      and net: "network (2 + length rem + clusters) g" using build_network_total by blast
    note sent = send_flow_loop_spec [of g 0 ?sink "length rem" 0]
    have init: "initial_assignment points fixed =
        Ok (map (\<lambda>(f, r). if f = None then r else f) (zip fixed (replicate points None)))"
      using initial_assignment_loop [of "[]" 0 "replicate points None" fixed] assms(3)
      by (simp add: initial_assignment_def)
    have read: "read_assignment g' ?base ?sink (List.enumerate 0 rem)
        (map (\<lambda>(f, r). if f = None then r else f) (zip fixed (replicate points None))) \<noteq> Panic"
      if "graph_wf g'" and "same_shape g g'" for g'
      using that net com(2) assms(3)
      by (intro read_assignment_no_panic) (auto simp: in_set_enumerate_eq same_shape_length)
    show ?thesis
      using sent net read assignment_cost_no_panic
      by (auto simp: solve_subproblem_def commit 2 g init Let_def send_flow_def outcome_simps
          split: option.splits)
  qed
qed (simp add: solve_subproblem_def)

lemma choose_cluster_no_panic:
  assumes "length distances = points * clusters" and "clusters * hi \<le> usize_max" and "length fixed = points"
  shows "choose_cluster distances points clusters lo hi optimal fixed point cs \<noteq> Panic"
  by (induction cs) (use solve_subproblem_no_panic [OF assms(1,2)] assms(3) in \<open>auto simp: outcome_simps\<close>)

lemma lexicographic_no_panic:
  assumes "length distances = points * clusters" and "clusters * hi \<le> usize_max"
  shows "solve_lexicographic_assignment distances points clusters lo hi \<noteq> Panic"
proof -
  have "for_each (fix_point distances points clusters lo hi optimal) [0..<points] (replicate points None) \<noteq> Panic" for optimal
    by (rule for_each_no_panic [where P = "\<lambda>fixed. length fixed = points"])
      (use choose_cluster_no_panic [OF assms] in \<open>auto simp: fix_point_def outcome_simps split: option.splits\<close>)
  with solve_subproblem_no_panic [OF assms] show ?thesis
    by (auto simp: solve_lexicographic_assignment_def outcome_simps)
qed

end
