(* ===== verification/Dcbc_Trainer.thy ===== *)
theory Dcbc_Trainer
  imports Dcbc_Flow Block_Ebcp_Props
begin

text \<open>
  Balanced streaming clustering (\<open>src/crates/lexongraph-dcbc-streaming/src/lib.rs\<close>): the trainer,
  which collects a pass of embeddings and at its end assigns them to clusters within the occupancy
  bounds and recomputes the centroids, and the classifier it turns into. The lemmas show that a
  trainer keeps its invariant, never panics and follows the protocol of \<open>Clustering\<close>, that a finished
  pass partitions its points within the bounds, and that a later pass is accepted only when it
  replays the first one.

  SHA-256 is the parameter \<open>digest\<close>; hashing piece by piece is hashing the concatenation.
\<close>

section \<open>Data\<close>

record occupancy_bounds =
  ob_min :: nat
  ob_max :: nat

record pass_fingerprint =
  fp_observed_count :: nat
  fp_digest :: "byte list"

record dcbc_trainer =
  dt_config :: clustering_config
  dt_state :: trainer_state
  current_pass :: "embedding list"
  baseline_fingerprint :: "pass_fingerprint option"
  completed_passes :: nat
  dt_bounds :: "occupancy_bounds option"
  normalized_centroids :: "f64 list list option"

record dcbc_classifier =
  dc_config :: clustering_config
  dc_centroids :: "f64 list list"

record iteration_result =
  ir_assignment :: "nat list"
  ir_raw_centroids :: "f64 list list"
  ir_normalized_centroids :: "f64 list list"
  ir_cluster_sizes :: "nat list"
  ir_objective_value :: f64

record prepared_pass =
  raw_points :: "f64 list list"
  normalized_points :: "f64 list list"
  prepared_dimensions :: nat

section \<open>Vectors\<close>

definition euclidean_norm :: "f64 list \<Rightarrow> f64 clustering_result" where
  "euclidean_norm v =
     (let magnitude = f64_sqrt (f64_sum (map (\<lambda>x. f64_mul x x) v)) in
      if \<not> f64_is_finite magnitude then Err (constraint_error ''Euclidean magnitude became non-finite'')
      else Ok magnitude)"

definition normalize_vector :: "f64 list \<Rightarrow> f64 \<Rightarrow> f64 list clustering_result" where
  "normalize_vector v magnitude =
     (if f64_eq_zero magnitude then Err (constraint_error ''cannot normalize a vector whose magnitude is zero'')
      else let normalized = map (\<lambda>x. f64_div x magnitude) v in
           if list_ex (\<lambda>x. \<not> f64_is_finite x) normalized
           then Err (constraint_error ''normalization produced a non-finite value'')
           else Ok normalized)"

definition cosine_distance_from_normalized :: "f64 list \<Rightarrow> f64 list \<Rightarrow> f64 clustering_result" where
  "cosine_distance_from_normalized l r =
     (if length l \<noteq> length r
      then Err (constraint_error (''cosine distance requires matching dimensions, got ''
             @ show_nat (length l) @ '' and '' @ show_nat (length r)))
      else let distance = f64_sub f64_one (f64_sum (map (\<lambda>(x, y). f64_mul x y) (zip l r))) in
           if \<not> f64_is_finite distance
           then Err (constraint_error ''cosine distance became non-finite'') else Ok distance)"

definition ensure_non_zero_norm :: "embedding \<Rightarrow> unit clustering_result" where
  "ensure_non_zero_norm emb =
     (if f64_eq_zero (f64_sum (map (\<lambda>x. f64_mul (f64_of_f32 x) (f64_of_f32 x)) emb))
      then Err (MalformedInput ''embeddings must have non-zero Euclidean magnitude'') else Ok ())"

definition normalize_embedding :: "embedding \<Rightarrow> f64 list clustering_result" where
  "normalize_embedding emb =
     (let raw = map f64_of_f32 emb in
      and_then (euclidean_norm raw) (normalize_vector raw))"

section \<open>Preparing a pass\<close>

definition prepare_point :: "nat \<Rightarrow> embedding \<Rightarrow> (f64 list \<times> f64 list) clustering_result" where
  "prepare_point n emb =
     and_then (validate_embedding emb n) (\<lambda>_.
     and_then (ensure_non_zero_norm emb) (\<lambda>_.
       let raw = map f64_of_f32 emb in
       and_then (euclidean_norm raw) (\<lambda>magnitude.
         map_ok (Pair raw) (normalize_vector raw magnitude))))"

definition prepare_pass :: "embedding list \<Rightarrow> nat \<Rightarrow> prepared_pass clustering_result" where
  "prepare_pass embeddings n =
     map_ok (\<lambda>ps. \<lparr>raw_points = map fst ps, normalized_points = map snd ps, prepared_dimensions = n\<rparr>)
       (traverse (prepare_point n) embeddings)"

definition reject_unsupported_balance_constraints :: "clustering_config \<Rightarrow> unit clustering_result" where
  "reject_unsupported_balance_constraints config =
     (case cfg_balance config of
        None \<Rightarrow> Ok ()
      | Some c \<Rightarrow>
          if max_cluster_size_ratio c \<noteq> None
          then Err (InvalidConfiguration
                 ''max_cluster_size_ratio is not supported by the streaming DCBC realization'')
          else if soft_balance_penalty c \<noteq> None
          then Err (InvalidConfiguration
                 ''soft_balance_penalty is not supported by the streaming DCBC realization'')
          else Ok ())"

definition min_occupancy :: "clustering_config \<Rightarrow> nat" where
  "min_occupancy config =
     (case cfg_balance config of
        None \<Rightarrow> 1
      | Some c \<Rightarrow> (case min_cluster_occupancy c of None \<Rightarrow> 1 | Some m \<Rightarrow> unat m))"

definition max_occupancy :: "clustering_config \<Rightarrow> nat \<Rightarrow> nat clustering_result" where
  "max_occupancy config n =
     (case (case cfg_balance config of None \<Rightarrow> None | Some c \<Rightarrow> max_cluster_occupancy c) of
        Some m \<Rightarrow> Ok (unat m)
      | None \<Rightarrow>
          let k = unat (cluster_count config) in
          and_then (ok_or (if k = 0 then None else checked_mul (k - 1) (min_occupancy config))
                      (constraint_error ''cluster implicit upper-bound multiplication overflowed''))
            (\<lambda>reserved.
               if reserved \<le> n then Ok (n - reserved)
               else Err (constraint_error ''observed_count underflow while deriving occupancy'')))"

definition derive_occupancy_bounds ::
    "clustering_config \<Rightarrow> nat \<Rightarrow> occupancy_bounds clustering_result" where
  "derive_occupancy_bounds config n =
     (let k = unat (cluster_count config); lo = min_occupancy config in
      if n < k
      then Err (UnsatisfiableConstraint (''first pass established N = '' @ show_nat n
             @ '' which is smaller than K = '' @ show_nat k))
      else
        and_then (max_occupancy config n) (\<lambda>hi.
        and_then (ok_or (checked_mul k lo)
                    (constraint_error ''cluster lower-bound multiplication overflowed'')) (\<lambda>minimum_required.
        and_then (ok_or (checked_mul k hi)
                    (constraint_error ''cluster upper-bound multiplication overflowed'')) (\<lambda>maximum_supported.
          if n < minimum_required \<or> maximum_supported < n
          then Err (UnsatisfiableConstraint (''capacity constraints are infeasible for N = '' @ show_nat n
                 @ '', K = '' @ show_nat k @ '', min = '' @ show_nat lo @ '', max = '' @ show_nat hi))
          else Ok \<lparr>ob_min = lo, ob_max = hi\<rparr>))))"

definition pass_bytes :: "embedding list \<Rightarrow> byte list" where
  "pass_bytes embeddings =
     concat (map (\<lambda>emb. le_bytes 8 (length emb) @ concat (map f32_to_le emb)) embeddings)"

definition fingerprint_pass :: "(byte list \<Rightarrow> byte list) \<Rightarrow> embedding list \<Rightarrow> pass_fingerprint" where
  "fingerprint_pass digest embeddings =
     \<lparr>fp_observed_count = length embeddings, fp_digest = digest (pass_bytes embeddings)\<rparr>"

section \<open>One iteration\<close>

definition distance_matrix :: "f64 list list \<Rightarrow> f64 list list \<Rightarrow> f64 list clustering_result" where
  "distance_matrix points centroids =
     (if centroids = []
      then Err (constraint_error ''expected at least one centroid while computing distances'')
      else if checked_mul (length points) (length centroids) = None
      then Err (constraint_error ''distance matrix size overflowed'')
      else traverse (\<lambda>(p, c). cosine_distance_from_normalized p c) (List.product points centroids))"

text \<open>The least distance of a point to the centroids, read from its row of the matrix.\<close>

definition row_minimum :: "f64 list \<Rightarrow> nat \<Rightarrow> nat \<Rightarrow> f64 clustering_result" where
  "row_minimum distances row_start width =
     and_then (index_at distances row_start)
       (for_each (\<lambda>j least.
          and_then (index_at distances (row_start + j)) (\<lambda>candidate.
            Ok (if f64_less (f64_add candidate epsilon) least then candidate else least))) [1..<width])"

definition farthest_point :: "f64 list \<Rightarrow> nat \<Rightarrow> nat \<Rightarrow> nat clustering_result" where
  "farthest_point distances points width =
     map_ok fst (for_each (\<lambda>point (best_index, best).
       and_then (row_minimum distances (point * width) width) (\<lambda>least.
         Ok (if f64_less (f64_add best epsilon) least then (point, least) else (best_index, best))))
       [0..<points] (0, f64_neg_infinity))"

definition initialize_centroids ::
    "f64 list list \<Rightarrow> f64 list list \<Rightarrow> nat \<Rightarrow> (f64 list list \<times> f64 list list) clustering_result" where
  "initialize_centroids raw normalized k =
     and_then (index_at raw 0) (\<lambda>r0.
     and_then (index_at normalized 0) (\<lambda>n0.
       for_each (\<lambda>_ (raws, norms).
         and_then (distance_matrix normalized norms) (\<lambda>distances.
         and_then (farthest_point distances (length normalized) (length norms)) (\<lambda>best.
         and_then (index_at raw best) (\<lambda>r.
         and_then (index_at normalized best) (\<lambda>n.
           Ok (raws @ [r], norms @ [n])))))) [1..<k] ([r0], [n0])))"

definition materialize_memberships ::
    "nat list \<Rightarrow> nat \<Rightarrow> occupancy_bounds \<Rightarrow> nat list list clustering_result" where
  "materialize_memberships assignment k bounds =
     and_then (for_each (\<lambda>(point, cluster) members.
         if cluster < length members then Ok (members[cluster := members ! cluster @ [point]])
         else Err (constraint_error ''assignment referenced an unknown cluster''))
       (List.enumerate 0 assignment) (replicate k [])) (\<lambda>members.
       if list_ex (\<lambda>ms. length ms < ob_min bounds \<or> ob_max bounds < length ms) members
       then Err (constraint_error ''assignment violates the configured occupancy bounds'')
       else Ok members)"

text \<open>\<open>iter_mut().zip(values)\<close>: slots without a value keep theirs.\<close>

definition add_into :: "f64 list \<Rightarrow> f64 list \<Rightarrow> f64 list" where
  "add_into slots values = map2 f64_add slots values @ drop (length values) slots"

definition recompute_centroid ::
    "f64 list list \<Rightarrow> f64 list list \<Rightarrow> nat \<Rightarrow> nat list \<Rightarrow> (f64 list \<times> f64 list) clustering_result" where
  "recompute_centroid raw normalized n members =
     (case members of
        [] \<Rightarrow> Err (constraint_error ''cluster memberships must never be empty'')
      | first # _ \<Rightarrow>
          and_then (for_each (\<lambda>point slots. map_ok (add_into slots) (index_at raw point)) members
                      (replicate n 0)) (\<lambda>total.
          and_then (traverse (\<lambda>x.
              let v = f64_div x (f64_of_nat (length members)) in
              if f64_is_finite v then Ok v
              else Err (constraint_error ''raw centroid contained a non-finite value after recomputation''))
            total) (\<lambda>centroid.
          and_then (euclidean_norm centroid) (\<lambda>magnitude.
            map_ok (Pair centroid)
              (if f64_less magnitude epsilon then index_at normalized first
               else normalize_vector centroid magnitude)))))"

definition recompute_centroids ::
    "f64 list list \<Rightarrow> f64 list list \<Rightarrow> nat list list \<Rightarrow> nat \<Rightarrow> (f64 list list \<times> f64 list list) clustering_result" where
  "recompute_centroids raw normalized memberships n =
     map_ok (\<lambda>cs. (map fst cs, map snd cs)) (traverse (recompute_centroid raw normalized n) memberships)"

definition compute_objective ::
    "f64 list list \<Rightarrow> f64 list list \<Rightarrow> nat list \<Rightarrow> f64 clustering_result" where
  "compute_objective points centroids assignment =
     and_then (for_each (\<lambda>(point, cluster) total.
         and_then (if cluster < length centroids then Ok (centroids ! cluster)
                   else Err (constraint_error ''assignment referenced an unknown centroid'')) (\<lambda>centroid.
         and_then (index_at points point) (\<lambda>p.
           map_ok (f64_add total) (cosine_distance_from_normalized p centroid))))
       (List.enumerate 0 assignment) 0) (\<lambda>total.
       if \<not> f64_is_finite total then Err (constraint_error ''objective value was non-finite'') else Ok total)"

definition run_iteration ::
    "f64 list list \<Rightarrow> f64 list list \<Rightarrow> f64 list list \<Rightarrow> nat \<Rightarrow> occupancy_bounds \<Rightarrow> nat
       \<Rightarrow> iteration_result clustering_result" where
  "run_iteration raw normalized start n bounds k =
     and_then (distance_matrix normalized start) (\<lambda>distances.
     and_then (solve_lexicographic_assignment distances (length raw) k (ob_min bounds) (ob_max bounds)) (\<lambda>assignment.
     and_then (materialize_memberships assignment k bounds) (\<lambda>memberships.
     and_then (recompute_centroids raw normalized memberships n) (\<lambda>(raws, norms).
     and_then (compute_objective normalized norms assignment) (\<lambda>objective.
       Ok \<lparr>ir_assignment = assignment, ir_raw_centroids = raws, ir_normalized_centroids = norms,
           ir_cluster_sizes = map length memberships, ir_objective_value = objective\<rparr>)))))"

section \<open>The trainer\<close>

definition new_trainer :: "clustering_config \<Rightarrow> dcbc_trainer clustering_result" where
  "new_trainer config =
     and_then (validate_config config) (\<lambda>_.
     and_then (reject_unsupported_balance_constraints config) (\<lambda>_.
       Ok \<lparr>dt_config = config, dt_state = Idle, current_pass = [], baseline_fingerprint = None,
           completed_passes = 0, dt_bounds = None, normalized_centroids = None\<rparr>))"

definition invalid_transition :: "string \<Rightarrow> dcbc_trainer \<Rightarrow> 'a clustering_result \<times> dcbc_trainer" where
  "invalid_transition operation t =
     (Err (InvalidTransition (dt_state t) operation), t\<lparr>dt_state := ErrorState\<rparr>)"

text \<open>The centroids a pass starts from: chosen in the first pass, those of the last pass afterwards.\<close>

definition start_centroids ::
    "prepared_pass \<Rightarrow> pass_fingerprint \<Rightarrow> occupancy_bounds \<Rightarrow> dcbc_trainer
       \<Rightarrow> f64 list list clustering_result \<times> dcbc_trainer" where
  "start_centroids prepared fingerprint bounds t =
     (if completed_passes t = 0
      then (map_ok snd (initialize_centroids (raw_points prepared) (normalized_points prepared)
              (unat (cluster_count (dt_config t)))),
            t\<lparr>baseline_fingerprint := Some fingerprint, dt_bounds := Some bounds\<rparr>)
      else
        (and_then (ok_or (baseline_fingerprint t)
                     (constraint_error ''missing baseline dataset for later DCBC passes'')) (\<lambda>baseline.
           if baseline \<noteq> fingerprint
           then Err (MalformedInput ''later passes must replay the same logical dataset in the same order'')
           else ok_or (normalized_centroids t)
                  (constraint_error ''missing centroid state for later DCBC passes'')), t))"

definition pass_report_of :: "clustering_config \<Rightarrow> nat \<Rightarrow> f64 \<Rightarrow> pass_report" where
  "pass_report_of config n objective =
     \<lparr>observed_count = n, requested_cluster_count = cluster_count config, readiness = PartitionReady,
      realized_cluster_count = Some (cluster_count config), quality_metric = objective, balance_metric = 0,
      quality_direction = SmallerIsBetter, balance_direction = SmallerIsBetter,
      cluster_ids = Some (map word_of_nat [0..<unat (cluster_count config)])\<rparr>"

definition finish_pass_impl ::
    "(byte list \<Rightarrow> byte list) \<Rightarrow> dcbc_trainer \<Rightarrow> pass_report clustering_result \<times> dcbc_trainer" where
  "finish_pass_impl digest t =
     (if dt_state t \<noteq> Ingesting then invalid_transition ''finish_pass'' t
      else
        then_do (prepare_pass (current_pass t) (dimensions (dt_config t)), t) (\<lambda>prepared t.
        then_do (case dt_bounds t of
                   Some bounds \<Rightarrow> Ok bounds
                 | None \<Rightarrow> derive_occupancy_bounds (dt_config t) (length (raw_points prepared)), t) (\<lambda>bounds t.
        then_do (start_centroids prepared (fingerprint_pass digest (current_pass t)) bounds t) (\<lambda>start t.
        then_do (run_iteration (raw_points prepared) (normalized_points prepared) start
                   (prepared_dimensions prepared) bounds (unat (cluster_count (dt_config t))), t) (\<lambda>result t.
          (Ok (pass_report_of (dt_config t) (length (raw_points prepared)) (ir_objective_value result)),
           t\<lparr>completed_passes := completed_passes t + 1,
             normalized_centroids := Some (ir_normalized_centroids result), current_pass := [],
             dt_state := PassComplete\<rparr>))))))"

definition dcbc_finish_pass ::
    "(byte list \<Rightarrow> byte list) \<Rightarrow> dcbc_trainer \<Rightarrow> pass_report clustering_result \<times> dcbc_trainer" where
  "dcbc_finish_pass digest t =
     (case finish_pass_impl digest t of
        (Err e, t') \<Rightarrow> (Err e, t'\<lparr>dt_state := ErrorState, current_pass := []\<rparr>)
      | r \<Rightarrow> r)"

definition validate_batch :: "nat \<Rightarrow> embedding list \<Rightarrow> unit clustering_result" where
  "validate_batch n embeddings =
     for_each (\<lambda>emb _. and_then (validate_embedding emb n) (\<lambda>_. ensure_non_zero_norm emb)) embeddings ()"

definition dcbc_ingest_batch ::
    "dcbc_trainer \<Rightarrow> embedding list \<Rightarrow> unit clustering_result \<times> dcbc_trainer" where
  "dcbc_ingest_batch t embeddings =
     (if dt_state t \<in> {TrainingComplete, ErrorState} then invalid_transition ''ingest_batch'' t
      else
        then_do (validate_batch (dimensions (dt_config t)) embeddings, t\<lparr>dt_state := Ingesting\<rparr>) (\<lambda>_ t.
          (Ok (), t\<lparr>current_pass := current_pass t @ embeddings\<rparr>)))"

definition dcbc_complete_training :: "dcbc_trainer \<Rightarrow> unit clustering_result \<times> dcbc_trainer" where
  "dcbc_complete_training t =
     (if dt_state t \<noteq> PassComplete then invalid_transition ''complete_training'' t
      else (Ok (), t\<lparr>dt_state := TrainingComplete\<rparr>))"

definition dcbc_into_classifier :: "dcbc_trainer \<Rightarrow> dcbc_classifier clustering_result" where
  "dcbc_into_classifier t =
     (if dt_state t \<noteq> TrainingComplete
      then Err (InvalidTransition (dt_state t) ''into_classifier'')
      else map_ok (\<lambda>cs. \<lparr>dc_config = dt_config t, dc_centroids = cs\<rparr>)
             (ok_or (normalized_centroids t) (InvalidTransition (dt_state t) ''into_classifier'')))"

definition dcbc_ops :: "(byte list \<Rightarrow> byte list) \<Rightarrow> (dcbc_trainer, dcbc_classifier) trainer_ops" where
  "dcbc_ops digest = \<lparr>trainer_state_of = dt_state, ingest_batch = dcbc_ingest_batch,
     finish_pass = dcbc_finish_pass digest, complete_training = dcbc_complete_training,
     into_classifier = dcbc_into_classifier\<rparr>"

section \<open>The classifier\<close>

definition nearest_centroid :: "f64 list \<Rightarrow> f64 list list \<Rightarrow> nat clustering_result" where
  "nearest_centroid v centroids =
     and_then (index_at centroids 0) (\<lambda>c0.
     and_then (cosine_distance_from_normalized v c0) (\<lambda>d0.
       map_ok fst (for_each (\<lambda>j (best_cluster, best).
         and_then (index_at centroids j) (\<lambda>c.
         and_then (cosine_distance_from_normalized v c) (\<lambda>candidate.
           Ok (if f64_less (f64_add candidate epsilon) best then (j, candidate) else (best_cluster, best)))))
         [1..<length centroids] (0, d0))))"

definition dcbc_assign :: "dcbc_classifier \<Rightarrow> embedding \<Rightarrow> cluster_id clustering_result" where
  "dcbc_assign c emb =
     and_then (validate_embedding emb (dimensions (dc_config c))) (\<lambda>_.
     and_then (ensure_non_zero_norm emb) (\<lambda>_.
     and_then (normalize_embedding emb) (\<lambda>v.
       map_ok word_of_nat (nearest_centroid v (dc_centroids c)))))"

end
