(* ===== verification/Dcbc_Correct.thy ===== *)
theory Dcbc_Correct
  imports Dcbc_Trainer
begin

text \<open>
  What balanced clustering guarantees: the solver's assignment is balanced and keeps the optimum, a
  finished pass partitions its points, a trainer follows the protocol without a panic and hands out
  a classifier for all its clusters, and a later pass replays the first.
\<close>

section \<open>Preparing a pass\<close>

lemma validate_embedding_no_panic: "validate_embedding emb n \<noteq> Panic"
  by (simp add: validate_embedding_def)

lemma vector_ops_no_panic:
  "euclidean_norm v \<noteq> Panic" "normalize_vector v m \<noteq> Panic" "ensure_non_zero_norm emb \<noteq> Panic"
  "cosine_distance_from_normalized v w \<noteq> Panic" "normalize_embedding emb \<noteq> Panic"
  by (simp_all add: euclidean_norm_def normalize_vector_def ensure_non_zero_norm_def
      cosine_distance_from_normalized_def normalize_embedding_def Let_def outcome_simps)

lemma prepare_pass_no_panic: "prepare_pass es n \<noteq> Panic"
proof -
  have "prepare_point n e \<noteq> Panic" for e
    using validate_embedding_no_panic vector_ops_no_panic
    by (auto simp: prepare_point_def Let_def outcome_simps)
  then show ?thesis by (auto simp: prepare_pass_def outcome_simps dest: traverse_eq_Panic)
qed

lemma prepare_pass_lengths:
  "prepare_pass es n = Ok p \<Longrightarrow> length (raw_points p) = length es \<and> length (normalized_points p) = length es"
  by (auto simp: prepare_pass_def map_ok_eq_Ok dest: traverse_Ok_length)

lemma derive_bounds_spec:
  assumes "derive_occupancy_bounds cfg n = Ok b" and "cluster_count cfg \<noteq> 0"
  shows "0 < n \<and> unat (cluster_count cfg) * ob_max b \<le> usize_max"
proof -
  have "unat (cluster_count cfg) \<le> n \<and> unat (cluster_count cfg) * ob_max b \<le> usize_max"
    using assms(1) by (auto simp: derive_occupancy_bounds_def Let_def outcome_simps split: if_splits)
  moreover have "0 < unat (cluster_count cfg)" using assms(2) by (simp add: unat_gt_0)
  ultimately show ?thesis by simp
qed

lemma derive_bounds_no_panic: "derive_occupancy_bounds cfg n \<noteq> Panic"
  by (auto simp: derive_occupancy_bounds_def max_occupancy_def Let_def outcome_simps
      split: option.splits)

section \<open>Choosing the first centroids\<close>

lemma distance_matrix_no_panic: "distance_matrix ps cs \<noteq> Panic"
  using vector_ops_no_panic by (auto simp: distance_matrix_def dest!: traverse_eq_Panic split: if_splits)

lemma distance_matrix_length:
  "distance_matrix ps cs = Ok ds \<Longrightarrow> length ds = length ps * length cs \<and> cs \<noteq> []"
  by (auto simp: distance_matrix_def split: if_splits dest: traverse_Ok_length)

lemma row_minimum_no_panic:
  "row_start + width \<le> length ds \<Longrightarrow> 0 < width \<Longrightarrow> row_minimum ds row_start width \<noteq> Panic"
proof -
  assume "row_start + width \<le> length ds" and "0 < width"
  then have "for_each (\<lambda>j least.
      and_then (index_at ds (row_start + j)) (\<lambda>candidate.
        Ok (if f64_less (f64_add candidate epsilon) least then candidate else least))) [1..<width] x \<noteq> Panic" for x
    by (intro for_each_no_panic [where P = "\<lambda>_. True"]) (auto simp: index_at_def)
  with \<open>row_start + width \<le> length ds\<close> \<open>0 < width\<close> show ?thesis by (simp add: row_minimum_def index_at_def)
qed

lemma row_in_matrix: "point < points \<Longrightarrow> point * width + width \<le> points * (width :: nat)"
  by (metis Suc_leI add.commute mult_Suc mult_le_mono1)

lemma farthest_point_spec:
  assumes "length ds = points * width" and "0 < width" and "0 < points"
  shows "farthest_point ds points width \<noteq> Panic \<and> (\<forall>i. farthest_point ds points width = Ok i \<longrightarrow> i < points)"
proof -
  let ?f = "\<lambda>point (best_index, best).
     and_then (row_minimum ds (point * width) width) (\<lambda>least.
       Ok (if f64_less (f64_add best epsilon) least then (point, least) else (best_index, best)))"
  have "for_each ?f [0..<points] (0, f64_neg_infinity) \<noteq> Panic"
  proof (rule for_each_no_panic [where P = "\<lambda>_. True"])
    fix point and s :: "nat \<times> f64" assume "point \<in> set [0..<points]"
    then show "?f point s \<noteq> Panic"
      using row_minimum_no_panic [of "point * width" width ds] row_in_matrix [of point points width] assms(1,2)
      by (cases s) (auto simp: outcome_simps)
  qed simp_all
  moreover have "fst s < points" if "for_each ?f [0..<points] (0, f64_neg_infinity) = Ok s" for s
    by (rule for_each_invariant [where P = "\<lambda>s. fst s < points", OF that])
      (use assms(3) in \<open>auto simp: outcome_simps split: if_splits\<close>)
  ultimately show ?thesis by (auto simp: farthest_point_def outcome_simps)
qed

lemma for_each_counts:
  assumes "for_each f xs s = Ok s'" and "\<And>x s s'. f x s = Ok s' \<Longrightarrow> m s' = Suc (m s)"
  shows "m s' = m s + length xs"
  using assms by (induction xs arbitrary: s) (fastforce simp: outcome_simps)+

lemma initialize_centroids_spec:
  assumes "length norms = length raws" and "0 < length raws" and "0 < k"
  shows "initialize_centroids raws norms k \<noteq> Panic \<and>
    (\<forall>rs ns. initialize_centroids raws norms k = Ok (rs, ns) \<longrightarrow> length ns = k)"
proof -
  let ?f = "\<lambda>_ (rs, ns).
     and_then (distance_matrix norms ns) (\<lambda>distances.
     and_then (farthest_point distances (length norms) (length ns)) (\<lambda>best.
     and_then (index_at raws best) (\<lambda>r.
     and_then (index_at norms best) (\<lambda>n. Ok (rs @ [r], ns @ [n])))))"
  have no_panic: "for_each ?f [1..<k] s \<noteq> Panic" for s :: "f64 list list \<times> f64 list list"
  proof (rule for_each_no_panic [where P = "\<lambda>_. True"])
    fix x :: nat and s :: "f64 list list \<times> f64 list list"
    obtain rs ns where s: "s = (rs, ns)" by (cases s)
    have "and_then (farthest_point ds (length norms) (length ns)) (\<lambda>best.
        and_then (index_at raws best) (\<lambda>r. and_then (index_at norms best) (\<lambda>n. Ok (rs @ [r], ns @ [n])))) \<noteq> Panic"
      if "distance_matrix norms ns = Ok ds" for ds
      using farthest_point_spec [of ds "length norms" "length ns"] distance_matrix_length [OF that] assms
      by (auto simp: outcome_simps index_at_Panic)
    then show "?f x s \<noteq> Panic" using distance_matrix_no_panic by (auto simp: s outcome_simps)
  qed simp_all
  have grows: "length (snd s') = length (snd s) + length [1..<k]" if "for_each ?f [1..<k] s = Ok s'" for s s'
    by (rule for_each_counts [OF that]) (auto simp: outcome_simps)
  have "raws \<noteq> []" and "norms \<noteq> []" using assms by auto
  then have "initialize_centroids raws norms k = for_each ?f [1..<k] ([raws ! 0], [norms ! 0])"
    by (simp add: initialize_centroids_def index_at_def)
  then show ?thesis
    using no_panic grows [of "([raws ! 0], [norms ! 0])"] assms(3) by auto
qed

section \<open>One iteration\<close>

lemma materialize_loop:
  assumes "for_each (\<lambda>(point, cluster) members.
         if cluster < length members then Ok (members[cluster := members ! cluster @ [point]])
         else Err (constraint_error ''assignment referenced an unknown cluster''))
       (List.enumerate j a) ms = Ok ms'"
  shows "length ms' = length ms \<and> (\<forall>c < length ms. length (ms' ! c) = length (ms ! c) + occupancy a c \<and>
    set (ms' ! c) \<subseteq> set (ms ! c) \<union> {j..<j + length a})"
  using assms
proof (induction a arbitrary: j ms)
  case (Cons c a)
  let ?ms = "ms[c := ms ! c @ [j]]"
  from Cons.prems have c: "c < length ms"
    and rest: "for_each (\<lambda>(point, cluster) members.
         if cluster < length members then Ok (members[cluster := members ! cluster @ [point]])
         else Err (constraint_error ''assignment referenced an unknown cluster''))
       (List.enumerate (Suc j) a) ?ms = Ok ms'"
    by (auto simp: outcome_simps split: if_splits)
  show ?case
  proof (intro conjI allI impI)
    fix d assume d: "d < length ms"
    with Cons.IH [OF rest] have IH: "length (ms' ! d) = length (?ms ! d) + occupancy a d"
      "set (ms' ! d) \<subseteq> set (?ms ! d) \<union> {Suc j..<Suc j + length a}" by auto
    show "length (ms' ! d) = length (ms ! d) + occupancy (c # a) d"
      using IH(1) c by (auto simp: nth_list_update occupancy_def)
    show "set (ms' ! d) \<subseteq> set (ms ! d) \<union> {j..<j + length (c # a)}"
      using IH(2) c by (cases "d = c") auto
  qed (use Cons.IH [OF rest] in simp)
qed (simp add: occupancy_def)

lemma materialize_spec:
  assumes "materialize_memberships a k b = Ok ms"
  shows "length ms = k \<and> map length ms = map (occupancy a) [0..<k] \<and>
    (\<forall>m \<in> set ms. set m \<subseteq> {..<length a} \<and> ob_min b \<le> length m \<and> length m \<le> ob_max b)"
proof -
  obtain ms' where run: "for_each (\<lambda>(point, cluster) members.
         if cluster < length members then Ok (members[cluster := members ! cluster @ [point]])
         else Err (constraint_error ''assignment referenced an unknown cluster''))
       (List.enumerate 0 a) (replicate k []) = Ok ms'"
    and "ms = ms'" and bounds: "\<forall>m \<in> set ms'. ob_min b \<le> length m \<and> length m \<le> ob_max b"
    using assms by (auto simp: materialize_memberships_def outcome_simps list_ex_iff not_less split: if_splits)
  from materialize_loop [OF run] have "length ms = k"
    and each: "\<forall>c < k. length (ms ! c) = occupancy a c \<and> set (ms ! c) \<subseteq> {..<length a}"
    using \<open>ms = ms'\<close> by (auto simp: lessThan_atLeast0)
  then have "map length ms = map (occupancy a) [0..<k]" by (intro nth_equalityI) auto
  moreover have "\<forall>m \<in> set ms. set m \<subseteq> {..<length a}" using each \<open>length ms = k\<close> by (metis in_set_conv_nth)
  ultimately show ?thesis using \<open>length ms = k\<close> bounds \<open>ms = ms'\<close> by simp
qed

lemma materialize_no_panic: "materialize_memberships a k b \<noteq> Panic"
proof -
  have "for_each (\<lambda>(point, cluster) members.
         if cluster < length members then Ok (members[cluster := members ! cluster @ [point]])
         else Err (constraint_error ''assignment referenced an unknown cluster''))
       (List.enumerate 0 a) (replicate k []) \<noteq> Panic"
    by (rule for_each_no_panic [where P = "\<lambda>_. True"]) (auto split: if_splits)
  then show ?thesis by (auto simp: materialize_memberships_def outcome_simps split: if_splits)
qed

lemma recompute_no_panic:
  assumes "length norms = length raws" and "\<forall>m \<in> set ms. set m \<subseteq> {..<length raws}"
  shows "recompute_centroids raws norms ms n \<noteq> Panic"
proof -
  have "recompute_centroid raws norms n m \<noteq> Panic" if "m \<in> set ms" for m
  proof (cases m)
    case (Cons first rest)
    have m: "set m \<subseteq> {..<length raws}" using assms(2) that by blast
    have "for_each (\<lambda>point slots. map_ok (add_into slots) (index_at raws point)) m (replicate n 0) \<noteq> Panic"
      by (rule for_each_no_panic [where P = "\<lambda>_. True"]) (use m in \<open>auto simp: index_at_def\<close>)
    moreover have "traverse (\<lambda>x. let v = f64_div x (f64_of_nat (length m)) in
        if f64_is_finite v then Ok v
        else Err (constraint_error ''raw centroid contained a non-finite value after recomputation'')) total \<noteq> Panic" for total
      by (auto dest!: traverse_eq_Panic simp: Let_def split: if_splits)
    moreover have "first < length norms" using m Cons assms(1) by auto
    ultimately show ?thesis
      using vector_ops_no_panic unfolding recompute_centroid_def Cons
      by (auto simp: outcome_simps index_at_Panic split: if_splits)
  qed (simp add: recompute_centroid_def)
  then show ?thesis by (auto simp: recompute_centroids_def outcome_simps dest!: traverse_eq_Panic)
qed

lemma objective_no_panic:
  assumes "length assignment \<le> length points"
  shows "compute_objective points centroids assignment \<noteq> Panic"
proof -
  let ?f = "\<lambda>(point, cluster) total.
     and_then (if cluster < length centroids then Ok (centroids ! cluster)
               else Err (constraint_error ''assignment referenced an unknown centroid'')) (\<lambda>centroid.
     and_then (index_at points point) (\<lambda>p.
       map_ok (f64_add total) (cosine_distance_from_normalized p centroid)))"
  have "for_each ?f (List.enumerate 0 assignment) 0 \<noteq> Panic"
  proof (rule for_each_no_panic [where P = "\<lambda>_. True"])
    fix x :: "nat \<times> nat" and s assume x: "x \<in> set (List.enumerate 0 assignment)"
    obtain i c where "x = (i, c)" by (cases x)
    with x assms vector_ops_no_panic(4) show "?f x s \<noteq> Panic"
      by (auto simp: in_set_enumerate_eq outcome_simps index_at_Panic split: if_splits)
  qed simp_all
  then show ?thesis by (auto simp: compute_objective_def outcome_simps split: if_splits)
qed

lemma run_iteration_spec:
  assumes "run_iteration raws norms start n b k = Ok r"
  shows "length (ir_assignment r) = length raws \<and> (\<forall>c \<in> set (ir_assignment r). c < k) \<and>
    ir_cluster_sizes r = map (occupancy (ir_assignment r)) [0..<k] \<and>
    (\<forall>s \<in> set (ir_cluster_sizes r). ob_min b \<le> s \<and> s \<le> ob_max b) \<and>
    length (ir_normalized_centroids r) = k"
proof -
  obtain ds a ms rs ns where
    a: "solve_lexicographic_assignment ds (length raws) k (ob_min b) (ob_max b) = Ok a"
    and ms: "materialize_memberships a k b = Ok ms" and "recompute_centroids raws norms ms n = Ok (rs, ns)"
    and r: "ir_assignment r = a" "ir_cluster_sizes r = map length ms" "ir_normalized_centroids r = ns"
    using assms by (auto simp: run_iteration_def outcome_simps)
  then have "length ns = length ms" by (auto simp: recompute_centroids_def map_ok_eq_Ok dest: traverse_Ok_length)
  with materialize_spec [OF ms] lexicographic_spec [OF a] r show ?thesis by auto
qed

lemma run_iteration_no_panic:
  assumes "length norms = length raws" and "length start = k" and "k * ob_max b \<le> usize_max"
  shows "run_iteration raws norms start n b k \<noteq> Panic"
proof (cases "distance_matrix norms start")
  case (Ok ds)
  have "length ds = length raws * k" using distance_matrix_length [OF Ok] assms by simp
  note solve = lexicographic_no_panic [OF this assms(3), of "ob_min b"]
  have "and_then (materialize_memberships a k b) (\<lambda>ms.
      and_then (recompute_centroids raws norms ms n) (\<lambda>(rs, ns).
      and_then (compute_objective norms ns a) (\<lambda>objective.
        Ok \<lparr>ir_assignment = a, ir_raw_centroids = rs, ir_normalized_centroids = ns,
           ir_cluster_sizes = map length ms, ir_objective_value = objective\<rparr>))) \<noteq> Panic"
    if a: "solve_lexicographic_assignment ds (length raws) k (ob_min b) (ob_max b) = Ok a" for a
  proof -
    have len: "length a = length raws" using lexicographic_spec [OF a] by simp
    have "recompute_centroids raws norms ms n \<noteq> Panic" if "materialize_memberships a k b = Ok ms" for ms
      using recompute_no_panic [OF assms(1)] materialize_spec [OF that] len by simp
    moreover have "compute_objective norms ns a \<noteq> Panic" for ns using objective_no_panic len assms(1) by simp
    ultimately show ?thesis using materialize_no_panic by (auto simp: outcome_simps)
  qed
  with solve show ?thesis unfolding run_iteration_def Ok by (auto simp: outcome_simps)
qed (use distance_matrix_no_panic in \<open>auto simp: run_iteration_def\<close>)

section \<open>The invariant of a trainer\<close>

definition dcbc_inv :: "dcbc_trainer \<Rightarrow> bool" where
  "dcbc_inv t \<longleftrightarrow>
     (let k = unat (cluster_count (dt_config t)) in
      0 < k \<and>
      (\<forall>b. dt_bounds t = Some b \<longrightarrow> k * ob_max b \<le> usize_max) \<and>
      (dt_state t \<in> {PassComplete, TrainingComplete} \<longrightarrow> 0 < completed_passes t) \<and>
      (if completed_passes t = 0 then dt_state t = ErrorState \<or> dt_bounds t = None
       else dt_bounds t \<noteq> None \<and> baseline_fingerprint t \<noteq> None \<and>
            (\<exists>cs. normalized_centroids t = Some cs \<and> length cs = k)))"

lemma new_trainer_inv: "new_trainer cfg = Ok t \<Longrightarrow> dcbc_inv t \<and> dt_state t = Idle \<and> dt_config t = cfg"
  by (auto simp: new_trainer_def outcome_simps validate_config_def dcbc_inv_def unat_gt_0 split: if_splits)

lemma ingest_spec:
  assumes "dcbc_inv t" and "dcbc_ingest_batch t es = (r, t')"
  shows "dcbc_inv t' \<and> r \<noteq> Panic \<and> dt_config t' = dt_config t \<and>
    (if dt_state t \<in> {TrainingComplete, ErrorState}
     then r = Err (InvalidTransition (dt_state t) ''ingest_batch'') \<and> dt_state t' = ErrorState
     else dt_state t' = Ingesting)"
proof -
  have "validate_batch n es \<noteq> Panic" for n
    unfolding validate_batch_def using vector_ops_no_panic(3) validate_embedding_no_panic
    by (intro for_each_no_panic [where P = "\<lambda>_. True"]) (auto simp: outcome_simps)
  with assms show ?thesis
    by (cases "validate_batch (dimensions (dt_config t)) es")
      (auto simp: dcbc_ingest_batch_def invalid_transition_def dcbc_inv_def Let_def split: if_splits)
qed

text \<open>A pass that starts leaves a state in which both a failure and a finished iteration fit.\<close>

lemma start_centroids_spec:
  assumes inv: "dcbc_inv t" and st: "dt_state t = Ingesting"
    and bb: "unat (cluster_count (dt_config t)) * ob_max b \<le> usize_max"
    and lens: "length (normalized_points p) = length (raw_points p)"
    and first: "completed_passes t = 0 \<Longrightarrow> 0 < length (raw_points p)"
    and start: "start_centroids p fp b t = (s, t1)"
  shows "s \<noteq> Panic" and "s = Ok cs \<Longrightarrow> length cs = unat (cluster_count (dt_config t))"
    and "dt_config t1 = dt_config t" and "dcbc_inv (t1\<lparr>dt_state := ErrorState, current_pass := []\<rparr>)"
    and "length cs' = unat (cluster_count (dt_config t)) \<Longrightarrow>
      dcbc_inv (t1\<lparr>completed_passes := completed_passes t1 + 1, normalized_centroids := Some cs',
                  current_pass := [], dt_state := PassComplete\<rparr>)"
proof -
  have k: "0 < unat (cluster_count (dt_config t))" using inv by (simp add: dcbc_inv_def Let_def)
  show "dt_config t1 = dt_config t" "dcbc_inv (t1\<lparr>dt_state := ErrorState, current_pass := []\<rparr>)"
    using start inv bb by (auto simp: start_centroids_def dcbc_inv_def Let_def split: if_splits)
  show "dcbc_inv (t1\<lparr>completed_passes := completed_passes t1 + 1, normalized_centroids := Some cs',
      current_pass := [], dt_state := PassComplete\<rparr>)" if "length cs' = unat (cluster_count (dt_config t))"
    using that start inv bb k by (auto simp: start_centroids_def dcbc_inv_def Let_def split: if_splits)
  have "s \<noteq> Panic \<and> (\<forall>cs. s = Ok cs \<longrightarrow> length cs = unat (cluster_count (dt_config t)))"
  proof (cases "completed_passes t = 0")
    case True
    then show ?thesis
      using start initialize_centroids_spec [OF lens _ k] first
      by (auto simp: start_centroids_def outcome_simps)
  next
    case False
    then show ?thesis
      using start inv by (auto simp: start_centroids_def dcbc_inv_def Let_def outcome_simps split: if_splits)
  qed
  then show "s \<noteq> Panic" and "s = Ok cs \<Longrightarrow> length cs = unat (cluster_count (dt_config t))" by auto
qed

lemma finish_impl_spec:
  assumes inv: "dcbc_inv t" and run: "finish_pass_impl digest t = (r, t')" and st: "dt_state t = Ingesting"
  shows "r \<noteq> Panic \<and> dt_config t' = dt_config t \<and>
    (if is_ok r then dcbc_inv t' \<and> dt_state t' = PassComplete
     else dcbc_inv (t'\<lparr>dt_state := ErrorState, current_pass := []\<rparr>))"
proof -
  let ?k = "unat (cluster_count (dt_config t))" and ?n = "dimensions (dt_config t)"
  have k: "0 < ?k" and b0: "\<And>b. dt_bounds t = Some b \<Longrightarrow> ?k * ob_max b \<le> usize_max"
    using inv by (auto simp: dcbc_inv_def Let_def)
  have err: "dcbc_inv (t\<lparr>dt_state := ErrorState, current_pass := []\<rparr>)"
    using inv by (auto simp: dcbc_inv_def Let_def)
  show ?thesis
  proof (cases "prepare_pass (current_pass t) ?n")
    case (Ok p)
    note lens = prepare_pass_lengths [OF Ok]
    let ?bounds = "case dt_bounds t of Some bounds \<Rightarrow> Ok bounds
      | None \<Rightarrow> derive_occupancy_bounds (dt_config t) (length (raw_points p))"
    show ?thesis
    proof (cases ?bounds)
      case (Ok b)
      have bb: "?k * ob_max b \<le> usize_max"
        and first: "completed_passes t = 0 \<Longrightarrow> 0 < length (raw_points p)"
        using Ok b0 k inv st derive_bounds_spec [of "dt_config t" "length (raw_points p)" b]
        by (auto simp: dcbc_inv_def Let_def unat_gt_0 split: option.splits if_splits)
      let ?fp = "fingerprint_pass digest (current_pass t)"
      obtain s t1 where start: "start_centroids p ?fp b t = (s, t1)" by fastforce
      note t1 = start_centroids_spec [OF inv st bb _ _ start]
      show ?thesis
      proof (cases s)
        case (Ok cs)
        let ?it = "run_iteration (raw_points p) (normalized_points p) cs (prepared_dimensions p) b ?k"
        have it: "?it \<noteq> Panic" using run_iteration_no_panic t1(2) Ok lens first bb by simp
        have fin: "finish_pass_impl digest t = then_do (?it, t1) (\<lambda>result t.
            (Ok (pass_report_of (dt_config t) (length (raw_points p)) (ir_objective_value result)),
             t\<lparr>completed_passes := completed_passes t + 1,
               normalized_centroids := Some (ir_normalized_centroids result), current_pass := [],
               dt_state := PassComplete\<rparr>))"
          using st \<open>prepare_pass _ _ = Ok p\<close> \<open>?bounds = Ok b\<close> start Ok t1(3) lens first by (simp add: finish_pass_impl_def)
        show ?thesis
        proof (cases ?it)
          case (Ok result)
          with fin run t1(3-5) lens first run_iteration_spec [OF Ok] show ?thesis
            by (auto simp: is_ok_def)
        qed (use it fin run t1(3,4) lens first in \<open>auto simp: is_ok_def\<close>)
      qed (use st Ok \<open>prepare_pass _ _ = Ok p\<close> start run t1(1,3,4) lens first in \<open>auto simp: finish_pass_impl_def is_ok_def\<close>)
    qed (use st \<open>prepare_pass _ _ = Ok p\<close> run err derive_bounds_no_panic in
        \<open>auto simp: finish_pass_impl_def is_ok_def split: option.splits\<close>)
  qed (use st run err prepare_pass_no_panic in \<open>auto simp: finish_pass_impl_def is_ok_def\<close>)
qed

section \<open>The trainer follows the protocol\<close>

lemma finish_spec:
  assumes inv: "dcbc_inv t" and run: "dcbc_finish_pass digest t = (r, t')"
  shows "dcbc_inv t' \<and> r \<noteq> Panic \<and> dt_config t' = dt_config t \<and>
    dt_state t' = (if is_ok r then PassComplete else ErrorState) \<and>
    (dt_state t \<noteq> Ingesting \<longrightarrow> r = Err (InvalidTransition (dt_state t) ''finish_pass''))"
proof -
  obtain r1 t1 where impl: "finish_pass_impl digest t = (r1, t1)" by fastforce
  have fin: "dcbc_finish_pass digest t =
      (case r1 of Err e \<Rightarrow> (Err e, t1\<lparr>dt_state := ErrorState, current_pass := []\<rparr>) | _ \<Rightarrow> (r1, t1))"
    by (simp add: dcbc_finish_pass_def impl split: outcome.splits)
  show ?thesis
  proof (cases "dt_state t = Ingesting")
    case True
    with finish_impl_spec [OF inv impl] run show ?thesis
      by (cases r1) (auto simp: fin is_ok_def)
  next
    case False
    then have "r1 = Err (InvalidTransition (dt_state t) ''finish_pass'')" and "t1 = t\<lparr>dt_state := ErrorState\<rparr>"
      using impl by (auto simp: finish_pass_impl_def invalid_transition_def)
    with run inv False show ?thesis by (auto simp: fin is_ok_def dcbc_inv_def Let_def)
  qed
qed

lemma complete_spec:
  assumes "dcbc_inv t" and "dcbc_complete_training t = (r, t')"
  shows "dcbc_inv t' \<and> dt_config t' = dt_config t \<and>
    (if dt_state t = PassComplete then r = Ok () \<and> dt_state t' = TrainingComplete
     else r = Err (InvalidTransition (dt_state t) ''complete_training'') \<and> dt_state t' = ErrorState)"
  using assms by (auto simp: dcbc_complete_training_def invalid_transition_def dcbc_inv_def Let_def split: if_splits)

lemma classifier_spec:
  assumes "dcbc_inv t"
  shows "(\<exists>c. dcbc_into_classifier t = Ok c) \<longleftrightarrow> dt_state t = TrainingComplete"
    and "dcbc_into_classifier t = Ok c \<Longrightarrow>
      dc_config c = dt_config t \<and> length (dc_centroids c) = unat (cluster_count (dt_config t)) \<and> dc_centroids c \<noteq> []"
  using assms by (auto simp: dcbc_into_classifier_def dcbc_inv_def Let_def outcome_simps split: if_splits)

lemma perform_spec:
  assumes "dcbc_inv t" and "perform (dcbc_ops digest) c t = (r, t')"
  shows "dcbc_inv t' \<and> r \<noteq> Panic \<and> dt_config t' = dt_config t \<and> dt_state t' = state_after c (dt_state t) (is_ok r) \<and>
    (\<not> call_allowed c (dt_state t) \<longrightarrow> (\<exists>m. r = Err (InvalidTransition (dt_state t) m))) \<and>
    (c = CompleteTraining \<and> dt_state t = PassComplete \<longrightarrow> r = Ok ())"
proof (cases c)
  case (IngestBatch es)
  then have "dcbc_ingest_batch t es = (r, t')" using assms(2) by (simp add: perform_def dcbc_ops_def)
  from ingest_spec [OF assms(1) this] IngestBatch show ?thesis
    by (cases "dt_state t") (auto simp: is_ok_def)
next
  case FinishPass
  then obtain r' where "dcbc_finish_pass digest t = (r', t')" and "r = map_ok (\<lambda>_. ()) r'"
    using assms(2) by (cases "dcbc_finish_pass digest t") (auto simp: perform_def dcbc_ops_def)
  with finish_spec [OF assms(1), of digest r' t'] FinishPass show ?thesis
    by (cases r') (auto simp: is_ok_def)
next
  case CompleteTraining
  then have "dcbc_complete_training t = (r, t')" using assms(2) by (simp add: perform_def dcbc_ops_def)
  from complete_spec [OF assms(1) this] CompleteTraining show ?thesis
    by (auto simp: is_ok_def split: if_splits)
qed

interpretation dcbc: streaming_trainer "dcbc_ops digest" dcbc_inv for digest
proof
  fix t c r t' assume step: "dcbc_inv t" "perform (dcbc_ops digest) c t = (r, t')"
  note spec = perform_spec [OF step]
  show "dcbc_inv t'" and "r \<noteq> Panic" using spec by auto
  show "trainer_state_of (dcbc_ops digest) t' = state_after c (trainer_state_of (dcbc_ops digest) t) (is_ok r)"
    using spec by (simp add: dcbc_ops_def)
  show "\<exists>m. r = Err (InvalidTransition (trainer_state_of (dcbc_ops digest) t) m)"
    if "\<not> call_allowed c (trainer_state_of (dcbc_ops digest) t)"
    using spec that by (simp add: dcbc_ops_def)
next
  fix t r t' assume "dcbc_inv t" "perform (dcbc_ops digest) CompleteTraining t = (r, t')"
    and "trainer_state_of (dcbc_ops digest) t = PassComplete"
  then show "r = Ok ()" using perform_spec by (simp add: dcbc_ops_def)
next
  fix t assume "dcbc_inv t"
  then show "(\<exists>c. into_classifier (dcbc_ops digest) t = Ok c) \<longleftrightarrow> trainer_state_of (dcbc_ops digest) t = TrainingComplete"
    using classifier_spec(1) by (simp add: dcbc_ops_def)
qed

section \<open>Properties\<close>

lemma run_config:
  "perform_all (dcbc_ops digest) cs t = (rs, t') \<Longrightarrow> dcbc_inv t \<Longrightarrow> dt_config t' = dt_config t"
proof (induction cs arbitrary: t rs)
  case (Cons c cs)
  then obtain r t1 rs' where step: "perform (dcbc_ops digest) c t = (r, t1)"
    and rest: "perform_all (dcbc_ops digest) cs t1 = (rs', t')" by (auto split: prod.splits)
  from perform_spec [OF Cons.prems(2) step] Cons.IH [OF rest] show ?case by simp
qed simp

lemma sum_occupancy:
  "(\<forall>c \<in> set a. c < k) \<Longrightarrow> sum_list (map (occupancy a) [0..<k]) = length a"
proof (induction a)
  case (Cons x a)
  have "sum_list (map (occupancy (x # a)) [0..<k]) =
      sum_list (map (\<lambda>c. occupancy a c + (if x = c then 1 else 0)) [0..<k])"
    by (intro arg_cong [where f = sum_list] map_cong) (auto simp: occupancy_def)
  also have "\<dots> = sum_list (map (occupancy a) [0..<k]) + sum_list (map (\<lambda>c. if x = c then 1 else 0) [0..<k])"
    by (simp add: sum_list_addf)
  also have "sum_list (map (\<lambda>c. if x = c then 1 else 0) [0..<k]) = (1 :: nat)"
    using Cons.prems by (simp add: interv_sum_list_conv_sum_set_nat)
  finally show ?case using Cons by simp
qed (simp add: occupancy_def)


text \<open>
  C25: on a full distance matrix and bounds that fit the machine's integers, the solver
  returns without a panic: its flow loop ends, every index is in range and no capacity underflows.
\<close>

theorem dcbc_solver_total:
  assumes "length distances = points * clusters" and "clusters * hi \<le> usize_max"
  shows "solve_lexicographic_assignment distances points clusters lo hi \<noteq> Panic"
  using assms by (rule lexicographic_no_panic)

text \<open>
  C26: the iteration of a pass puts every point into exactly one cluster, every
  cluster within the bounds, with one centroid for each cluster.
\<close>

theorem dcbc_pass_partition:
  assumes "run_iteration raws norms start n b k = Ok r"
  shows "ir_cluster_sizes r = map (count_list (ir_assignment r)) [0..<k] \<and>
    sum_list (ir_cluster_sizes r) = length raws \<and>
    (\<forall>s \<in> set (ir_cluster_sizes r). ob_min b \<le> s \<and> s \<le> ob_max b) \<and>
    length (ir_normalized_centroids r) = k"
  using run_iteration_spec [OF assms] sum_occupancy [of "ir_assignment r" k]
  by (auto simp: occupancy_def [abs_def])

text \<open>
  C27: whatever the calls made on a new trainer, none panics and its state is the one the
  protocol automaton reaches; once it is in error every later call fails; and it turns into a classifier
  only right after a pass that finished and a training that was completed.
\<close>

theorem dcbc_protocol:
  assumes "new_trainer config = Ok t0" and "perform_all (dcbc_ops digest) calls t0 = (results, t)"
  shows "Panic \<notin> set results \<and> dt_state t = automaton_run calls (map is_ok results) Idle \<and>
    (\<forall>later results' t'. dt_state t = ErrorState \<and> perform_all (dcbc_ops digest) later t = (results', t') \<longrightarrow>
       dt_state t' = ErrorState \<and> (\<forall>r \<in> set results'. \<not> is_ok r)) \<and>
    (\<forall>c. dcbc_into_classifier t = Ok c \<longrightarrow>
       (\<exists>before results'. calls = before @ [FinishPass, CompleteTraining] \<and> results = results' @ [Ok (), Ok ()]))"
proof -
  note start = new_trainer_inv [OF assms(1)]
  have inv: "dcbc_inv t0" and idle: "trainer_state_of (dcbc_ops digest) t0 = Idle"
    using start by (auto simp: dcbc_ops_def)
  note run = dcbc.run_inv [OF assms(2) inv] dcbc.run_refines [OF assms(2) inv]
  have "dt_state t' = ErrorState \<and> (\<forall>r \<in> set rs. \<not> is_ok r)"
    if "dt_state t = ErrorState" and "perform_all (dcbc_ops digest) later t = (rs, t')" for later rs t'
    using dcbc.error_final [OF that(2)] run(1) that(1) by (simp add: dcbc_ops_def)
  moreover have "\<exists>before rs'. calls = before @ [FinishPass, CompleteTraining] \<and> results = rs' @ [Ok (), Ok ()]"
    if "dcbc_into_classifier t = Ok c" for c
    using dcbc.classifier_history [OF assms(2) inv idle] that by (simp add: dcbc_ops_def)
  ultimately show ?thesis using run start by (auto simp: dcbc_ops_def)
qed

lemma nearest_centroid_spec:
  assumes "centroids \<noteq> []"
  shows "nearest_centroid v centroids \<noteq> Panic \<and> (\<forall>i. nearest_centroid v centroids = Ok i \<longrightarrow> i < length centroids)"
proof -
  let ?f = "\<lambda>j (best_cluster, best).
     and_then (index_at centroids j) (\<lambda>c.
     and_then (cosine_distance_from_normalized v c) (\<lambda>candidate.
       Ok (if f64_less (f64_add candidate epsilon) best then (j, candidate) else (best_cluster, best))))"
  have "for_each ?f [1..<length centroids] s \<noteq> Panic" for s
  proof (rule for_each_no_panic [where P = "\<lambda>_. True"])
    fix j and s :: "nat \<times> f64" assume j: "j \<in> set [1..<length centroids]"
    show "?f j s \<noteq> Panic"
      using j vector_ops_no_panic(4) by (cases "s") (auto simp: outcome_simps index_at_Panic)
  qed simp_all
  moreover have "fst s < length centroids" if "for_each ?f [1..<length centroids] (0, d) = Ok s" for s d
    by (rule for_each_invariant [where P = "\<lambda>s. fst s < length centroids", OF that])
      (use assms in \<open>auto simp: outcome_simps split: if_splits\<close>)
  ultimately show ?thesis
    using assms vector_ops_no_panic(4) by (auto simp: nearest_centroid_def outcome_simps index_at_Panic)
qed

text \<open>
  C28: the classifier of a trained trainer assigns every embedding without a panic,
  to one of the configured clusters or with an error.
\<close>

theorem dcbc_classifier_total:
  assumes "new_trainer config = Ok t0" and "perform_all (dcbc_ops digest) calls t0 = (results, t)"
    and "dcbc_into_classifier t = Ok c"
  shows "length (dc_centroids c) = unat (cluster_count config) \<and> dcbc_assign c emb \<noteq> Panic \<and>
    (\<forall>i. dcbc_assign c emb = Ok i \<longrightarrow> i < cluster_count config)"
proof -
  note start = new_trainer_inv [OF assms(1)]
  have inv: "dcbc_inv t" using dcbc.run_inv [OF assms(2)] start by simp
  have "dt_config t = config" using run_config [OF assms(2)] start by simp
  with classifier_spec(2) [OF inv assms(3)] have len: "length (dc_centroids c) = unat (cluster_count config)"
    and ne: "dc_centroids c \<noteq> []" by auto
  have "word_of_nat i < cluster_count config" if "i < unat (cluster_count config)" for i
  proof -
    have "i < 2 ^ LENGTH(32)" using that unsigned_less [of "cluster_count config"] by (rule less_trans)
    with that show ?thesis by (simp add: word_less_nat_alt unsigned_of_nat take_bit_nat_eq_self)
  qed
  with len nearest_centroid_spec [OF ne] vector_ops_no_panic validate_embedding_no_panic show ?thesis
    by (auto simp: dcbc_assign_def outcome_simps)
qed

lemma f32_values_inject:
  "length xs = length ys \<Longrightarrow> concat (map f32_to_le xs) = concat (map f32_to_le ys) \<Longrightarrow> xs = ys"
proof (induction xs ys rule: list_induct2)
  case (Cons x xs y ys)
  then have "f32_to_le x = f32_to_le y" and "xs = ys" by (auto simp: append_eq_append_conv)
  then show ?case by (metis f32_le_roundtrip)
qed simp

lemma pass_bytes_inject:
  assumes "length es = length fs" and "\<forall>e \<in> set es \<union> set fs. length e \<le> usize_max"
    and "pass_bytes es = pass_bytes fs"
  shows "es = fs"
  using assms
proof (induction es fs rule: list_induct2)
  case (Cons e es f fs)
  let ?body = "\<lambda>emb. concat (map f32_to_le emb)"
  have split: "le_bytes 8 (length e) = le_bytes 8 (length f)"
    "?body e @ pass_bytes es = ?body f @ pass_bytes fs"
    using Cons.prems(2) by (auto simp: pass_bytes_def append_eq_append_conv)
  have "length e = length f"
  proof -
    have "le_nat (le_bytes 8 (length x)) = length x" if "length x \<le> usize_max" for x :: embedding
      using that by (simp add: le_nat_le_bytes usize_max_def)
    with split(1) Cons.prems(1) show ?thesis by (metis UnI1 UnI2 list.set_intros(1))
  qed
  moreover have "length (?body x) = 4 * length x" for x :: embedding
    by (induction x) (auto simp: f32_to_le_length)
  ultimately have "?body e = ?body f" and "pass_bytes es = pass_bytes fs"
    using split(2) by (auto simp: append_eq_append_conv)
  then show ?case using f32_values_inject \<open>length e = length f\<close> Cons.IH Cons.prems(1) by auto
qed simp

lemma prepare_pass_dimensions: "prepare_pass es n = Ok p \<Longrightarrow> e \<in> set es \<Longrightarrow> length e = n"
  by (fastforce simp: prepare_pass_def prepare_point_def validate_embedding_def outcome_simps
      list_all2_conv_all_nth in_set_conv_nth split: if_splits)

text \<open>
  C29: the first finished pass fixes the dataset; a later pass finishes only when it replays
  the same embeddings, bit for bit and in the same order, or collides with them under the digest.
\<close>

theorem dcbc_replay:
  assumes "dcbc_finish_pass digest t = (Ok report, t')" and "dimensions (dt_config t) \<le> usize_max"
  shows "if completed_passes t = 0
    then baseline_fingerprint t' = Some (fingerprint_pass digest (current_pass t))
    else baseline_fingerprint t' = baseline_fingerprint t \<and>
      (\<forall>first. baseline_fingerprint t = Some (fingerprint_pass digest first) \<and>
         list_all (\<lambda>e. length e \<le> usize_max) first \<longrightarrow>
         current_pass t = first \<or>
         (pass_bytes (current_pass t) \<noteq> pass_bytes first \<and>
          digest (pass_bytes (current_pass t)) = digest (pass_bytes first)))"
proof -
  let ?fp = "fingerprint_pass digest (current_pass t)"
  obtain p b start s where p: "prepare_pass (current_pass t) (dimensions (dt_config t)) = Ok p"
    and "start_centroids p ?fp b t = (Ok start, s)" and "baseline_fingerprint t' = baseline_fingerprint s"
    using assms(1) by (auto simp: dcbc_finish_pass_def finish_pass_impl_def invalid_transition_def then_do_Ok
        split: if_splits prod.splits outcome.splits)
  then have "if completed_passes t = 0 then baseline_fingerprint t' = Some ?fp
      else baseline_fingerprint t' = baseline_fingerprint t \<and> baseline_fingerprint t = Some ?fp"
    by (auto simp: start_centroids_def outcome_simps split: if_splits)
  moreover have "current_pass t = first" if "?fp = fingerprint_pass digest first"
    and "list_all (\<lambda>e. length e \<le> usize_max) first" and "pass_bytes (current_pass t) = pass_bytes first" for first
    using that prepare_pass_dimensions [OF p] assms(2)
    by (intro pass_bytes_inject) (auto simp: fingerprint_pass_def list_all_iff)
  ultimately show ?thesis by (auto simp: fingerprint_pass_def)
qed

end
