(* ===== verification/Dcbc_Examples.thy ===== *)
theory Dcbc_Examples
  imports Dcbc_Correct Cbor_Codec
begin

text \<open>
  A concrete run of balanced clustering, at which its properties are applied: one point, one
  cluster, one pass.
\<close>

section \<open>The numbers of the run\<close>

lemma ex_sums: "f64_add 0 0 = 0" "f64_add 0 epsilon = epsilon" "f64_add f64_neg_zero f64_one = f64_one"
  "f64_add 0 f64_one = f64_one"
  by (simp_all add: epsilon_def float_eval)

lemma ex_mul: "f64_mul f64_one f64_one = f64_one"
  by (simp add: float_eval)

lemma ex_sub: "f64_sub f64_one f64_one = 0"
  by (simp add: float_eval)

lemma ex_div: "f64_div f64_one f64_one = f64_one"
  by (simp add: float_eval)

lemma ex_sqrt: "f64_sqrt f64_one = f64_one"
proof -
  have d: "f64_decode f64_one = Fin False 4503599627370496 (- 52)" by (simp add: float_eval)
  have "isqrt (4503599627370496 * 2 ^ 110) = 2 ^ 81"
    using isqrt_square [of "2 ^ 81"] by simp
  then have "f64_sqrt f64_one = f64_encode (Fin False (2 ^ 82) (- 82))" by (simp add: f64_sqrt_def d)
  also have "\<dots> = f64_one" by (simp add: float_eval)
  finally show ?thesis .
qed

lemmas ex_products = ex_mul ex_sub ex_div ex_sqrt

lemma ex_comparisons: "f64_less epsilon f64_infinity" "\<not> f64_less epsilon 0" "\<not> f64_less f64_one epsilon"
  "f64_is_finite 0" "f64_is_finite f64_one" "\<not> f64_eq_zero f64_one"
  by (simp_all add: epsilon_def float_eval)

lemma ex_conversions: "f64_of_f32 0x3F800000 = f64_one" "f64_of_nat 1 = f64_one" "f32_is_finite 0x3F800000"
  by (simp_all add: f64_of_nat_def float_eval)

lemmas ex_numbers = ex_sums ex_products ex_comparisons ex_conversions costs_equal_zero

section \<open>The solver\<close>

lemmas network_defs = build_network_def new_flow_def add_point_edges_def add_cluster_edges_def add_edge_def
  index_at_def numeral_2_eq_2 numeral_3_eq_3

lemmas flow_defs = send_flow_def send_flow_loop.simps augment_round_def shortest_paths_def start_relaxation_def
  relax_node_def relax_edge_def check_residual_def path_capacity.simps predecessor_def push_path.simps
  push_edge_def set_capacity_def

lemma ex_solve: "solve_lexicographic_assignment [0] 1 1 1 1 = Ok [0]"
  by (simp add: solve_lexicographic_assignment_def solve_subproblem_def fix_point_def ex_numbers
      checked_add_def usize_max_def saturating_sub_def network_defs Let_def flow_defs
      initial_assignment_def assignment_cost_def checked_mul_def)


theorem dcbc_solver_total_witness:
  "solve_lexicographic_assignment [f64_one, 0, 0, f64_one] 2 2 1 1 \<noteq> Panic"
  by (rule dcbc_solver_total) (simp_all add: usize_max_def)

section \<open>One pass\<close>

definition ex_bounds :: occupancy_bounds where
  "ex_bounds = \<lparr>ob_min = 1, ob_max = 1\<rparr>"

lemma ex_iteration:
  "run_iteration [[f64_one]] [[f64_one]] [[f64_one]] 1 ex_bounds 1 =
     Ok \<lparr>ir_assignment = [0], ir_raw_centroids = [[f64_one]], ir_normalized_centroids = [[f64_one]],
         ir_cluster_sizes = [1], ir_objective_value = 0\<rparr>"
proof -
  have distance: "cosine_distance_from_normalized [f64_one] [f64_one] = Ok 0"
    by (simp add: cosine_distance_from_normalized_def f64_sum_def ex_numbers)
  then have "distance_matrix [[f64_one]] [[f64_one]] = Ok [0]"
    by (simp add: distance_matrix_def checked_mul_def usize_max_def)
  moreover have "materialize_memberships [0] 1 ex_bounds = Ok [[0]]"
    by (simp add: materialize_memberships_def ex_bounds_def)
  moreover have "recompute_centroids [[f64_one]] [[f64_one]] [[0]] 1 = Ok ([[f64_one]], [[f64_one]])"
    using ex_conversions(2)
    by (simp add: recompute_centroids_def recompute_centroid_def add_into_def index_at_def Let_def
        euclidean_norm_def normalize_vector_def f64_sum_def ex_numbers)
  moreover have "compute_objective [[f64_one]] [[f64_one]] [0] = Ok 0"
    using distance by (simp add: compute_objective_def index_at_def ex_numbers)
  ultimately show ?thesis using ex_solve by (simp add: run_iteration_def ex_bounds_def)
qed

theorem dcbc_pass_partition_witness:
  "\<exists>r. run_iteration [[f64_one]] [[f64_one]] [[f64_one]] 1 ex_bounds 1 = Ok r \<and>
     sum_list (ir_cluster_sizes r) = 1"
  using dcbc_pass_partition [OF ex_iteration] ex_iteration by auto

section \<open>A training\<close>

definition ex_cluster_config :: clustering_config where
  "ex_cluster_config = \<lparr>cluster_count = 1, dimensions = 1, cfg_balance = None, random_seed = None\<rparr>"

definition ex_trainer :: dcbc_trainer where
  "ex_trainer = \<lparr>dt_config = ex_cluster_config, dt_state = Idle, current_pass = [], baseline_fingerprint = None,
     completed_passes = 0, dt_bounds = None, normalized_centroids = None\<rparr>"

lemma ex_new_trainer: "new_trainer ex_cluster_config = Ok ex_trainer"
  by (simp add: new_trainer_def validate_config_def reject_unsupported_balance_constraints_def
      ex_cluster_config_def ex_trainer_def)

lemma ex_point_valid: "validate_embedding [0x3F800000] 1 = Ok ()" "ensure_non_zero_norm [0x3F800000] = Ok ()"
  by (simp_all add: validate_embedding_def ensure_non_zero_norm_def f64_sum_def ex_numbers)

lemma ex_prepare:
  "prepare_pass [[0x3F800000]] 1 =
     Ok \<lparr>raw_points = [[f64_one]], normalized_points = [[f64_one]], prepared_dimensions = 1\<rparr>"
  using ex_point_valid
  by (simp add: prepare_pass_def prepare_point_def euclidean_norm_def normalize_vector_def f64_sum_def
      Let_def ex_numbers)

definition ex_ingested :: dcbc_trainer where
  "ex_ingested = ex_trainer\<lparr>dt_state := Ingesting, current_pass := [[0x3F800000]]\<rparr>"

definition ex_passed :: dcbc_trainer where
  "ex_passed = ex_trainer\<lparr>dt_state := PassComplete, baseline_fingerprint := Some (fingerprint_pass sha256 [[0x3F800000]]),
     completed_passes := 1, dt_bounds := Some ex_bounds, normalized_centroids := Some [[f64_one]]\<rparr>"

lemma ex_ingest: "dcbc_ingest_batch ex_trainer [[0x3F800000]] = (Ok (), ex_ingested)"
  using ex_point_valid
  by (simp add: dcbc_ingest_batch_def validate_batch_def ex_trainer_def ex_ingested_def ex_cluster_config_def)

lemma ex_finish:
  "dcbc_finish_pass sha256 ex_ingested = (Ok (pass_report_of ex_cluster_config 1 0), ex_passed)"
proof -
  have "derive_occupancy_bounds ex_cluster_config 1 = Ok ex_bounds"
    by (simp add: derive_occupancy_bounds_def max_occupancy_def min_occupancy_def ex_cluster_config_def
        ex_bounds_def checked_mul_def usize_max_def Let_def)
  moreover have "initialize_centroids [[f64_one]] [[f64_one]] 1 = Ok ([[f64_one]], [[f64_one]])"
    by (simp add: initialize_centroids_def index_at_def)
  ultimately show ?thesis
    using ex_prepare ex_iteration
    by (simp add: dcbc_finish_pass_def finish_pass_impl_def start_centroids_def ex_ingested_def ex_passed_def
        ex_trainer_def ex_cluster_config_def)
qed

lemma ex_training:
  "perform_all (dcbc_ops sha256) [IngestBatch [[0x3F800000]], FinishPass, CompleteTraining] ex_trainer =
     ([Ok (), Ok (), Ok ()], ex_passed\<lparr>dt_state := TrainingComplete\<rparr>)"
  using ex_ingest ex_finish
  by (simp add: perform_def dcbc_ops_def dcbc_complete_training_def ex_passed_def)

lemma ex_classifier:
  "dcbc_into_classifier (ex_passed\<lparr>dt_state := TrainingComplete\<rparr>) =
     Ok \<lparr>dc_config = ex_cluster_config, dc_centroids = [[f64_one]]\<rparr>"
  by (simp add: dcbc_into_classifier_def ex_passed_def ex_trainer_def)

theorem dcbc_protocol_witness:
  "new_trainer ex_cluster_config = Ok ex_trainer \<and>
    automaton_run [IngestBatch [[0x3F800000]], FinishPass, CompleteTraining] [True, True, True] Idle = TrainingComplete"
  using dcbc_protocol [OF ex_new_trainer ex_training] ex_new_trainer by (simp add: is_ok_def)

theorem dcbc_classifier_total_witness:
  "dcbc_assign \<lparr>dc_config = ex_cluster_config, dc_centroids = [[f64_one]]\<rparr> [0x40000000] \<noteq> Panic \<and>
    length [[f64_one]] = unat (cluster_count ex_cluster_config)"
  using dcbc_classifier_total [OF ex_new_trainer ex_training ex_classifier] by simp

theorem dcbc_replay_witness:
  "baseline_fingerprint ex_passed = Some (fingerprint_pass sha256 [[0x3F800000]])"
  using dcbc_replay [OF ex_finish]
  by (simp add: ex_ingested_def ex_trainer_def ex_cluster_config_def usize_max_def)

end
