(* ===== verification/Ieee_Convert.thy ===== *)
theory Ieee_Convert
  imports Ieee_Float
begin

unbundle bit_operations_syntax

text \<open>
  The remaining \<open>f32\<close> and \<open>f64\<close> operations of the indexing crates, on bit patterns: narrowing, rounding
  to an integer (\<open>floor\<close>, \<open>round\<close> half away from zero, \<open>round_ties_even\<close>), saturating casts to integers,
  \<open>clamp\<close>, \<open>max\<close>, \<open>abs\<close>, subtraction and division of \<open>f32\<close>, and the order of \<open>total_cmp\<close>.
\<close>

text \<open>\<open>x as f32\<close>.\<close>

definition f32_of_f64 :: "f64 \<Rightarrow> f32" where
  "f32_of_f64 x = f32_encode (f64_decode x)"

definition f32_sub :: "f32 \<Rightarrow> f32 \<Rightarrow> f32" where
  "f32_sub x y = f32_encode (fc_add (f32_decode x) (fc_neg (f32_decode y)))"

definition f32_div :: "f32 \<Rightarrow> f32 \<Rightarrow> f32" where
  "f32_div x y = f32_encode (fc_div 23 (f32_decode x) (f32_decode y))"

definition f32_abs :: "f32 \<Rightarrow> f32" where
  "f32_abs x = x AND 0x7FFFFFFF"

definition f32_eq_zero :: "f32 \<Rightarrow> bool" where
  "f32_eq_zero x = fc_is_zero (f32_decode x)"

text \<open>\<open>f32::max\<close>: a NaN operand is ignored.\<close>

definition f32_max :: "f32 \<Rightarrow> f32 \<Rightarrow> f32" where
  "f32_max x y =
     (if f32_decode x = NaN then y else if f32_decode y = NaN then x
      else if f32_less x y then y else x)"

definition f32_one :: f32 where "f32_one = 0x3F800000"

text \<open>\<open>n as f32\<close> for an unsigned integer.\<close>

definition f32_of_nat :: "nat \<Rightarrow> f32" where
  "f32_of_nat n = f32_encode (Fin False n 0)"

section \<open>Rounding to an integer\<close>

text \<open>The magnitude of a decoded number, by the rule for the part after the point.\<close>

fun fc_integral :: "(bool \<Rightarrow> nat \<Rightarrow> nat \<Rightarrow> nat) \<Rightarrow> fclass \<Rightarrow> fclass" where
  "fc_integral rule (Fin s m e) = (if 0 \<le> e then Fin s m e else Fin s (rule s m (nat (- e))) 0)"
| "fc_integral rule c = c"

definition floor_rule :: "bool \<Rightarrow> nat \<Rightarrow> nat \<Rightarrow> nat" where
  "floor_rule s m k = m div 2 ^ k + (if s \<and> m mod 2 ^ k \<noteq> 0 then 1 else 0)"

definition round_rule :: "bool \<Rightarrow> nat \<Rightarrow> nat \<Rightarrow> nat" where
  "round_rule s m k = m div 2 ^ k + (if 2 ^ k \<le> 2 * (m mod 2 ^ k) then 1 else 0)"

definition ties_even_rule :: "bool \<Rightarrow> nat \<Rightarrow> nat \<Rightarrow> nat" where
  "ties_even_rule s m k = shift_right_rne m k"

definition truncate_rule :: "bool \<Rightarrow> nat \<Rightarrow> nat \<Rightarrow> nat" where
  "truncate_rule s m k = m div 2 ^ k"

definition f64_floor :: "f64 \<Rightarrow> f64" where
  "f64_floor x = f64_encode (fc_integral floor_rule (f64_decode x))"

definition f64_round :: "f64 \<Rightarrow> f64" where
  "f64_round x = f64_encode (fc_integral round_rule (f64_decode x))"

definition f64_round_ties_even :: "f64 \<Rightarrow> f64" where
  "f64_round_ties_even x = f64_encode (fc_integral ties_even_rule (f64_decode x))"

section \<open>Casts\<close>

text \<open>\<open>x as i32\<close> and the like: truncation, saturating at the bounds of the type, 0 for NaN.\<close>

fun fc_to_int :: "int \<Rightarrow> int \<Rightarrow> fclass \<Rightarrow> int" where
  "fc_to_int lo hi NaN = 0"
| "fc_to_int lo hi (Inf s) = (if s then lo else hi)"
| "fc_to_int lo hi (Fin s m e) =
     (let n = (if 0 \<le> e then m * 2 ^ nat e else truncate_rule s m (nat (- e)))
      in max lo (min hi (if s then - int n else int n)))"

definition f64_to_i32 :: "f64 \<Rightarrow> int" where
  "f64_to_i32 x = fc_to_int (- 2147483648) 2147483647 (f64_decode x)"

definition f64_to_i8 :: "f64 \<Rightarrow> int" where
  "f64_to_i8 x = fc_to_int (- 128) 127 (f64_decode x)"

definition f64_to_usize :: "f64 \<Rightarrow> nat" where
  "f64_to_usize x = nat (fc_to_int 0 (int usize_max) (f64_decode x))"

text \<open>\<open>f64::from(i)\<close> for a small integer.\<close>

definition f64_of_int :: "int \<Rightarrow> f64" where
  "f64_of_int i = f64_encode (Fin (i < 0) (nat \<bar>i\<bar>) 0)"

text \<open>\<open>clamp\<close>; its assertion \<open>min <= max\<close> is the caller's to keep.\<close>

definition f64_clamp :: "f64 \<Rightarrow> f64 \<Rightarrow> f64 \<Rightarrow> f64" where
  "f64_clamp x lo hi = (if f64_less x lo then lo else if f64_less hi x then hi else x)"

section \<open>The total order\<close>

text \<open>\<open>total_cmp\<close>: negative numbers in reverse, below the positive ones, by their bit patterns.\<close>

definition total_order_key_f32 :: "f32 \<Rightarrow> int" where
  "total_order_key_f32 x = (if 0x80000000 \<le> x then - int (unat (x AND 0x7FFFFFFF)) - 1 else int (unat x))"

lemmas convert_defs [float_eval] =
  f32_of_f64_def f32_sub_def f32_div_def f32_abs_def f32_eq_zero_def f32_max_def f32_one_def f32_of_nat_def
  floor_rule_def round_rule_def ties_even_rule_def truncate_rule_def f64_floor_def f64_round_def
  f64_round_ties_even_def f64_to_i32_def f64_to_i8_def f64_to_usize_def f64_of_int_def f64_clamp_def

lemma fc_to_int_range: "lo \<le> 0 \<Longrightarrow> 0 \<le> hi \<Longrightarrow> lo \<le> fc_to_int lo hi c \<and> fc_to_int lo hi c \<le> hi"
  by (cases c) (auto simp: Let_def)

section \<open>Finite results have finite operands\<close>

lemma f32_encode_NaN: "f32_decode (f32_encode NaN) = NaN"
  by (simp add: float_eval)

lemma f32_encode_Inf: "f32_decode (f32_encode (Inf s)) = Inf s"
  by (cases s) (simp_all add: float_eval)

lemma f32_encode_finite: "f32_is_finite (f32_encode c) \<Longrightarrow> fc_is_finite c"
  by (cases c) (auto simp: f32_is_finite_def f32_encode_NaN f32_encode_Inf)

lemma f32_add_finite: "f32_is_finite (f32_add x y) \<Longrightarrow> f32_is_finite x \<and> f32_is_finite y"
  unfolding f32_add_def f32_is_finite_def [of x] f32_is_finite_def [of y]
  by (cases "f32_decode x"; cases "f32_decode y") (auto dest!: f32_encode_finite split: if_splits)

lemma f32_mul_finite: "f32_is_finite (f32_mul x y) \<Longrightarrow> f32_is_finite x \<and> f32_is_finite y"
  unfolding f32_mul_def f32_is_finite_def [of x] f32_is_finite_def [of y]
  by (cases "f32_decode x"; cases "f32_decode y") (auto dest!: f32_encode_finite split: if_splits)

section \<open>Comparison and integers\<close>

lemma signed_sig_value: "real_of_int (signed_sig s (m * 2 ^ nat (e - e0))) * 2 powi e0 = fc_value (Fin s m e)" if "e0 \<le> e"
proof -
  have "2 powi e = (2::real) ^ nat (e - e0) * 2 powi e0"
    using that by (simp add: power_int_add [symmetric] flip: power_int_of_nat)
  then show ?thesis by (simp add: signed_sig_def)
qed

lemma fc_less_value: "fc_less (Fin s1 m1 e1) (Fin s2 m2 e2) \<longleftrightarrow> fc_value (Fin s1 m1 e1) < fc_value (Fin s2 m2 e2)"
proof -
  let ?e = "min e1 e2"
  let ?a = "signed_sig s1 (m1 * 2 ^ nat (e1 - ?e))" and ?b = "signed_sig s2 (m2 * 2 ^ nat (e2 - ?e))"
  have pos: "(0::real) < 2 powi ?e" by simp
  have "fc_less (Fin s1 m1 e1) (Fin s2 m2 e2) \<longleftrightarrow> ?a < ?b" by (simp add: Let_def)
  also have "\<dots> \<longleftrightarrow> real_of_int ?a * 2 powi ?e < real_of_int ?b * 2 powi ?e"
    using mult_less_cancel_right_pos [OF pos] by simp
  also have "\<dots> \<longleftrightarrow> fc_value (Fin s1 m1 e1) < fc_value (Fin s2 m2 e2)"
    by (simp only: signed_sig_value [of ?e e1 s1 m1] signed_sig_value [of ?e e2 s2 m2] min.cobounded1 min.cobounded2)
  finally show ?thesis .
qed

text \<open>Integers below \<open>2^53\<close> are represented exactly.\<close>

lemma f64_round_mag_exact:
  assumes "0 < m" and "m < 2 ^ 53"
  shows "fl_round_mag 52 11 m 0 = (bit_len m + 1021) * 2 ^ 52 + m * 2 ^ (53 - bit_len m)"
    and "bit_len m \<le> 53" and "2 ^ 52 \<le> m * 2 ^ (53 - bit_len m)" and "m * 2 ^ (53 - bit_len m) < 2 ^ 53"
proof -
  let ?b = "bit_len m"
  have lower: "2 ^ (?b - 1) \<le> m" using bit_len_lower assms(1) by simp
  show b: "?b \<le> 53"
  proof (rule ccontr)
    assume "\<not> ?b \<le> 53"
    then have "(2::nat) ^ 53 \<le> 2 ^ (?b - 1)" by (intro power_increasing) auto
    with lower assms(2) show False by linarith
  qed
  have b1: "1 \<le> ?b" using assms(1) by (simp add: bit_len_pos)
  have "(2::nat) ^ 52 = 2 ^ (?b - 1) * 2 ^ (53 - ?b)" using b b1 by (simp flip: power_add)
  then show lo: "2 ^ 52 \<le> m * 2 ^ (53 - ?b)" using lower by (metis mult_le_mono1)
  have "(2::nat) ^ 53 = 2 ^ ?b * 2 ^ (53 - ?b)" using b by (simp flip: power_add)
  then show hi: "m * 2 ^ (53 - ?b) < 2 ^ 53"
    using bit_len_upper [of m] by (metis mult_less_mono1 zero_less_numeral zero_less_power)
  have "max (int ?b - 53) (- 1074) = int ?b - 53" "nat (- (int ?b - 53)) = 53 - ?b"
    "nat (int ?b - 53 + 1074) = ?b + 1021" using b by auto
  moreover have "(?b + 1021) * 2 ^ 52 + m * 2 ^ (53 - ?b) \<le> 2047 * 2 ^ 52"
  proof -
    have "(?b + 1021) * 2 ^ 52 \<le> 1074 * (2::nat) ^ 52" using b by (intro mult_right_mono) auto
    with hi show ?thesis by simp
  qed
  ultimately show "fl_round_mag 52 11 m 0 = (?b + 1021) * 2 ^ 52 + m * 2 ^ (53 - ?b)"
    using assms(1) b by (simp add: fl_round_mag_def Let_def fl_emin_def fl_inf_bits_def)
qed

lemma f64_decode_of_nat:
  assumes "0 < m" and "m < 2 ^ 53"
  shows "f64_decode (f64_encode (Fin s m 0)) = Fin s (m * 2 ^ (53 - bit_len m)) (int (bit_len m) - 53)"
proof -
  let ?b = "bit_len m" and ?sig = "m * 2 ^ (53 - bit_len m)"
  note r = f64_round_mag_exact [OF assms]
  define n where "n = (?b + 1021) * 2 ^ 52 + ?sig"
  define f where "f = ?sig - 2 ^ 52"
  have f: "?sig = 2 ^ 52 + f" "f < 2 ^ 52" using r(3,4) by (simp_all add: f_def)
  have n: "n = (?b + 1022) * 2 ^ 52 + f" using f(1) by (simp add: n_def algebra_simps)
  have "(?b + 1022) * 2 ^ 52 \<le> 1075 * (2::nat) ^ 52" using r(2) by (intro mult_right_mono) auto
  with n f(2) have small: "n < 2 ^ 63" by simp
  have div: "n div 2 ^ 52 = ?b + 1022" and mod: "n mod 2 ^ 52 = f"
    unfolding n using f(2) by (simp_all only: mod_mult_self3 mod_less div_mult_self3 div_less)
  have "unat (f64_encode (Fin s m 0)) = (if s then 2 ^ 63 + n else n)"
    using small r(1) by (simp add: f64_encode_def fl_pack_def fl_sign_bit_def n_def unsigned_of_nat take_bit_eq_mod)
  then have "fl_decode 52 11 (unat (f64_encode (Fin s m 0))) = fl_decode_mag 52 11 s n"
    using small by (simp add: fl_decode_def fl_sign_bit_def)
  also have "\<dots> = Fin s ?sig (int ?b - 53)"
    using div mod r(2) f(1) by (simp add: fl_decode_mag_def Let_def fl_emin_def)
  finally show ?thesis by (simp add: f64_decode_def)
qed

lemma f64_of_int_value:
  assumes "\<bar>i\<bar> < 2 ^ 53"
  shows "\<exists>s m e. f64_decode (f64_of_int i) = Fin s m e \<and> fc_value (Fin s m e) = real_of_int i"
proof (cases "i = 0")
  case True
  then show ?thesis by (auto simp: float_eval)
next
  case False
  let ?m = "nat \<bar>i\<bar>"
  have m: "0 < ?m" "?m < 2 ^ 53" using False assms by (auto simp: nat_less_iff)
  have "(2::real) powi (int (bit_len ?m) - 53) * 2 ^ (53 - bit_len ?m) = 1"
    using f64_round_mag_exact(2) [OF m]
    by (simp add: power_int_add [symmetric] of_nat_diff flip: power_int_of_nat)
  then have "fc_value (Fin (i < 0) (?m * 2 ^ (53 - bit_len ?m)) (int (bit_len ?m) - 53)) = real_of_int i"
    using False by (auto simp: algebra_simps abs_if)
  with f64_decode_of_nat [OF m, of "i < 0"] show ?thesis by (auto simp: f64_of_int_def)
qed

lemma f64_of_int_nonneg: "0 \<le> i \<Longrightarrow> i < 2 ^ 53 \<Longrightarrow> unat (f64_of_int i) < 2 ^ 63"
proof -
  assume i: "0 \<le> i" "i < 2 ^ 53"
  have "fl_round_mag 52 11 (nat i) 0 < 2 ^ 63" if "0 < i"
  proof -
    have m: "0 < nat i" "nat i < 2 ^ 53" using that i by auto
    note r = f64_round_mag_exact [OF m]
    have "(bit_len (nat i) + 1021) * 2 ^ 52 \<le> 1074 * (2::nat) ^ 52" using r(2) by (intro mult_right_mono) auto
    with r(1,4) show ?thesis by simp
  qed
  then show ?thesis using i
    by (cases "i = 0") (auto simp: f64_of_int_def f64_encode_def fl_pack_def unsigned_of_nat take_bit_eq_mod fl_round_mag_def)
qed

lemma f64_neg_decode:
  assumes "unat x < 2 ^ 63"
  shows "f64_decode (f64_neg x) = fc_neg (f64_decode x)"
proof -
  have "\<not> bit (unat x) 63" using assms by (simp add: bit_iff_odd)
  then have "unat x AND 2 ^ 63 = 0" using and_exp_eq_0_iff_not_bit [of "unat x" 63] by blast
  then have "unat x + 2 ^ 63 = unat x XOR 2 ^ 63" by (rule disjunctive_add_eq_xor)
  then have "unat (f64_neg x) = 2 ^ 63 + unat x"
    by (simp add: f64_neg_def unsigned_xor_eq)
  moreover have "fl_decode_mag 52 11 True n = fc_neg (fl_decode_mag 52 11 False n)" for n
    by (simp add: fl_decode_mag_def Let_def)
  ultimately show ?thesis using assms by (simp add: f64_decode_def fl_decode_def fl_sign_bit_def)
qed

text \<open>A number clamped to \<open>-q\<close> and \<open>q\<close> truncates to an integer of that range.\<close>

lemma clamped_to_i32:
  assumes "0 \<le> q" and "q < 2 ^ 31"
  shows "\<bar>f64_to_i32 (f64_clamp x (f64_neg (f64_of_int q)) (f64_of_int q))\<bar> \<le> q"
proof -
  obtain s m e where hi: "f64_decode (f64_of_int q) = Fin s m e" "fc_value (Fin s m e) = real_of_int q"
    using f64_of_int_value [of q] assms by auto
  have trunc: "\<bar>fc_to_int (- 2147483648) 2147483647 (Fin s m e)\<bar> \<le> q"
    if "\<bar>fc_value (Fin s m e)\<bar> \<le> real_of_int q" for s m e
  proof -
    let ?n = "if 0 \<le> e then m * 2 ^ nat e else truncate_rule s m (nat (- e))"
    have "real ?n \<le> real m * 2 powi e"
    proof (cases "0 \<le> e")
      case False
      then have "(2::real) powi e = 1 / 2 ^ nat (- e)" by (simp add: power_int_def field_simps)
      moreover have "real (m div 2 ^ nat (- e)) \<le> real m / 2 ^ nat (- e)"
        using of_nat_div_le_of_nat [of m "2 ^ nat (- e)", where 'a = real] by simp
      ultimately show ?thesis using False by (simp add: truncate_rule_def)
    qed (simp add: power_int_def)
    also have "\<dots> \<le> real_of_int q" using that by (simp add: abs_mult split: if_splits)
    finally have "int ?n \<le> q" by linarith
    then show ?thesis using assms by (auto simp: Let_def)
  qed
  have "unat (f64_of_int q) < 2 ^ 63" using f64_of_int_nonneg assms by simp
  then have lo: "f64_decode (f64_neg (f64_of_int q)) = Fin (\<not> s) m e" by (simp add: f64_neg_decode hi)
  then have lo_value: "fc_value (Fin (\<not> s) m e) = - real_of_int q" using hi(2) by (auto split: if_splits)
  show ?thesis
  proof (cases "f64_less x (f64_neg (f64_of_int q)) \<or> f64_less (f64_of_int q) x")
    case True
    have "\<bar>f64_to_i32 (f64_of_int q)\<bar> \<le> q" "\<bar>f64_to_i32 (f64_neg (f64_of_int q))\<bar> \<le> q"
      unfolding f64_to_i32_def hi(1) lo
      by (rule trunc, simp only: hi(2) lo_value, use assms(1) in simp)+
    with True show ?thesis by (auto simp: f64_clamp_def)
  next
    case False
    then have "f64_clamp x (f64_neg (f64_of_int q)) (f64_of_int q) = x" by (simp add: f64_clamp_def)
    moreover from False have "\<not> fc_less (f64_decode x) (Fin (\<not> s) m e)" "\<not> fc_less (Fin s m e) (f64_decode x)"
      by (simp_all add: f64_less_def hi lo)
    then have "\<bar>fc_to_int (- 2147483648) 2147483647 (f64_decode x)\<bar> \<le> q"
    proof (cases "f64_decode x")
      case (Fin s' m' e')
      with False have "\<bar>fc_value (Fin s' m' e')\<bar> \<le> real_of_int q"
        using lo_value hi
        by (simp add: f64_less_def lo fc_less_value abs_le_iff del: fc_less.simps fc_value.simps)
      with Fin show ?thesis using trunc by simp
    qed (use assms in auto)
    ultimately show ?thesis by (simp add: f64_to_i32_def)
  qed
qed

end
