(* ===== verification/Adaptive_Policy.thy ===== *)
theory Adaptive_Policy
  imports Clustering Ieee_Convert
begin

text \<open>
  The selection between directional PCA and DCBC planning
  (\<open>src/crates/lexongraph-adaptive-planning-policy/src/lib.rs\<close>). The trainer and the classifier of the directional-PCA
  crate, and the printing of floats, are parameters; the trainer is one of the streaming trainers of \<open>Clustering\<close>.
\<close>

unbundle bit_operations_syntax

section \<open>Settings\<close>

datatype retained_axis_policy = FixedCount nat | AdaptiveAllEligible
datatype allocation_policy = CentroidWeightedBins | EigenvalueLogBits
datatype binning_policy = Quantile | DensityValley
datatype cardinality_mode = ExactCardinality | UnderfullSuccess

record pca_params =
  pp_retained_axis_policy :: retained_axis_policy
  pp_allocation_policy :: allocation_policy
  pp_binning_policy :: binning_policy
  pp_cluster_cardinality_mode :: cardinality_mode
  pp_variance_exponent :: f32
  pp_temperature :: f32
  pp_min_input_count :: nat
  pp_min_effective_rank :: nat
  pp_min_cumulative_variance :: f32

datatype planning_direction = Divisive | Agglomerative

record adaptive_pca_settings =
  aps_cluster_count :: u32
  aps_random_seed :: "u64 option"
  aps_params :: pca_params

record adaptive_dcbc_settings =
  ads_cluster_count :: u32
  ads_balance :: "balance_constraints option"
  ads_random_seed :: "u64 option"

record adaptive_settings =
  as_direction :: planning_direction
  as_pca :: adaptive_pca_settings
  as_dcbc :: adaptive_dcbc_settings
  as_radius_threshold :: f32

datatype adaptive_error = AdaptiveConfiguration string | DiagnosticComputation string

type_synonym 'a adaptive_result = "(adaptive_error, 'a) outcome"

fun display_adaptive_error :: "adaptive_error \<Rightarrow> string" where
  "display_adaptive_error (AdaptiveConfiguration m) = ''adaptive planning configuration is invalid: '' @ m"
| "display_adaptive_error (DiagnosticComputation m) =
     ''adaptive planning diagnostics could not be computed: '' @ m"

text \<open>What the selector uses of the directional-PCA crate, and \<open>{}\<close> of an \<open>f32\<close>.\<close>

record ('t, 'c) pca_planner =
  planner_new :: "clustering_config \<Rightarrow> pca_params \<Rightarrow> 't clustering_result"
  planner_ops :: "('t, 'c) trainer_ops"
  assigned_distance :: "'c \<Rightarrow> embedding \<Rightarrow> (cluster_id \<times> f64) clustering_result"
  show_f32 :: "f32 \<Rightarrow> string"

definition is_power_of_two :: "u32 \<Rightarrow> bool" where
  "is_power_of_two n = (n \<noteq> 0 \<and> n AND (n - 1) = 0)"

definition check_retained_axes :: "adaptive_pca_settings \<Rightarrow> unit adaptive_result" where
  "check_retained_axes s =
     (let p = aps_params s; k = unat (aps_cluster_count s) in
      case pp_retained_axis_policy p of
        FixedCount n \<Rightarrow>
          if n = 0
          then Err (AdaptiveConfiguration
                 ''retained_axis_policy = FixedCount(n) requires n to be greater than zero'')
          else if k < n
          then Err (AdaptiveConfiguration (''retained_axis_policy = FixedCount('' @ show_nat n
                 @ '') cannot exceed directional-PCA cluster_count '' @ show_nat k))
          else if n < pp_min_effective_rank p
          then Err (AdaptiveConfiguration (''min_effective_rank must be in [1, FixedCount(n)='' @ show_nat n
                 @ ''], got '' @ show_nat (pp_min_effective_rank p)))
          else Ok ()
      | AdaptiveAllEligible \<Rightarrow>
          if pp_allocation_policy p = CentroidWeightedBins \<and> k < pp_min_effective_rank p
          then Err (AdaptiveConfiguration (''min_effective_rank '' @ show_nat (pp_min_effective_rank p)
                 @ '' cannot exceed centroid-weighted adaptive axis budget '' @ show_nat k))
          else Ok ())"

definition validate_directional_pca_params ::
    "('t, 'c) pca_planner \<Rightarrow> adaptive_pca_settings \<Rightarrow> unit adaptive_result" where
  "validate_directional_pca_params pl s =
     (let p = aps_params s in
      and_then (check_retained_axes s) (\<lambda>_.
        if pp_allocation_policy p = EigenvalueLogBits \<and> \<not> is_power_of_two (aps_cluster_count s)
        then Err (AdaptiveConfiguration
               (''directional-PCA eigenvalue log-bit allocation requires a power-of-two cluster_count, got ''
                  @ show_nat (unat (aps_cluster_count s))))
        else if \<not> f32_is_finite (pp_variance_exponent p) \<or> f32_less (pp_variance_exponent p) 0
        then Err (AdaptiveConfiguration (''variance_exponent must be finite and non-negative, got ''
               @ show_f32 pl (pp_variance_exponent p)))
        else if \<not> f32_is_finite (pp_temperature p) \<or> f32_less (pp_temperature p) 0 \<or> f32_eq_zero (pp_temperature p)
        then Err (AdaptiveConfiguration (''temperature must be finite and positive, got ''
               @ show_f32 pl (pp_temperature p)))
        else if pp_min_input_count p < 2
        then Err (AdaptiveConfiguration (''min_input_count must be at least 2, got ''
               @ show_nat (pp_min_input_count p)))
        else if pp_min_effective_rank p = 0
        then Err (AdaptiveConfiguration (''min_effective_rank must be at least 1, got ''
               @ show_nat (pp_min_effective_rank p)))
        else if \<not> f32_is_finite (pp_min_cumulative_variance p) \<or> f32_less (pp_min_cumulative_variance p) 0
             \<or> f32_less f32_one (pp_min_cumulative_variance p)
        then Err (AdaptiveConfiguration
               (''directional-PCA min_cumulative_variance must be finite and in [0.0, 1.0], got ''
                  @ show_f32 pl (pp_min_cumulative_variance p)))
        else Ok ()))"

definition validate_settings :: "('t, 'c) pca_planner \<Rightarrow> adaptive_settings \<Rightarrow> unit adaptive_result" where
  "validate_settings pl s =
     (if aps_cluster_count (as_pca s) = 0
      then Err (AdaptiveConfiguration ''directional-PCA cluster_count must be greater than zero'')
      else if ads_cluster_count (as_dcbc s) = 0
      then Err (AdaptiveConfiguration ''DCBC cluster_count must be greater than zero'')
      else if \<not> f32_is_finite (as_radius_threshold s) \<or> f32_less (as_radius_threshold s) 0
      then Err (AdaptiveConfiguration ''mean_cluster_radius_threshold must be finite and non-negative'')
      else validate_directional_pca_params pl (as_pca s))"

fun map_streaming_clustering_error :: "clustering_error \<Rightarrow> adaptive_error" where
  "map_streaming_clustering_error (InvalidConfiguration m) = AdaptiveConfiguration m"
| "map_streaming_clustering_error e = DiagnosticComputation (display_clustering_error e)"

text \<open>\<open>1 << (usize::BITS - 1 - value.leading_zeros())\<close>; \<open>bit_len\<close> is \<open>usize::BITS - leading_zeros\<close>.\<close>

definition highest_power_of_two_at_most :: "nat \<Rightarrow> nat" where
  "highest_power_of_two_at_most n = (if n \<le> 1 then n else push_bit (bit_len n - 1) 1)"

definition diagnostic_cluster_count :: "u32 \<Rightarrow> nat \<Rightarrow> allocation_policy \<Rightarrow> u32 adaptive_result" where
  "diagnostic_cluster_count configured embedding_count policy =
     (let capped = min (unat configured) (max embedding_count 1);
          adjusted = (if policy = EigenvalueLogBits \<and> 1 < capped then highest_power_of_two_at_most capped else capped)
      in if 4294967295 < adjusted then Err (AdaptiveConfiguration ''diagnostic cluster_count exceeds u32::MAX'')
         else Ok (word_of_nat adjusted))"

section \<open>The mean cluster radius\<close>

record adaptive_diagnostics =
  ad_represented_item_count :: nat
  ad_mean_cluster_radius :: f32

record radius_measurement =
  rm_represented :: nat
  rm_expected :: nat
  rm_sums :: "(cluster_id \<times> f64 \<times> nat) list"
  rm_observed :: nat

definition new_measurement :: "nat \<Rightarrow> nat \<Rightarrow> radius_measurement" where
  "new_measurement represented expected =
     \<lparr>rm_represented = represented, rm_expected = expected, rm_sums = [], rm_observed = 0\<rparr>"

text \<open>An entry of the ordered map, \<open>(0.0, 0)\<close> when it is new, with a function applied to it.\<close>

fun update_entry ::
    "cluster_id \<Rightarrow> (f64 \<times> nat \<Rightarrow> f64 \<times> nat) \<Rightarrow> (cluster_id \<times> f64 \<times> nat) list \<Rightarrow> (cluster_id \<times> f64 \<times> nat) list" where
  "update_entry k f [] = [(k, f (0, 0))]"
| "update_entry k f ((k', v) # m) =
     (if k < k' then (k, f (0, 0)) # (k', v) # m
      else if k = k' then (k, f v) # m
      else (k', v) # update_entry k f m)"

definition observe_embedding ::
    "('t, 'c) pca_planner \<Rightarrow> 'c \<Rightarrow> embedding \<Rightarrow> radius_measurement \<Rightarrow> unit adaptive_result \<times> radius_measurement" where
  "observe_embedding pl cl emb m =
     then_do (map_err map_streaming_clustering_error (assigned_distance pl cl emb), m) (\<lambda>(k, distance) m.
       let m = m\<lparr>rm_sums := update_entry k (\<lambda>(acc, n). (f64_add acc distance, n)) (rm_sums m)\<rparr> in
       if \<not> f64_is_finite (fst (the (map_of (rm_sums m) k)))
       then (Err (DiagnosticComputation ''mean cluster radius accumulation became non-finite''), m)
       else (Ok (), m\<lparr>rm_sums := update_entry k (\<lambda>(acc, n). (acc, n + 1)) (rm_sums m),
                      rm_observed := rm_observed m + 1\<rparr>))"

fun observe_batch ::
    "('t, 'c) pca_planner \<Rightarrow> 'c \<Rightarrow> embedding list \<Rightarrow> radius_measurement \<Rightarrow> unit adaptive_result \<times> radius_measurement" where
  "observe_batch pl cl [] m = (Ok (), m)"
| "observe_batch pl cl (emb # embs) m =
     then_do (observe_embedding pl cl emb m) (\<lambda>_ m. observe_batch pl cl embs m)"

definition add_cluster_radius :: "cluster_id \<times> f64 \<times> nat \<Rightarrow> f64 \<Rightarrow> f64 adaptive_result" where
  "add_cluster_radius e acc =
     (let (k, s, n) = e; mean = f64_div s (f64_of_nat n) in
      if n = 0
      then Err (DiagnosticComputation (''cluster '' @ show_nat (unat k) @ '' did not retain any members''))
      else if \<not> f64_is_finite mean
      then Err (DiagnosticComputation ''per-cluster mean radius became non-finite'')
      else if \<not> f64_is_finite (f64_add acc mean)
      then Err (DiagnosticComputation ''mean cluster radius total became non-finite'')
      else Ok (f64_add acc mean))"

definition finish_measurement :: "radius_measurement \<Rightarrow> adaptive_diagnostics adaptive_result" where
  "finish_measurement m =
     (if rm_observed m = 0 \<or> rm_sums m = []
      then Err (DiagnosticComputation ''mean cluster radius requires at least one observed embedding'')
      else if rm_observed m \<noteq> rm_expected m
      then Err (DiagnosticComputation (''mean cluster radius expected '' @ show_nat (rm_expected m)
             @ '' observed embeddings but received '' @ show_nat (rm_observed m)))
      else and_then (for_each add_cluster_radius (rm_sums m) 0) (\<lambda>acc.
        let mean = f64_div acc (f64_of_nat (length (rm_sums m))) in
        if \<not> f64_is_finite mean
        then Err (DiagnosticComputation ''mean cluster radius became non-finite'')
        else Ok \<lparr>ad_represented_item_count = rm_represented m, ad_mean_cluster_radius = f32_of_f64 mean\<rparr>))"

section \<open>The decision boundary\<close>

datatype replay_stage = CollectingSummaries | MeasuringDecision

datatype boundary_state = BoundaryCollecting | BoundaryMeasuring | BoundarySelected adaptive_diagnostics

record ('t, 'c) decision_boundary =
  db_represented :: nat
  db_expected :: nat
  db_phase :: replay_stage
  db_ready_passes :: nat
  db_trainer :: "'t option"
  db_classifier :: "'c option"
  db_measurement :: "radius_measurement option"

definition new_boundary ::
    "('t, 'c) pca_planner \<Rightarrow> nat \<Rightarrow> nat \<Rightarrow> nat \<Rightarrow> adaptive_pca_settings \<Rightarrow> ('t, 'c) decision_boundary adaptive_result" where
  "new_boundary pl represented expected dim_count s =
     (if represented = 0
      then Err (DiagnosticComputation ''represented_item_count must be greater than zero'')
      else if expected = 0
      then Err (DiagnosticComputation ''adaptive diagnostics require at least one boundary embedding'')
      else if represented < expected
      then Err (DiagnosticComputation (''represented_item_count '' @ show_nat represented
             @ '' cannot be smaller than the boundary embedding count '' @ show_nat expected))
      else if dim_count = 0
      then Err (DiagnosticComputation ''adaptive diagnostics require non-empty embeddings'')
      else and_then (diagnostic_cluster_count (aps_cluster_count s) expected (pp_allocation_policy (aps_params s)))
        (\<lambda>k. map_ok (\<lambda>t. \<lparr>db_represented = represented, db_expected = expected, db_phase = CollectingSummaries,
                  db_ready_passes = 0, db_trainer = Some t, db_classifier = None, db_measurement = None\<rparr>)
               (map_err map_streaming_clustering_error
                 (planner_new pl \<lparr>cluster_count = k, dimensions = dim_count, cfg_balance = None,
                    random_seed = aps_random_seed s\<rparr> (aps_params s)))))"

definition not_training :: adaptive_error where
  "not_training = DiagnosticComputation ''directional-PCA training pass is not active''"

definition not_measuring :: adaptive_error where
  "not_measuring = DiagnosticComputation ''adaptive measurement pass is not active''"

definition boundary_ingest ::
    "('t, 'c) pca_planner \<Rightarrow> embedding list \<Rightarrow> ('t, 'c) decision_boundary
       \<Rightarrow> unit adaptive_result \<times> ('t, 'c) decision_boundary" where
  "boundary_ingest pl embs b =
     (case db_phase b of
        CollectingSummaries \<Rightarrow>
          (case db_trainer b of
             None \<Rightarrow> (Err not_training, b)
           | Some t \<Rightarrow>
               (case ingest_batch (planner_ops pl) t embs of
                  (res, t) \<Rightarrow> (map_err map_streaming_clustering_error res, b\<lparr>db_trainer := Some t\<rparr>)))
      | MeasuringDecision \<Rightarrow>
          (case db_measurement b of
             None \<Rightarrow> (Err not_measuring, b)
           | Some m \<Rightarrow>
               (case db_classifier b of
                  None \<Rightarrow> (Err (DiagnosticComputation
                            ''directional-PCA classifier is not available for measurement''), b)
                | Some cl \<Rightarrow>
                    (case observe_batch pl cl embs m of
                       (res, m) \<Rightarrow> (res, b\<lparr>db_measurement := Some m\<rparr>)))))"

text \<open>After the second partition-ready pass the trainer is taken, completed and turned into the classifier.\<close>

definition complete_boundary ::
    "('t, 'c) pca_planner \<Rightarrow> 't \<Rightarrow> ('t, 'c) decision_boundary
       \<Rightarrow> boundary_state adaptive_result \<times> ('t, 'c) decision_boundary" where
  "complete_boundary pl t b =
     (let b = b\<lparr>db_trainer := None\<rparr> in
      case complete_training (planner_ops pl) t of
        (res, t) \<Rightarrow>
          then_do (map_err map_streaming_clustering_error res, b) (\<lambda>_ b.
          then_do (map_err map_streaming_clustering_error (into_classifier (planner_ops pl) t), b) (\<lambda>cl b.
            (Ok BoundaryMeasuring, b\<lparr>db_classifier := Some cl,
               db_measurement := Some (new_measurement (db_represented b) (db_expected b)),
               db_phase := MeasuringDecision\<rparr>))))"

definition boundary_finish ::
    "('t, 'c) pca_planner \<Rightarrow> ('t, 'c) decision_boundary
       \<Rightarrow> boundary_state adaptive_result \<times> ('t, 'c) decision_boundary" where
  "boundary_finish pl b =
     (case db_phase b of
        CollectingSummaries \<Rightarrow>
          (case db_trainer b of
             None \<Rightarrow> (Err not_training, b)
           | Some t \<Rightarrow>
               (case finish_pass (planner_ops pl) t of
                  (res, t) \<Rightarrow>
                    then_do (map_err map_streaming_clustering_error res, b\<lparr>db_trainer := Some t\<rparr>) (\<lambda>rep b.
                      case readiness rep of
                        AnalysisOnly \<Rightarrow> (Ok BoundaryCollecting, b)
                      | PartitionReady \<Rightarrow>
                          let b = b\<lparr>db_ready_passes := db_ready_passes b + 1\<rparr> in
                          if db_ready_passes b < 2 then (Ok BoundaryCollecting, b)
                          else complete_boundary pl t b)))
      | MeasuringDecision \<Rightarrow>
          (case db_measurement b of
             None \<Rightarrow> (Err not_measuring, b)
           | Some m \<Rightarrow> (map_ok BoundarySelected (finish_measurement m), b\<lparr>db_measurement := None\<rparr>)))"

section \<open>The selector\<close>

datatype planning_algorithm = UseDirectionalPca | UseDcbc

datatype decision_reason = InitialDirectionalPcaSegment | EvaluatedDirectionalPca | PreviouslySwitchedToDcbc

record decision_record =
  dr_algorithm :: planning_algorithm
  dr_switched :: bool
  dr_reason :: decision_reason
  dr_diagnostics :: "adaptive_diagnostics option"

datatype selection_progress = Selected planning_algorithm | ReplayRequired replay_stage

record ('t, 'c) selector =
  sel_settings :: adaptive_settings
  switched_to_dcbc :: bool
  decision_records :: "decision_record list"
  active_boundary :: "('t, 'c) decision_boundary option"

definition new_selector :: "('t, 'c) pca_planner \<Rightarrow> adaptive_settings \<Rightarrow> ('t, 'c) selector adaptive_result" where
  "new_selector pl s =
     map_ok (\<lambda>_. \<lparr>sel_settings = s, switched_to_dcbc = False, decision_records = [], active_boundary = None\<rparr>)
       (validate_settings pl s)"

definition no_boundary :: adaptive_error where
  "no_boundary = DiagnosticComputation ''adaptive selection boundary is not active''"

definition begin_selection_boundary ::
    "('t, 'c) pca_planner \<Rightarrow> nat \<Rightarrow> nat \<Rightarrow> nat \<Rightarrow> ('t, 'c) selector
       \<Rightarrow> selection_progress adaptive_result \<times> ('t, 'c) selector" where
  "begin_selection_boundary pl represented expected dim_count sel =
     (if active_boundary sel \<noteq> None
      then (Err (DiagnosticComputation ''adaptive selection boundary is already active''), sel)
      else if switched_to_dcbc sel
      then (Ok (Selected UseDcbc), sel\<lparr>decision_records := decision_records sel @
              [\<lparr>dr_algorithm = UseDcbc, dr_switched = False, dr_reason = PreviouslySwitchedToDcbc, dr_diagnostics = None\<rparr>]\<rparr>)
      else if decision_records sel = []
      then (Ok (Selected UseDirectionalPca), sel\<lparr>decision_records :=
              [\<lparr>dr_algorithm = UseDirectionalPca, dr_switched = False, dr_reason = InitialDirectionalPcaSegment,
                dr_diagnostics = None\<rparr>]\<rparr>)
      else then_do (new_boundary pl represented expected dim_count (as_pca (sel_settings sel)), sel) (\<lambda>b sel.
             (Ok (ReplayRequired CollectingSummaries), sel\<lparr>active_boundary := Some b\<rparr>)))"

definition ingest_selection_batch ::
    "('t, 'c) pca_planner \<Rightarrow> embedding list \<Rightarrow> ('t, 'c) selector \<Rightarrow> unit adaptive_result \<times> ('t, 'c) selector" where
  "ingest_selection_batch pl embs sel =
     (case active_boundary sel of
        None \<Rightarrow> (Err no_boundary, sel)
      | Some b \<Rightarrow> (case boundary_ingest pl embs b of (res, b) \<Rightarrow> (res, sel\<lparr>active_boundary := Some b\<rparr>)))"

definition record_decision ::
    "adaptive_diagnostics \<Rightarrow> ('t, 'c) selector \<Rightarrow> selection_progress adaptive_result \<times> ('t, 'c) selector" where
  "record_decision dg sel =
     (let switch = f32_less (as_radius_threshold (sel_settings sel)) (ad_mean_cluster_radius dg);
          algorithm = (if switch then UseDcbc else UseDirectionalPca)
      in (Ok (Selected algorithm),
          sel\<lparr>switched_to_dcbc := switched_to_dcbc sel \<or> switch,
              decision_records := decision_records sel @
                [\<lparr>dr_algorithm = algorithm, dr_switched = switch, dr_reason = EvaluatedDirectionalPca,
                  dr_diagnostics = Some dg\<rparr>],
              active_boundary := None\<rparr>))"

definition finish_selection_pass ::
    "('t, 'c) pca_planner \<Rightarrow> ('t, 'c) selector \<Rightarrow> selection_progress adaptive_result \<times> ('t, 'c) selector" where
  "finish_selection_pass pl sel =
     (case active_boundary sel of
        None \<Rightarrow> (Err no_boundary, sel)
      | Some b \<Rightarrow>
          (case boundary_finish pl b of
             (res, b) \<Rightarrow>
               then_do (res, sel\<lparr>active_boundary := Some b\<rparr>) (\<lambda>state sel.
                 case state of
                   BoundaryCollecting \<Rightarrow> (Ok (ReplayRequired CollectingSummaries), sel)
                 | BoundaryMeasuring \<Rightarrow> (Ok (ReplayRequired MeasuringDecision), sel)
                 | BoundarySelected dg \<Rightarrow> record_decision dg sel)))"

section \<open>Powers of two\<close>

lemma bit_len_bounds: "0 < n \<Longrightarrow> 2 ^ (bit_len n - 1) \<le> n \<and> n < 2 ^ bit_len n"
proof (induction n rule: bit_len.induct)
  case (1 n)
  show ?case
  proof (cases "n = 1")
    case False
    then have "0 < n div 2" "bit_len (n div 2) \<noteq> 0" using 1(2) by (auto simp: bit_len.simps [of "n div 2"])
    with 1 show ?thesis by (cases "bit_len (n div 2)") (auto simp: bit_len.simps [of n])
  qed (simp add: bit_len.simps)
qed

lemma highest_power_of_two_spec:
  assumes "0 < n"
  shows "\<exists>k. highest_power_of_two_at_most n = 2 ^ k \<and> 2 ^ k \<le> n \<and> n < 2 * 2 ^ k"
proof (cases "n = 1")
  case True
  then show ?thesis by (intro exI [of _ 0]) (simp add: highest_power_of_two_at_most_def)
next
  case False
  then have "bit_len n \<noteq> 0" using assms by (simp add: bit_len.simps [of n])
  then have "2 * 2 ^ (bit_len n - 1) = (2 ^ bit_len n :: nat)" by (cases "bit_len n") simp_all
  then show ?thesis using bit_len_bounds [OF assms] False assms
    by (intro exI [of _ "bit_len n - 1"]) (simp add: highest_power_of_two_at_most_def push_bit_eq_mult)
qed

lemma diagnostic_cluster_count_spec:
  assumes "configured \<noteq> 0" and "0 < n"
  shows "\<exists>k. diagnostic_cluster_count configured n policy = Ok k \<and> 1 \<le> unat k \<and> unat k \<le> unat configured \<and> unat k \<le> n \<and>
    (if policy = EigenvalueLogBits then (\<exists>j. unat k = 2 ^ j) \<and> min (unat configured) n < 2 * unat k
     else unat k = min (unat configured) n)"
proof -
  define capped where "capped = min (unat configured) (max n 1)"
  define adjusted where "adjusted = (if policy = EigenvalueLogBits \<and> 1 < capped then highest_power_of_two_at_most capped else capped)"
  have pos: "0 < capped" and cap: "capped = min (unat configured) n"
    using assms by (auto simp: capped_def unat_gt_0 [symmetric] word_neq_0_conv [symmetric])
  obtain j where j: "highest_power_of_two_at_most capped = 2 ^ j" "2 ^ j \<le> capped" "capped < 2 * 2 ^ j"
    using highest_power_of_two_spec [OF pos] by blast
  have one: "capped = 1 \<Longrightarrow> highest_power_of_two_at_most capped = 1" by (simp add: highest_power_of_two_at_most_def)
  have eq: "adjusted = (if policy = EigenvalueLogBits then 2 ^ j else capped)"
    using j(1) one pos unfolding adjusted_def by (cases "capped = 1") auto
  have adj: "0 < adjusted" "adjusted \<le> capped" using eq j(2) pos by auto
  have "unat configured < 2 ^ 32" using unsigned_less [of configured] by simp
  then have "capped < 2 ^ 32" using cap by linarith
  then have small: "adjusted \<le> 4294967295" "unat (word_of_nat adjusted :: u32) = adjusted"
    using adj(2) by (simp_all add: unsigned_of_nat take_bit_eq_mod)
  have "diagnostic_cluster_count configured n policy = Ok (word_of_nat adjusted)"
    using small(1) unfolding diagnostic_cluster_count_def Let_def capped_def [symmetric] adjusted_def [symmetric] by simp
  then show ?thesis using small(2) adj eq j cap by auto
qed

section \<open>The history of decisions\<close>

inductive selector_step :: "('t, 'c) pca_planner \<Rightarrow> ('t, 'c) selector \<Rightarrow> ('t, 'c) selector \<Rightarrow> bool" for pl where
  begins: "begin_selection_boundary pl represented expected n sel = (prog, sel') \<Longrightarrow> selector_step pl sel sel'"
| ingests: "ingest_selection_batch pl embs sel = (res, sel') \<Longrightarrow> selector_step pl sel sel'"
| finishes: "finish_selection_pass pl sel = (prog, sel') \<Longrightarrow> selector_step pl sel sel'"

definition initial_record :: decision_record where
  "initial_record = \<lparr>dr_algorithm = UseDirectionalPca, dr_switched = False, dr_reason = InitialDirectionalPcaSegment,
     dr_diagnostics = None\<rparr>"

definition repeat_record :: decision_record where
  "repeat_record = \<lparr>dr_algorithm = UseDcbc, dr_switched = False, dr_reason = PreviouslySwitchedToDcbc, dr_diagnostics = None\<rparr>"

definition evaluated_record :: "f32 \<Rightarrow> bool \<Rightarrow> decision_record \<Rightarrow> bool" where
  "evaluated_record threshold switch r =
     (dr_reason r = EvaluatedDirectionalPca \<and> dr_switched r = switch \<and>
      dr_algorithm r = (if switch then UseDcbc else UseDirectionalPca) \<and>
      (case dr_diagnostics r of None \<Rightarrow> False | Some dg \<Rightarrow> f32_less threshold (ad_mean_cluster_radius dg) = switch))"

text \<open>The initial decision, evaluations that keep directional PCA, and then at most one switch, after which DCBC stays.\<close>

definition decision_history :: "f32 \<Rightarrow> bool \<Rightarrow> decision_record list \<Rightarrow> bool" where
  "decision_history threshold switched rs =
     (rs = [] \<and> \<not> switched \<or>
      (\<exists>kept. list_all (evaluated_record threshold False) kept \<and>
         (if switched
          then \<exists>r n. evaluated_record threshold True r \<and> rs = initial_record # kept @ r # replicate n repeat_record
          else rs = initial_record # kept)))"

definition selector_inv :: "('t, 'c) selector \<Rightarrow> bool" where
  "selector_inv sel =
     (decision_history (as_radius_threshold (sel_settings sel)) (switched_to_dcbc sel) (decision_records sel) \<and>
      (active_boundary sel \<noteq> None \<longrightarrow> \<not> switched_to_dcbc sel \<and> decision_records sel \<noteq> []))"

lemma history_repeat:
  assumes "decision_history thr True rs"
  shows "decision_history thr True (rs @ [repeat_record])"
proof -
  obtain kept r n where "list_all (evaluated_record thr False) kept" "evaluated_record thr True r"
    "rs = initial_record # kept @ r # replicate n repeat_record" using assms by (auto simp: decision_history_def)
  then show ?thesis unfolding decision_history_def
    by (intro disjI2 exI [of _ kept]) (auto simp: replicate_append_same intro!: exI [of _ r] exI [of _ "Suc n"])
qed

lemma history_evaluated:
  assumes "decision_history thr False rs" and "rs \<noteq> []" and "evaluated_record thr switch r"
  shows "decision_history thr switch (rs @ [r])"
proof -
  obtain kept where kept: "list_all (evaluated_record thr False) kept" "rs = initial_record # kept"
    using assms(1,2) by (auto simp: decision_history_def)
  show ?thesis
  proof (cases switch)
    case True
    then show ?thesis using kept assms(3) unfolding decision_history_def
      by (intro disjI2 exI [of _ kept]) (auto intro!: exI [of _ r] exI [of _ 0])
  next
    case False
    then show ?thesis using kept assms(3) unfolding decision_history_def
      by (intro disjI2 exI [of _ "kept @ [r]"]) auto
  qed
qed

lemma record_decision_inv:
  assumes "selector_inv sel" and "active_boundary sel \<noteq> None" and "record_decision dg sel = (prog, sel')"
  shows "selector_inv sel'"
proof -
  let ?thr = "as_radius_threshold (sel_settings sel)" and ?switch = "f32_less (as_radius_threshold (sel_settings sel)) (ad_mean_cluster_radius dg)"
  let ?r = "\<lparr>dr_algorithm = (if ?switch then UseDcbc else UseDirectionalPca), dr_switched = ?switch,
     dr_reason = EvaluatedDirectionalPca, dr_diagnostics = Some dg\<rparr>"
  have "\<not> switched_to_dcbc sel" "decision_records sel \<noteq> []"
    and hist: "decision_history ?thr False (decision_records sel)"
    using assms(1,2) by (auto simp: selector_inv_def)
  moreover have "evaluated_record ?thr ?switch ?r" by (simp add: evaluated_record_def)
  ultimately show ?thesis using assms(3) history_evaluated [of ?thr "decision_records sel" ?switch ?r]
    by (auto simp: record_decision_def Let_def selector_inv_def)
qed

lemma selector_step_inv:
  assumes "selector_step pl sel sel'" and "selector_inv sel"
  shows "selector_inv sel' \<and> sel_settings sel' = sel_settings sel"
  using assms
proof (induction rule: selector_step.induct)
  case (begins represented expected n sel prog sel')
  have first: "decision_history thr False [initial_record]" for thr by (auto simp: decision_history_def)
  show ?case
  proof (cases "active_boundary sel = None \<and> \<not> switched_to_dcbc sel \<and> decision_records sel \<noteq> []")
    case True
    then show ?thesis using begins
      by (cases "new_boundary pl represented expected n (as_pca (sel_settings sel))")
        (auto simp: begin_selection_boundary_def selector_inv_def)
  next
    case False
    then show ?thesis using begins first history_repeat
      by (auto simp: begin_selection_boundary_def selector_inv_def initial_record_def repeat_record_def split: if_splits)
  qed
next
  case (ingests embs sel res sel')
  then show ?case by (auto simp: ingest_selection_batch_def selector_inv_def split: option.splits prod.splits)
next
  case (finishes sel prog sel')
  show ?case
  proof (cases "active_boundary sel")
    case (Some b)
    obtain res b' where b': "boundary_finish pl b = (res, b')" by fastforce
    let ?sel = "sel\<lparr>active_boundary := Some b'\<rparr>"
    have inv: "selector_inv ?sel" using finishes Some by (auto simp: selector_inv_def)
    show ?thesis
    proof (cases "\<exists>dg. res = Ok (BoundarySelected dg)")
      case True
      then obtain dg where "record_decision dg ?sel = (prog, sel')"
        using finishes Some b' by (auto simp: finish_selection_pass_def)
      moreover from this have "sel_settings sel' = sel_settings sel" by (auto simp: record_decision_def Let_def)
      ultimately show ?thesis using record_decision_inv [OF inv] by auto
    next
      case False
      then have "sel' = ?sel" using finishes Some b'
        by (cases res) (auto simp: finish_selection_pass_def split: boundary_state.splits)
      then show ?thesis using inv by simp
    qed
  qed (use finishes in \<open>auto simp: finish_selection_pass_def\<close>)
qed

text \<open>
  C30: whatever calls are made on a new selector, and whichever fail, its decisions are the initial one for
  directional PCA, then evaluations whose mean cluster radius did not exceed the threshold, then at most one that did; from there
  on every decision is DCBC, without another evaluation.
\<close>

theorem adaptive_history:
  assumes "new_selector pl s = Ok sel0" and "(selector_step pl)\<^sup>*\<^sup>* sel0 sel"
  shows "decision_history (as_radius_threshold s) (switched_to_dcbc sel) (decision_records sel)"
proof -
  have "selector_inv sel0 \<and> sel_settings sel0 = s"
    using assms(1) by (auto simp: new_selector_def map_ok_eq_Ok selector_inv_def decision_history_def)
  with assms(2) have "selector_inv sel \<and> sel_settings sel = s"
    by (induction rule: rtranclp_induct) (auto dest: selector_step_inv)
  then show ?thesis by (auto simp: selector_inv_def)
qed

section \<open>The boundary uses its trainer as the protocol asks\<close>

definition boundary_ok :: "('t \<Rightarrow> bool) \<Rightarrow> ('t, 'c) decision_boundary \<Rightarrow> bool" where
  "boundary_ok tinv b =
     (case db_phase b of
        CollectingSummaries \<Rightarrow> db_ready_passes b < 2 \<and> (case db_trainer b of None \<Rightarrow> False | Some t \<Rightarrow> tinv t)
      | MeasuringDecision \<Rightarrow> db_trainer b = None \<and> db_classifier b \<noteq> None)"

context streaming_trainer
begin

lemma completes_after_pass:
  assumes "inv t" and "finish_pass ops t = (Ok rep, t1)"
  shows "inv t1" and "\<exists>t2 cl. complete_training ops t1 = (Ok (), t2) \<and> into_classifier ops t2 = Ok cl"
proof -
  have step: "perform ops FinishPass t = (Ok (), t1)" using assms(2) by (simp add: perform_def)
  show "inv t1" by (rule call_inv [OF assms(1) step])
  have passed: "trainer_state_of ops t1 = PassComplete" using call_state [OF assms(1) step] by (simp add: is_ok_def)
  obtain r t2 where r: "perform ops CompleteTraining t1 = (r, t2)" by fastforce
  have "r = Ok ()" by (rule complete_allowed [OF \<open>inv t1\<close> r passed])
  moreover have "trainer_state_of ops t2 = TrainingComplete"
    using call_state [OF \<open>inv t1\<close> r] calculation by (simp add: is_ok_def)
  ultimately show "\<exists>t2 cl. complete_training ops t1 = (Ok (), t2) \<and> into_classifier ops t2 = Ok cl"
    using r classifier_iff [OF call_inv [OF \<open>inv t1\<close> r]] by (auto simp: perform_def)
qed

end

lemma boundary_ingest_ok:
  assumes "streaming_trainer (planner_ops pl) tinv" and "boundary_ok tinv b" and "boundary_ingest pl embs b = (res, b')"
  shows "boundary_ok tinv b'"
proof (cases "db_phase b")
  case CollectingSummaries
  then obtain t where t: "db_trainer b = Some t" "tinv t" using assms(2) by (auto simp: boundary_ok_def split: option.splits)
  obtain r t1 where r: "ingest_batch (planner_ops pl) t embs = (r, t1)" by fastforce
  then have "tinv t1" using streaming_trainer.call_inv [OF assms(1) t(2), of "IngestBatch embs"] by (simp add: perform_def)
  then show ?thesis using assms(2,3) CollectingSummaries t r by (auto simp: boundary_ingest_def boundary_ok_def)
next
  case MeasuringDecision
  then show ?thesis using assms(2,3)
    by (auto simp: boundary_ingest_def boundary_ok_def split: option.splits prod.splits)
qed

lemma boundary_finish_ok:
  assumes "streaming_trainer (planner_ops pl) tinv" and "boundary_ok tinv b" and "boundary_finish pl b = (res, b')"
  shows "boundary_ok tinv b'"
proof (cases "db_phase b")
  case CollectingSummaries
  then obtain t where t: "db_trainer b = Some t" "tinv t" using assms(2) by (auto simp: boundary_ok_def split: option.splits)
  obtain r t1 where r: "finish_pass (planner_ops pl) t = (r, t1)" by fastforce
  then have inv1: "tinv t1" using streaming_trainer.call_inv [OF assms(1) t(2), of FinishPass] by (simp add: perform_def)
  show ?thesis
  proof (cases r)
    case (Ok rep)
    then obtain t2 cl where "complete_training (planner_ops pl) t1 = (Ok (), t2)" "into_classifier (planner_ops pl) t2 = Ok cl"
      using streaming_trainer.completes_after_pass(2) [OF assms(1) t(2)] r by blast
    then show ?thesis using assms(2,3) CollectingSummaries t r Ok inv1
      by (auto simp: boundary_finish_def boundary_ok_def complete_boundary_def Let_def split: pass_readiness.splits if_splits)
  qed (use assms(2,3) CollectingSummaries t r inv1 in \<open>auto simp: boundary_finish_def boundary_ok_def\<close>)
next
  case MeasuringDecision
  then show ?thesis using assms(2,3)
    by (auto simp: boundary_finish_def boundary_ok_def split: option.splits)
qed


end
