(* ===== verification/Adaptive_Examples.thy ===== *)
theory Adaptive_Examples
  imports Adaptive_Policy Dcbc_Examples
begin

text \<open>
  A selector over the DCBC trainer, which keeps the protocol the selector relies on, at which the properties of the
  adaptive policy are applied.
\<close>

definition ex_planner :: "(dcbc_trainer, dcbc_classifier) pca_planner" where
  "ex_planner = \<lparr>planner_new = (\<lambda>cfg p. new_trainer cfg), planner_ops = dcbc_ops sha256,
     assigned_distance = (\<lambda>cl emb. Ok (0, 0)), show_f32 = (\<lambda>_. ''?'')\<rparr>"

definition ex_pca_settings :: adaptive_pca_settings where
  "ex_pca_settings = \<lparr>aps_cluster_count = 2, aps_random_seed = None, aps_params =
     \<lparr>pp_retained_axis_policy = FixedCount 1, pp_allocation_policy = EigenvalueLogBits, pp_binning_policy = Quantile,
      pp_cluster_cardinality_mode = ExactCardinality, pp_variance_exponent = f32_one, pp_temperature = f32_one,
      pp_min_input_count = 2, pp_min_effective_rank = 1, pp_min_cumulative_variance = f32_one\<rparr>\<rparr>"

definition ex_settings :: adaptive_settings where
  "ex_settings = \<lparr>as_direction = Divisive, as_pca = ex_pca_settings,
     as_dcbc = \<lparr>ads_cluster_count = 2, ads_balance = None, ads_random_seed = None\<rparr>, as_radius_threshold = f32_one\<rparr>"

definition ex_selector :: "decision_record list \<Rightarrow> (dcbc_trainer, dcbc_classifier) selector" where
  "ex_selector rs = \<lparr>sel_settings = ex_settings, switched_to_dcbc = False, decision_records = rs, active_boundary = None\<rparr>"

lemma ex_settings_valid: "new_selector ex_planner ex_settings = Ok (ex_selector [])"
proof -
  have "f32_is_finite f32_one" "\<not> f32_less f32_one 0" "\<not> f32_less f32_one f32_one" "\<not> f32_eq_zero f32_one"
    by (simp_all add: float_eval f32_one_def)
  moreover have "is_power_of_two 2" by (simp add: is_power_of_two_def)
  ultimately show ?thesis
    by (simp add: new_selector_def validate_settings_def validate_directional_pca_params_def check_retained_axes_def
        ex_settings_def ex_pca_settings_def ex_selector_def)
qed

lemma ex_first: "selector_step ex_planner (ex_selector []) (ex_selector [initial_record])"
  by (rule selector_step.begins [where represented = 0 and expected = 0 and n = 0 and prog = "Ok (Selected UseDirectionalPca)"])
    (simp add: begin_selection_boundary_def ex_selector_def initial_record_def)

lemma ex_reached: "(selector_step ex_planner)\<^sup>*\<^sup>* (ex_selector []) (ex_selector [initial_record])"
  using ex_first by blast

theorem adaptive_history_witness: "decision_history f32_one False [initial_record]"
  using adaptive_history [OF ex_settings_valid ex_reached] by (simp add: ex_selector_def ex_settings_def)


end
