(* ===== verification/Indexer_Types.thy ===== *)
theory Indexer_Types
  imports Block_Store Clustering
begin

text \<open>
  The data of the streaming indexer (\<open>src/crates/lexongraph-streaming-indexer/src/lib.rs\<close>): items,
  the partition hierarchy a planning pass ends with, the children and summaries a branch is built
  from, branch encoding policies, the error type and its rendering.
\<close>

section \<open>Rendering\<close>

text \<open>
  \<open>{:?}\<close> of a string: quoted, with the escapes of quotes, backslashes and the named control
  characters; any other character is printed as it is.
\<close>

definition debug_char :: "char \<Rightarrow> string" where
  "debug_char c =
     (if c = CHR 0x22 then [CHR 0x5C, CHR 0x22] else if c = CHR 0x5C then [CHR 0x5C, CHR 0x5C]
      else if c = CHR 0x09 then [CHR 0x5C, CHR ''t''] else if c = CHR 0x0D then [CHR 0x5C, CHR ''r'']
      else if c = CHR 0x0A then [CHR 0x5C, CHR ''n''] else if c = CHR 0x00 then [CHR 0x5C, CHR ''0'']
      else [c])"

definition debug_string :: "string \<Rightarrow> string" where
  "debug_string s = [CHR 0x22] @ concat (map debug_char s) @ [CHR 0x22]"

section \<open>Items, partitions and children\<close>

record 'r index_item =
  item_metadata :: metadata
  content_ref :: 'r

record indexing_result =
  root_id :: block_hash
  result_block_ids :: "block_hash list"

datatype planning_stage = StageSingle | StageCoarse | StageFine | StageCustom

record finalized_partition =
  partition_id :: string
  parent_id :: "string option"
  child_ids :: "string list"
  item_indices :: "nat list"
  terminal :: bool
  stage :: planning_stage

record partition_hierarchy =
  root_partition_id :: string
  partitions :: "finalized_partition list"

record child_summary_input =
  csi_embedding :: "byte list"
  csi_child :: block_hash
  csi_level :: u64
  csi_descendant_count :: nat

record indexed_child =
  ic_embedding :: "byte list"
  ic_child :: block_hash
  ic_level :: u64
  ic_descendant_count :: nat

datatype branch_encoding_policy =
    Ordinary
  | PcaRotF32Le
  | PcaRotDeltaF32Le
  | PcaRotDeltaUniform u8 u8 u8
  | PcaRotDeltaVariable u8 u8 u8
  | AmbientDeltaUniform u8 u8 u8

section \<open>Errors\<close>

record indexing_version =
  iv_major :: u64
  iv_minor :: u64
  iv_patch :: u64

definition display_indexing_version :: "indexing_version \<Rightarrow> string" where
  "display_indexing_version v =
     show_nat (unat (iv_major v)) @ ''.'' @ show_nat (unat (iv_minor v)) @ ''.'' @ show_nat (unat (iv_patch v))"

datatype indexer_error =
    EmptyInput
  | EmptyPass string
  | UnsupportedPublishedProfileVersion indexing_version
  | Cancelled string
  | ReplayMismatch string
  | InvalidMetadata string
  | ContentResolution string
  | UnusableContent string
  | EmbeddingFailure string
  | ClusteringFailure string
  | InvalidHybridPlanningConfiguration string
  | InvalidAdaptivePlanningConfiguration string
  | HierarchyValidation string
  | CanonicalEmbeddingFailure string
  | IntermediateNodeTooLarge nat nat
  | LocalSpill string
  | TerminalPartitionMaterialization string
  | BlockConstruction block_error
  | Storage block_store_error
  | InvalidLifecycleTransition string

type_synonym 'a indexer_result = "(indexer_error, 'a) outcome"

text \<open>A helper that fails with a message only.\<close>

type_synonym 'a message_result = "(string, 'a) outcome"

fun display_indexer_error :: "indexer_error \<Rightarrow> string" where
  "display_indexer_error EmptyInput = ''streaming indexing requires at least one item''"
| "display_indexer_error (EmptyPass m) = ''pass is empty: '' @ m"
| "display_indexer_error (UnsupportedPublishedProfileVersion v) =
     ''unsupported published indexing profile version '' @ display_indexing_version v"
| "display_indexer_error (Cancelled m) = ''streaming indexing cancelled: '' @ m"
| "display_indexer_error (ReplayMismatch m) = ''replay mismatch: '' @ m"
| "display_indexer_error (InvalidMetadata m) = ''metadata is invalid: '' @ m"
| "display_indexer_error (ContentResolution m) = ''content resolution failed: '' @ m"
| "display_indexer_error (UnusableContent m) = ''resolved content is unusable: '' @ m"
| "display_indexer_error (EmbeddingFailure m) = ''embedding generation failed: '' @ m"
| "display_indexer_error (ClusteringFailure m) = ''clustering failed: '' @ m"
| "display_indexer_error (InvalidHybridPlanningConfiguration m) =
     ''hybrid planning configuration is invalid: '' @ m"
| "display_indexer_error (InvalidAdaptivePlanningConfiguration m) =
     ''adaptive planning configuration is invalid: '' @ m"
| "display_indexer_error (HierarchyValidation m) = ''partition hierarchy is invalid: '' @ m"
| "display_indexer_error (CanonicalEmbeddingFailure m) = ''canonical embedding selection failed: '' @ m"
| "display_indexer_error (IntermediateNodeTooLarge needed target) =
     ''smallest intermediate node needs '' @ show_nat needed @ '' bytes, exceeding block size target ''
       @ show_nat target"
| "display_indexer_error (LocalSpill m) = ''local spill failed: '' @ m"
| "display_indexer_error (TerminalPartitionMaterialization m) =
     ''terminal partition could not be materialized: '' @ m"
| "display_indexer_error (BlockConstruction e) = ''block construction failed: '' @ display_block_error e"
| "display_indexer_error (Storage e) = ''block storage failed: '' @ display_store_error e"
| "display_indexer_error (InvalidLifecycleTransition m) = ''invalid lifecycle transition: '' @ m"

definition verify_persisted_block_id :: "block_hash \<Rightarrow> block_hash \<Rightarrow> unit indexer_result" where
  "verify_persisted_block_id actual expected =
     (if actual = expected then Ok ()
      else Err (Storage (ContractViolation (HashMismatch expected actual))))"

text \<open>\<open>expected_embedding_len\<close>: the bytes of an embedding, for the encodings leaves can have.\<close>

definition expected_embedding_len :: "embedding_spec \<Rightarrow> nat option" where
  "expected_embedding_len spec =
     Option.bind (usize_of_u64 (dims spec)) (\<lambda>n.
       if encoding spec = ''f32le'' then checked_mul n 4
       else if encoding spec = ''f16le'' then checked_mul n 2
       else if encoding spec = ''i8'' then Some n
       else if encoding spec = ''pq4'' then map_option (\<lambda>v. v div 2) (checked_add n 1)
       else None)"

definition index_validate_embedding_bytes :: "byte list \<Rightarrow> embedding_spec \<Rightarrow> string \<Rightarrow> unit message_result" where
  "index_validate_embedding_bytes emb spec context =
     and_then (ok_or (expected_embedding_len spec)
                (''unsupported embedding encoding '' @ debug_string (encoding spec) @ '' for '' @ context))
       (\<lambda>expected.
         if length emb \<noteq> expected
         then Err (context @ '' embedding length '' @ show_nat (length emb) @ '' does not match expected ''
                @ show_nat expected @ '' for '' @ show_nat (unat (dims spec)) @ '' dims under ''
                @ encoding spec)
         else Ok ())"

end
