(* ===== verification/Indexer_Embeddings.thy ===== *)
theory Indexer_Embeddings
  imports Indexer_Types Ieee_Convert
begin

text \<open>
  Decoding and averaging embeddings in the indexer
  (\<open>src/crates/lexongraph-streaming-indexer/src/lib.rs\<close>): \<open>decode_embedding_as_f32\<close> and \<open>_as_f64\<close>, the
  arithmetic mean of a branch's entries, the centroid of children weighted by their descendants, the
  representative of a planning group, and the encoder of a mean.
\<close>

text \<open>
  The crate \<open>half\<close>: \<open>f16::from_le_bytes(..).to_f64()\<close>, and \<open>f16::from_f64(..)\<close> with its little-endian
  bytes.
\<close>

record half_deps =
  f16_to_f64 :: "byte \<Rightarrow> byte \<Rightarrow> f64"
  f16_from_f64 :: "f64 \<Rightarrow> byte \<times> byte"

section \<open>Decoding\<close>

definition decode_embedding_as_f32 :: "deps \<Rightarrow> byte list \<Rightarrow> embedding_spec \<Rightarrow> f32 list indexer_result" where
  "decode_embedding_as_f32 d bs spec =
     and_then (map_err ClusteringFailure (index_validate_embedding_bytes bs spec ''f32-decode'')) (\<lambda>_.
       if encoding spec = ''i8'' then Ok (map (\<lambda>b. f32_of_int (sint b)) bs)
       else if encoding spec = ''f32le'' then Ok (map f32_from_le (chunks_exact 4 bs))
       else if encoding spec = ''f16le''
       then Ok (map (\<lambda>c. f16_to_f32 d (c ! 0) (c ! 1)) (chunks_exact 2 bs))
       else if encoding spec = ''pq4''
       then Err (ClusteringFailure ''pq4 embeddings are not supported by the streaming clustering path'')
       else Err (ClusteringFailure (''unsupported embedding encoding '' @ debug_string (encoding spec)
              @ '' for streaming clustering'')))"

definition decode_embedding_as_f64 ::
    "half_deps \<Rightarrow> byte list \<Rightarrow> embedding_spec \<Rightarrow> string \<Rightarrow> f64 list message_result" where
  "decode_embedding_as_f64 hd' bs spec context =
     and_then (index_validate_embedding_bytes bs spec context) (\<lambda>_.
       if encoding spec = ''i8'' then Ok (map (\<lambda>b. f64_of_int (sint b)) bs)
       else if encoding spec = ''f32le'' then Ok (map (\<lambda>c. f64_of_f32 (f32_from_le c)) (chunks_exact 4 bs))
       else if encoding spec = ''f16le''
       then Ok (map (\<lambda>c. f16_to_f64 hd' (c ! 0) (c ! 1)) (chunks_exact 2 bs))
       else if encoding spec = ''pq4'' then Err ''pq4 embeddings cannot be decoded as arithmetic vectors''
       else Err (''unsupported embedding encoding '' @ debug_string (encoding spec)
              @ '' for arithmetic decoding''))"

section \<open>Encoding a mean\<close>

text \<open>\<open>{rounded}\<close>: the rounded mean is an integer.\<close>

definition show_integral :: "f64 \<Rightarrow> string" where
  "show_integral x =
     (let i = fc_to_int (- (2 ^ 1024)) (2 ^ 1024) (f64_decode x)
      in if i < 0 then ''-'' @ show_nat (nat (- i)) else show_nat (nat i))"

definition not_finite_mean :: "nat \<Rightarrow> string" where
  "not_finite_mean dimension =
     ''cannot encode non-finite arithmetic mean at dimension '' @ show_nat dimension"

definition encode_mean_f32 :: "nat \<Rightarrow> f64 \<Rightarrow> byte list message_result" where
  "encode_mean_f32 dimension v =
     (if \<not> f64_is_finite v then Err (not_finite_mean dimension)
      else if \<not> f32_is_finite (f32_of_f64 v)
      then Err (''arithmetic mean overflowed f32 encoding at dimension '' @ show_nat dimension)
      else Ok (f32_to_le (f32_of_f64 v)))"

definition encode_mean_f16 :: "half_deps \<Rightarrow> nat \<Rightarrow> f64 \<Rightarrow> byte list message_result" where
  "encode_mean_f16 hd' dimension v =
     (if \<not> f64_is_finite v then Err (not_finite_mean dimension)
      else let (b0, b1) = f16_from_f64 hd' v in
        if \<not> f64_is_finite (f16_to_f64 hd' b0 b1)
        then Err (''arithmetic mean overflowed f16 encoding at dimension '' @ show_nat dimension)
        else Ok [b0, b1])"

definition encode_mean_i8 :: "nat \<Rightarrow> f64 \<Rightarrow> byte list message_result" where
  "encode_mean_i8 dimension v =
     (if \<not> f64_is_finite v then Err (not_finite_mean dimension)
      else let rounded = f64_round v in
        if f64_less rounded (f64_of_int (- 128)) \<or> f64_less (f64_of_int 127) rounded
        then Err (''arithmetic mean '' @ show_integral rounded @ '' exceeds i8 range at dimension ''
               @ show_nat dimension)
        else Ok [word_of_int (f64_to_i8 rounded)])"

definition encode_embedding_from_f64 :: "half_deps \<Rightarrow> f64 list \<Rightarrow> embedding_spec \<Rightarrow> byte list message_result" where
  "encode_embedding_from_f64 hd' values spec =
     and_then (ok_or (usize_of_u64 (dims spec))
                (''embedding dims '' @ show_nat (unat (dims spec)) @ '' do not fit in usize'')) (\<lambda>n.
       if length values \<noteq> n
       then Err (''mean embedding dimension '' @ show_nat (length values) @ '' does not match expected ''
              @ show_nat n)
       else if encoding spec = ''f32le''
       then map_ok concat (traverse (\<lambda>(i, v). encode_mean_f32 i v) (List.enumerate 0 values))
       else if encoding spec = ''f16le''
       then map_ok concat (traverse (\<lambda>(i, v). encode_mean_f16 hd' i v) (List.enumerate 0 values))
       else if encoding spec = ''i8''
       then map_ok concat (traverse (\<lambda>(i, v). encode_mean_i8 i v) (List.enumerate 0 values))
       else if encoding spec = ''pq4''
       then Err ''pq4 embeddings are not supported by the built-in arithmetic-mean canonical policy''
       else Err (''unsupported embedding encoding '' @ debug_string (encoding spec)
              @ '' for arithmetic-mean canonical policy''))"

section \<open>Means\<close>

text \<open>\<open>for (dimension, (sum, value)) in sums.iter_mut().zip(values).enumerate()\<close> with an early exit.\<close>

definition zip_update ::
    "(nat \<Rightarrow> f64 \<Rightarrow> 'a \<Rightarrow> ('e, f64) outcome) \<Rightarrow> 'a list \<Rightarrow> f64 list \<Rightarrow> ('e, f64 list) outcome" where
  "zip_update f values totals =
     map_ok (\<lambda>ys. ys @ drop (length values) totals)
       (traverse (\<lambda>(i, s, v). f i s v) (List.enumerate 0 (zip totals values)))"

text \<open>The loop that divides every sum and checks the quotient.\<close>

definition divide_totals :: "(nat \<Rightarrow> 'e) \<Rightarrow> f64 \<Rightarrow> f64 list \<Rightarrow> ('e, f64 list) outcome" where
  "divide_totals err divisor totals =
     traverse (\<lambda>(i, s). let q = f64_div s divisor in if f64_is_finite q then Ok q else Err (err i))
       (List.enumerate 0 totals)"

definition add_weighted :: "string \<Rightarrow> nat \<Rightarrow> string \<Rightarrow> (f64 \<Rightarrow> f64) \<Rightarrow> nat \<Rightarrow> f64 \<Rightarrow> f64 \<Rightarrow> f64 message_result" where
  "add_weighted what index overflow weigh dimension s v =
     (if \<not> f64_is_finite v
      then Err (what @ show_nat index @ '' contains non-finite value at dimension '' @ show_nat dimension)
      else let s' = f64_add s (weigh v) in
        if f64_is_finite s' then Ok s'
        else Err (overflow @ '' sum overflowed at dimension '' @ show_nat dimension))"

definition arithmetic_mean_canonical_embedding :: "half_deps \<Rightarrow> branch_block \<Rightarrow> byte list message_result" where
  "arithmetic_mean_canonical_embedding hd' b =
     (if bb_entries b = []
      then Err ''built-in arithmetic-mean canonical policy requires at least one branch entry''
      else
      and_then (ok_or (usize_of_u64 (dims (bb_embedding_spec b)))
                 (''branch embedding dims '' @ show_nat (unat (dims (bb_embedding_spec b)))
                    @ '' do not fit in usize'')) (\<lambda>n.
      and_then (for_each (\<lambda>(index, e) totals.
                  and_then (map_err (\<lambda>m. ''failed to decode branch entry '' @ show_nat index @ '': '' @ m)
                             (decode_embedding_as_f64 hd' (be_embedding e) (bb_embedding_spec b) ''canonical''))
                    (\<lambda>decoded. zip_update (add_weighted ''branch entry '' index ''arithmetic-mean'' (\<lambda>v. v))
                       decoded totals))
                 (List.enumerate 0 (bb_entries b)) (replicate n 0)) (\<lambda>totals.
      and_then (divide_totals (\<lambda>i. ''arithmetic-mean result became non-finite at dimension '' @ show_nat i)
                 (f64_of_nat (length (bb_entries b))) totals) (\<lambda>means.
        encode_embedding_from_f64 hd' means (bb_embedding_spec b)))))"

definition add_child_summary ::
    "half_deps \<Rightarrow> embedding_spec \<Rightarrow> nat \<times> child_summary_input \<Rightarrow> f64 list \<times> nat
       \<Rightarrow> (f64 list \<times> nat) message_result" where
  "add_child_summary hd' spec child state =
     (case (child, state) of ((index, c), (totals, total_weight)) \<Rightarrow>
        if csi_descendant_count c = 0
        then Err (''child summary '' @ show_nat index
               @ '' has zero descendant count and cannot contribute to an exact centroid'')
        else
        and_then (map_err (\<lambda>m. ''failed to decode child summary '' @ show_nat index @ '': '' @ m)
                   (decode_embedding_as_f64 hd' (csi_embedding c) spec ''exact-centroid'')) (\<lambda>decoded.
        and_then (zip_update (add_weighted ''child summary '' index ''exact-centroid''
                    (\<lambda>v. f64_mul v (f64_of_nat (csi_descendant_count c)))) decoded totals) (\<lambda>totals.
        map_ok (Pair totals) (ok_or (checked_add total_weight (csi_descendant_count c))
          ''exact-centroid total descendant count overflowed usize''))))"

definition exact_centroid_child_summary ::
    "half_deps \<Rightarrow> child_summary_input list \<Rightarrow> embedding_spec \<Rightarrow> byte list message_result" where
  "exact_centroid_child_summary hd' children spec =
     (if children = [] then Err ''exact-centroid child summary requires at least one child''
      else
      and_then (ok_or (usize_of_u64 (dims spec))
                 (''embedding dims '' @ show_nat (unat (dims spec)) @ '' do not fit in usize'')) (\<lambda>n.
      and_then (for_each (add_child_summary hd' spec) (List.enumerate 0 children) (replicate n 0, 0))
        (\<lambda>(totals, total_weight).
      and_then (divide_totals (\<lambda>i. ''exact-centroid result became non-finite at dimension '' @ show_nat i)
                 (f64_of_nat total_weight) totals) (\<lambda>means.
        encode_embedding_from_f64 hd' means spec))))"

text \<open>The representative of a planning group: \<open>total_weight += weight\<close> overflows past \<open>usize::MAX\<close>.\<close>

definition weighted_step ::
    "f32 list \<times> nat \<Rightarrow> f64 list \<times> nat \<Rightarrow> (f64 list \<times> nat) clustering_result" where
  "weighted_step item state =
     (case (item, state) of ((emb, weight), (totals, total_weight)) \<Rightarrow>
        if weight = 0 then Err (InvalidConfiguration ''representative embedding weight must be positive'')
        else if length emb \<noteq> length totals
        then Err (InvalidConfiguration (''representative embedding dimension '' @ show_nat (length emb)
               @ '' does not match expected '' @ show_nat (length totals)))
        else
        and_then (zip_update (\<lambda>dimension s v.
                    if \<not> f32_is_finite v
                    then Err (InvalidConfiguration
                           (''non-finite representative embedding value at dimension '' @ show_nat dimension))
                    else let s' = f64_add s (f64_mul (f64_of_f32 v) (f64_of_nat weight)) in
                      if f64_is_finite s' then Ok s'
                      else Err (InvalidConfiguration
                             (''representative embedding sum overflowed at dimension '' @ show_nat dimension)))
                    emb totals) (\<lambda>totals.
        map_ok (Pair totals) (expect_some (checked_add total_weight weight))))"

definition narrow_mean :: "nat \<Rightarrow> nat \<Rightarrow> f64 \<Rightarrow> f32 clustering_result" where
  "narrow_mean total_weight dimension s =
     (let mean = f64_div s (f64_of_nat total_weight) in
      if \<not> f64_is_finite mean
      then Err (InvalidConfiguration
             (''representative embedding mean became non-finite at dimension '' @ show_nat dimension))
      else if \<not> f32_is_finite (f32_of_f64 mean)
      then Err (InvalidConfiguration
             (''representative embedding mean overflowed f32 at dimension '' @ show_nat dimension))
      else Ok (f32_of_f64 mean))"

definition weighted_mean_f32_embeddings :: "(f32 list \<times> nat) list \<Rightarrow> f32 list clustering_result" where
  "weighted_mean_f32_embeddings embeddings =
     (case embeddings of
        [] \<Rightarrow> Err (InvalidConfiguration
               ''cannot compute representative embedding from an empty planning group'')
      | (first, first_weight) # rest \<Rightarrow>
          if first_weight = 0
          then Err (InvalidConfiguration ''representative embedding weight must be positive'')
          else
          and_then (traverse (\<lambda>(dimension, v).
                      let s = f64_mul (f64_of_f32 v) (f64_of_nat first_weight) in
                      if f64_is_finite s then Ok s
                      else Err (InvalidConfiguration
                             (''non-finite representative embedding value at dimension '' @ show_nat dimension)))
                     (List.enumerate 0 first)) (\<lambda>totals.
          and_then (for_each weighted_step rest (totals, first_weight)) (\<lambda>(totals, total_weight).
            traverse (\<lambda>(dimension, s). narrow_mean total_weight dimension s) (List.enumerate 0 totals))))"

section \<open>Means are embeddings of the declared length\<close>

lemma traverse_chunk_length:
  assumes "traverse f xs = Ok ys" and "\<And>x y. f x = Ok y \<Longrightarrow> length y = k"
  shows "length (concat ys) = k * length xs"
  using assms(1)
proof (induction xs arbitrary: ys)
  case (Cons x xs)
  then obtain y ys' where "f x = Ok y" "traverse f xs = Ok ys'" "ys = y # ys'"
    by (auto simp: and_then_eq_Ok map_ok_eq_Ok)
  with Cons.IH [of ys'] assms(2) [of x y] show ?case by simp
qed simp

lemma encode_mean_f32_length: "encode_mean_f32 i v = Ok bs \<Longrightarrow> length bs = 4"
  by (auto simp: encode_mean_f32_def split: if_splits)

lemma encode_mean_f16_length: "encode_mean_f16 h i v = Ok bs \<Longrightarrow> length bs = 2"
  by (auto simp: encode_mean_f16_def split: if_splits prod.splits)

lemma encode_mean_i8_length: "encode_mean_i8 i v = Ok bs \<Longrightarrow> length bs = 1"
  by (auto simp: encode_mean_i8_def Let_def split: if_splits)

lemma encode_embedding_length:
  assumes "encode_embedding_from_f64 h vs spec = Ok bs" and "expected_embedding_len spec = Some n"
  shows "length bs = n"
proof -
  note len = traverse_chunk_length [where xs = "List.enumerate 0 vs"]
  consider "encoding spec = ''f32le''" | "encoding spec = ''f16le''" | "encoding spec = ''i8''"
    using assms(1) by (auto simp: encode_embedding_from_f64_def outcome_simps split: if_splits)
  then show ?thesis
  proof cases
    case 1
    with assms obtain ys where "traverse (\<lambda>(i, v). encode_mean_f32 i v) (List.enumerate 0 vs) = Ok ys" "bs = concat ys"
      "n = length vs * 4"
      by (auto simp: encode_embedding_from_f64_def expected_embedding_len_def and_then_eq_Ok map_ok_eq_Ok
          checked_mul_def split: if_splits)
    with len [OF this(1), of 4] encode_mean_f32_length show ?thesis by (simp add: case_prod_beta mult.commute)
  next
    case 2
    with assms obtain ys where "traverse (\<lambda>(i, v). encode_mean_f16 h i v) (List.enumerate 0 vs) = Ok ys" "bs = concat ys"
      "n = length vs * 2"
      by (auto simp: encode_embedding_from_f64_def expected_embedding_len_def and_then_eq_Ok map_ok_eq_Ok
          checked_mul_def split: if_splits)
    with len [OF this(1), of 2] encode_mean_f16_length show ?thesis by (simp add: case_prod_beta mult.commute)
  next
    case 3
    with assms obtain ys where "traverse (\<lambda>(i, v). encode_mean_i8 i v) (List.enumerate 0 vs) = Ok ys" "bs = concat ys"
      "n = length vs"
      by (auto simp: encode_embedding_from_f64_def expected_embedding_len_def and_then_eq_Ok map_ok_eq_Ok
          checked_mul_def split: if_splits)
    with len [OF this(1), of 1] encode_mean_i8_length show ?thesis by (simp add: case_prod_beta mult.commute)
  qed
qed

lemma validate_embedding_iff:
  "index_validate_embedding_bytes bs spec context = Ok () \<longleftrightarrow> expected_embedding_len spec = Some (length bs)"
  by (cases "expected_embedding_len spec") (auto simp: index_validate_embedding_bytes_def)

lemma index_validate_no_panic [simp]: "index_validate_embedding_bytes bs spec context \<noteq> Panic"
  by (auto simp: index_validate_embedding_bytes_def outcome_simps)

lemma decode_f64_valid:
  "decode_embedding_as_f64 h bs spec context = Ok vs \<Longrightarrow> expected_embedding_len spec = Some (length bs)"
  by (auto simp: decode_embedding_as_f64_def outcome_simps simp flip: validate_embedding_iff [of _ _ "context"])

text \<open>
  The exact-centroid policy, when it answers, answers with an embedding of the
  declared length, so the check the indexer makes of it afterwards succeeds; and it does not panic.
\<close>

theorem centroid_summary_valid:
  "exact_centroid_child_summary h children spec \<noteq> Panic \<and>
   (\<forall>bs. exact_centroid_child_summary h children spec = Ok bs \<longrightarrow>
      index_validate_embedding_bytes bs spec context = Ok ())"
proof (intro conjI allI impI)
  have upd: "zip_update (add_weighted a i b w) vs ts \<noteq> Panic" for a i b w vs ts
    unfolding zip_update_def
    by (auto simp: outcome_simps add_weighted_def Let_def dest!: traverse_eq_Panic split: if_splits)
  have dec: "decode_embedding_as_f64 h bs spec c \<noteq> Panic" for bs c
    by (auto simp: decode_embedding_as_f64_def outcome_simps)
  have step: "add_child_summary h spec c st \<noteq> Panic" for c st
    using upd dec by (auto simp: add_child_summary_def outcome_simps split: prod.splits)
  have divide: "divide_totals err q ts \<noteq> Panic" for err :: "nat \<Rightarrow> string" and q ts
    unfolding divide_totals_def by (auto simp: Let_def dest!: traverse_eq_Panic split: if_splits)
  have enc: "encode_embedding_from_f64 h vs spec \<noteq> Panic" for vs
    by (auto simp: encode_embedding_from_f64_def encode_mean_f32_def encode_mean_f16_def encode_mean_i8_def
        outcome_simps Let_def dest!: traverse_eq_Panic split: if_splits prod.splits)
  have "for_each (add_child_summary h spec) xs st \<noteq> Panic" for xs st
    by (rule for_each_no_panic [where P = "\<lambda>_. True"]) (simp_all add: step)
  with divide enc show "exact_centroid_child_summary h children spec \<noteq> Panic"
    by (auto simp: exact_centroid_child_summary_def outcome_simps split: if_splits prod.splits)
next
  fix bs
  assume res: "exact_centroid_child_summary h children spec = Ok bs"
  then obtain c cs where cs: "children = c # cs"
    by (cases children) (auto simp: exact_centroid_child_summary_def)
  with res obtain vs st where "encode_embedding_from_f64 h vs spec = Ok bs"
    and "add_child_summary h spec (0, c) (replicate (unat (dims spec)) 0, 0) = Ok st"
    by (auto simp: exact_centroid_child_summary_def outcome_simps)
  moreover from this(2) have "expected_embedding_len spec = Some (length (csi_embedding c))"
    by (auto simp: add_child_summary_def outcome_simps dest: decode_f64_valid split: if_splits)
  ultimately show "index_validate_embedding_bytes bs spec context = Ok ()"
    using encode_embedding_length by (auto simp: validate_embedding_iff)
qed

end
