(* ===== verification/Indexer_Groups.thy ===== *)
theory Indexer_Groups
  imports Indexer_Types
begin

text \<open>
  How the indexer splits children into branches
  (\<open>src/crates/lexongraph-streaming-indexer/src/lib.rs\<close>): groups from cluster assignments, balanced
  groups under a bound on the children of a branch, and that bound, found by doubling and bisection
  on the size of a synthetic branch. Both searches end: the doubling grows towards \<open>usize::MAX\<close>, the
  bisection halves its interval.
\<close>

section \<open>Groups from assignments\<close>

text \<open>\<open>entry(key).or_default().push(value)\<close> on a \<open>BTreeMap\<close>, as its entries in ascending order.\<close>

fun btree_push :: "'k::linorder \<Rightarrow> 'v \<Rightarrow> ('k \<times> 'v list) list \<Rightarrow> ('k \<times> 'v list) list" where
  "btree_push k v [] = [(k, [v])]"
| "btree_push k v ((k', vs) # m) =
     (if k = k' then (k', vs @ [v]) # m
      else if k < k' then (k, [v]) # (k', vs) # m
      else (k', vs) # btree_push k v m)"

definition assignments_to_groups :: "cluster_id list \<Rightarrow> nat list list" where
  "assignments_to_groups assignments =
     (if assignments = [] then []
      else map snd (foldl (\<lambda>m (i, c). btree_push c i m) [] (List.enumerate 0 assignments)))"

text \<open>\<open>max_by_key(len)\<close>: the last of the longest groups.\<close>

definition longest_group :: "'a list list \<Rightarrow> nat" where
  "longest_group groups =
     foldl (\<lambda>best i. if length (groups ! best) \<le> length (groups ! i) then i else best) 0
       [1..<length groups]"

definition ensure_min_two_per_group :: "nat list list \<Rightarrow> nat list list" where
  "ensure_min_two_per_group groups =
     (let ok = filter (\<lambda>g. 2 \<le> length g) groups; singletons = filter (\<lambda>g. \<not> 2 \<le> length g) groups
      in if singletons = [] then ok
         else if ok = [] then (let merged = concat singletons in if merged = [] then [] else [merged])
         else let target = longest_group ok in ok[target := ok ! target @ concat singletons])"

section \<open>Balanced groups\<close>

text \<open>Consecutive ranges of the given sizes.\<close>

fun ranges_from :: "nat \<Rightarrow> nat list \<Rightarrow> nat list list" where
  "ranges_from start [] = []"
| "ranges_from start (n # ns) = [start..<start + n] # ranges_from (start + n) ns"

definition group_sizes :: "nat \<Rightarrow> nat \<Rightarrow> nat list" where
  "group_sizes len group_count =
     map (\<lambda>i. len div group_count + (if i < len mod group_count then 1 else 0)) [0..<group_count]"

definition div_ceil :: "nat \<Rightarrow> nat \<Rightarrow> nat" where
  "div_ceil a b = (if a mod b = 0 then a div b else a div b + 1)"

definition balanced_groups :: "nat \<Rightarrow> nat \<Rightarrow> nat list list message_result" where
  "balanced_groups len bound =
     (if len = 0 then Err ''cannot materialize an empty child set''
      else if bound = 0 then Err ''materializability bound must be positive''
      else if len = 1 then Ok [[0]]
      else if len \<le> bound then Ok [[0..<len]]
      else let group_count = div_ceil len bound
           in if len div 2 < group_count
              then Err (''cannot split '' @ show_nat len
                     @ '' children into conforming groups under materializability bound '' @ show_nat bound)
              else Ok (ranges_from 0 (group_sizes len group_count)))"

definition fallback_partition_groups :: "nat \<Rightarrow> nat \<Rightarrow> nat option \<Rightarrow> nat list list message_result" where
  "fallback_partition_groups len bound fallback_group_cap =
     and_then (balanced_groups len bound) (\<lambda>groups.
       case fallback_group_cap of
         None \<Rightarrow> Ok groups
       | Some group_cap \<Rightarrow>
           if length groups \<le> group_cap then Ok groups
           else if group_cap < 2
           then Err (''cannot split '' @ show_nat len @ '' items under fallback fanout cap ''
                  @ show_nat group_cap)
           else Ok (ranges_from 0 (group_sizes len (min group_cap len))))"

definition build_profile_terminal_groups :: "cluster_id list \<Rightarrow> nat \<Rightarrow> nat list list message_result" where
  "build_profile_terminal_groups assignments bound =
     (let groups = map sort (ensure_min_two_per_group (assignments_to_groups assignments)) in
      if [] \<in> set groups then Panic
      else let ordered = concat (sort_key hd groups) in
        if ordered = [] then Ok []
        else map_ok (map (\<lambda>range. sort (map ((!) ordered) range))) (balanced_groups (length ordered) bound))"

section \<open>Cluster counts\<close>

definition effective_cluster_count :: "u32 \<Rightarrow> nat \<Rightarrow> nat \<Rightarrow> u32 message_result" where
  "effective_cluster_count requested_count child_count bound =
     (if child_count \<le> 1 then Ok 1
      else let requested = unat (max requested_count 2);
               effective = max (min (min requested (max bound 2)) (max (child_count div 2) 1)) 2
           in if effective < 2 ^ 32 then Ok (word_of_nat effective)
              else Err ''effective cluster count exceeds u32::MAX'')"

section \<open>The materializability bound\<close>

definition synthetic_block_hash :: "nat \<Rightarrow> block_hash" where
  "synthetic_block_hash index = BlockHash (le_bytes 8 index @ replicate 24 0)"

definition serialized_branch_size :: "deps \<Rightarrow> embedding_spec \<Rightarrow> nat \<Rightarrow> nat message_result" where
  "serialized_branch_size d spec entry_count =
     and_then (ok_or (expected_embedding_len spec)
                (''unsupported embedding encoding '' @ debug_string (encoding spec)
                   @ '' for branch-size estimation'')) (\<lambda>embedding_len.
       let entries = map (\<lambda>i. \<lparr>be_embedding = replicate embedding_len 0, be_child = synthetic_block_hash i\<rparr>)
                       [0..<entry_count]
       in and_then (map_err (\<lambda>e. ''failed to build synthetic branch block: '' @ display_block_error e)
                     (build_branch_block d 1 1 spec entries None)) (\<lambda>branch.
          map_ok (\<lambda>ser. length (ser_bytes ser))
            (map_err (\<lambda>e. ''failed to serialize synthetic branch block: '' @ display_block_error e)
              (serialize_block d (Branch branch)))))"

function double_bound :: "(nat \<Rightarrow> nat message_result) \<Rightarrow> nat \<Rightarrow> nat \<Rightarrow> nat \<Rightarrow> (nat \<times> nat) message_result" where
  "double_bound size_of target low high =
     (let candidate = saturating_mul high 2 in
      if candidate \<le> high then Ok (low, high)
      else and_then (size_of candidate) (\<lambda>s.
        if s \<le> target then double_bound size_of target candidate candidate else Ok (low, candidate)))"
  by pat_completeness auto
termination
  by (relation "measure (\<lambda>(_, _, _, high). usize_max - high)") (auto simp: saturating_mul_def min_def)

declare double_bound.simps [simp del]

text \<open>\<open>low + 1\<close> overflows at \<open>usize::MAX\<close>.\<close>

function bisect_bound :: "(nat \<Rightarrow> nat message_result) \<Rightarrow> nat \<Rightarrow> nat \<Rightarrow> nat \<Rightarrow> nat message_result" where
  "bisect_bound size_of target low high =
     (if usize_max < low + 1 then Panic
      else if low + 1 < high
      then let mid = low + (high - low) div 2 in
        and_then (size_of mid) (\<lambda>s.
          if s \<le> target then bisect_bound size_of target mid high else bisect_bound size_of target low mid)
      else Ok low)"
  by pat_completeness auto
termination
  by (relation "measure (\<lambda>(_, _, low, high). high - low)") auto

declare bisect_bound.simps [simp del]

definition materializability_bound :: "deps \<Rightarrow> embedding_spec \<Rightarrow> nat \<Rightarrow> nat message_result" where
  "materializability_bound d spec block_size_target =
     and_then (serialized_branch_size d spec 2) (\<lambda>min_size.
       if block_size_target < min_size
       then Err (''minimum 2-child branch serializes to '' @ show_nat min_size
              @ '' bytes, exceeding block size target '' @ show_nat block_size_target)
       else and_then (double_bound (serialized_branch_size d spec) block_size_target 2 2) (\<lambda>(low, high).
              bisect_bound (serialized_branch_size d spec) block_size_target low high))"

section \<open>Balanced groups conform\<close>

lemma concat_ranges_from: "concat (ranges_from a ns) = [a..<a + sum_list ns]"
proof (induction ns arbitrary: a)
  case (Cons n ns)
  have "[a..<a + (n + sum_list ns)] = [a..<a + n] @ [a + n..<a + n + sum_list ns]"
    using upt_add_eq_append [of a "a + n" "sum_list ns"] by (simp add: add.assoc)
  with Cons show ?case by (simp add: add.assoc)
qed simp

lemma length_ranges_from: "map length (ranges_from a ns) = ns"
  by (induction ns arbitrary: a) auto

lemma sum_group_sizes: "0 < k \<Longrightarrow> sum_list (group_sizes n k) = n"
proof -
  assume "0 < k"
  let ?r = "n mod k"
  have "sum_list (group_sizes n k) = (\<Sum>i<k. n div k + (if i < ?r then 1 else 0))"
    by (simp add: group_sizes_def sum_list_sum_nth atLeast0LessThan)
  also have "\<dots> = k * (n div k) + card ({..<k} \<inter> {i. i < ?r})"
    by (simp add: sum.distrib sum.If_cases Int_def)
  also have "{..<k} \<inter> {i. i < ?r} = {..<?r}" using \<open>0 < k\<close> by (auto intro: less_trans [OF _ mod_less_divisor])
  finally show ?thesis by simp
qed

lemma set_group_sizes: "s \<in> set (group_sizes n k) \<Longrightarrow> s = n div k \<or> s = n div k + 1 \<and> n mod k \<noteq> 0"
  by (auto simp: group_sizes_def split: if_splits)

lemma div_ceil_bounds:
  assumes "0 < b"
  shows "a \<le> div_ceil a b * b" and "a \<le> c * b \<Longrightarrow> div_ceil a b \<le> c" and "0 < a \<Longrightarrow> 0 < div_ceil a b"
proof -
  have split: "a = b * (a div b) + a mod b" by simp
  have "a mod b < b" using assms by simp
  with split have "a \<le> b * (a div b) + b" by linarith
  then show "a \<le> div_ceil a b * b"
    using split by (auto simp: div_ceil_def mult.commute)
  show "div_ceil a b \<le> c" if "a \<le> c * b"
  proof (cases "a mod b = 0")
    case True
    with that assms show ?thesis
      by (simp add: div_ceil_def) (metis div_le_mono div_mult_self_is_m)
  next
    case False
    with split have "a div b * b < a" by (metis add_cancel_left_right le_add1 le_neq_implies_less mult.commute)
    with that assms have "a div b * b < c * b" by linarith
    with False show ?thesis by (simp add: div_ceil_def)
  qed
  show "0 < div_ceil a b" if "0 < a"
    using \<open>a \<le> div_ceil a b * b\<close> that by (cases "div_ceil a b") auto
qed

lemma group_size_bounds:
  assumes "0 < b" and "div_ceil n b \<le> n div 2" and "0 < n" and "s \<in> set (group_sizes n (div_ceil n b))"
  shows "2 \<le> s" and "s \<le> b"
proof -
  let ?k = "div_ceil n b"
  note ceil = div_ceil_bounds [OF assms(1), of n]
  have k: "0 < ?k" using ceil(3) assms(3) .
  have "2 * ?k \<le> n" using assms(2) by linarith
  then have "2 \<le> n div ?k" using k by (metis div_le_mono div_mult_self_is_m)
  with set_group_sizes [OF assms(4)] show "2 \<le> s" by auto
  have upper: "n div ?k \<le> b"
    using ceil(1) k by (metis div_le_mono div_mult_self_is_m mult.commute)
  have "n div ?k < b" if "n mod ?k \<noteq> 0"
  proof (rule ccontr)
    assume "\<not> n div ?k < b"
    with upper have "n div ?k = b" by simp
    then have "n = ?k * b + n mod ?k" by (metis mult_div_mod_eq)
    with ceil(1) that show False by simp
  qed
  with upper set_group_sizes [OF assms(4)] show "s \<le> b" by auto
qed

lemma sum_list_bounds:
  fixes ns :: "nat list"
  assumes "\<forall>k \<in> set ns. lo \<le> k \<and> k \<le> hi"
  shows "lo * length ns \<le> sum_list ns" and "sum_list ns \<le> hi * length ns"
  using assms by (induction ns) auto

text \<open>A conforming grouping of \<open>n\<close> children: two to \<open>b\<close> children in each group.\<close>

definition conforming_sizes :: "nat \<Rightarrow> nat \<Rightarrow> nat list \<Rightarrow> bool" where
  "conforming_sizes n b ns = (sum_list ns = n \<and> (\<forall>k \<in> set ns. 2 \<le> k \<and> k \<le> b))"

lemma no_conforming_sizes:
  assumes "n div 2 < div_ceil n b" and "0 < b"
  shows "\<not> conforming_sizes n b ns"
proof
  assume "conforming_sizes n b ns"
  then have "2 * length ns \<le> n" and "n \<le> length ns * b"
    using sum_list_bounds [of ns 2 b] by (auto simp: conforming_sizes_def mult.commute)
  then have "length ns \<le> n div 2" and "div_ceil n b \<le> length ns"
    using div_ceil_bounds(2) [OF assms(2)] by auto
  with assms(1) show False by simp
qed

lemma balanced_groups_Ok:
  assumes "balanced_groups n b = Ok gs"
  shows "concat gs = [0..<n]" and "0 < n" and "g \<in> set gs \<Longrightarrow> length g \<le> b"
    and "2 \<le> n \<Longrightarrow> g \<in> set gs \<Longrightarrow> 2 \<le> length g"
    and "g \<in> set gs \<Longrightarrow> h \<in> set gs \<Longrightarrow> length g \<le> length h + 1"
proof -
  have pos: "0 < n" "0 < b" using assms by (auto simp: balanced_groups_def split: if_splits)
  consider "n = 1" "gs = [[0]]" | "2 \<le> n" "n \<le> b" "gs = [[0..<n]]"
    | "2 \<le> n" "div_ceil n b \<le> n div 2" "gs = ranges_from 0 (group_sizes n (div_ceil n b))"
    using assms by (fastforce simp: balanced_groups_def Let_def split: if_splits)
  then have "concat gs = [0..<n] \<and> (\<forall>g \<in> set gs. length g \<le> b \<and> (2 \<le> n \<longrightarrow> 2 \<le> length g)) \<and>
      (\<forall>g \<in> set gs. \<forall>h \<in> set gs. length g \<le> length h + 1)"
  proof cases
    case 3
    let ?ss = "group_sizes n (div_ceil n b)"
    have mem: "length g \<in> set ?ss" if "g \<in> set gs" for g
      using that length_ranges_from [of 0 ?ss] 3(3) by (metis image_eqI list.set_map)
    have "concat gs = [0..<n]"
      using sum_group_sizes [of "div_ceil n b" n] div_ceil_bounds(3) [OF pos(2,1)] 3(3)
      by (simp add: concat_ranges_from)
    moreover have "length g \<le> length h + 1" if "g \<in> set gs" "h \<in> set gs" for g h
      using set_group_sizes [OF mem [OF that(1)]] set_group_sizes [OF mem [OF that(2)]] by auto
    ultimately show ?thesis using group_size_bounds [OF pos(2) 3(2) pos(1) mem] by blast
  qed (use pos in auto)
  then show "concat gs = [0..<n]" and "0 < n" and "g \<in> set gs \<Longrightarrow> length g \<le> b"
    and "2 \<le> n \<Longrightarrow> g \<in> set gs \<Longrightarrow> 2 \<le> length g"
    and "g \<in> set gs \<Longrightarrow> h \<in> set gs \<Longrightarrow> length g \<le> length h + 1"
    using pos by auto
qed

text \<open>
  C39: balanced groups are consecutive ranges that cover the children, each with two to
  the bound's number of children and sizes that differ by at most one; and for two or more children
  they are found whenever any grouping with conforming sizes exists.
\<close>

theorem balanced_groups_exact:
  "case balanced_groups n b of
     Ok gs \<Rightarrow> concat gs = [0..<n] \<and> (n = 1 \<or> conforming_sizes n b (map length gs)) \<and>
       (\<forall>g \<in> set gs. length g \<le> b \<and> (\<forall>h \<in> set gs. length g \<le> length h + 1))
   | Err _ \<Rightarrow> n = 0 \<or> b = 0 \<or> (\<forall>ns. \<not> conforming_sizes n b ns)
   | Panic \<Rightarrow> False"
proof (cases "balanced_groups n b")
  case (Ok gs)
  note spec = balanced_groups_Ok [OF Ok]
  have "sum_list (map length gs) = n" using spec(1) by (metis diff_zero length_concat length_upt)
  moreover have "2 \<le> length g" if "n \<noteq> 1" "g \<in> set gs" for g using spec(2,4) that by fastforce
  ultimately show ?thesis using Ok spec(1,3,5) by (auto simp: conforming_sizes_def)
next
  case (Err e)
  then have "n = 0 \<or> b = 0 \<or> n div 2 < div_ceil n b"
    by (auto simp: balanced_groups_def Let_def split: if_splits)
  with Err no_conforming_sizes show ?thesis by auto
qed (auto simp: balanced_groups_def Let_def split: if_splits)

section \<open>The bound is the last size that fits\<close>

definition fits :: "(nat \<Rightarrow> nat message_result) \<Rightarrow> nat \<Rightarrow> nat \<Rightarrow> bool" where
  "fits size_of target n = (\<exists>s. size_of n = Ok s \<and> s \<le> target)"

definition exceeds :: "(nat \<Rightarrow> nat message_result) \<Rightarrow> nat \<Rightarrow> nat \<Rightarrow> bool" where
  "exceeds size_of target n = (\<exists>s. size_of n = Ok s \<and> target < s)"

lemma double_bound_spec:
  assumes "double_bound size_of target low high = Ok (l, h)" and "fits size_of target low" and "low = high" and "2 \<le> low"
  shows "fits size_of target l \<and> 2 \<le> l \<and> (exceeds size_of target h \<and> l < h \<or> l = h \<and> usize_max \<le> h)"
  using assms
proof (induction size_of target low high rule: double_bound.induct)
  case (1 size_of target low high)
  let ?c = "saturating_mul high 2"
  show ?case
  proof (cases "?c \<le> high")
    case True
    with "1.prems" have "l = low \<and> h = high" unfolding double_bound.simps [of size_of target low high] by simp
    with True "1.prems" show ?thesis by (auto simp: saturating_mul_def min_def split: if_splits)
  next
    case False
    with "1.prems"(1) obtain s where s: "size_of ?c = Ok s"
      and rest: "(if s \<le> target then double_bound size_of target ?c ?c else Ok (low, ?c)) = Ok (l, h)"
      unfolding double_bound.simps [of size_of target low high] by (auto simp: outcome_simps Let_def)
    show ?thesis
    proof (cases "s \<le> target")
      case True
      with s rest "1.IH" [OF refl False s True] False "1.prems" show ?thesis by (simp add: fits_def)
    next
      case big: False
      with s rest False "1.prems" show ?thesis by (auto simp: exceeds_def)
    qed
  qed
qed

lemma bisect_bound_spec:
  assumes "bisect_bound size_of target low high = Ok n" and "fits size_of target low" and "2 \<le> low"
    and "exceeds size_of target high \<and> low < high \<or> low = high \<and> usize_max \<le> high"
  shows "fits size_of target n \<and> 2 \<le> n \<and> exceeds size_of target (n + 1)"
  using assms
proof (induction size_of target low high rule: bisect_bound.induct)
  case (1 size_of target low high)
  have top: "\<not> usize_max < low + 1" using "1.prems"(1) unfolding bisect_bound.simps [of size_of target low high]
    by (simp split: if_splits)
  with "1.prems"(4) have hi: "exceeds size_of target high" "low < high" by auto
  show ?case
  proof (cases "low + 1 < high")
    case False
    with "1.prems"(1) top have "n = low" unfolding bisect_bound.simps [of size_of target low high] by simp
    moreover from False hi have "high = low + 1" by simp
    ultimately show ?thesis using "1.prems" hi by simp
  next
    case True
    let ?m = "low + (high - low) div 2"
    have m: "low < ?m" "?m < high" using True by linarith+
    from "1.prems"(1) top True obtain s where s: "size_of ?m = Ok s"
      and rest: "(if s \<le> target then bisect_bound size_of target ?m high else bisect_bound size_of target low ?m) = Ok n"
      unfolding bisect_bound.simps [of size_of target low high] by (auto simp: outcome_simps Let_def)
    show ?thesis
    proof (cases "s \<le> target")
      case fit: True
      with rest have "bisect_bound size_of target ?m high = Ok n" by simp
      from "1.IH"(1) [OF top True refl s fit this] s fit m hi "1.prems"(3) show ?thesis by (simp add: fits_def)
    next
      case big: False
      with rest have "bisect_bound size_of target low ?m = Ok n" by simp
      from "1.IH"(2) [OF top True refl s big this] s big m "1.prems" show ?thesis by (simp add: exceeds_def)
    qed
  qed
qed

text \<open>
  C40: the bound the search returns is at least two, a synthetic branch with that many
  entries fits the block size target, and one with one more entry does not.
\<close>

theorem materializability_maximal:
  assumes "materializability_bound d spec target = Ok n"
  shows "2 \<le> n \<and> (\<exists>s. serialized_branch_size d spec n = Ok s \<and> s \<le> target) \<and>
    (\<exists>s. serialized_branch_size d spec (n + 1) = Ok s \<and> target < s)"
proof -
  from assms obtain m l h where m: "serialized_branch_size d spec 2 = Ok m" "m \<le> target"
    and dbl: "double_bound (serialized_branch_size d spec) target 2 2 = Ok (l, h)"
    and bis: "bisect_bound (serialized_branch_size d spec) target l h = Ok n"
    by (auto simp: materializability_bound_def outcome_simps split: if_splits)
  have "fits (serialized_branch_size d spec) target 2" using m by (simp add: fits_def)
  note d = double_bound_spec [OF dbl this refl order_refl]
  show ?thesis using bisect_bound_spec [OF bis] d unfolding fits_def exceeds_def by blast
qed

section \<open>Terminal groups partition the items\<close>

lemma balanced_groups_no_panic: "balanced_groups n b \<noteq> Panic"
  by (auto simp: balanced_groups_def Let_def split: if_splits)

definition pushed :: "('k \<times> 'v list) list \<Rightarrow> 'v multiset" where
  "pushed m = mset (concat (map snd m))"

lemma pushed_btree_push: "pushed (btree_push k v m) = add_mset v (pushed m)"
  by (induction k v m rule: btree_push.induct) (auto simp: pushed_def)

lemma btree_push_nonempty: "[] \<notin> snd ` set m \<Longrightarrow> [] \<notin> snd ` set (btree_push k v m)"
  by (induction k v m rule: btree_push.induct) auto

lemma fold_btree_push:
  "pushed (foldl (\<lambda>m (i, c). btree_push c i m) m ics) = pushed m + mset (map fst ics)"
  by (induction ics arbitrary: m) (auto simp: pushed_btree_push)

lemma fold_btree_nonempty:
  "[] \<notin> snd ` set m \<Longrightarrow> [] \<notin> snd ` set (foldl (\<lambda>m (i, c). btree_push c i m) m ics)"
proof (induction ics arbitrary: m)
  case (Cons ic ics)
  then show ?case using btree_push_nonempty [of m "snd ic" "fst ic"] by (simp add: case_prod_beta)
qed simp

lemma assignments_to_groups_mset: "mset (concat (assignments_to_groups as)) = mset [0..<length as]"
  using fold_btree_push [of "[]" "List.enumerate 0 as"]
  by (simp add: assignments_to_groups_def pushed_def del: mset_upt)

lemma assignments_to_groups_nonempty: "[] \<notin> set (assignments_to_groups as)"
  using fold_btree_nonempty [of "[]" "List.enumerate 0 as"] by (simp add: assignments_to_groups_def)

lemma longest_group_bound: "gs \<noteq> [] \<Longrightarrow> longest_group gs < length gs"
proof -
  assume "gs \<noteq> []"
  have "foldl (\<lambda>best i. if length (gs ! best) \<le> length (gs ! i) then i else best) b is < n"
    if "b < n" "\<forall>i \<in> set is. i < n" for b "is" n
    using that by (induction "is" arbitrary: b) auto
  from this [of 0 "length gs" "[1..<length gs]"] \<open>gs \<noteq> []\<close> show ?thesis
    by (simp add: longest_group_def)
qed

lemma mset_concat_filter:
  "mset (concat (filter P gs)) + mset (concat (filter (\<lambda>g. \<not> P g) gs)) = mset (concat gs)"
  by (induction gs) auto

lemma mset_concat_update:
  "t < length gs \<Longrightarrow> mset (concat (gs[t := gs ! t @ xs])) = mset (concat gs) + mset xs"
  by (induction gs arbitrary: t) (auto simp: nth_Cons split: nat.splits)

lemma ensure_min_two_mset: "mset (concat (ensure_min_two_per_group gs)) = mset (concat gs)"
proof -
  let ?ok = "filter (\<lambda>g. 2 \<le> length g) gs" and ?single = "filter (\<lambda>g. \<not> 2 \<le> length g) gs"
  note split = mset_concat_filter [of "\<lambda>g. 2 \<le> length g" gs]
  show ?thesis
  proof (cases "?ok = []")
    case True
    have "ensure_min_two_per_group gs =
        (if ?single = [] then [] else if concat ?single = [] then [] else [concat ?single])"
      unfolding ensure_min_two_per_group_def Let_def True by simp
    then have "concat (ensure_min_two_per_group gs) = concat ?single" by auto
    with split True show ?thesis by simp
  next
    case False
    note upd = mset_concat_update [OF longest_group_bound [OF False], of "concat ?single"]
    from False have "concat (ensure_min_two_per_group gs) =
        (if ?single = [] then concat ?ok
         else concat (?ok[longest_group ?ok := ?ok ! longest_group ?ok @ concat ?single]))"
      unfolding ensure_min_two_per_group_def Let_def by simp
    with split upd show ?thesis by (auto simp del: mset_concat)
  qed
qed

lemma ensure_min_two_nonempty:
  assumes "[] \<notin> set gs"
  shows "[] \<notin> set (ensure_min_two_per_group gs)"
proof -
  let ?ok = "filter (\<lambda>g. 2 \<le> length g) gs"
  have "x \<noteq> []" if "?ok \<noteq> []" "x \<in> set (?ok[longest_group ?ok := ?ok ! longest_group ?ok @ ys])" for x ys
  proof -
    have "?ok ! longest_group ?ok \<in> set ?ok" using longest_group_bound [OF that(1)] by (rule nth_mem)
    then have "?ok ! longest_group ?ok \<noteq> []" by auto
    with that(2) show ?thesis using set_update_subset_insert [of ?ok] assms by fastforce
  qed
  then show ?thesis using assms unfolding ensure_min_two_per_group_def Let_def by auto
qed

text \<open>
  The terminal groups of a published profile contain every item exactly once, each
  group within the bound and with at least two items as soon as there are two; none is lost when
  clusters are merged and repacked, and the construction does not panic.
\<close>

theorem terminal_groups_partition:
  "build_profile_terminal_groups as bound \<noteq> Panic \<and>
   (\<forall>gs. build_profile_terminal_groups as bound = Ok gs \<longrightarrow>
      mset (concat gs) = mset [0..<length as] \<and>
      (\<forall>g \<in> set gs. length g \<le> bound \<and> sorted g \<and> (2 \<le> length as \<longrightarrow> 2 \<le> length g)))"
proof -
  define groups where "groups = map sort (ensure_min_two_per_group (assignments_to_groups as))"
  define ordered where "ordered = concat (sort_key hd groups)"
  have nonempty: "[] \<notin> set groups"
    using ensure_min_two_nonempty [OF assignments_to_groups_nonempty [of as]]
    unfolding groups_def by (auto dest: arg_cong [where f = length])
  have concat_mset: "mset (concat xs) = mset (concat ys)" if "mset xs = mset ys" for xs ys :: "nat list list"
    using that by (metis mset_concat mset_map sum_mset_sum_list)
  have "mset (concat groups) = mset (concat (ensure_min_two_per_group (assignments_to_groups as)))"
    unfolding groups_def by (simp add: mset_concat o_def)
  then have ord: "mset ordered = mset [0..<length as]"
    using concat_mset [of "sort_key hd groups" groups] ensure_min_two_mset assignments_to_groups_mset
    unfolding ordered_def by simp
  then have len: "length ordered = length as" using mset_eq_length by fastforce
  have result: "build_profile_terminal_groups as bound =
      (if ordered = [] then Ok []
       else map_ok (map (\<lambda>r. sort (map ((!) ordered) r))) (balanced_groups (length ordered) bound))"
    using nonempty unfolding build_profile_terminal_groups_def groups_def [symmetric] Let_def
    by (simp only: if_False ordered_def)
  have "mset (concat gs) = mset [0..<length as] \<and>
      (\<forall>g \<in> set gs. length g \<le> bound \<and> sorted g \<and> (2 \<le> length as \<longrightarrow> 2 \<le> length g))"
    if "ordered \<noteq> []" "balanced_groups (length as) bound = Ok rs" "gs = map (\<lambda>r. sort (map ((!) ordered) r)) rs" for gs rs
  proof -
    note spec = balanced_groups_Ok [OF that(2)]
    have "mset (concat gs) = mset (concat (map (map ((!) ordered)) rs))"
      unfolding that(3) by (simp add: mset_concat o_def)
    also have "\<dots> = mset (map ((!) ordered) [0..<length as])" using spec(1) by (metis map_concat)
    also have "\<dots> = mset [0..<length as]" using ord len by (metis map_nth)
    finally show ?thesis using spec(3,4) that(3) by auto
  qed
  moreover have "balanced_groups (length as) bound \<noteq> Panic"
    using balanced_groups_no_panic .
  ultimately show ?thesis using ord len unfolding result by (auto simp: outcome_simps)
qed

end
