(* ===== verification/Indexer_Ebcp.thy ===== *)
theory Indexer_Ebcp
  imports Indexer_Embeddings Indexer_Groups
begin

unbundle bit_operations_syntax

text \<open>
  Authoring of EBCP branches in the indexer (\<open>encode_branch_entries\<close> and what it calls in
  \<open>src/crates/lexongraph-streaming-indexer/src/lib.rs\<close>): rotation, centroid and deltas, quantisation
  scales, the packing of codes least significant bit first, and the allocation of variable bit widths.
  Index expressions, shifts and subtractions that would panic are panics of the model.
\<close>

section \<open>The fitted rotation\<close>

text \<open>
  \<open>PcaTransform\<close> of the crate \<open>lexongraph-pca\<close>; \<open>fit\<close> of that crate is a parameter, as is the natural
  logarithm of the platform.
\<close>

record pca_transform =
  input_dim :: nat
  output_dim :: nat
  basis :: "f32 list"
  explained_variance :: "f32 list option"

record author_deps =
  pca_fit :: "f32 list list \<Rightarrow> pca_transform message_result"
  f64_ln :: "f64 \<Rightarrow> f64"

record encoded_branch_entries =
  eb_spec :: embedding_spec
  eb_entries :: "branch_entry list"
  eb_ext :: "metadata option"

datatype quantized_branch_encoding = UniformBits u8 | VariableBits u8

definition materialization_error :: "string \<Rightarrow> indexer_error" where
  "materialization_error m = TerminalPartitionMaterialization m"

definition disagree_error :: indexer_error where
  "disagree_error = materialization_error ''EBCP branch embeddings disagree on dimensionality''"

definition identity_rotation :: "nat \<Rightarrow> f32 list" where
  "identity_rotation n = map (\<lambda>k. if k div n = k mod n then f32_one else 0) [0..<n * n]"

definition rotation_of_transform :: "pca_transform \<Rightarrow> f32 list indexer_result" where
  "rotation_of_transform t =
     traverse (\<lambda>(r, a). index_at (basis t) (a + r * input_dim t))
       (List.product [0..<output_dim t] [0..<input_dim t])"

definition fit_ebcp_rotation :: "author_deps \<Rightarrow> f32 list list \<Rightarrow> (f32 list \<times> f32 list) indexer_result" where
  "fit_ebcp_rotation ad embeddings =
     (case embeddings of
        [] \<Rightarrow> Err (materialization_error
               ''cannot fit block-local PCA rotation from an empty branch-entry set'')
      | first # _ \<Rightarrow>
          let n = length first in
          if list_ex (\<lambda>e. length e \<noteq> n) embeddings then Err disagree_error
          else if length embeddings < 2
          then map_ok (\<lambda>_. (identity_rotation n, replicate n 0)) (expect_some (checked_mul n n))
          else
          and_then (map_err (\<lambda>m. materialization_error (''failed to fit block-local PCA rotation: '' @ m))
                     (pca_fit ad embeddings)) (\<lambda>t.
            let variance = (case explained_variance t of Some vs \<Rightarrow> vs | None \<Rightarrow> replicate (output_dim t) 0)
            in map_ok (\<lambda>m. (m, variance)) (rotation_of_transform t)))"

section \<open>Centroid, deltas and rotation\<close>

definition exact_f32_centroid :: "f32 list list \<Rightarrow> f32 list indexer_result" where
  "exact_f32_centroid embeddings =
     (case embeddings of
        [] \<Rightarrow> Err (materialization_error ''cannot compute EBCP centroid from an empty branch-entry set'')
      | first # _ \<Rightarrow>
          and_then (for_each (\<lambda>e totals.
                      if length e \<noteq> length totals then Err disagree_error
                      else Ok (map2 (\<lambda>t v. f64_add t (f64_of_f32 v)) totals e))
                     embeddings (replicate (length first) 0)) (\<lambda>totals.
            traverse (\<lambda>(i, t).
              let mean = f32_of_f64 (f64_div t (f64_of_nat (length embeddings))) in
              if f32_is_finite mean then Ok mean
              else Err (materialization_error (''EBCP centroid became non-finite at dimension '' @ show_nat i)))
              (List.enumerate 0 totals)))"

definition decode_f32_embedding_exact :: "byte list \<Rightarrow> embedding_spec \<Rightarrow> string \<Rightarrow> f32 list message_result" where
  "decode_f32_embedding_exact emb spec context =
     and_then (index_validate_embedding_bytes emb spec context) (\<lambda>_.
       if encoding spec \<noteq> ''f32le''
       then Err (context @ '' requires f32le embeddings, got '' @ debug_string (encoding spec))
       else traverse (\<lambda>c. if f32_is_finite (f32_from_le c) then Ok (f32_from_le c)
                          else Err ''embedding contains non-finite f32 values'') (chunks_exact 4 emb))"

definition apply_row_major_rotation :: "f32 list \<Rightarrow> f32 list \<Rightarrow> f32 list indexer_result" where
  "apply_row_major_rotation rotation_matrix vector =
     (let n = length vector in
      and_then (expect_some (checked_mul n n)) (\<lambda>nn.
        if length rotation_matrix \<noteq> nn
        then Err (materialization_error ''EBCP rotation matrix shape does not match logical dimensions'')
        else traverse (\<lambda>r.
               let acc = foldl (\<lambda>acc a. f32_add acc (f32_mul (rotation_matrix ! (r * n + a)) (vector ! a))) 0 [0..<n]
               in if f32_is_finite acc then Ok acc
                  else Err (materialization_error ''EBCP rotation produced a non-finite value''))
               [0..<n]))"

definition subtract_f32_vectors :: "f32 list \<Rightarrow> f32 list \<Rightarrow> f32 list indexer_result" where
  "subtract_f32_vectors left right =
     (if length left \<noteq> length right
      then Err (materialization_error ''EBCP vector subtraction requires matching dimensions'')
      else traverse (\<lambda>(l, r).
             if f32_is_finite (f32_sub l r) then Ok (f32_sub l r)
             else Err (materialization_error ''EBCP delta vector produced a non-finite value''))
             (zip left right))"

section \<open>Quantisation\<close>

text \<open>\<open>1_u32 << (bit_width - 1)\<close> overflows for a width above 32.\<close>

definition quantization_scale :: "f32 \<Rightarrow> u8 \<Rightarrow> f32 indexer_result" where
  "quantization_scale max_abs bit_width =
     (if bit_width = 0
      then Err (materialization_error ''EBCP quantization bit widths must be nonzero'')
      else if 32 < unat bit_width then Panic
      else let qmax = f32_of_nat (2 ^ (unat bit_width - 1) - 1);
               scale = (if f32_eq_zero max_abs \<or> f32_eq_zero qmax then f32_one else f32_div max_abs qmax)
           in if \<not> f32_is_finite scale \<or> f32_less scale 0 \<or> f32_eq_zero scale
              then Err (materialization_error ''EBCP quantization scale must be finite and positive'')
              else Ok scale)"

definition compute_quantization_scales :: "f32 list list \<Rightarrow> u8 list \<Rightarrow> f32 list indexer_result" where
  "compute_quantization_scales delta_vectors bit_widths =
     and_then (for_each (\<lambda>vector max_abs.
                 if length vector \<noteq> length bit_widths
                 then Err (materialization_error ''EBCP delta vectors disagree on dimensionality'')
                 else Ok (map2 (\<lambda>m v. f32_max m (f32_abs v)) max_abs vector))
                delta_vectors (replicate (length bit_widths) 0)) (\<lambda>max_abs.
       traverse (\<lambda>(m, w). quantization_scale m w) (zip max_abs bit_widths))"

fun write_bits_loop :: "byte list \<Rightarrow> nat \<Rightarrow> nat \<Rightarrow> nat \<Rightarrow> u32 \<Rightarrow> byte list indexer_result" where
  "write_bits_loop bytes start_bit bit_index 0 v = Ok bytes"
| "write_bits_loop bytes start_bit bit_index (Suc n) v =
     (let absolute_bit = start_bit + bit_index;
          byte_index = absolute_bit div 8;
          b = ucast (drop_bit bit_index v AND 1) :: u8
      in if bit_index < 32 \<and> byte_index < length bytes
         then write_bits_loop (bytes[byte_index := bytes ! byte_index OR push_bit (absolute_bit mod 8) b])
                start_bit (Suc bit_index) n v
         else Panic)"

definition write_lsb_first_bits :: "byte list \<Rightarrow> nat \<Rightarrow> u8 \<Rightarrow> u32 \<Rightarrow> byte list indexer_result" where
  "write_lsb_first_bits bytes start_bit bit_width v =
     write_bits_loop bytes start_bit 0 (unat bit_width) v"

text \<open>
  The code of a value. A width of 0 underflows \<open>bit_width - 1\<close>; from 32 on, \<open>1_i32 << (bit_width - 1)\<close>
  overflows or is the least \<open>i32\<close>, from which 1 cannot be taken. The sum is an \<open>i32\<close>; a negative one does not
  convert to \<open>u32\<close>.
\<close>

definition quantized_code :: "f32 \<Rightarrow> u8 \<Rightarrow> f32 \<Rightarrow> u32 indexer_result" where
  "quantized_code v bit_width scale =
     (if bit_width = 0 \<or> 31 < unat bit_width then Panic
      else let half = 2 ^ (unat bit_width - 1) :: int;
               qmax = f64_of_int (half - 1);
               centered = (if f32_eq_zero scale then 0 else f64_div (f64_of_f32 v) (f64_of_f32 scale));
               quantized = f64_to_i32 (f64_clamp (f64_round_ties_even centered) (f64_neg qmax) qmax)
           in if 2147483647 < quantized + half then Panic
              else if quantized + half < 0
              then Err (materialization_error ''EBCP quantized code did not fit the declared bit width'')
              else Ok (word_of_int (quantized + half)))"

fun pack_codes :: "(f32 \<times> u8 \<times> f32) list \<Rightarrow> nat \<Rightarrow> byte list \<Rightarrow> byte list indexer_result" where
  "pack_codes [] bit_offset bytes = Ok bytes"
| "pack_codes ((v, bit_width, scale) # rest) bit_offset bytes =
     and_then (quantized_code v bit_width scale) (\<lambda>stored.
     and_then (write_lsb_first_bits bytes bit_offset bit_width stored) (\<lambda>bytes.
       pack_codes rest (bit_offset + unat bit_width) bytes))"

definition pack_quantized_delta_vector ::
    "f32 list \<Rightarrow> u8 list \<Rightarrow> f32 list \<Rightarrow> byte list indexer_result" where
  "pack_quantized_delta_vector values bit_widths scale_factors =
     (if length values \<noteq> length bit_widths \<or> length values \<noteq> length scale_factors
      then Err (materialization_error ''EBCP quantization metadata dimension mismatch'')
      else
      and_then (for_each (\<lambda>w s. ok_or (checked_add s (unat w))
                  (materialization_error ''EBCP quantized payload bit length overflowed'')) bit_widths 0)
        (\<lambda>total_bits.
          pack_codes (zip values (zip bit_widths scale_factors)) 0 (replicate (div_ceil total_bits 8) 0)))"

section \<open>Variable bit widths\<close>

definition max_ebcp_bit_width :: nat where
  "max_ebcp_bit_width = 31"

text \<open>One pass over the dimensions in the order of their remainders; widths as numbers below 256.\<close>

fun spread_pass :: "nat list \<Rightarrow> nat list \<Rightarrow> nat \<Rightarrow> bool \<Rightarrow> nat list \<times> nat \<times> bool" where
  "spread_pass [] widths leftovers progressed = (widths, leftovers, progressed)"
| "spread_pass (i # is) widths leftovers progressed =
     (if leftovers = 0 then (widths, leftovers, progressed)
      else if max_ebcp_bit_width \<le> widths ! i then spread_pass is widths leftovers progressed
      else spread_pass is (widths[i := widths ! i + 1]) (leftovers - 1) True)"

lemma spread_pass_leftovers:
  "spread_pass is ws n p = (ws', n', p') \<Longrightarrow> n' \<le> n \<and> (p' \<longrightarrow> p \<or> n' < n)"
proof (induction "is" arbitrary: ws n p)
  case (Cons i "is")
  show ?case
  proof (cases "n = 0 \<or> max_ebcp_bit_width \<le> ws ! i")
    case True
    with Cons show ?thesis by (auto split: if_splits)
  next
    case False
    with Cons.prems Cons.IH [of "ws[i := ws ! i + 1]" "n - 1" True] show ?thesis by auto
  qed
qed auto

function spread_leftovers :: "nat list \<Rightarrow> nat list \<Rightarrow> nat \<Rightarrow> nat list indexer_result" where
  "spread_leftovers order widths leftovers =
     (if leftovers = 0 then Ok widths
      else case spread_pass order widths leftovers False of
        (widths', leftovers', progressed) \<Rightarrow>
          if progressed then spread_leftovers order widths' leftovers'
          else Err (materialization_error
                 ''variable-bit EBCP allocation could not satisfy the 31-bit per-dimension limit''))"
  by pat_completeness auto
termination
  by (relation "measure (\<lambda>(_, _, n). n)") (auto dest: spread_pass_leftovers sym)

declare spread_leftovers.simps [simp del]

text \<open>\<open>total_cmp\<close> on \<open>f64\<close>, as an integer key.\<close>

definition total_key_f64 :: "f64 \<Rightarrow> int" where
  "total_key_f64 x =
     (if 0x8000000000000000 \<le> x then - int (unat (x AND 0x7FFFFFFFFFFFFFFF)) - 1 else int (unat x))"

definition desired_bits :: "author_deps \<Rightarrow> f32 list \<Rightarrow> nat \<Rightarrow> f64 list" where
  "desired_bits ad variance remaining =
     (let weights = map (\<lambda>v. f64_ln ad (f64_add f64_one (f64_of_f32 (f32_max v 0)))) variance;
          weight_sum = f64_sum weights
      in if f64_less 0 weight_sum
         then map (\<lambda>w. f64_mul (f64_div w weight_sum) (f64_of_nat remaining)) weights
         else replicate (length variance) (f64_div (f64_of_nat remaining) (f64_of_nat (length variance))))"

definition allocate_variable_bit_widths :: "author_deps \<Rightarrow> f32 list \<Rightarrow> u8 \<Rightarrow> u8 list indexer_result" where
  "allocate_variable_bit_widths ad variance uniform_bit_width =
     (let n = length variance in
      if n = 0
      then Err (materialization_error
             ''variable-bit EBCP encoding requires at least one explained-variance entry'')
      else
      and_then (ok_or (checked_mul (unat uniform_bit_width) n)
                 (materialization_error ''variable-bit EBCP bit budget overflowed'')) (\<lambda>total_bits.
      and_then (ok_or (checked_mul max_ebcp_bit_width n)
                 (materialization_error ''variable-bit EBCP maximum bit budget overflowed'')) (\<lambda>max_total_bits.
        if max_total_bits < total_bits
        then Err (materialization_error
               ''variable-bit EBCP budget exceeds the 31-bit per-dimension limit'')
        else let remaining = saturating_sub total_bits n in
          if remaining = 0 then Ok (replicate n 1)
          else let desired = desired_bits ad variance remaining;
                   addends = map (\<lambda>v. min (f64_to_usize (f64_floor v)) (max_ebcp_bit_width - 1)) desired;
                   used = sum_list addends;
                   remainders = map (\<lambda>(i, v). (i, f64_sub v (f64_floor v))) (List.enumerate 0 desired);
                   order = map fst (sort_key (\<lambda>(i, r). (- total_key_f64 r, i)) remainders)
               in if remaining < used then Panic
                  else map_ok (map word_of_nat)
                         (spread_leftovers order (map (\<lambda>a. 1 + a) addends) (remaining - used)))))"

section \<open>The encodings\<close>

definition row_major_rotation :: "f32 list \<Rightarrow> ebcp_rotation" where
  "row_major_rotation m = \<lparr>matrix_format = ''f32le-row-major'', matrix = m\<rparr>"

text \<open>The result every encoding ends with.\<close>

definition encoded_branch ::
    "embedding_spec \<Rightarrow> string \<Rightarrow> branch_entry list \<Rightarrow> f32 list option \<Rightarrow> f32 list option
       \<Rightarrow> ebcp_quantization option \<Rightarrow> encoded_branch_entries" where
  "encoded_branch logical name entries centroid rotation_matrix quant =
     \<lparr>eb_spec = \<lparr>dims = dims logical, encoding = name\<rparr>, eb_entries = entries,
      eb_ext = Some (ebcp_extension_map
        \<lparr>ebcp_version = 1, logical_embedding_spec = logical, base_centroid = centroid,
         rotation = map_option row_major_rotation rotation_matrix, quantization = quant\<rparr>)\<rparr>"

definition encode_pca_rot_f32le_entries ::
    "branch_entry list \<Rightarrow> f32 list list \<Rightarrow> embedding_spec \<Rightarrow> f32 list \<Rightarrow> encoded_branch_entries indexer_result" where
  "encode_pca_rot_f32le_entries entries decoded logical rotation_matrix =
     map_ok (\<lambda>es. encoded_branch logical ''pca-rot-f32le'' es None (Some rotation_matrix) None)
       (traverse (\<lambda>(e, vector). map_ok (\<lambda>r. \<lparr>be_embedding = encode_f32_values r, be_child = be_child e\<rparr>)
          (apply_row_major_rotation rotation_matrix vector)) (zip entries decoded))"

definition encode_pca_rot_delta_f32le_entries ::
    "branch_entry list \<Rightarrow> f32 list list \<Rightarrow> embedding_spec \<Rightarrow> f32 list \<Rightarrow> f32 list
       \<Rightarrow> encoded_branch_entries indexer_result" where
  "encode_pca_rot_delta_f32le_entries entries decoded logical rotation_matrix centroid =
     map_ok (\<lambda>es. encoded_branch logical ''pca-rot-delta-f32le'' es (Some centroid) (Some rotation_matrix) None)
       (traverse (\<lambda>(e, vector).
          and_then (subtract_f32_vectors vector centroid) (\<lambda>delta.
          map_ok (\<lambda>r. \<lparr>be_embedding = encode_f32_values r, be_child = be_child e\<rparr>)
            (apply_row_major_rotation rotation_matrix delta))) (zip entries decoded))"

definition pack_entries ::
    "branch_entry list \<Rightarrow> f32 list list \<Rightarrow> u8 list \<Rightarrow> f32 list \<Rightarrow> branch_entry list indexer_result" where
  "pack_entries entries deltas bit_widths scale_factors =
     traverse (\<lambda>(e, delta). map_ok (\<lambda>bs. \<lparr>be_embedding = bs, be_child = be_child e\<rparr>)
       (pack_quantized_delta_vector delta bit_widths scale_factors)) (zip entries deltas)"

definition encode_pca_rot_delta_quantized_entries ::
    "author_deps \<Rightarrow> branch_entry list \<Rightarrow> f32 list list \<Rightarrow> embedding_spec \<Rightarrow> f32 list \<Rightarrow> f32 list
       \<Rightarrow> quantized_branch_encoding \<Rightarrow> f32 list option \<Rightarrow> encoded_branch_entries indexer_result" where
  "encode_pca_rot_delta_quantized_entries ad entries decoded logical rotation_matrix centroid enc variance =
     and_then (traverse (\<lambda>vector. and_then (subtract_f32_vectors vector centroid)
                 (apply_row_major_rotation rotation_matrix)) decoded) (\<lambda>deltas.
     and_then (case enc of
                 UniformBits w \<Rightarrow> Ok (replicate (length centroid) w)
               | VariableBits w \<Rightarrow>
                   and_then (ok_or variance (materialization_error
                       ''missing explained variance for variable-bit EBCP encoding''))
                     (\<lambda>v. allocate_variable_bit_widths ad v w)) (\<lambda>bit_widths.
     and_then (compute_quantization_scales deltas bit_widths) (\<lambda>scale_factors.
     map_ok (\<lambda>es. case enc of
         UniformBits w \<Rightarrow> encoded_branch logical ''pca-rot-delta-uq'' es (Some centroid) (Some rotation_matrix)
                           (Some (Uniform w scale_factors))
       | VariableBits _ \<Rightarrow> encoded_branch logical ''pca-rot-delta-vbq'' es (Some centroid) (Some rotation_matrix)
                           (Some (Variable bit_widths scale_factors)))
       (pack_entries entries deltas bit_widths scale_factors))))"

definition encode_ambient_delta_quantized_entries ::
    "branch_entry list \<Rightarrow> f32 list list \<Rightarrow> embedding_spec \<Rightarrow> f32 list \<Rightarrow> u8
       \<Rightarrow> encoded_branch_entries indexer_result" where
  "encode_ambient_delta_quantized_entries entries decoded logical centroid bit_width =
     and_then (traverse (\<lambda>vector. subtract_f32_vectors vector centroid) decoded) (\<lambda>deltas.
     let bit_widths = replicate (length centroid) bit_width in
     and_then (compute_quantization_scales deltas bit_widths) (\<lambda>scale_factors.
     map_ok (\<lambda>es. encoded_branch logical ''ambient-delta-uq'' es (Some centroid) None
                    (Some (Uniform bit_width scale_factors)))
       (pack_entries entries deltas bit_widths scale_factors)))"

definition resolve_branch_bit_budget :: "u64 \<Rightarrow> bool \<Rightarrow> u8 \<Rightarrow> u8 \<Rightarrow> u8 \<Rightarrow> u8" where
  "resolve_branch_bit_budget parent_level is_root root_bits interior_bits lowest_routing_bits =
     (if is_root then root_bits else if parent_level = 1 then lowest_routing_bits else interior_bits)"

definition decode_entries :: "string \<Rightarrow> embedding_spec \<Rightarrow> branch_entry list \<Rightarrow> f32 list list indexer_result" where
  "decode_entries context logical entries =
     traverse (\<lambda>(i, e). map_err (\<lambda>m. materialization_error
         (''failed to decode logical branch entry '' @ show_nat i @ '': '' @ m))
       (decode_f32_embedding_exact (be_embedding e) logical context)) (List.enumerate 0 entries)"

definition encode_branch_entries ::
    "author_deps \<Rightarrow> branch_encoding_policy \<Rightarrow> embedding_spec \<Rightarrow> branch_entry list \<Rightarrow> u64 \<Rightarrow> bool
       \<Rightarrow> encoded_branch_entries indexer_result" where
  "encode_branch_entries ad policy logical entries parent_level is_root =
     (let budget = resolve_branch_bit_budget parent_level is_root;
          rotated = (\<lambda>encode.
            if encoding logical \<noteq> ''f32le''
            then Err (materialization_error
                   ''EBCP branch authoring currently requires f32le logical embeddings'')
            else
            and_then (decode_entries ''EBCP branch authoring'' logical entries) (\<lambda>decoded.
            and_then (fit_ebcp_rotation ad decoded) (\<lambda>(m, variance). encode decoded m variance)))
      in case policy of
        Ordinary \<Rightarrow> Ok \<lparr>eb_spec = logical, eb_entries = entries, eb_ext = None\<rparr>
      | AmbientDeltaUniform rb ib lb \<Rightarrow>
          if encoding logical \<noteq> ''f32le''
          then Err (materialization_error
                 ''ambient delta branch authoring currently requires f32le logical embeddings'')
          else
          and_then (decode_entries ''ambient delta branch authoring'' logical entries) (\<lambda>decoded.
          and_then (exact_f32_centroid decoded) (\<lambda>centroid.
            encode_ambient_delta_quantized_entries entries decoded logical centroid
              (budget rb ib lb)))
      | PcaRotF32Le \<Rightarrow> rotated (\<lambda>decoded m variance. encode_pca_rot_f32le_entries entries decoded logical m)
      | PcaRotDeltaF32Le \<Rightarrow> rotated (\<lambda>decoded m variance.
          and_then (exact_f32_centroid decoded) (encode_pca_rot_delta_f32le_entries entries decoded logical m))
      | PcaRotDeltaUniform rb ib lb \<Rightarrow> rotated (\<lambda>decoded m variance.
          and_then (exact_f32_centroid decoded) (\<lambda>centroid.
            encode_pca_rot_delta_quantized_entries ad entries decoded logical m centroid
              (UniformBits (budget rb ib lb)) (Some variance)))
      | PcaRotDeltaVariable rb ib lb \<Rightarrow> rotated (\<lambda>decoded m variance.
          and_then (exact_f32_centroid decoded) (\<lambda>centroid.
            encode_pca_rot_delta_quantized_entries ad entries decoded logical m centroid
              (VariableBits (budget rb ib lb)) (Some variance))))"

definition uses_root_branch_budget :: "bool \<Rightarrow> nat \<Rightarrow> bool" where
  "uses_root_branch_budget is_global_root_partition group_count = (is_global_root_partition \<and> group_count = 1)"

end
