(* ===== verification/Indexer_Ebcp_Props.thy ===== *)
theory Indexer_Ebcp_Props
  imports Indexer_Ebcp Block_Ebcp_Props
begin

unbundle bit_operations_syntax

text \<open>
  What the indexer packs is what the block crate unpacks, and what it authors is what the block crate
  accepts: the packed codes form one little-endian number, from which the decoder of
  \<open>lexongraph-block\<close> reads the same codes; every branch \<open>encode_branch_entries\<close> returns has a
  descriptor that parses and payloads of the right length with zero padding.
\<close>

section \<open>Writing bits\<close>

lemma not_bit_above: "n < 2 ^ s \<Longrightarrow> s \<le> k \<Longrightarrow> \<not> bit (n :: nat) k"
proof -
  assume "n < 2 ^ s" and "s \<le> k"
  then have "n < 2 ^ k" by (meson less_le_trans one_le_numeral power_increasing)
  then show ?thesis by (simp add: bit_iff_odd)
qed

lemma bit_le_nat_bound: "bit (le_nat bs) k \<Longrightarrow> k < 8 * length bs"
  using not_bit_above [of "le_nat bs" "8 * length bs" k] le_nat_bound [of bs] by (force simp: power_mult)

lemma write_bits_loop_spec:
  assumes "i + n \<le> 32" and "start + i + n \<le> 8 * length bytes"
  shows "\<exists>bytes'. write_bits_loop bytes start i n v = Ok bytes' \<and> length bytes' = length bytes \<and>
    (\<forall>k. bit (le_nat bytes') k \<longleftrightarrow>
       bit (le_nat bytes) k \<or> (start + i \<le> k \<and> k < start + i + n \<and> bit v (k - start)))"
  using assms
proof (induction n arbitrary: i bytes)
  case (Suc n)
  let ?pos = "start + i" and ?j = "(start + i) div 8"
  let ?b = "ucast (drop_bit i v AND 1) :: u8"
  let ?bytes = "bytes[?j := bytes ! ?j OR push_bit (?pos mod 8) ?b]"
  have pos: "?pos < 8 * length bytes" using Suc.prems by simp
  then have j: "?j < length bytes" by (simp add: less_mult_imp_div_less)
  have one: "bit ?b m \<longleftrightarrow> m = 0 \<and> bit v i" for m
    by (auto simp: bit_ucast_iff bit_and_iff bit_drop_bit_eq bit_1_iff)
  have step: "bit (le_nat ?bytes) k \<longleftrightarrow> bit (le_nat bytes) k \<or> (k = ?pos \<and> bit v i)" for k
  proof (cases "k < 8 * length bytes")
    case True
    have eq: "k = ?pos \<longleftrightarrow> k div 8 = ?j \<and> k mod 8 = ?pos mod 8" by (metis mult_div_mod_eq)
    have "bit (le_nat ?bytes) k \<longleftrightarrow> bit (?bytes ! (k div 8)) (k mod 8)"
      using True by (intro bit_le_nat) simp
    also have "\<dots> \<longleftrightarrow> bit (bytes ! (k div 8)) (k mod 8) \<or> (k = ?pos \<and> bit v i)"
    proof (cases "k div 8 = ?j")
      case same: True
      then show ?thesis using j
        by (auto simp: eq bit_or_iff bit_push_bit_iff one simp del: bit_ucast_iff)
    next
      case False
      then show ?thesis using eq by auto
    qed
    finally show ?thesis using bit_le_nat [OF True] by simp
  next
    case False
    then show ?thesis using bit_le_nat_bound [of ?bytes k] bit_le_nat_bound [of bytes k] pos by auto
  qed
  obtain bytes' where b: "write_bits_loop ?bytes start (Suc i) n v = Ok bytes'"
    "length bytes' = length ?bytes"
    "\<And>k. bit (le_nat bytes') k \<longleftrightarrow>
       bit (le_nat ?bytes) k \<or> (start + Suc i \<le> k \<and> k < start + Suc i + n \<and> bit v (k - start))"
    using Suc.IH [of "Suc i" ?bytes] Suc.prems by auto
  have "write_bits_loop bytes start i (Suc n) v = Ok bytes'" using b(1) j Suc.prems by (simp add: Let_def)
  moreover have "bit (le_nat bytes') k \<longleftrightarrow>
      bit (le_nat bytes) k \<or> (start + i \<le> k \<and> k < start + i + Suc n \<and> bit v (k - start))" for k
    unfolding b(3) [of k] step [of k] by (cases k ?pos rule: linorder_cases) auto
  ultimately show ?case using b(2) by auto
qed auto

text \<open>Into bytes that are still zero from \<open>start\<close> on, the code is added at that place.\<close>

lemma write_lsb_first_bits_spec:
  assumes "unat w \<le> 32" and "start + unat w \<le> 8 * length bytes" and "le_nat bytes < 2 ^ start"
    and "unat v < 2 ^ unat w"
  shows "\<exists>bytes'. write_lsb_first_bits bytes start w v = Ok bytes' \<and> length bytes' = length bytes \<and>
    le_nat bytes' = le_nat bytes + 2 ^ start * unat v"
proof -
  obtain bytes' where b: "write_bits_loop bytes start 0 (unat w) v = Ok bytes'"
    "length bytes' = length bytes"
    "\<And>k. bit (le_nat bytes') k \<longleftrightarrow> bit (le_nat bytes) k \<or> (start \<le> k \<and> k < start + unat w \<and> bit v (k - start))"
    using write_bits_loop_spec [of 0 "unat w" start bytes v] assms(1,2) by auto
  note high = not_bit_above [OF assms(4)] and low = not_bit_above [OF assms(3)]
  have "le_nat bytes' = le_nat bytes OR push_bit start (unat v)"
  proof (rule bit_eqI)
    fix k
    show "bit (le_nat bytes') k \<longleftrightarrow> bit (le_nat bytes OR push_bit start (unat v)) k"
      using high [of "k - start"] by (cases "unat w \<le> k - start")
        (auto simp: b(3) bit_or_iff bit_push_bit_iff bit_unsigned_iff)
  qed
  moreover have "le_nat bytes AND push_bit start (unat v) = 0"
    by (rule bit_eqI) (auto simp: bit_and_iff bit_push_bit_iff low)
  ultimately have "le_nat bytes' = le_nat bytes + push_bit start (unat v)"
    by (simp add: disjunctive_add_eq_or)
  with b show ?thesis by (auto simp: write_lsb_first_bits_def push_bit_eq_mult mult.commute)
qed

section \<open>Packing and unpacking\<close>

text \<open>The level a value is quantised to: an integer of at most \<open>2^(w-1) - 1\<close> in absolute value.\<close>

definition quantized_level :: "f32 \<Rightarrow> u8 \<Rightarrow> f32 \<Rightarrow> int" where
  "quantized_level v w scale =
     (let qmax = f64_of_int (2 ^ (unat w - 1) - 1);
          centered = (if f32_eq_zero scale then 0 else f64_div (f64_of_f32 v) (f64_of_f32 scale))
      in f64_to_i32 (f64_clamp (f64_round_ties_even centered) (f64_neg qmax) qmax))"

definition width_ok :: "u8 \<Rightarrow> bool" where
  "width_ok w = (1 \<le> unat w \<and> unat w \<le> 31)"

lemma quantized_level_bound:
  assumes "width_ok w"
  shows "\<bar>quantized_level v w scale\<bar> \<le> 2 ^ (unat w - 1) - 1"
proof -
  have "(2::int) ^ (unat w - 1) \<le> 2 ^ 30" using assms by (intro power_increasing) (auto simp: width_ok_def)
  moreover have "(1::int) \<le> 2 ^ (unat w - 1)" by simp
  ultimately show ?thesis unfolding quantized_level_def Let_def by (intro clamped_to_i32) auto
qed

lemma unat_word_of_int_31: "0 \<le> k \<Longrightarrow> k \<le> 2147483647 \<Longrightarrow> unat (word_of_int k :: u32) = nat k"
  by (simp add: unsigned_of_int take_bit_eq_mod)

lemma quantized_code_spec:
  assumes "width_ok w"
  shows "\<exists>c. quantized_code v w scale = Ok c \<and> unat c < 2 ^ unat w \<and>
    nat (quantized_level v w scale + 2 ^ (unat w - 1)) = unat c"
proof -
  define q h where "q = quantized_level v w scale" and "h = (2 ^ (unat w - 1) :: int)"
  have "h \<le> 2 ^ 30" unfolding h_def using assms by (intro power_increasing) (auto simp: width_ok_def)
  moreover have "\<bar>q\<bar> \<le> h - 1" unfolding q_def h_def by (rule quantized_level_bound [OF assms])
  ultimately have range: "0 \<le> q + h" "q + h < 2 * h" "q + h \<le> 2147483647" by auto
  have "2 * h = 2 ^ unat w" using assms unfolding h_def by (auto simp: width_ok_def power_eq_if)
  with range have lt: "nat (q + h) < 2 ^ unat w" by (simp add: nat_less_iff)
  have w: "\<not> (w = 0 \<or> 31 < unat w)" using assms by (auto simp: width_ok_def)
  have "quantized_code v w scale =
    (if 2147483647 < q + h then Panic
     else if q + h < 0
     then Err (materialization_error ''EBCP quantized code did not fit the declared bit width'')
     else Ok (word_of_int (q + h)))"
    unfolding quantized_code_def q_def h_def quantized_level_def Let_def if_not_P [OF w] by (rule refl)
  also have "\<dots> = Ok (word_of_int (q + h))" using range by simp
  finally have "quantized_code v w scale = Ok (word_of_int (q + h))" .
  moreover have "unat (word_of_int (q + h) :: u32) = nat (q + h)"
    using range(1,3) by (rule unat_word_of_int_31)
  ultimately show ?thesis using lt unfolding q_def h_def by metis
qed

lemma quantized_code_width: "quantized_code v w scale = Ok c \<Longrightarrow> width_ok w"
  by (auto simp: quantized_code_def width_ok_def word_le_nat_alt unat_eq_zero Suc_le_eq simp flip: unat_gt_0 split: if_splits)

text \<open>The codes as digits of a number with a base for each width.\<close>

fun packed_number :: "(f32 \<times> u8 \<times> f32) list \<Rightarrow> nat" where
  "packed_number [] = 0"
| "packed_number ((v, w, scale) # rest) =
     nat (quantized_level v w scale + 2 ^ (unat w - 1)) + 2 ^ unat w * packed_number rest"

fun packed_width :: "(f32 \<times> u8 \<times> f32) list \<Rightarrow> nat" where
  "packed_width [] = 0"
| "packed_width ((v, w, scale) # rest) = unat w + packed_width rest"

lemma code_digit:
  assumes "width_ok w"
  shows "nat (quantized_level v w scale + 2 ^ (unat w - 1)) < 2 ^ unat w"
  using quantized_code_spec [OF assms, of v scale] by metis

lemma packed_number_less:
  "list_all (\<lambda>(v, w, s). width_ok w) items \<Longrightarrow> packed_number items < 2 ^ packed_width items"
proof (induction items rule: packed_number.induct)
  case (2 v w scale rest)
  then have "width_ok w" and "packed_number rest < 2 ^ packed_width rest" by auto
  then have "nat (quantized_level v w scale + 2 ^ (unat w - 1)) + 2 ^ unat w * packed_number rest
      < 2 ^ unat w * 2 ^ packed_width rest"
    using mixed_radix_less [OF code_digit] by blast
  then show ?case by (simp only: packed_number.simps packed_width.simps power_add)
qed simp

lemma pack_codes_spec:
  assumes "list_all (\<lambda>(v, w, s). width_ok w) items" and "offset + packed_width items \<le> 8 * length bytes"
    and "le_nat bytes < 2 ^ offset"
  shows "\<exists>bytes'. pack_codes items offset bytes = Ok bytes' \<and> length bytes' = length bytes \<and>
    le_nat bytes' = le_nat bytes + 2 ^ offset * packed_number items"
  using assms
proof (induction items arbitrary: offset bytes rule: packed_number.induct)
  case (2 v w scale rest)
  have w: "width_ok w" using "2.prems" by simp
  obtain c where c: "quantized_code v w scale = Ok c" "unat c < 2 ^ unat w"
    "nat (quantized_level v w scale + 2 ^ (unat w - 1)) = unat c"
    using quantized_code_spec [OF w, of v scale] by metis
  obtain b1 where b1: "write_lsb_first_bits bytes offset w c = Ok b1" "length b1 = length bytes"
    "le_nat b1 = le_nat bytes + 2 ^ offset * unat c"
    using write_lsb_first_bits_spec [of w offset bytes c] "2.prems" w c by (auto simp: width_ok_def)
  have "le_nat b1 < 2 ^ (offset + unat w)"
    unfolding b1(3) power_add using mixed_radix_less [OF "2.prems"(3)] c(2) by blast
  then obtain b2 where "pack_codes rest (offset + unat w) b1 = Ok b2" "length b2 = length b1"
    "le_nat b2 = le_nat b1 + 2 ^ (offset + unat w) * packed_number rest"
    using "2.IH" [of "offset + unat w" b1] "2.prems" b1(2) by auto
  then show ?case using b1 c(1)
    by (simp add: power_add algebra_simps c(3) del: One_nat_def)
qed auto

lemma pack_codes_widths:
  "pack_codes items offset bytes = Ok bytes' \<Longrightarrow> list_all (\<lambda>(v, w, s). width_ok w) items"
  by (induction items offset bytes rule: pack_codes.induct) (auto simp: outcome_simps quantized_code_width)

lemma for_each_checked_add:
  "for_each (\<lambda>w s. ok_or (checked_add s (unat w)) e) ws a = Ok t \<Longrightarrow>
     t = a + sum_list (map unat ws) \<and> (a \<le> usize_max \<longrightarrow> t \<le> usize_max)"
proof (induction ws arbitrary: a)
  case (Cons w ws)
  then have "checked_add a (unat w) = Some (a + unat w)"
    and "for_each (\<lambda>w s. ok_or (checked_add s (unat w)) e) ws (a + unat w) = Ok t"
    by (auto simp: checked_add_def split: if_splits)
  with Cons.IH [of "a + unat w"] show ?case by (auto simp: checked_add_def split: if_splits)
qed simp

lemma packed_width_zip:
  assumes "length vs = length ws" and "length vs = length ss"
  shows "packed_width (zip vs (zip ws ss)) = sum_list (map unat ws)"
proof -
  have "length ws = length ss" using assms by simp
  with assms(1) show ?thesis by (induction vs ws ss rule: list_induct3) auto
qed

lemma div_ceil_8: "div_ceil n 8 = (n + 7) div 8"
  unfolding div_ceil_def by presburger

text \<open>What \<open>pack_quantized_delta_vector\<close> returns, whenever it returns.\<close>

lemma pack_quantized_delta_vector_Ok:
  assumes "pack_quantized_delta_vector vs ws ss = Ok bs"
  shows "length vs = length ws" "length vs = length ss" "list_all width_ok ws"
    "length bs = (sum_list (map unat ws) + 7) div 8" "le_nat bs = packed_number (zip vs (zip ws ss))"
    "sum_list (map unat ws) \<le> usize_max"
proof -
  let ?items = "zip vs (zip ws ss)" and ?t = "sum_list (map unat ws)"
  show len: "length vs = length ws" "length vs = length ss"
    using assms by (auto simp: pack_quantized_delta_vector_def split: if_splits)
  with assms obtain t where t: "for_each (\<lambda>w s. ok_or (checked_add s (unat w))
      (materialization_error ''EBCP quantized payload bit length overflowed'')) ws 0 = Ok t"
    and pack: "pack_codes ?items 0 (replicate (div_ceil t 8) 0) = Ok bs"
    by (auto simp: pack_quantized_delta_vector_def and_then_eq_Ok)
  have tt: "t = ?t" "?t \<le> usize_max" using for_each_checked_add [OF t] by auto
  then show "?t \<le> usize_max" by simp
  have ok: "list_all (\<lambda>(v, w, s). width_ok w) ?items" using pack by (rule pack_codes_widths)
  then show "list_all width_ok ws" using len by (auto simp: list_all_length)
  have ceil: "div_ceil t 8 = (?t + 7) div 8" using tt by (simp add: div_ceil_8)
  have "le_nat (replicate n 0) = 0" for n by (induction n) auto
  then show "length bs = (?t + 7) div 8" "le_nat bs = packed_number ?items"
    using pack_codes_spec [OF ok, of 0 "replicate (div_ceil t 8) 0"] pack len ceil_bits [of ?t]
    by (auto simp: packed_width_zip ceil)
qed

lemma packed_payload_padding:
  assumes "pack_quantized_delta_vector vs ws ss = Ok bs"
  shows "validate_zero_ebcp_padding_bits bs (sum_list (map unat ws)) = Ok ()"
proof -
  note ok = pack_quantized_delta_vector_Ok [OF assms]
  have "list_all (\<lambda>(v, w, s). width_ok w) (zip vs (zip ws ss))" using ok(1-3) by (auto simp: list_all_length)
  then have "le_nat bs < 2 ^ sum_list (map unat ws)"
    unfolding ok(5) packed_width_zip [OF ok(1,2), symmetric] by (rule packed_number_less)
  then show ?thesis using zero_padding_iff [OF ok(4)] by simp
qed

text \<open>The decoder takes the codes off the number again.\<close>

lemma centered_quantized_code:
  assumes "width_ok w" and "nat (quantized_level v w scale + 2 ^ (unat w - 1)) = n"
  shows "centered_code (word_of_nat n) w = Ok (quantized_level v w scale)"
proof -
  define q h where "q = quantized_level v w scale" and "h = (2 ^ (unat w - 1) :: int)"
  have h: "h \<le> 2 ^ 30" unfolding h_def using assms(1) by (intro power_increasing) (auto simp: width_ok_def)
  have q: "\<bar>q\<bar> \<le> h - 1" unfolding q_def h_def by (rule quantized_level_bound [OF assms(1)])
  from h q have n: "int n = q + h" and n31: "n \<le> 2147483647" using assms(2) unfolding q_def h_def by auto
  then have code: "unat (word_of_nat n :: u32) = n" by (simp add: unsigned_of_nat take_bit_eq_mod)
  have w: "\<not> (w = 0 \<or> 32 < unat w)" "unat w \<noteq> 32" using assms(1) by (auto simp: width_ok_def)
  have c: "int n - h = q" using n by simp
  have "centered_code (word_of_nat n) w = (if - 2147483648 \<le> q \<and> q \<le> 2147483647 then Ok q else Panic)"
    using n31 w c unfolding centered_code_def code Let_def h_def [symmetric] by simp
  moreover have "- 2147483648 \<le> q \<and> q \<le> 2147483647" using h q by auto
  ultimately show ?thesis by (simp add: q_def)
qed

definition dequantized :: "f32 \<times> u8 \<times> f32 \<Rightarrow> f32" where
  "dequantized = (\<lambda>(v, w, scale). f32_mul (f32_of_int (quantized_level v w scale)) scale)"

lemma unpack_packed_number:
  assumes "list_all (\<lambda>(v, w, s). width_ok w \<and> \<not> bad_scale s) items"
    and "offset + packed_width items \<le> 8 * length payload"
    and "le_nat payload div 2 ^ offset = packed_number items"
  shows "unpack_variable_loop payload offset (map snd items) = Ok (map dequantized items)"
  using assms
proof (induction items arbitrary: offset rule: packed_number.induct)
  case (2 v w scale rest)
  have w: "width_ok w" "\<not> bad_scale scale" using "2.prems"(1) by auto
  define n where "n = nat (quantized_level v w scale + 2 ^ (unat w - 1))"
  have less: "n < 2 ^ unat w" unfolding n_def by (rule code_digit [OF w(1)])
  have num: "le_nat payload div 2 ^ offset = n + 2 ^ unat w * packed_number rest"
    using "2.prems"(3) by (simp only: packed_number.simps n_def)
  have "extract_lsb_first_bits payload offset w = Ok (word_of_nat n)"
    using w(1) "2.prems"(2) less by (simp add: extract_lsb_first_bits_spec width_ok_def num)
  then have "unpack_one payload offset w scale = Ok (dequantized (v, w, scale))"
    using w centered_quantized_code [OF w(1) n_def [symmetric]] by (simp add: unpack_one_def dequantized_def)
  moreover have "le_nat payload div 2 ^ (offset + unat w) = packed_number rest"
    using num less by (simp add: power_add div_mult2_eq)
  then have "unpack_variable_loop payload (offset + unat w) (map snd rest) = Ok (map dequantized rest)"
    using "2.prems"(1,2) by (intro "2.IH") auto
  moreover have "w \<noteq> 0" using w(1) by (auto simp: width_ok_def)
  ultimately show ?case by simp
qed simp

text \<open>
  C38: the codes the indexer packs for a delta vector are the codes the block crate
  reads. Where \<open>pack_quantized_delta_vector\<close> returns bytes (and the scales are ones the descriptor may
  carry), \<open>unpack_quantized_payload\<close> on the same widths and scales returns each value's quantised level, of
  at most \<open>2^(w-1) - 1\<close> steps, times its scale, and the padding bits of the payload are zero.
\<close>

theorem quantized_payload_roundtrip:
  assumes "pack_quantized_delta_vector vs ws ss = Ok bs" and "\<not> list_ex bad_scale ss"
    and "sum_list (map unat ws) + 7 \<le> usize_max"
  shows "unpack_quantized_payload bs ws ss = Ok (map dequantized (zip vs (zip ws ss))) \<and>
    validate_zero_ebcp_padding_bits bs (sum_list (map unat ws)) = Ok () \<and>
    list_all (\<lambda>(v, w, s). \<bar>quantized_level v w s\<bar> \<le> 2 ^ (unat w - 1) - 1) (zip vs (zip ws ss))"
proof -
  let ?items = "zip vs (zip ws ss)"
  note ok = pack_quantized_delta_vector_Ok [OF assms(1)]
  have widths: "list_all (\<lambda>(v, w, s). width_ok w) ?items" and
    both: "list_all (\<lambda>(v, w, s). width_ok w \<and> \<not> bad_scale s) ?items"
    using ok(1-3) assms(2) by (auto simp: list_all_length list_ex_length)
  have snd: "map snd ?items = zip ws ss" using ok(1,2) by simp
  have width: "packed_width ?items = sum_list (map unat ws)" by (rule packed_width_zip [OF ok(1,2)])
  have "unpack_variable_loop bs 0 (map snd ?items) = Ok (map dequantized ?items)"
    using ceil_bits by (intro unpack_packed_number [OF both]) (simp_all add: ok(4,5) width)
  then have "unpack_quantized_payload bs ws ss = Ok (map dequantized ?items)"
    using assms(3) ok(1,2,4,6)
    by (simp add: unpack_quantized_payload_def quantized_byte_len_def checked_add_def sum_widths_total snd)
  moreover note packed_payload_padding [OF assms(1)]
  moreover have "list_all (\<lambda>(v, w, s). \<bar>quantized_level v w s\<bar> \<le> 2 ^ (unat w - 1) - 1) ?items"
    using widths quantized_level_bound unfolding list_all_iff by blast
  ultimately show ?thesis by blast
qed

section \<open>Authored branches are accepted\<close>

definition finite_vector :: "nat \<Rightarrow> f32 list \<Rightarrow> bool" where
  "finite_vector n v = (length v = n \<and> list_all f32_is_finite v)"

lemma decode_f32_embedding_exact_Ok:
  assumes "decode_f32_embedding_exact bs logical context = Ok v"
  shows "finite_vector (unat (dims logical)) v" and "unat (dims logical) * 4 \<le> usize_max"
    and "encoding logical = ''f32le''"
proof -
  from assms have valid: "expected_embedding_len logical = Some (length bs)"
    and enc: "encoding logical = ''f32le''"
    and v: "traverse (\<lambda>c. if f32_is_finite (f32_from_le c) then Ok (f32_from_le c)
                          else Err ''embedding contains non-finite f32 values'') (chunks_exact 4 bs) = Ok v"
    by (auto simp: decode_f32_embedding_exact_def and_then_eq_Ok validate_embedding_iff split: if_splits)
  from valid enc have len: "length bs = unat (dims logical) * 4" and fits: "unat (dims logical) * 4 \<le> usize_max"
    by (auto simp: expected_embedding_len_def checked_mul_Some)
  have "length v = unat (dims logical)"
    using traverse_Ok_length [OF v] len by (simp add: chunks_exact_length)
  moreover have "list_all f32_is_finite v"
    using traverse_Ok_set [OF v] by (fastforce simp: list_all_iff split: if_splits)
  ultimately show "finite_vector (unat (dims logical)) v" by (simp add: finite_vector_def)
  show "unat (dims logical) * 4 \<le> usize_max" by (rule fits)
  show "encoding logical = ''f32le''" by (rule enc)
qed

lemma decode_entries_Ok:
  assumes "decode_entries context logical entries = Ok decoded"
  shows "length decoded = length entries" and "list_all (finite_vector (unat (dims logical))) decoded"
    and "entries \<noteq> [] \<Longrightarrow> unat (dims logical) * 4 \<le> usize_max \<and> encoding logical = ''f32le''"
proof -
  note t = assms [unfolded decode_entries_def]
  show len: "length decoded = length entries" using traverse_Ok_length [OF t] by simp
  have each: "\<exists>bs. decode_f32_embedding_exact bs logical context = Ok v" if "v \<in> set decoded" for v
    using traverse_Ok_set [OF t that] by (auto simp: outcome_simps)
  then show "list_all (finite_vector (unat (dims logical))) decoded"
    using decode_f32_embedding_exact_Ok(1) by (fastforce simp: list_all_iff)
  show "unat (dims logical) * 4 \<le> usize_max \<and> encoding logical = ''f32le''" if "entries \<noteq> []"
  proof -
    have "decoded \<noteq> []" using len that by auto
    then obtain v where "v \<in> set decoded" by (cases decoded) auto
    from each [OF this] show ?thesis using decode_f32_embedding_exact_Ok(2,3) by blast
  qed
qed

lemma exact_f32_centroid_Ok:
  assumes "exact_f32_centroid decoded = Ok c" and "list_all (finite_vector n) decoded"
  shows "decoded \<noteq> []" and "finite_vector n c"
proof -
  show "decoded \<noteq> []" using assms(1) by (auto simp: exact_f32_centroid_def)
  then obtain v vs where d: "decoded = v # vs" by (cases decoded) auto
  let ?step = "\<lambda>e totals. if length e \<noteq> length totals then Err disagree_error
      else Ok (map2 (\<lambda>t v. f64_add t (f64_of_f32 v)) totals e)"
  obtain totals where f: "for_each ?step decoded (replicate (length v) 0) = Ok totals"
    and t: "traverse (\<lambda>(i, t).
      let mean = f32_of_f64 (f64_div t (f64_of_nat (length decoded))) in
      if f32_is_finite mean then Ok mean
      else Err (materialization_error (''EBCP centroid became non-finite at dimension '' @ show_nat i)))
      (List.enumerate 0 totals) = Ok c"
    using assms(1) by (auto simp: exact_f32_centroid_def d and_then_eq_Ok)
  have "length totals = length v"
    by (rule for_each_invariant [OF f]) (auto split: if_splits)
  moreover have "length v = n" using assms(2) by (simp add: d finite_vector_def)
  ultimately have "length c = n" using traverse_Ok_length [OF t] by simp
  moreover have "list_all f32_is_finite c"
    using traverse_Ok_set [OF t] by (fastforce simp: list_all_iff Let_def split: if_splits)
  ultimately show "finite_vector n c" by (simp add: finite_vector_def)
qed

lemma subtract_f32_vectors_Ok:
  assumes "subtract_f32_vectors v c = Ok d"
  shows "finite_vector (length v) d"
proof -
  from assms have len: "length v = length c" and
    t: "traverse (\<lambda>(l, r). if f32_is_finite (f32_sub l r) then Ok (f32_sub l r)
        else Err (materialization_error ''EBCP delta vector produced a non-finite value'')) (zip v c) = Ok d"
    by (auto simp: subtract_f32_vectors_def split: if_splits)
  have "list_all f32_is_finite d"
    using traverse_Ok_set [OF t] by (fastforce simp: list_all_iff split: if_splits)
  then show ?thesis using traverse_Ok_length [OF t] len by (simp add: finite_vector_def)
qed

lemma foldl_products_finite:
  "f32_is_finite (foldl (\<lambda>acc a. f32_add acc (f32_mul (m (a :: nat)) (x a))) s as) \<Longrightarrow>
     f32_is_finite s \<and> (\<forall>a \<in> set as. f32_is_finite (m a))"
proof (induction as arbitrary: s)
  case (Cons a as)
  then have "f32_is_finite (f32_add s (f32_mul (m a) (x a)))" and rest: "\<forall>a \<in> set as. f32_is_finite (m a)"
    by (simp_all add: Cons.IH)
  from f32_add_finite [OF this(1)] have "f32_is_finite s" and "f32_is_finite (m a)"
    using f32_mul_finite [of "m a" "x a"] by auto
  with rest show ?case by simp
qed simp

text \<open>A rotation that is applied without an error is a square matrix of finite entries.\<close>

lemma apply_row_major_rotation_Ok:
  assumes rot: "apply_row_major_rotation m v = Ok r" and n: "length v = n"
  shows "finite_vector n r" and "finite_vector (n * n) m"
proof -
  let ?row = "\<lambda>k. foldl (\<lambda>acc a. f32_add acc (f32_mul (m ! (k * n + a)) (v ! a))) 0 [0..<n]"
  have fits: "checked_mul n n = Some (n * n)"
    using rot n by (cases "checked_mul n n") (auto simp: apply_row_major_rotation_def checked_mul_Some)
  have len: "length m = n * n"
    using rot n fits by (cases "length m = n * n") (simp_all add: apply_row_major_rotation_def)
  have t: "traverse (\<lambda>k. if f32_is_finite (?row k) then Ok (?row k)
      else Err (materialization_error ''EBCP rotation produced a non-finite value'')) [0..<n] = Ok r"
    using rot n fits len by (simp add: apply_row_major_rotation_def Let_def)
  have "list_all f32_is_finite r"
    using traverse_Ok_set [OF t] by (fastforce simp: list_all_iff split: if_splits)
  then show "finite_vector n r" using traverse_Ok_length [OF t] by (simp add: finite_vector_def)
  have row: "f32_is_finite (?row k)" if "k < n" for k
    using traverse_Ok_nth [OF t, of k] that by (auto split: if_splits)
  have "f32_is_finite (m ! i)" if i: "i < n * n" for i
  proof -
    have "i div n < n" using i by (simp add: less_mult_imp_div_less)
    then have "\<forall>a \<in> set [0..<n]. f32_is_finite (m ! (i div n * n + a))"
      using foldl_products_finite [OF row [of "i div n"]] by blast
    moreover have "0 < n" using i by (cases n) auto
    ultimately show ?thesis by (auto dest: bspec [where x = "i mod n"])
  qed
  then show "finite_vector (n * n) m" using len by (simp add: finite_vector_def list_all_length)
qed

lemma quantization_scale_Ok: "quantization_scale m w = Ok s \<Longrightarrow> \<not> bad_scale s"
  by (auto simp: quantization_scale_def bad_scale_def Let_def split: if_splits)

lemma compute_quantization_scales_Ok:
  assumes "compute_quantization_scales deltas ws = Ok ss"
  shows "length ss = length ws" and "\<not> list_ex bad_scale ss"
proof -
  let ?step = "\<lambda>vector max_abs.
      if length vector \<noteq> length ws
      then Err (materialization_error ''EBCP delta vectors disagree on dimensionality'')
      else Ok (map2 (\<lambda>m v. f32_max m (f32_abs v)) max_abs vector)"
  obtain ms where f: "for_each ?step deltas (replicate (length ws) 0) = Ok ms"
    and t: "traverse (\<lambda>(m, w). quantization_scale m w) (zip ms ws) = Ok ss"
    using assms by (auto simp: compute_quantization_scales_def and_then_eq_Ok)
  have "length ms = length ws"
    by (rule for_each_invariant [OF f]) (auto split: if_splits)
  then show "length ss = length ws" using traverse_Ok_length [OF t] by simp
  show "\<not> list_ex bad_scale ss"
    using traverse_Ok_set [OF t] quantization_scale_Ok by (fastforce simp: list_ex_iff)
qed

lemma bad_scale_finite: "\<not> list_ex bad_scale ss \<Longrightarrow> list_all f32_is_finite ss"
  by (auto simp: list_ex_iff list_all_iff bad_scale_def)

lemma pack_entries_Ok:
  assumes "pack_entries entries deltas ws ss = Ok es" and "length deltas = length entries"
  shows "map be_child es = map be_child entries"
    and "\<forall>e \<in> set es. length (be_embedding e) = (sum_list (map unat ws) + 7) div 8 \<and>
           validate_zero_ebcp_padding_bits (be_embedding e) (sum_list (map unat ws)) = Ok ()"
    and "entries \<noteq> [] \<Longrightarrow> list_all width_ok ws \<and> (\<exists>v \<in> set deltas. length v = length ws)"
proof -
  note t = assms(1) [unfolded pack_entries_def]
  have each: "\<exists>bs. pack_quantized_delta_vector (deltas ! i) ws ss = Ok bs \<and>
      es ! i = \<lparr>be_embedding = bs, be_child = be_child (entries ! i)\<rparr>" if "i < length entries" for i
    using traverse_Ok_nth [OF t, of i] that assms(2) by (auto simp: outcome_simps)
  have len: "length es = length entries" using traverse_Ok_length [OF t] assms(2) by simp
  show "map be_child es = map be_child entries"
    by (rule nth_equalityI) (use each len in \<open>fastforce+\<close>)
  show "\<forall>e \<in> set es. length (be_embedding e) = (sum_list (map unat ws) + 7) div 8 \<and>
      validate_zero_ebcp_padding_bits (be_embedding e) (sum_list (map unat ws)) = Ok ()"
    using each len pack_quantized_delta_vector_Ok(4) packed_payload_padding
    by (fastforce simp: in_set_conv_nth)
  show "list_all width_ok ws \<and> (\<exists>v \<in> set deltas. length v = length ws)" if "entries \<noteq> []"
    using each [of 0] that assms(2) pack_quantized_delta_vector_Ok(1,3)
    by (auto intro!: bexI [of _ "deltas ! 0"])
qed

lemma validate_payloads_total:
  "\<forall>e \<in> set es. length (be_embedding e) = len \<and> validate_zero_ebcp_padding_bits (be_embedding e) bl = Ok () \<Longrightarrow>
     validate_payloads len bl es = Ok ()"
  by (induction es) auto

text \<open>
  The block crate's acceptance of a written branch: its descriptor parses to the one that was written, and
  its payloads have the declared length and zero padding.
\<close>

definition ebcp_accepts :: "encoded_branch_entries \<Rightarrow> bool" where
  "ebcp_accepts enc =
     (case parse_branch_ebcp_descriptor (eb_spec enc) (eb_ext enc) of
        Ok (Some ds) \<Rightarrow> validate_branch_ebcp_payload_lengths (eb_entries enc) (eb_spec enc) ds = Ok ()
      | _ \<Rightarrow> False)"

lemma encoded_branch_accepted:
  assumes "ebcp_descriptor_wf \<lparr>dims = dims logical, encoding = name\<rparr>
      \<lparr>ebcp_version = 1, logical_embedding_spec = logical, base_centroid = centroid,
       rotation = map_option row_major_rotation m, quantization = quant\<rparr>"
    and "ebcp_payload_bit_len \<lparr>dims = dims logical, encoding = name\<rparr>
      \<lparr>ebcp_version = 1, logical_embedding_spec = logical, base_centroid = centroid,
       rotation = map_option row_major_rotation m, quantization = quant\<rparr> = Ok bl"
    and "bl + 7 \<le> usize_max"
    and "\<forall>e \<in> set es. length (be_embedding e) = (bl + 7) div 8 \<and>
      validate_zero_ebcp_padding_bits (be_embedding e) bl = Ok ()"
  shows "ebcp_accepts (encoded_branch logical name es centroid m quant)"
  using assms(2,3) validate_payloads_total [OF assms(4)]
  by (simp add: ebcp_accepts_def encoded_branch_def ebcp_descriptor_unnormalized [OF assms(1)]
      validate_branch_ebcp_payload_lengths_def packed_bit_len_to_byte_len_def checked_add_def)

text \<open>The dimensions for which no length of a descriptor or payload overflows \<open>usize\<close>.\<close>

definition authored_dims :: "embedding_spec \<Rightarrow> bool" where
  "authored_dims spec = (0 < unat (dims spec) \<and> unat (dims spec) < 2 ^ 31)"

lemma authored_dims_bounds:
  assumes "authored_dims spec"
  shows "0 < unat (dims spec)" "unat (dims spec) * unat (dims spec) * 4 \<le> usize_max"
    "unat (dims spec) * 4 * 8 + 7 \<le> usize_max" "unat (dims spec) * 31 + 7 \<le> usize_max"
    "unat (dims spec) * 4 \<le> usize_max"
proof -
  let ?n = "unat (dims spec)"
  have n: "?n \<le> 2147483647" "0 < ?n" using assms by (auto simp: authored_dims_def)
  then have "?n * ?n \<le> 2147483647 * 2147483647" by (intro mult_le_mono) simp_all
  with n show "0 < ?n" "?n * ?n * 4 \<le> usize_max" "?n * 4 * 8 + 7 \<le> usize_max" "?n * 31 + 7 \<le> usize_max"
    "?n * 4 \<le> usize_max"
    by (simp_all add: usize_max_def)
qed

lemma f32_vector_wf_iff:
  "n * 4 \<le> usize_max \<Longrightarrow> f32_vector_wf n xs \<longleftrightarrow> finite_vector n xs"
  by (auto simp: f32_vector_wf_def finite_vector_def)

lemma width_sum_bound:
  "list_all width_ok ws \<Longrightarrow> sum_list (map unat ws) \<le> length ws * 31"
  by (induction ws) (auto simp: width_ok_def)

text \<open>Float payloads: a rotated (and centred) vector each.\<close>

lemma float_branch_accepted:
  assumes dims: "authored_dims logical" and enc: "encoding logical = ''f32le''"
    and name: "name \<in> {''pca-rot-f32le'', ''pca-rot-delta-f32le''}"
    and parts: "(name = ''pca-rot-f32le'') \<longleftrightarrow> centroid = None"
      "\<And>c. centroid = Some c \<Longrightarrow> finite_vector (unat (dims logical)) c"
    and m: "finite_vector (unat (dims logical) * unat (dims logical)) m"
    and es: "\<forall>e \<in> set es. \<exists>r. be_embedding e = encode_f32_values r \<and> finite_vector (unat (dims logical)) r"
  shows "ebcp_accepts (encoded_branch logical name es centroid (Some m) None)"
proof -
  let ?n = "unat (dims logical)"
  note bounds = authored_dims_bounds [OF dims]
  have logical: "logical = \<lparr>dims = dims logical, encoding = ''f32le''\<rparr>" using enc by simp
  have "ebcp_descriptor_wf \<lparr>dims = dims logical, encoding = name\<rparr>
      \<lparr>ebcp_version = 1, logical_embedding_spec = logical, base_centroid = centroid,
       rotation = map_option row_major_rotation (Some m), quantization = None\<rparr>"
    using name parts m logical bounds
    by (auto simp: ebcp_descriptor_wf_def Let_def is_ebcp_encoding_def ebcp_parts_error_def row_major_rotation_def
        f32_vector_wf_iff split: option.splits)
  moreover have "ebcp_payload_bit_len \<lparr>dims = dims logical, encoding = name\<rparr>
      \<lparr>ebcp_version = 1, logical_embedding_spec = logical, base_centroid = centroid,
       rotation = map_option row_major_rotation (Some m), quantization = None\<rparr> = Ok (?n * 4 * 8)"
    using name bounds by (auto simp: ebcp_payload_bit_len_def checked_mul_def)
  moreover have "\<forall>e \<in> set es. length (be_embedding e) = (?n * 4 * 8 + 7) div 8 \<and>
      validate_zero_ebcp_padding_bits (be_embedding e) (?n * 4 * 8) = Ok ()"
    using es by (fastforce simp: finite_vector_def validate_zero_ebcp_padding_bits_def)
  ultimately show ?thesis using bounds(3) by (intro encoded_branch_accepted) auto
qed

text \<open>Quantised payloads.\<close>

lemma quantized_branch_accepted:
  assumes dims: "authored_dims logical" and enc: "encoding logical = ''f32le''"
    and name: "name \<in> {''pca-rot-delta-uq'', ''ambient-delta-uq'', ''pca-rot-delta-vbq''}"
    and parts: "(name = ''ambient-delta-uq'') \<longleftrightarrow> m = None"
      "\<And>a. m = Some a \<Longrightarrow> finite_vector (unat (dims logical) * unat (dims logical)) a"
      "finite_vector (unat (dims logical)) c"
    and widths: "list_all width_ok ws" "length ws = unat (dims logical)"
    and quant: "quant = (if name = ''pca-rot-delta-vbq'' then Variable ws ss else Uniform w ss)"
      "name = ''pca-rot-delta-vbq'' \<or> ws = replicate (unat (dims logical)) w"
    and ss: "length ss = length ws" "\<not> list_ex bad_scale ss"
    and es: "\<forall>e \<in> set es. length (be_embedding e) = (sum_list (map unat ws) + 7) div 8 \<and>
           validate_zero_ebcp_padding_bits (be_embedding e) (sum_list (map unat ws)) = Ok ()"
  shows "ebcp_accepts (encoded_branch logical name es (Some c) m (Some quant))"
proof -
  let ?n = "unat (dims logical)" and ?t = "sum_list (map unat ws)"
  let ?ds = "\<lparr>ebcp_version = 1, logical_embedding_spec = logical, base_centroid = Some c,
       rotation = map_option row_major_rotation m, quantization = Some quant\<rparr>"
  let ?spec = "\<lparr>dims = dims logical, encoding = name\<rparr>"
  note bounds = authored_dims_bounds [OF dims]
  have logical: "logical = \<lparr>dims = dims logical, encoding = ''f32le''\<rparr>" using enc by simp
  have scales: "f32_vector_wf ?n ss"
    using ss widths(2) bounds(5) bad_scale_finite by (auto simp: f32_vector_wf_def)
  have w: "width_ok w" if "name \<noteq> ''pca-rot-delta-vbq''"
    using that quant(2) widths(1) bounds(1) by (auto simp: list_all_iff)
  have "quantization_wf name ?n quant"
    using name scales ss(2) widths w quant(1) by (auto simp: width_ok_def list_all_iff)
  then have "ebcp_descriptor_wf ?spec ?ds"
    using name parts logical bounds
    by (auto simp: ebcp_descriptor_wf_def Let_def is_ebcp_encoding_def ebcp_parts_error_def row_major_rotation_def
        f32_vector_wf_iff split: option.splits)
  moreover have t: "?t + 7 \<le> usize_max" using width_sum_bound [OF widths(1)] widths(2) bounds(4) by simp
  then have "ebcp_payload_bit_len ?spec ?ds = Ok ?t"
    using name quant by (auto simp: ebcp_payload_bit_len_def checked_mul_def sum_widths_total sum_list_replicate)
  ultimately show ?thesis using t es by (rule encoded_branch_accepted)
qed

text \<open>The authors of the policies.\<close>

lemma traverse_zip_entries:
  assumes "traverse (\<lambda>(e, v). map_ok (\<lambda>r. \<lparr>be_embedding = g r, be_child = be_child e\<rparr>) (f v)) (zip entries vs) = Ok es"
    and "length vs = length entries"
  shows "map be_child es = map be_child entries"
    and "e \<in> set es \<Longrightarrow> \<exists>v \<in> set vs. \<exists>r. f v = Ok r \<and> be_embedding e = g r"
    and "entries \<noteq> [] \<Longrightarrow> \<exists>v \<in> set vs. \<exists>r. f v = Ok r"
proof -
  have len: "length es = length entries" using traverse_Ok_length [OF assms(1)] assms(2) by simp
  have each: "\<exists>r. f (vs ! i) = Ok r \<and> es ! i = \<lparr>be_embedding = g r, be_child = be_child (entries ! i)\<rparr>"
    if "i < length entries" for i
    using traverse_Ok_nth [OF assms(1), of i] that assms(2) by (auto simp: outcome_simps)
  show "map be_child es = map be_child entries"
    by (rule nth_equalityI) (use each len in \<open>fastforce+\<close>)
  show "\<exists>v \<in> set vs. \<exists>r. f v = Ok r \<and> be_embedding e = g r" if "e \<in> set es"
  proof -
    from that obtain i where "i < length es" "e = es ! i" by (auto simp: in_set_conv_nth)
    then show ?thesis using each [of i] len assms(2) by (auto intro!: bexI [of _ "vs ! i"])
  qed
  show "\<exists>v \<in> set vs. \<exists>r. f v = Ok r" if "entries \<noteq> []"
    using each [of 0] that assms(2) by (auto intro!: bexI [of _ "vs ! 0"])
qed

definition author_input :: "embedding_spec \<Rightarrow> branch_entry list \<Rightarrow> f32 list list \<Rightarrow> bool" where
  "author_input logical entries decoded =
     (authored_dims logical \<and> encoding logical = ''f32le'' \<and> entries \<noteq> [] \<and>
      length decoded = length entries \<and> list_all (finite_vector (unat (dims logical))) decoded)"

lemma encode_pca_rot_f32le_accepted:
  assumes "encode_pca_rot_f32le_entries entries decoded logical m = Ok enc"
    and "author_input logical entries decoded"
  shows "ebcp_accepts enc"
proof -
  let ?n = "unat (dims logical)"
  have inp: "authored_dims logical" "encoding logical = ''f32le''" "entries \<noteq> []"
    "length decoded = length entries" "\<And>v. v \<in> set decoded \<Longrightarrow> length v = ?n"
    using assms(2) by (auto simp: author_input_def list_all_iff finite_vector_def)
  obtain es where t: "traverse (\<lambda>(e, v). map_ok (\<lambda>r. \<lparr>be_embedding = encode_f32_values r, be_child = be_child e\<rparr>)
      (apply_row_major_rotation m v)) (zip entries decoded) = Ok es"
    and enc: "enc = encoded_branch logical ''pca-rot-f32le'' es None (Some m) None"
    using assms(1) by (auto simp: encode_pca_rot_f32le_entries_def map_ok_eq_Ok)
  note each = traverse_zip_entries [OF t inp(4)]
  have "finite_vector (?n * ?n) m" using each(3) inp(3,5) apply_row_major_rotation_Ok(2) by blast
  moreover have "\<forall>e \<in> set es. \<exists>r. be_embedding e = encode_f32_values r \<and> finite_vector ?n r"
    using each(2) inp(5) apply_row_major_rotation_Ok(1) by blast
  ultimately show ?thesis unfolding enc by (intro float_branch_accepted inp(1,2)) auto
qed

lemma rotated_delta_Ok:
  assumes "and_then (subtract_f32_vectors v c) (apply_row_major_rotation m) = Ok r" and "length v = n"
  shows "finite_vector n r \<and> finite_vector (n * n) m"
proof -
  from assms(1) obtain d where "subtract_f32_vectors v c = Ok d" "apply_row_major_rotation m d = Ok r"
    by (auto simp: and_then_eq_Ok)
  then show ?thesis
    using subtract_f32_vectors_Ok [of v c d] assms(2) apply_row_major_rotation_Ok [of m d r n]
    by (simp add: finite_vector_def)
qed

lemma delta_assoc:
  "and_then (subtract_f32_vectors v c) (\<lambda>delta. map_ok g (apply_row_major_rotation m delta)) =
     map_ok g (and_then (subtract_f32_vectors v c) (apply_row_major_rotation m))"
  by (cases "subtract_f32_vectors v c") auto

lemma encode_pca_rot_delta_f32le_accepted:
  assumes "encode_pca_rot_delta_f32le_entries entries decoded logical m c = Ok enc"
    and "author_input logical entries decoded" and "finite_vector (unat (dims logical)) c"
  shows "ebcp_accepts enc"
proof -
  let ?n = "unat (dims logical)"
  let ?f = "\<lambda>v. and_then (subtract_f32_vectors v c) (apply_row_major_rotation m)"
  have inp: "authored_dims logical" "encoding logical = ''f32le''" "entries \<noteq> []"
    "length decoded = length entries" "\<And>v. v \<in> set decoded \<Longrightarrow> length v = ?n"
    using assms(2) by (auto simp: author_input_def list_all_iff finite_vector_def)
  obtain es where t: "traverse (\<lambda>(e, v). map_ok (\<lambda>r. \<lparr>be_embedding = encode_f32_values r, be_child = be_child e\<rparr>)
      (?f v)) (zip entries decoded) = Ok es"
    and enc: "enc = encoded_branch logical ''pca-rot-delta-f32le'' es (Some c) (Some m) None"
    using assms(1) by (auto simp: encode_pca_rot_delta_f32le_entries_def map_ok_eq_Ok delta_assoc)
  have f: "finite_vector ?n r \<and> finite_vector (?n * ?n) m" if "?f v = Ok r" "v \<in> set decoded" for v r
    using rotated_delta_Ok [OF that(1) inp(5) [OF that(2)]] by (simp add: finite_vector_def)
  note each = traverse_zip_entries [OF t inp(4)]
  have "finite_vector (?n * ?n) m" using each(3) inp(3) f by blast
  moreover have "\<forall>e \<in> set es. \<exists>r. be_embedding e = encode_f32_values r \<and> finite_vector ?n r"
    using each(2) f by blast
  ultimately show ?thesis unfolding enc using assms(3) by (intro float_branch_accepted inp(1,2)) auto
qed

text \<open>What the two quantised authors share once the deltas are known.\<close>

lemma packed_branch_accepted:
  assumes pack: "pack_entries entries deltas ws ss = Ok es"
    and scales: "compute_quantization_scales deltas ws = Ok ss"
    and deltas: "length deltas = length entries" "\<forall>v \<in> set deltas. length v = unat (dims logical)"
    and inp: "authored_dims logical" "encoding logical = ''f32le''" "entries \<noteq> []"
    and c: "finite_vector (unat (dims logical)) c"
    and name: "name \<in> {''pca-rot-delta-uq'', ''ambient-delta-uq'', ''pca-rot-delta-vbq''}"
      "(name = ''ambient-delta-uq'') \<longleftrightarrow> m = None"
      "\<And>a. m = Some a \<Longrightarrow> finite_vector (unat (dims logical) * unat (dims logical)) a"
    and quant: "quant = (if name = ''pca-rot-delta-vbq'' then Variable ws ss else Uniform w ss)"
      "name = ''pca-rot-delta-vbq'' \<or> ws = replicate (unat (dims logical)) w"
  shows "ebcp_accepts (encoded_branch logical name es (Some c) m (Some quant))"
proof -
  note packed = pack_entries_Ok [OF pack deltas(1)]
  have "list_all width_ok ws" "length ws = unat (dims logical)" using packed(3) [OF inp(3)] deltas(2) by auto
  then show ?thesis
    using compute_quantization_scales_Ok [OF scales] packed(2) name c inp quant
    by (intro quantized_branch_accepted [where ws = ws and ss = ss and w = w]) auto
qed

lemma encode_ambient_delta_accepted:
  assumes "encode_ambient_delta_quantized_entries entries decoded logical c w = Ok enc"
    and "author_input logical entries decoded" and "finite_vector (unat (dims logical)) c"
  shows "ebcp_accepts enc"
proof -
  let ?n = "unat (dims logical)" and ?ws = "replicate (length c) w"
  have inp: "authored_dims logical" "encoding logical = ''f32le''" "entries \<noteq> []"
    "length decoded = length entries" "\<And>v. v \<in> set decoded \<Longrightarrow> length v = ?n"
    using assms(2) by (auto simp: author_input_def list_all_iff finite_vector_def)
  obtain deltas ss es where d: "traverse (\<lambda>v. subtract_f32_vectors v c) decoded = Ok deltas"
    and scales: "compute_quantization_scales deltas ?ws = Ok ss"
    and pack: "pack_entries entries deltas ?ws ss = Ok es"
    and enc: "enc = encoded_branch logical ''ambient-delta-uq'' es (Some c) None (Some (Uniform w ss))"
    using assms(1) by (auto simp: encode_ambient_delta_quantized_entries_def and_then_eq_Ok map_ok_eq_Ok Let_def)
  have len: "length deltas = length entries" using traverse_Ok_length [OF d] inp(4) by simp
  moreover have "\<forall>v \<in> set deltas. length v = ?n"
    using traverse_Ok_set [OF d] inp(5) subtract_f32_vectors_Ok by (fastforce simp: finite_vector_def)
  ultimately show ?thesis
    unfolding enc using assms(3) inp(1-3)
    by (intro packed_branch_accepted [OF pack scales, where w = w]) (auto simp: finite_vector_def)
qed

lemma encode_pca_rot_delta_quantized_accepted:
  assumes "encode_pca_rot_delta_quantized_entries ad entries decoded logical m c enc_kind variance = Ok enc"
    and "author_input logical entries decoded" and "finite_vector (unat (dims logical)) c"
  shows "ebcp_accepts enc"
proof -
  let ?n = "unat (dims logical)"
  let ?f = "\<lambda>v. and_then (subtract_f32_vectors v c) (apply_row_major_rotation m)"
  have inp: "authored_dims logical" "encoding logical = ''f32le''" "entries \<noteq> []"
    "length decoded = length entries" "\<And>v. v \<in> set decoded \<Longrightarrow> length v = ?n"
    using assms(2) by (auto simp: author_input_def list_all_iff finite_vector_def)
  obtain deltas ws ss es where d: "traverse ?f decoded = Ok deltas"
    and ws: "\<And>w. enc_kind = UniformBits w \<Longrightarrow> ws = replicate (length c) w"
    and scales: "compute_quantization_scales deltas ws = Ok ss"
    and pack: "pack_entries entries deltas ws ss = Ok es"
    and enc: "enc = (case enc_kind of
         UniformBits w \<Rightarrow> encoded_branch logical ''pca-rot-delta-uq'' es (Some c) (Some m) (Some (Uniform w ss))
       | VariableBits _ \<Rightarrow> encoded_branch logical ''pca-rot-delta-vbq'' es (Some c) (Some m) (Some (Variable ws ss)))"
    using assms(1)
    by (cases enc_kind) (auto simp: encode_pca_rot_delta_quantized_entries_def and_then_eq_Ok map_ok_eq_Ok)
  have f: "length r = ?n \<and> finite_vector (?n * ?n) m" if "?f v = Ok r" "v \<in> set decoded" for v r
    using rotated_delta_Ok [OF that(1) inp(5) [OF that(2)]] by (simp add: finite_vector_def)
  have len: "length deltas = length entries" using traverse_Ok_length [OF d] inp(4) by simp
  have lens: "\<forall>v \<in> set deltas. length v = ?n" using traverse_Ok_set [OF d] f by blast
  have "deltas \<noteq> []" using len inp(3) by auto
  then obtain v where "v \<in> set deltas" by (cases deltas) auto
  then have m: "finite_vector (?n * ?n) m" using traverse_Ok_set [OF d] f by blast
  show ?thesis
  proof (cases enc_kind)
    case (UniformBits w)
    then show ?thesis unfolding enc using len lens m assms(3) inp(1-3) ws
      by (auto intro!: packed_branch_accepted [OF pack scales, where w = w] simp: finite_vector_def)
  next
    case (VariableBits w)
    then show ?thesis unfolding enc using len lens m assms(3) inp(1-3)
      by (auto intro!: packed_branch_accepted [OF pack scales, where w = w])
  qed
qed

lemma fit_ebcp_rotation_nonempty: "fit_ebcp_rotation ad decoded = Ok x \<Longrightarrow> decoded \<noteq> []"
  by (auto simp: fit_ebcp_rotation_def)

text \<open>Every author keeps the children of the entries, in order.\<close>

lemma author_children:
  assumes "length decoded = length entries"
  shows "encode_pca_rot_f32le_entries entries decoded logical m = Ok enc \<Longrightarrow>
      map be_child (eb_entries enc) = map be_child entries"
    and "encode_pca_rot_delta_f32le_entries entries decoded logical m c = Ok enc \<Longrightarrow>
      map be_child (eb_entries enc) = map be_child entries"
    and "encode_ambient_delta_quantized_entries entries decoded logical c w = Ok enc \<Longrightarrow>
      map be_child (eb_entries enc) = map be_child entries"
    and "encode_pca_rot_delta_quantized_entries ad entries decoded logical m c k v = Ok enc \<Longrightarrow>
      map be_child (eb_entries enc) = map be_child entries"
proof -
  show "map be_child (eb_entries enc) = map be_child entries"
    if "encode_pca_rot_f32le_entries entries decoded logical m = Ok enc"
    using that traverse_zip_entries(1) [OF _ assms]
    by (auto simp: encode_pca_rot_f32le_entries_def map_ok_eq_Ok encoded_branch_def)
  show "map be_child (eb_entries enc) = map be_child entries"
    if "encode_pca_rot_delta_f32le_entries entries decoded logical m c = Ok enc"
    using that traverse_zip_entries(1) [OF _ assms]
    by (auto simp: encode_pca_rot_delta_f32le_entries_def map_ok_eq_Ok encoded_branch_def delta_assoc)
  show "map be_child (eb_entries enc) = map be_child entries"
    if "encode_ambient_delta_quantized_entries entries decoded logical c w = Ok enc"
    using that assms traverse_Ok_length pack_entries_Ok(1)
    by (fastforce simp: encode_ambient_delta_quantized_entries_def and_then_eq_Ok map_ok_eq_Ok encoded_branch_def Let_def)
  show "map be_child (eb_entries enc) = map be_child entries"
    if "encode_pca_rot_delta_quantized_entries ad entries decoded logical m c k v = Ok enc"
    using that assms traverse_Ok_length pack_entries_Ok(1)
    by (fastforce simp: encode_pca_rot_delta_quantized_entries_def and_then_eq_Ok map_ok_eq_Ok encoded_branch_def
        split: quantized_branch_encoding.splits)
qed

lemma encode_branch_entries_author:
  assumes "encode_branch_entries ad policy logical entries parent_level is_root = Ok enc" and "policy \<noteq> Ordinary"
  obtains ctx d where "encoding logical = ''f32le''" and "decode_entries ctx logical entries = Ok d"
    and "(\<exists>x m. fit_ebcp_rotation ad d = Ok x \<and> encode_pca_rot_f32le_entries entries d logical m = Ok enc) \<or>
      (\<exists>c. exact_f32_centroid d = Ok c \<and>
        ((\<exists>w. encode_ambient_delta_quantized_entries entries d logical c w = Ok enc) \<or>
         (\<exists>m. encode_pca_rot_delta_f32le_entries entries d logical m c = Ok enc) \<or>
         (\<exists>m k v. encode_pca_rot_delta_quantized_entries ad entries d logical m c k v = Ok enc)))"
proof -
  have f32: "encoding logical = ''f32le''"
    using assms by (cases policy) (auto simp: encode_branch_entries_def Let_def split: if_splits)
  with assms show ?thesis
    by (cases policy; (auto simp: encode_branch_entries_def Let_def and_then_eq_Ok)?) (blast intro: that)+
qed

lemma encode_branch_entries_children:
  assumes "encode_branch_entries ad policy logical entries parent_level is_root = Ok enc"
  shows "map be_child (eb_entries enc) = map be_child entries"
proof (cases "policy = Ordinary")
  case True
  with assms show ?thesis by (auto simp: encode_branch_entries_def)
next
  case False
  show ?thesis
  proof (rule encode_branch_entries_author [OF assms False])
    fix ctx d assume "decode_entries ctx logical entries = Ok d"
    then have "length d = length entries" by (rule decode_entries_Ok(1))
    note children = author_children [OF this]
    assume "(\<exists>x m. fit_ebcp_rotation ad d = Ok x \<and> encode_pca_rot_f32le_entries entries d logical m = Ok enc) \<or>
      (\<exists>c. exact_f32_centroid d = Ok c \<and>
        ((\<exists>w. encode_ambient_delta_quantized_entries entries d logical c w = Ok enc) \<or>
         (\<exists>m. encode_pca_rot_delta_f32le_entries entries d logical m c = Ok enc) \<or>
         (\<exists>m k v. encode_pca_rot_delta_quantized_entries ad entries d logical m c k v = Ok enc)))"
    then show ?thesis using children by blast
  qed
qed

text \<open>
  C37: whatever rotation the PCA crate returns, a branch the indexer encodes under one of
  the EBCP policies is one the block crate accepts: the descriptor it wrote parses, every payload has the
  length the descriptor implies and zero padding bits, and the children are those of the entries, in order.
  (From dimension \<open>2^31\<close> on, the length of the rotation matrix in bytes exceeds a \<open>usize\<close>.)
\<close>

theorem authored_branch_accepted:
  assumes "encode_branch_entries ad policy logical entries parent_level is_root = Ok enc"
    and "policy \<noteq> Ordinary" and "authored_dims logical"
  shows "ebcp_accepts enc \<and> map be_child (eb_entries enc) = map be_child entries"
proof -
  obtain ctx d where f32: "encoding logical = ''f32le''" and dec: "decode_entries ctx logical entries = Ok d"
    and author: "(\<exists>x m. fit_ebcp_rotation ad d = Ok x \<and> encode_pca_rot_f32le_entries entries d logical m = Ok enc) \<or>
      (\<exists>c. exact_f32_centroid d = Ok c \<and>
        ((\<exists>w. encode_ambient_delta_quantized_entries entries d logical c w = Ok enc) \<or>
         (\<exists>m. encode_pca_rot_delta_f32le_entries entries d logical m c = Ok enc) \<or>
         (\<exists>m k v. encode_pca_rot_delta_quantized_entries ad entries d logical m c k v = Ok enc)))"
    using encode_branch_entries_author [OF assms(1,2)] by blast
  have inp: "author_input logical entries d" if "d \<noteq> []"
    using decode_entries_Ok [OF dec] that assms(3) f32 by (auto simp: author_input_def)
  have centred: "author_input logical entries d \<and> finite_vector (unat (dims logical)) c"
    if "exact_f32_centroid d = Ok c" for c
    using exact_f32_centroid_Ok [OF that decode_entries_Ok(2) [OF dec]] inp by blast
  from author have "ebcp_accepts enc"
  proof (elim disjE exE conjE)
    fix x m assume "fit_ebcp_rotation ad d = Ok x" and "encode_pca_rot_f32le_entries entries d logical m = Ok enc"
    then show ?thesis using encode_pca_rot_f32le_accepted inp fit_ebcp_rotation_nonempty by blast
  next
    fix c w assume c: "exact_f32_centroid d = Ok c"
      and "encode_ambient_delta_quantized_entries entries d logical c w = Ok enc"
    then show ?thesis using encode_ambient_delta_accepted centred [OF c] by blast
  next
    fix c m assume c: "exact_f32_centroid d = Ok c"
      and "encode_pca_rot_delta_f32le_entries entries d logical m c = Ok enc"
    then show ?thesis using encode_pca_rot_delta_f32le_accepted centred [OF c] by blast
  next
    fix c m k v assume c: "exact_f32_centroid d = Ok c"
      and "encode_pca_rot_delta_quantized_entries ad entries d logical m c k v = Ok enc"
    then show ?thesis using encode_pca_rot_delta_quantized_accepted centred [OF c] by blast
  qed
  then show ?thesis using encode_branch_entries_children [OF assms(1)] by blast
qed

section \<open>Variable bit widths spend the budget\<close>

lemma sum_list_update_Suc: "i < length ws \<Longrightarrow> sum_list (ws[i := ws ! i + 1]) = sum_list ws + (1 :: nat)"
  by (induction ws arbitrary: i) (auto split: nat.splits)

lemma spread_pass_spec:
  assumes "spread_pass is ws n p = (ws', n', p')" and "\<forall>i \<in> set is. i < length ws" and "list_all (\<lambda>w. 1 \<le> w \<and> w \<le> 31) ws"
  shows "length ws' = length ws \<and> list_all (\<lambda>w. 1 \<le> w \<and> w \<le> 31) ws' \<and> sum_list ws' + n' = sum_list ws + n \<and>
    (\<not> p' \<longrightarrow> ws' = ws \<and> (0 < n \<longrightarrow> (\<forall>i \<in> set is. ws ! i = 31)))"
  using assms
proof (induction "is" arbitrary: ws n p)
  case (Cons i "is")
  have i: "i < length ws" "1 \<le> ws ! i" "ws ! i \<le> 31" using Cons.prems(2,3) by (auto simp: list_all_length)
  show ?case
  proof (cases "n = 0 \<or> 31 \<le> ws ! i")
    case True
    with Cons i show ?thesis by (auto simp: max_ebcp_bit_width_def split: if_splits)
  next
    case False
    let ?ws = "ws[i := ws ! i + 1]"
    have step: "spread_pass is ?ws (n - 1) True = (ws', n', p')"
      using False Cons.prems(1) by (simp add: max_ebcp_bit_width_def)
    have "list_all (\<lambda>w. 1 \<le> w \<and> w \<le> 31) ?ws"
      using Cons.prems(3) False i by (auto simp: list_all_length nth_list_update)
    then have IH: "length ws' = length ?ws" "list_all (\<lambda>w. 1 \<le> w \<and> w \<le> 31) ws'" "sum_list ws' + n' = sum_list ?ws + (n - 1)"
      using Cons.IH [OF step] Cons.prems(2) by auto
    have "p'"
    proof -
      have "q \<longrightarrow> snd (snd (spread_pass js xs k q))" for js xs k q
        by (induction js xs k q rule: spread_pass.induct) auto
      from this [of True "is" ?ws "n - 1"] step show ?thesis by simp
    qed
    with IH False show ?thesis using sum_list_update_Suc [OF i(1)] by simp
  qed
qed (auto split: if_splits)

lemma full_sum: "list_all (\<lambda>w. w = k) ws \<Longrightarrow> sum_list ws = length ws * (k :: nat)"
  by (induction ws) auto

lemma spread_leftovers_spec:
  assumes "set order = {0..<length ws}" and "list_all (\<lambda>w. 1 \<le> w \<and> w \<le> 31) ws"
    and "sum_list ws + n \<le> 31 * length ws"
  shows "\<exists>ws'. spread_leftovers order ws n = Ok ws' \<and> length ws' = length ws \<and>
    list_all (\<lambda>w. 1 \<le> w \<and> w \<le> 31) ws' \<and> sum_list ws' = sum_list ws + n"
  using assms
proof (induction order ws n rule: spread_leftovers.induct)
  case (1 order ws n)
  show ?case
  proof (cases "n = 0")
    case False
    obtain ws1 n1 p where sp: "spread_pass order ws n False = (ws1, n1, p)" by (metis prod_cases3)
    have "\<forall>i \<in> set order. i < length ws" using "1.prems"(1) by simp
    note spec = spread_pass_spec [OF sp this "1.prems"(2)]
    have p
    proof (rule ccontr)
      assume "\<not> p"
      then have "list_all (\<lambda>w. w = 31) ws" using spec False "1.prems"(1) by (auto simp: list_all_length)
      from full_sum [OF this] "1.prems"(3) False show False by simp
    qed
    moreover have "\<exists>ws'. spread_leftovers order ws1 n1 = Ok ws' \<and> length ws' = length ws1 \<and>
        list_all (\<lambda>w. 1 \<le> w \<and> w \<le> 31) ws' \<and> sum_list ws' = sum_list ws1 + n1"
      using "1.IH" [OF False sp [symmetric] refl \<open>p\<close>] "1.prems" spec by simp
    ultimately show ?thesis using sp spec False by (simp add: spread_leftovers.simps [of order ws n])
  qed (use "1.prems" in \<open>simp add: spread_leftovers.simps\<close>)
qed

lemma widths_as_bytes:
  assumes "list_all (\<lambda>w. 1 \<le> w \<and> w \<le> 31) ws"
  shows "map unat (map word_of_nat ws :: u8 list) = ws"
    and "list_all (\<lambda>b. 1 \<le> unat b \<and> unat b \<le> 31) (map word_of_nat ws :: u8 list)"
proof -
  have "unat (word_of_nat w :: u8) = w" if "w \<le> 31" for w
    using that by (simp add: unsigned_of_nat take_bit_eq_mod)
  with assms show "map unat (map word_of_nat ws :: u8 list) = ws"
    "list_all (\<lambda>b. 1 \<le> unat b \<and> unat b \<le> 31) (map word_of_nat ws :: u8 list)"
    by (auto simp: list_all_iff intro!: map_idI)
qed

lemma desired_bits_length: "length (desired_bits ad variance r) = length variance"
  by (simp add: desired_bits_def Let_def)

lemma sum_list_Suc: "sum_list (map (\<lambda>a. 1 + a) xs) = length xs + sum_list (xs :: nat list)"
  by (induction xs) auto

text \<open>
  Variable bit allocation spends exactly its budget. Where the uniform width is at most
  31, \<open>allocate_variable_bit_widths\<close> reports no error, and the widths it returns are one per dimension,
  each from 1 to 31 bits, with the sum of the uniform allocation (or one bit per dimension for the width 0),
  whatever the logarithm and the variances.
\<close>

theorem variable_widths_budget:
  assumes "variance \<noteq> []" and "unat w \<le> 31" and "31 * length variance \<le> usize_max"
  shows "(\<forall>e. allocate_variable_bit_widths ad variance w \<noteq> Err e) \<and>
    (\<forall>ws. allocate_variable_bit_widths ad variance w = Ok ws \<longrightarrow>
       length ws = length variance \<and> list_all (\<lambda>b. 1 \<le> unat b \<and> unat b \<le> 31) ws \<and>
       sum_list (map unat ws) = max 1 (unat w) * length variance)"
proof -
  define n rest where "n = length variance" and "rest = saturating_sub (unat w * n) n"
  define desired where "desired = desired_bits ad variance rest"
  define addends where
    "addends = map (\<lambda>v. min (f64_to_usize (f64_floor v)) (max_ebcp_bit_width - 1)) desired"
  define order where "order = map fst (sort_key (\<lambda>(i, r). (- total_key_f64 r, i))
    (map (\<lambda>(i, v). (i, f64_sub v (f64_floor v))) (List.enumerate 0 desired)))"
  define base where "base = map (\<lambda>a. 1 + a) addends"
  have prod: "unat w * n \<le> 31 * n" using assms(2) by simp
  then have "unat w * n \<le> usize_max" using assms(3) unfolding n_def by (rule le_trans)
  then have fits: "checked_mul (unat w) n = Some (unat w * n)" "checked_mul max_ebcp_bit_width n = Some (31 * n)"
    using assms(3) by (simp_all add: checked_mul_def max_ebcp_bit_width_def n_def)
  have eq: "allocate_variable_bit_widths ad variance w =
      (if rest = 0 then Ok (replicate n 1)
       else if rest < sum_list addends then Panic
       else map_ok (map word_of_nat) (spread_leftovers order base (rest - sum_list addends)))"
    unfolding order_def base_def addends_def desired_def rest_def
    using fits prod assms(1) by (simp add: allocate_variable_bit_widths_def Let_def n_def)
  have len: "length base = n" by (simp add: base_def addends_def desired_def desired_bits_length n_def)
  have order: "set order = {0..<length base}"
    unfolding len by (force simp: order_def desired_def desired_bits_length in_set_enumerate_eq image_iff n_def)
  have base: "list_all (\<lambda>w. 1 \<le> w \<and> w \<le> 31) base"
    by (auto simp: list_all_iff max_ebcp_bit_width_def base_def addends_def)
  have rest: "max 1 (unat w) * n = n + rest"
    using assms(1) by (cases "unat w") (auto simp: rest_def saturating_sub_def n_def max_def)
  consider (least) "rest = 0" | (panic) "rest \<noteq> 0" "rest < sum_list addends"
    | (spread) "rest \<noteq> 0" "sum_list addends \<le> rest" by linarith
  then show ?thesis
  proof cases
    case least
    then show ?thesis using eq rest by (auto simp: sum_list_replicate list_all_iff n_def)
  next
    case panic
    then show ?thesis using eq by simp
  next
    case spread
    then have sum: "sum_list base + (rest - sum_list addends) = n + rest"
      unfolding base_def sum_list_Suc using len by (simp add: base_def)
    moreover have "max 1 (unat w) * n \<le> 31 * n" using assms(2) by (intro mult_le_mono1) simp
    then have "n + rest \<le> 31 * n" unfolding rest .
    ultimately obtain ws' where "spread_leftovers order base (rest - sum_list addends) = Ok ws'" "length ws' = n"
      "list_all (\<lambda>w. 1 \<le> w \<and> w \<le> 31) ws'" "sum_list ws' = n + rest"
      using spread_leftovers_spec [OF order base, of "rest - sum_list addends"] len by auto
    moreover from this(1) have "allocate_variable_bit_widths ad variance w = Ok (map word_of_nat ws')"
      unfolding eq using spread by simp
    ultimately show ?thesis using rest widths_as_bytes [of ws'] by (simp add: n_def)
  qed
qed

end
