(* ===== verification/Indexer_Assembly.thy ===== *)
theory Indexer_Assembly
  imports Indexer_Ebcp Block_Store
begin

text \<open>
  Bottom-up assembly of branch blocks (\<open>build_branch_layer\<close>, \<open>assemble_child_set\<close> and the
  normalisations they use in \<open>src/crates/lexongraph-streaming-indexer/src/lib.rs\<close>). The state is the
  block store and the list \<open>persisted_ids\<close>; a failed operation leaves what it had already stored. The
  status events of the run change nothing and are left out.
\<close>

section \<open>Normalisation of a layer\<close>

text \<open>\<open>dedup_by\<close>: of each run of equal keys the first element stays.\<close>

fun dedup_runs :: "('a \<Rightarrow> 'k) \<Rightarrow> 'a list \<Rightarrow> 'a list" where
  "dedup_runs key (x # y # ys) =
     (if key x = key y then dedup_runs key (x # ys) else x # dedup_runs key (y # ys))"
| "dedup_runs key xs = xs"

definition dedup_sort_ids :: "block_hash list \<Rightarrow> block_hash list" where
  "dedup_sort_ids ids = dedup_runs as_bytes (sort_key as_bytes ids)"

definition compare_indexed_children :: "indexed_child \<Rightarrow> byte list \<times> byte list" where
  "compare_indexed_children c = (ic_embedding c, as_bytes (ic_child c))"

definition deduplicate_layer_by_child :: "indexed_child list \<Rightarrow> indexed_child list" where
  "deduplicate_layer_by_child layer =
     sort_key compare_indexed_children
       (dedup_runs ic_child (sort_key (\<lambda>c. (as_bytes (ic_child c), ic_embedding c)) layer))"

definition normalize_current_layer :: "indexed_child list \<Rightarrow> indexed_child list" where
  "normalize_current_layer layer = deduplicate_layer_by_child (sort_key compare_indexed_children layer)"

definition normalize_branch_entries :: "branch_entry list \<Rightarrow> branch_entry list" where
  "normalize_branch_entries entries =
     sort_key (\<lambda>e. (be_embedding e, as_bytes (be_child e)))
       (dedup_runs be_child (sort_key (\<lambda>e. (as_bytes (be_child e), be_embedding e)) entries))"

definition normalize_child_summary_inputs :: "child_summary_input list \<Rightarrow> child_summary_input list" where
  "normalize_child_summary_inputs children =
     sort_key (\<lambda>c. (csi_embedding c, as_bytes (csi_child c)))
       (dedup_runs csi_child (sort_key (\<lambda>c. (as_bytes (csi_child c), csi_embedding c)) children))"

section \<open>One branch block\<close>

text \<open>
  The fields of \<open>StreamingIndexingRun\<close> that assembly reads: the child-summary policy is a parameter of the
  run, as are the libraries of \<open>deps\<close> and \<open>author_deps\<close>.
\<close>

record index_config =
  cfg_deps :: deps
  cfg_author :: author_deps
  summarize_children :: "embedding_spec \<Rightarrow> child_summary_input list \<Rightarrow> byte list message_result"
  branch_policy :: branch_encoding_policy
  index_spec :: embedding_spec
  block_size_target :: nat

definition child_entry :: "indexed_child \<Rightarrow> branch_entry" where
  "child_entry c = \<lparr>be_embedding = ic_embedding c, be_child = ic_child c\<rparr>"

definition child_summary :: "indexed_child \<Rightarrow> child_summary_input" where
  "child_summary c = \<lparr>csi_embedding = ic_embedding c, csi_child = ic_child c, csi_level = ic_level c,
     csi_descendant_count = ic_descendant_count c\<rparr>"

text \<open>Everything up to the write: the encoded, built and serialised block, within the size target.\<close>

definition prepare_branch ::
    "index_config \<Rightarrow> indexed_child list \<Rightarrow> u64 \<Rightarrow> bool \<Rightarrow> (branch_block \<times> serialized_block) indexer_result" where
  "prepare_branch cfg members parent_level root_budget =
     (let entries = normalize_branch_entries (map child_entry members);
          child_summaries = normalize_child_summary_inputs (map child_summary members)
      in if length entries < 2
         then Err (materialization_error
                ''normalized child-bearing entry set has fewer than two unique children'')
         else if length child_summaries < 2
         then Err (materialization_error ''normalized child summary set has fewer than two unique children'')
         else
         and_then (encode_branch_entries (cfg_author cfg) (branch_policy cfg) (index_spec cfg) entries
                     parent_level root_budget) (\<lambda>enc.
         and_then (map_err BlockConstruction
                     (build_branch_block (cfg_deps cfg) 1 parent_level (eb_spec enc) (eb_entries enc) (eb_ext enc)))
           (\<lambda>branch.
         and_then (map_err BlockConstruction (serialize_block (cfg_deps cfg) (Branch branch))) (\<lambda>ser.
           if block_size_target cfg < length (ser_bytes ser)
           then if length (bb_entries branch) = 2
                then Err (IntermediateNodeTooLarge (length (ser_bytes ser)) (block_size_target cfg))
                else Err (materialization_error
                       (''branch block serialized to '' @ show_nat (length (ser_bytes ser))
                          @ '' bytes, exceeding block size target '' @ show_nat (block_size_target cfg)))
           else Ok (branch, ser)))))"

text \<open>The sum of \<open>usize\<close> counts overflows with a panic.\<close>

definition sum_counts :: "nat list \<Rightarrow> nat indexer_result" where
  "sum_counts ns = (if usize_max < sum_list ns then Panic else Ok (sum_list ns))"

definition summarize_group :: "index_config \<Rightarrow> indexed_child list \<Rightarrow> u64 \<Rightarrow> block_hash \<Rightarrow> indexed_child indexer_result" where
  "summarize_group cfg members parent_level block_id =
     (let child_summaries = normalize_child_summary_inputs (map child_summary members) in
      and_then (map_err CanonicalEmbeddingFailure (summarize_children cfg (index_spec cfg) child_summaries)) (\<lambda>canonical.
      and_then (map_err CanonicalEmbeddingFailure
                  (index_validate_embedding_bytes canonical (index_spec cfg) ''canonical'')) (\<lambda>_.
      map_ok (\<lambda>n. \<lparr>ic_embedding = canonical, ic_child = block_id, ic_level = parent_level, ic_descendant_count = n\<rparr>)
        (sum_counts (map csi_descendant_count child_summaries)))))"

definition persist_block ::
    "deps \<Rightarrow> 's store_ops \<Rightarrow> block \<Rightarrow> block_hash \<Rightarrow> 's \<times> block_hash list
       \<Rightarrow> block_hash indexer_result \<times> ('s \<times> block_hash list)" where
  "persist_block d ops b expected st =
     (case store_put d ops (fst st) b of
        (put, s) \<Rightarrow>
          then_do (map_err Storage put, (s, snd st)) (\<lambda>block_id st.
          then_do (verify_persisted_block_id block_id expected, st) (\<lambda>_ st.
            (Ok block_id, (fst st, snd st @ [block_id])))))"

definition build_branch ::
    "index_config \<Rightarrow> 's store_ops \<Rightarrow> indexed_child list \<Rightarrow> u64 \<Rightarrow> bool \<Rightarrow> 's \<times> block_hash list
       \<Rightarrow> indexed_child indexer_result \<times> ('s \<times> block_hash list)" where
  "build_branch cfg ops members parent_level root_budget st =
     then_do (prepare_branch cfg members parent_level root_budget, st) (\<lambda>(branch, ser) st.
     then_do (persist_block (cfg_deps cfg) ops (Branch branch) (ser_hash ser) st) (\<lambda>block_id st.
       (summarize_group cfg members parent_level block_id, st)))"

section \<open>Layers\<close>

fun build_groups ::
    "index_config \<Rightarrow> 's store_ops \<Rightarrow> indexed_child list \<Rightarrow> u64 \<Rightarrow> bool \<Rightarrow> nat list list \<Rightarrow> 's \<times> block_hash list
       \<Rightarrow> indexed_child list indexer_result \<times> ('s \<times> block_hash list)" where
  "build_groups cfg ops children parent_level root_budget [] st = (Ok [], st)"
| "build_groups cfg ops children parent_level root_budget (indices # groups) st =
     then_do (traverse (index_at children) indices, st) (\<lambda>members st.
     then_do (build_branch cfg ops members parent_level root_budget st) (\<lambda>child st.
     then_do (build_groups cfg ops children parent_level root_budget groups st) (\<lambda>rest st.
       (Ok (child # rest), st))))"

definition build_branch_layer ::
    "index_config \<Rightarrow> 's store_ops \<Rightarrow> indexed_child list \<Rightarrow> nat list list \<Rightarrow> u64 \<Rightarrow> bool \<Rightarrow> 's \<times> block_hash list
       \<Rightarrow> indexed_child list indexer_result \<times> ('s \<times> block_hash list)" where
  "build_branch_layer cfg ops children groups parent_level is_global_root st =
     build_groups cfg ops children parent_level (uses_root_branch_budget is_global_root (length groups)) groups st"

text \<open>\<open>max().unwrap_or(0) + 1\<close> on \<open>u64\<close> levels.\<close>

definition next_level :: "indexed_child list \<Rightarrow> u64 indexer_result" where
  "next_level layer =
     (let m = foldl max 0 (map ic_level layer) in if m = - 1 then Panic else Ok (m + 1))"

lemma build_groups_length:
  "build_groups cfg ops cs pl rb groups st = (Ok layer, st') \<Longrightarrow> length layer = length groups"
  by (induction groups arbitrary: st layer st') (auto simp: then_do_Ok)

lemma normalize_current_layer_length: "length (normalize_current_layer xs) \<le> length xs"
proof -
  have "length (dedup_runs key ys) \<le> length ys" for key :: "indexed_child \<Rightarrow> block_hash" and ys
    by (induction key ys rule: dedup_runs.induct) auto
  from this [of ic_child "sort_key (\<lambda>c. (as_bytes (ic_child c), ic_embedding c)) (sort_key compare_indexed_children xs)"]
  show ?thesis by (simp add: normalize_current_layer_def deduplicate_layer_by_child_def)
qed

text \<open>Every members has two children or more, so each layer is shorter than the one below.\<close>

lemma balanced_groups_fewer:
  assumes "balanced_groups n b = Ok gs" and "n \<noteq> 1"
  shows "length gs < n"
proof -
  note spec = balanced_groups_Ok [OF assms(1)]
  have "\<forall>g \<in> set gs. 2 \<le> length g" using spec(2,4) assms(2) by fastforce
  then have "2 * length gs \<le> length (concat gs)" by (induction gs) auto
  moreover have "length (concat gs) = n" using spec(1) by simp
  moreover have "n \<noteq> 0" using assms(1) by (auto simp: balanced_groups_def split: if_splits)
  ultimately show ?thesis by linarith
qed

function assemble_layers ::
    "index_config \<Rightarrow> 's store_ops \<Rightarrow> bool \<Rightarrow> nat \<Rightarrow> indexed_child list \<Rightarrow> 's \<times> block_hash list
       \<Rightarrow> indexed_child indexer_result \<times> ('s \<times> block_hash list)" where
  "assemble_layers cfg ops is_global_root bound current st =
     (if length current = 1 then (Ok (hd current), st)
      else case map_err TerminalPartitionMaterialization (balanced_groups (length current) bound) of
        Err e \<Rightarrow> (Err e, st)
      | Panic \<Rightarrow> (Panic, st)
      | Ok groups \<Rightarrow>
          (case next_level current of
             Err e \<Rightarrow> (Err e, st)
           | Panic \<Rightarrow> (Panic, st)
           | Ok parent_level \<Rightarrow>
               (case build_branch_layer cfg ops current groups parent_level is_global_root st of
                  (Err e, st) \<Rightarrow> (Err e, st)
                | (Panic, st) \<Rightarrow> (Panic, st)
                | (Ok layer, st) \<Rightarrow>
                    assemble_layers cfg ops is_global_root bound (normalize_current_layer layer) st)))"
  by pat_completeness auto
termination
proof (relation "measure (\<lambda>(_, _, _, _, current, _). length current)")
  fix cfg :: index_config and ops :: "'s store_ops" and is_root bound current and st :: "'s \<times> block_hash list"
  fix groups parent_level res st' layer
  assume "length current \<noteq> 1"
    and "map_err TerminalPartitionMaterialization (balanced_groups (length current) bound) = Ok groups"
    and "(res, st') = build_branch_layer cfg ops current groups parent_level is_root st" and "res = Ok layer"
  then have "length layer = length groups" and "length groups < length current"
    by (auto simp: build_branch_layer_def outcome_simps dest: sym dest!: build_groups_length balanced_groups_fewer)
  then show "((cfg, ops, is_root, bound, normalize_current_layer layer, st'), cfg, ops, is_root, bound, current, st)
      \<in> measure (\<lambda>(_, _, _, _, current, _). length current)"
    using normalize_current_layer_length [of layer] by simp
qed simp

declare assemble_layers.simps [simp del]

definition assemble_child_set ::
    "index_config \<Rightarrow> 's store_ops \<Rightarrow> indexed_child list \<Rightarrow> bool \<Rightarrow> nat \<Rightarrow> 's \<times> block_hash list
       \<Rightarrow> indexed_child indexer_result \<times> ('s \<times> block_hash list)" where
  "assemble_child_set cfg ops children is_global_root bound st =
     (let current = normalize_current_layer children in
      if current = [] then (Err (materialization_error ''child set normalized to zero entries''), st)
      else if length current = 1 then (Ok (hd current), st)
      else assemble_layers cfg ops is_global_root bound current st)"

end
