(* ===== verification/Indexer_Examples.thy ===== *)
theory Indexer_Examples
  imports Indexer_Ebcp_Props Indexer_Assembly Block_Examples Dcbc_Examples
begin

text \<open>
  Concrete inputs at which the properties of the streaming indexer are applied.
\<close>

section \<open>Sizes of synthetic branches\<close>

definition ex_synthetic :: "nat \<Rightarrow> branch_entry list" where
  "ex_synthetic n = map (\<lambda>i. \<lparr>be_embedding = replicate 4 0, be_child = synthetic_block_hash i\<rparr>) [0..<n]"

lemma ex_synthetic_builds:
  "build_branch_block rfc_deps 1 1 ex_spec (ex_synthetic 2) None = Ok (ex_branch_block (ex_synthetic 2))"
  "build_branch_block rfc_deps 1 1 ex_spec (ex_synthetic 3) None = Ok (ex_branch_block (ex_synthetic 3))"
  "build_branch_block rfc_deps 1 1 ex_spec (ex_synthetic 4) None = Ok (ex_branch_block (ex_synthetic 4))"
  by code_simp+

lemma ex_synthetic_normal:
  "normalize_block rfc_deps (Branch (ex_branch_block (ex_synthetic 2))) = Ok (Branch (ex_branch_block (ex_synthetic 2)))"
  "normalize_block rfc_deps (Branch (ex_branch_block (ex_synthetic 3))) = Ok (Branch (ex_branch_block (ex_synthetic 3)))"
  "normalize_block rfc_deps (Branch (ex_branch_block (ex_synthetic 4))) = Ok (Branch (ex_branch_block (ex_synthetic 4)))"
  by code_simp+

lemma ex_branch_size:
  assumes "codec d" and "\<And>v. into_writer d v = Ok (cbor_encode v)"
    and "build_branch_block d 1 1 ex_spec (ex_synthetic n) None = Ok (ex_branch_block (ex_synthetic n))"
    and "normalize_block d (Branch (ex_branch_block (ex_synthetic n))) = Ok (Branch (ex_branch_block (ex_synthetic n)))"
  shows "serialized_branch_size d ex_spec n =
    Ok (length (cbor_encode (block_value (Branch (ex_branch_block (ex_synthetic n))))))"
proof -
  have "expected_embedding_len ex_spec = Some 4"
    by (simp add: expected_embedding_len_def ex_spec_def checked_mul_def usize_max_def)
  moreover have "serialize_block d (Branch (ex_branch_block (ex_synthetic n))) =
      Ok \<lparr>ser_bytes = cbor_encode (block_value (Branch (ex_branch_block (ex_synthetic n)))),
          ser_hash = compute_block_hash d (cbor_encode (block_value (Branch (ex_branch_block (ex_synthetic n)))))\<rparr>"
    using assms(2,4) by (simp add: codec.serialize_block_Ok [OF assms(1)])
  ultimately show ?thesis
    using assms(3) by (simp add: serialized_branch_size_def ex_synthetic_def [symmetric])
qed

lemmas ex_encoding_defs = block_value_def ex_branch_block_def ex_synthetic_def branch_entry_to_value_def
  embedding_spec_to_value_def int_value_def synthetic_block_hash_def cbor_head_def be_bytes_def ex_spec_def

lemma ex_sizes:
  "length (cbor_encode (block_value (Branch (ex_branch_block (ex_synthetic 2))))) = 102"
  "length (cbor_encode (block_value (Branch (ex_branch_block (ex_synthetic 3))))) = 144"
  "length (cbor_encode (block_value (Branch (ex_branch_block (ex_synthetic 4))))) = 186"
  by (simp_all add: ex_encoding_defs upt_rec)

theorem materializability_maximal_witness:
  "materializability_bound rfc_deps ex_spec 120 = Ok 2 \<and>
   (\<exists>s. serialized_branch_size rfc_deps ex_spec 3 = Ok s \<and> 120 < s)"
proof -
  note sizes = ex_branch_size [OF rfc.codec_axioms rfc_writer ex_synthetic_builds(1) ex_synthetic_normal(1)]
    ex_branch_size [OF rfc.codec_axioms rfc_writer ex_synthetic_builds(2) ex_synthetic_normal(2)]
    ex_branch_size [OF rfc.codec_axioms rfc_writer ex_synthetic_builds(3) ex_synthetic_normal(3)]
  have bound: "materializability_bound rfc_deps ex_spec 120 = Ok 2"
    by (simp add: materializability_bound_def sizes ex_sizes double_bound.simps [of _ _ 2 2] saturating_mul_def
        usize_max_def bisect_bound.simps)
  with materializability_maximal [OF bound] show ?thesis by simp
qed

section \<open>Groups\<close>

theorem balanced_groups_exact_witness:
  "\<exists>gs. balanced_groups 5 3 = Ok gs \<and> concat gs = [0, 1, 2, 3, 4] \<and> conforming_sizes 5 3 (map length gs)"
proof -
  have gs: "balanced_groups 5 3 = Ok [[0, 1, 2], [3, 4]]" by code_simp
  with balanced_groups_exact [of 5 3] show ?thesis by (auto simp: upt_rec)
qed

section \<open>Quantised payloads\<close>

lemma ex_quantized: "pack_quantized_delta_vector [0x3F800000] [2] [0x3F800000] = Ok [3]"
proof -
  have "f64_of_int 1 = f64_one" "f64_round_ties_even f64_one = f64_one" "\<not> f32_eq_zero 0x3F800000"
    "f64_clamp f64_one 0xBFF0000000000000 f64_one = f64_one" "f64_to_i32 f64_one = 1"
    by (simp_all add: float_eval)
  moreover have "f64_neg f64_one = 0xBFF0000000000000" by (simp add: f64_neg_def f64_one_def)
  ultimately have "quantized_code 0x3F800000 2 0x3F800000 = Ok 3"
    by (simp add: quantized_code_def Let_def ex_conversions ex_div)
  moreover have "write_lsb_first_bits [0] 0 2 3 = Ok [3]" by code_simp
  ultimately show ?thesis
    by (simp add: pack_quantized_delta_vector_def checked_add_def usize_max_def div_ceil_def)
qed

theorem quantized_payload_roundtrip_witness:
  "\<exists>vs. unpack_quantized_payload [3] [2] [0x3F800000] = Ok vs"
proof -
  have "\<not> list_ex bad_scale [0x3F800000]" by (simp add: bad_scale_def float_eval)
  with quantized_payload_roundtrip [OF ex_quantized] show ?thesis by (auto simp: usize_max_def)
qed

text \<open>A fit that is not consulted for a single entry, and a logarithm that is not needed.\<close>

definition ex_author :: author_deps where
  "ex_author = \<lparr>pca_fit = (\<lambda>_. Err ''not fitted''), f64_ln = (\<lambda>x. x)\<rparr>"

definition ex_zero_entry :: branch_entry where
  "ex_zero_entry = \<lparr>be_embedding = [0, 0, 0, 0], be_child = ex_hash 1\<rparr>"

lemma ex_f32_zero: "f32_mul f32_one 0 = 0" "f32_add 0 0 = 0" "f32_is_finite 0"
  by (simp_all add: float_eval)

theorem authored_branch_accepted_witness:
  "\<exists>enc. encode_branch_entries ex_author PcaRotF32Le ex_spec [ex_zero_entry] 1 True = Ok enc \<and> ebcp_accepts enc"
proof -
  have "f32_from_le [0, 0, 0, 0] = 0" by (simp add: f32_from_le_def)
  moreover have "chunks_exact 4 [0, 0, 0, 0] = [[0, 0, 0, 0 :: byte]]" by code_simp
  ultimately have dec: "decode_entries ''EBCP branch authoring'' ex_spec [ex_zero_entry] = Ok [[0]]"
    by (simp add: decode_entries_def decode_f32_embedding_exact_def index_validate_embedding_bytes_def
        expected_embedding_len_def ex_spec_def checked_mul_def usize_max_def ex_zero_entry_def ex_f32_zero)
  have fit: "fit_ebcp_rotation ex_author [[0]] = Ok ([f32_one], [0])"
    by (simp add: fit_ebcp_rotation_def checked_mul_def usize_max_def identity_rotation_def)
  have rot: "apply_row_major_rotation [f32_one] [0] = Ok [0]"
    by (simp add: apply_row_major_rotation_def checked_mul_def usize_max_def ex_f32_zero)
  have f32: "encoding ex_spec = ''f32le''" by (simp add: ex_spec_def)
  obtain enc where enc: "encode_branch_entries ex_author PcaRotF32Le ex_spec [ex_zero_entry] 1 True = Ok enc"
    by (simp add: encode_branch_entries_def f32 dec fit encode_pca_rot_f32le_entries_def rot)
  have "authored_dims ex_spec" by (simp add: authored_dims_def ex_spec_def)
  with authored_branch_accepted [OF enc] enc show ?thesis by auto
qed

end
