(* ===== verification/Indexer_Hierarchy.thy ===== *)
theory Indexer_Hierarchy
  imports Indexer_Types "HOL-Library.Char_ord"
begin

text \<open>
  The partition hierarchy of a planning pass (\<open>validate_partition_hierarchy\<close>,
  \<open>build_partition_routing_plan\<close>, \<open>hierarchy_stats\<close> of
  \<open>src/crates/lexongraph-streaming-indexer/src/lib.rs\<close>) and the routing of items to terminal partitions.
  The routing file is the sequence of its \<open>u32\<close> records; reads and writes of the temporary file succeed.
\<close>

section \<open>Validation\<close>

text \<open>Collecting into a \<open>HashMap\<close>: the last partition with an identifier wins.\<close>

definition partition_map :: "finalized_partition list \<Rightarrow> string \<rightharpoonup> finalized_partition" where
  "partition_map ps = map_of (rev (map (\<lambda>p. (partition_id p, p)) ps))"

definition check_child_link ::
    "finalized_partition list \<Rightarrow> finalized_partition \<Rightarrow> string \<Rightarrow> unit message_result" where
  "check_child_link ps p child_id =
     (case partition_map ps child_id of
        None \<Rightarrow> Err (''partition '' @ debug_string (partition_id p) @ '' references missing child ''
                  @ debug_string child_id)
      | Some child \<Rightarrow>
          if parent_id child \<noteq> Some (partition_id p)
          then Err (''partition '' @ debug_string (partition_id p) @ '' has ancestry mismatch for child ''
                  @ debug_string child_id)
          else Ok ())"

definition check_partition ::
    "finalized_partition list \<Rightarrow> nat \<Rightarrow> finalized_partition \<Rightarrow> unit message_result" where
  "check_partition ps item_count p =
     (if remdups (sort (item_indices p)) \<noteq> item_indices p
      then Err (''partition '' @ debug_string (partition_id p) @ '' must store sorted unique item indices'')
      else if list_ex (\<lambda>i. item_count \<le> i) (item_indices p)
      then Err (''partition '' @ debug_string (partition_id p) @ '' references an out-of-range item index'')
      else if terminal p \<and> child_ids p \<noteq> []
      then Err (''terminal partition '' @ debug_string (partition_id p) @ '' must not declare children'')
      else if terminal p \<and> item_indices p = []
      then Err (''terminal partition '' @ debug_string (partition_id p) @ '' must contain at least one item'')
      else if \<not> terminal p \<and> child_ids p = []
      then Err (''non-terminal partition '' @ debug_string (partition_id p) @ '' must declare children'')
      else map_ok (\<lambda>_. ()) (traverse (check_child_link ps p) (child_ids p)))"

lemma partition_map_in: "partition_map ps i = Some p \<Longrightarrow> p \<in> set ps \<and> partition_id p = i"
  by (auto simp: partition_map_def dest: map_of_SomeD)

text \<open>
  The nested function \<open>walk\<close> and its loop over the children. Every call that goes deeper adds an identifier
  of the hierarchy to \<open>visited\<close>.
\<close>

function walk ::
    "finalized_partition list \<Rightarrow> string \<Rightarrow> string set \<Rightarrow> (nat list \<times> string set) message_result"
  and walk_children ::
    "finalized_partition list \<Rightarrow> string list \<Rightarrow> string set \<Rightarrow> (nat list \<times> string set) message_result" where
  "walk ps i visited =
     (case partition_map ps i of
        None \<Rightarrow> Err (''partition '' @ debug_string i @ '' is missing'')
      | Some p \<Rightarrow>
          if i \<in> visited then Err (''partition hierarchy contains a cycle at '' @ debug_string i)
          else if terminal p then Ok (item_indices p, insert i visited)
          else and_then (walk_children ps (child_ids p) (insert i visited)) (\<lambda>(items, visited).
                 if sort items \<noteq> item_indices p
                 then Err (''partition '' @ debug_string (partition_id p)
                        @ '' does not match the exact union of its children'')
                 else Ok (sort items, visited)))"
| "walk_children ps [] visited = Ok ([], visited)"
| "walk_children ps (c # cs) visited =
     and_then (walk ps c visited) (\<lambda>(items, visited).
       map_ok (\<lambda>(rest, visited). (items @ rest, visited)) (walk_children ps cs visited))"
  by pat_completeness auto

termination
proof -
  let ?R = "inv_image (finite_psubset <*lex*> less_than)
    (\<lambda>x. case x of Inl (ps, i, v) \<Rightarrow> (partition_id ` set ps - v, 0 :: nat)
       | Inr (ps, cs, v) \<Rightarrow> (partition_id ` set ps - v, Suc (length cs)))"
  have grows: "walk_walk_children_dom (Inl (ps, i, v)) \<Longrightarrow> walk ps i v = Ok (items, v') \<Longrightarrow> v \<subseteq> v'"
    "walk_walk_children_dom (Inr (ps, cs, v)) \<Longrightarrow> walk_children ps cs v = Ok (items, v') \<Longrightarrow> v \<subseteq> v'" for ps i v cs items v'
  proof (induction ps i v and ps cs v arbitrary: items v' and items v' rule: walk_walk_children.pinduct)
    case (1 ps i v)
    from "1.prems" obtain p where p: "partition_map ps i = Some p" and v: "i \<notin> v"
      by (auto simp: walk.psimps [OF "1.hyps"(1)] split: option.splits if_splits)
    show ?case
    proof (cases "terminal p")
      case True
      with "1.prems" p v show ?thesis by (auto simp: walk.psimps [OF "1.hyps"(1)])
    next
      case False
      with "1.prems" p v obtain u where "walk_children ps (child_ids p) (insert i v) = Ok (u, v')"
        by (auto simp: walk.psimps [OF "1.hyps"(1)] and_then_eq_Ok split: if_splits prod.splits)
      with "1.IH" [OF p v False] show ?thesis by blast
    qed
  next
    case (2 ps v)
    then show ?case by (simp add: walk_children.psimps)
  next
    case (3 ps c cs v)
    from "3.prems" obtain a b rest where "walk ps c v = Ok (a, b)" "walk_children ps cs b = Ok (rest, v')"
      by (auto simp: walk_children.psimps(2) [OF "3.hyps"(1)] and_then_eq_Ok map_ok_eq_Ok split: prod.splits)
    with "3.IH"(1) [of a b] "3.IH"(2) show ?case by blast
  qed
  show ?thesis
  proof (relation ?R)
    show "wf ?R" by auto
  qed (auto simp: finite_psubset_def dest: partition_map_in dest!: grows(1))
qed

definition validate_partition_hierarchy :: "partition_hierarchy \<Rightarrow> nat \<Rightarrow> unit message_result" where
  "validate_partition_hierarchy h item_count =
     (let ps = partitions h in
      and_then (ok_or (partition_map ps (root_partition_id h)) ''root partition is missing'') (\<lambda>root_partition.
        if parent_id root_partition \<noteq> None then Err ''root partition must not have a parent''
        else
        and_then (traverse (check_partition ps item_count) ps) (\<lambda>_.
        and_then (walk ps (root_partition_id h) {}) (\<lambda>(root_items, visited).
          if root_items \<noteq> [0..<item_count]
          then Err ''root partition must cover the complete logical item set''
          else if card visited \<noteq> length ps
          then Err ''partition hierarchy contains unreachable partitions''
          else Ok ()))))"

section \<open>Routing\<close>

definition unassigned :: u32 where
  "unassigned = 4294967295"

record routing_plan =
  terminal_partition_ids :: "string list"
  terminal_partition_item_counts :: "nat list"
  route :: "u32 list"

fun assign_items :: "nat \<Rightarrow> nat list \<Rightarrow> u32 list \<Rightarrow> nat \<Rightarrow> (u32 list \<times> nat) indexer_result" where
  "assign_items ordinal [] r assigned = Ok (r, assigned)"
| "assign_items ordinal (i # is) r assigned =
     (if checked_mul i 4 = None then Err (HierarchyValidation ''partition routing offset overflowed'')
      else if length r \<le> i then Err (LocalSpill ''failed to fill whole buffer'')
      else if r ! i \<noteq> unassigned
      then Err (HierarchyValidation (''item index '' @ show_nat i
             @ '' is assigned to more than one terminal partition''))
      else assign_items ordinal is (r[i := word_of_nat ordinal]) (assigned + 1))"

definition assign_partition ::
    "nat \<times> finalized_partition \<Rightarrow> u32 list \<times> nat \<Rightarrow> (u32 list \<times> nat) indexer_result" where
  "assign_partition op st =
     (if item_indices (snd op) = []
      then Err (HierarchyValidation (''terminal partition '' @ debug_string (partition_id (snd op))
             @ '' must contain at least one item''))
      else if 4294967295 < fst op
      then Err (HierarchyValidation ''terminal partition ordinal does not fit into u32'')
      else assign_items (fst op) (item_indices (snd op)) (fst st) (snd st))"

definition terminal_partitions :: "partition_hierarchy \<Rightarrow> finalized_partition list" where
  "terminal_partitions h = sort_key partition_id (filter terminal (partitions h))"

definition build_partition_routing_plan :: "partition_hierarchy \<Rightarrow> nat \<Rightarrow> routing_plan indexer_result" where
  "build_partition_routing_plan h item_count =
     and_then (map_err HierarchyValidation (validate_partition_hierarchy h item_count)) (\<lambda>_.
     let terminals = terminal_partitions h in
     and_then (for_each assign_partition (List.enumerate 0 terminals) (replicate item_count unassigned, 0))
       (\<lambda>(r, assigned).
         if assigned \<noteq> item_count
         then Err (HierarchyValidation ''every logical item must resolve to a terminal partition'')
         else Ok \<lparr>terminal_partition_ids = map partition_id terminals,
                  terminal_partition_item_counts = map (\<lambda>p. length (item_indices p)) terminals,
                  route = r\<rparr>))"

text \<open>The reader of the routing file: its state is what has not been read.\<close>

definition read_partition_ordinal :: "u32 list \<Rightarrow> u32 option \<times> u32 list" where
  "read_partition_ordinal rest = (case rest of [] \<Rightarrow> (None, []) | k # ks \<Rightarrow> (Some k, ks))"

section \<open>Statistics\<close>

text \<open>
  \<open>depth_of\<close> recurses without a check; unbounded recursion overflows the stack, which is what running out of
  fuel stands for. It is called on validated hierarchies only, for which the fuel is enough.
\<close>

record hierarchy_statistics =
  partition_count :: nat
  terminal_partition_count :: nat
  hierarchy_depth :: nat

fun depth_of :: "nat \<Rightarrow> finalized_partition list \<Rightarrow> string \<Rightarrow> nat message_result" where
  "depth_of 0 ps i = Panic"
| "depth_of (Suc fuel) ps i =
     and_then (expect_some (partition_map ps i)) (\<lambda>p.
       if child_ids p = [] then Ok 1
       else map_ok (\<lambda>ds. 1 + foldl max 0 ds) (traverse (depth_of fuel ps) (child_ids p)))"

definition hierarchy_stats :: "partition_hierarchy \<Rightarrow> hierarchy_statistics message_result" where
  "hierarchy_stats h =
     map_ok (\<lambda>d. \<lparr>partition_count = length (partitions h),
                  terminal_partition_count = length (filter terminal (partitions h)),
                  hierarchy_depth = d\<rparr>)
       (if partitions h = [] then Ok 0
        else depth_of (length (partitions h)) (partitions h) (root_partition_id h))"

section \<open>What validation establishes\<close>

text \<open>The items of a partition, when it is a terminal one of the hierarchy.\<close>

definition terminal_items :: "finalized_partition list \<Rightarrow> string \<Rightarrow> nat multiset" where
  "terminal_items ps i =
     (case partition_map ps i of Some p \<Rightarrow> (if terminal p then mset (item_indices p) else {#}) | None \<Rightarrow> {#})"

lemma partition_map_dom: "dom (partition_map ps) = partition_id ` set ps"
  by (auto simp: partition_map_def dom_map_of_conv_image_fst image_image)

lemma finite_visits: "v' - v \<subseteq> dom (partition_map ps) \<Longrightarrow> finite (v' - v)"
  unfolding partition_map_dom by (meson finite_subset finite_imageI List.finite_set)

text \<open>A deeper call, split into the partition itself and its children.\<close>

lemma walk_nonterminal_Ok:
  assumes "walk ps i v = Ok (items, v')" and "partition_map ps i = Some p" and "\<not> terminal p"
  shows "\<exists>u. walk_children ps (child_ids p) (insert i v) = Ok (u, v') \<and> items = sort u \<and> sort u = item_indices p"
  using assms by (auto simp: and_then_eq_Ok split: if_splits)

lemma walk_Ok_fresh: "walk ps i v = Ok (items, v') \<Longrightarrow> (\<exists>p. partition_map ps i = Some p) \<and> i \<notin> v"
  by (auto split: option.splits if_splits)

lemma walk_children_Cons_Ok:
  "walk_children ps (c # cs) v = Ok (items, v') \<longleftrightarrow>
     (\<exists>a v1 b. walk ps c v = Ok (a, v1) \<and> walk_children ps cs v1 = Ok (b, v') \<and> items = a @ b)"
  by (auto simp: and_then_eq_Ok map_ok_eq_Ok simp del: walk.simps)

declare walk.simps [simp del]

lemma sum_step:
  fixes f :: "string \<Rightarrow> nat multiset"
  assumes "v \<subseteq> v1" and "v1 \<subseteq> v'" and "finite (v' - v)"
  shows "(\<Sum>j \<in> v' - v. f j) = (\<Sum>j \<in> v1 - v. f j) + (\<Sum>j \<in> v' - v1. f j)"
proof -
  have "v' - v = (v1 - v) \<union> (v' - v1)" using assms(1,2) by auto
  moreover have "finite (v1 - v)" "finite (v' - v1)" using assms by (auto intro: finite_subset [OF _ assms(3)])
  ultimately show ?thesis by (subst \<open>v' - v = _\<close>, intro sum.union_disjoint) auto
qed

lemma walk_spec:
  "walk ps i v = Ok (items, v') \<Longrightarrow>
     v \<subseteq> v' \<and> i \<in> v' \<and> v' - v \<subseteq> dom (partition_map ps) \<and> mset items = (\<Sum>j \<in> v' - v. terminal_items ps j)"
  "walk_children ps cs v = Ok (items, v') \<Longrightarrow>
     v \<subseteq> v' \<and> set cs \<subseteq> v' \<and> v' - v \<subseteq> dom (partition_map ps) \<and> mset items = (\<Sum>j \<in> v' - v. terminal_items ps j)"
proof (induction ps i v and ps cs v arbitrary: items v' and items v' rule: walk_walk_children.induct)
  case (1 ps i v)
  from walk_Ok_fresh [OF "1.prems"] obtain p where p: "partition_map ps i = Some p" and v: "i \<notin> v" by blast
  have single: "insert i v - v = {i}" using v by auto
  show ?case
  proof (cases "terminal p")
    case True
    then have "items = item_indices p" "v' = insert i v"
      using "1.prems" p v by (auto simp: walk.simps)
    then show ?thesis using True p by (auto simp: single terminal_items_def)
  next
    case False
    obtain u where u: "walk_children ps (child_ids p) (insert i v) = Ok (u, v')" "items = sort u"
      using walk_nonterminal_Ok [OF "1.prems" p False] by blast
    note IH = "1.IH" [OF p v False u(1)]
    have "terminal_items ps i = {#}" using p False by (simp add: terminal_items_def)
    moreover have dom: "v' - v \<subseteq> dom (partition_map ps)" using IH p by auto
    ultimately have "(\<Sum>j \<in> v' - v. terminal_items ps j) = mset u"
      using IH sum_step [of v "insert i v" v' "terminal_items ps"] finite_visits [OF dom] by (auto simp: single)
    then show ?thesis using IH dom u(2) by auto
  qed
next
  case (3 ps c cs v)
  from "3.prems" obtain a v1 b where a: "walk ps c v = Ok (a, v1)" and b: "walk_children ps cs v1 = Ok (b, v')"
    and items: "items = a @ b" unfolding walk_children_Cons_Ok by blast
  note IH = "3.IH"(1) [OF a] "3.IH"(2) [OF a refl b]
  have dom: "v' - v \<subseteq> dom (partition_map ps)" using IH by blast
  then show ?case using IH sum_step [of v v1 v' "terminal_items ps"] finite_visits [OF dom] by (auto simp: items)
qed auto

text \<open>A partition whose items are those of its children, each as often.\<close>

definition exact_union :: "finalized_partition list \<Rightarrow> finalized_partition \<Rightarrow> bool" where
  "exact_union ps p =
     (terminal p \<or>
      mset (item_indices p) = mset (concat (map (\<lambda>c. item_indices (the (partition_map ps c))) (child_ids p))))"

lemma walk_items:
  "walk ps i v = Ok (items, v') \<Longrightarrow>
     items = item_indices (the (partition_map ps i)) \<and> (\<forall>j \<in> v' - v. exact_union ps (the (partition_map ps j)))"
  "walk_children ps cs v = Ok (items, v') \<Longrightarrow>
     items = concat (map (\<lambda>c. item_indices (the (partition_map ps c))) cs) \<and>
     (\<forall>j \<in> v' - v. exact_union ps (the (partition_map ps j)))"
proof (induction ps i v and ps cs v arbitrary: items v' and items v' rule: walk_walk_children.induct)
  case (1 ps i v)
  from walk_Ok_fresh [OF "1.prems"] obtain p where p: "partition_map ps i = Some p" and v: "i \<notin> v" by blast
  show ?case
  proof (cases "terminal p")
    case True
    then have "items = item_indices p" "v' = insert i v" using "1.prems" p v by (auto simp: walk.simps)
    then show ?thesis using True p by (auto simp: exact_union_def)
  next
    case False
    obtain u where u: "walk_children ps (child_ids p) (insert i v) = Ok (u, v')" "items = sort u" "sort u = item_indices p"
      using walk_nonterminal_Ok [OF "1.prems" p False] by blast
    note IH = "1.IH" [OF p v False u(1)]
    have "mset (item_indices p) = mset u" by (metis u(3) mset_sort)
    then have "exact_union ps p" using IH by (simp add: exact_union_def)
    then show ?thesis using IH p u(2,3) by auto
  qed
next
  case (3 ps c cs v)
  from "3.prems" obtain a v1 b where a: "walk ps c v = Ok (a, v1)" and b: "walk_children ps cs v1 = Ok (b, v')"
    and items: "items = a @ b" unfolding walk_children_Cons_Ok by blast
  show ?case using "3.IH"(1) [OF a] "3.IH"(2) [OF a refl b] by (auto simp: items)
qed auto

lemma validated_walk:
  assumes "validate_partition_hierarchy h n = Ok ()"
  shows "\<exists>v. walk (partitions h) (root_partition_id h) {} = Ok ([0..<n], v) \<and> card v = length (partitions h)"
    and "p \<in> set (partitions h) \<Longrightarrow> check_partition (partitions h) n p = Ok ()"
  using assms
  by (auto simp: validate_partition_hierarchy_def Let_def and_then_eq_Ok traverse_eq_Ok list_all2_conv_all_nth
      in_set_conv_nth split: if_splits prod.splits)

lemma validated_tree:
  assumes "validate_partition_hierarchy h n = Ok ()"
  shows "distinct (map partition_id (partitions h))"
    and "walk (partitions h) (root_partition_id h) {} = Ok ([0..<n], partition_id ` set (partitions h))"
proof -
  let ?ps = "partitions h" and ?ids = "partition_id ` set (partitions h)"
  obtain v where v: "walk ?ps (root_partition_id h) {} = Ok ([0..<n], v)" "card v = length ?ps"
    using validated_walk(1) [OF assms] by blast
  have sub: "v \<subseteq> ?ids" using walk_spec(1) [OF v(1)] by (auto simp: partition_map_dom)
  have fin: "finite ?ids" by (intro finite_imageI) (rule List.finite_set)
  have "card ?ids \<le> length (map partition_id ?ps)"
    using card_length [of "map partition_id ?ps"] by simp
  moreover have "card v \<le> card ?ids" by (rule card_mono [OF fin sub])
  ultimately have card: "card ?ids = length ?ps" using v(2) by simp
  then show "distinct (map partition_id ?ps)" by (intro card_distinct) simp
  have "v = ?ids" using card_subset_eq [OF fin sub] v(2) card by simp
  with v(1) show "walk ?ps (root_partition_id h) {} = Ok ([0..<n], ?ids)" by simp
qed

lemma distinct_partition_map:
  assumes "distinct (map partition_id ps)" and "p \<in> set ps"
  shows "partition_map ps (partition_id p) = Some p"
  unfolding partition_map_def by (rule map_of_is_SomeI) (use assms in \<open>auto simp: rev_map [symmetric] comp_def\<close>)

lemma sum_list_filter_mset:
  "(\<Sum>p \<leftarrow> ps. if P p then mset (f p) else {#}) = mset (concat (map f (filter P ps)))"
  by (induction ps) auto

lemma terminal_items_total:
  assumes "validate_partition_hierarchy h n = Ok ()"
  shows "mset (concat (map item_indices (filter terminal (partitions h)))) = mset [0..<n]"
proof -
  let ?ps = "partitions h"
  note tree = validated_tree [OF assms]
  have "mset [0..<n] = (\<Sum>j \<in> set (map partition_id ?ps). terminal_items ?ps j)"
    using walk_spec(1) [OF tree(2)] by simp
  also have "\<dots> = (\<Sum>j \<leftarrow> map partition_id ?ps. terminal_items ?ps j)"
    by (rule sum.distinct_set_conv_list [OF tree(1)])
  also have "\<dots> = (\<Sum>p \<leftarrow> ?ps. if terminal p then mset (item_indices p) else {#})"
    using distinct_partition_map [OF tree(1)]
    by (auto simp: terminal_items_def comp_def intro!: arg_cong [where f = sum_list])
  also have "\<dots> = mset (concat (map item_indices (filter terminal ?ps)))" by (rule sum_list_filter_mset)
  finally show ?thesis by simp
qed


section \<open>Routing is total\<close>

lemma assign_items_spec:
  assumes "distinct is" and "\<forall>i \<in> set is. i < length r \<and> r ! i = unassigned \<and> i * 4 \<le> usize_max"
  shows "\<exists>r'. assign_items k is r a = Ok (r', a + length is) \<and> length r' = length r \<and>
    (\<forall>j < length r. r' ! j = (if j \<in> set is then word_of_nat k else r ! j))"
  using assms
proof (induction "is" arbitrary: r a)
  case (Cons i "is")
  let ?r = "r[i := word_of_nat k]"
  have "\<forall>j \<in> set is. j < length ?r \<and> ?r ! j = unassigned \<and> j * 4 \<le> usize_max"
    using Cons.prems by (auto simp: nth_list_update)
  then obtain r' where r': "assign_items k is ?r (a + 1) = Ok (r', a + 1 + length is)" "length r' = length ?r"
    "\<forall>j < length ?r. r' ! j = (if j \<in> set is then word_of_nat k else ?r ! j)"
    using Cons.IH [of ?r "a + 1"] Cons.prems(1) by auto
  then show ?case using Cons.prems by (auto simp: checked_mul_def nth_list_update)
qed auto

lemma assign_partitions_spec:
  assumes "distinct (concat (map item_indices ts))"
    and "\<forall>p \<in> set ts. item_indices p \<noteq> [] \<and> (\<forall>i \<in> set (item_indices p). i < length r \<and> r ! i = unassigned \<and> i * 4 \<le> usize_max)"
    and "m + length ts \<le> 4294967295"
  shows "\<exists>r'. for_each assign_partition (List.enumerate m ts) (r, a) = Ok (r', a + length (concat (map item_indices ts))) \<and>
    length r' = length r \<and>
    (\<forall>j < length r. (\<forall>q < length ts. j \<in> set (item_indices (ts ! q)) \<longrightarrow> r' ! j = word_of_nat (m + q)) \<and>
       (j \<notin> set (concat (map item_indices ts)) \<longrightarrow> r' ! j = r ! j))"
  using assms
proof (induction ts arbitrary: m r a)
  case (Cons p ts)
  obtain r1 where r1: "assign_items m (item_indices p) r a = Ok (r1, a + length (item_indices p))" "length r1 = length r"
    "\<forall>j < length r. r1 ! j = (if j \<in> set (item_indices p) then word_of_nat m else r ! j)"
    using assign_items_spec [of "item_indices p" r m a] Cons.prems by auto
  have step: "assign_partition (m, p) (r, a) = Ok (r1, a + length (item_indices p))"
    using r1(1) Cons.prems by (simp add: assign_partition_def)
  have "\<forall>q \<in> set ts. item_indices q \<noteq> [] \<and> (\<forall>i \<in> set (item_indices q). i < length r1 \<and> r1 ! i = unassigned \<and> i * 4 \<le> usize_max)"
    using Cons.prems(1,2) r1(2,3) by (auto split: if_splits)
  then obtain r' where r': "for_each assign_partition (List.enumerate (Suc m) ts) (r1, a + length (item_indices p)) =
      Ok (r', a + length (item_indices p) + length (concat (map item_indices ts)))" "length r' = length r1"
    and own: "\<forall>j < length r1. (\<forall>q < length ts. j \<in> set (item_indices (ts ! q)) \<longrightarrow> r' ! j = word_of_nat (Suc m + q)) \<and>
       (j \<notin> set (concat (map item_indices ts)) \<longrightarrow> r' ! j = r1 ! j)"
    using Cons.IH [of r1 "Suc m" "a + length (item_indices p)"] Cons.prems(1,3) by auto
  have "r' ! j = word_of_nat (m + q)" if "j < length r" "q < Suc (length ts)" "j \<in> set (item_indices ((p # ts) ! q))" for j q
  proof (cases q)
    case 0
    then have "j \<in> set (item_indices p)" using that by simp
    moreover have "j \<notin> set (concat (map item_indices ts))" using calculation Cons.prems(1) by auto
    ultimately show ?thesis using own r1(2,3) that(1) 0 by simp
  next
    case (Suc q')
    then show ?thesis using own r1(2) that by simp
  qed
  moreover have "r' ! j = r ! j" if "j < length r" "j \<notin> set (concat (map item_indices (p # ts)))" for j
    using own r1(2,3) that by simp
  ultimately show ?case using r'(1,2) r1(2) step by (simp add: add.assoc)
qed simp

lemma checked_partition:
  assumes "check_partition ps n p = Ok ()" and "terminal p"
  shows "child_ids p = []" and "item_indices p \<noteq> []"
  using assms by (auto simp: check_partition_def split: if_splits)

text \<open>
  For a validated hierarchy with fewer than \<open>2^32\<close> terminal partitions the routing plan is
  built without an error, and routes every item to a terminal partition that contains it.
\<close>

theorem routing_plan_total:
  assumes valid: "validate_partition_hierarchy h n = Ok ()"
    and small: "length (terminal_partitions h) \<le> 4294967295" "n * 4 \<le> usize_max"
  shows "\<exists>plan. build_partition_routing_plan h n = Ok plan \<and> length (route plan) = n \<and>
    (\<forall>i < n. unat (route plan ! i) < length (terminal_partitions h) \<and>
       i \<in> set (item_indices (terminal_partitions h ! unat (route plan ! i))))"
proof -
  let ?ts = "terminal_partitions h"
  have "mset (concat (map item_indices ?ts)) = mset (concat (map item_indices (filter terminal (partitions h))))"
    unfolding terminal_partitions_def by (metis mset_concat mset_map mset_sort sum_mset_sum_list)
  then have total: "mset (concat (map item_indices ?ts)) = mset [0..<n]" using terminal_items_total [OF valid] by simp
  have dist: "distinct (concat (map item_indices ?ts))" using mset_eq_imp_distinct_iff [OF total] by simp
  have items: "set (concat (map item_indices ?ts)) = {0..<n}" using mset_eq_setD [OF total] by simp
  have "\<forall>p \<in> set ?ts. item_indices p \<noteq> []"
    using checked_partition(2) [OF validated_walk(2) [OF valid]] by (auto simp: terminal_partitions_def)
  moreover have "i < n" if "p \<in> set ?ts" "i \<in> set (item_indices p)" for p i using that items by auto
  ultimately have "\<forall>p \<in> set ?ts. item_indices p \<noteq> [] \<and> (\<forall>i \<in> set (item_indices p).
      i < length (replicate n unassigned) \<and> replicate n unassigned ! i = unassigned \<and> i * 4 \<le> usize_max)"
    using small(2) by fastforce
  from assign_partitions_spec [OF dist this, of 0 0] small(1) obtain r where
    r: "for_each assign_partition (List.enumerate 0 ?ts) (replicate n unassigned, 0) =
      Ok (r, length (concat (map item_indices ?ts)))" "length r = n"
    and own: "\<forall>j < n. \<forall>q < length ?ts. j \<in> set (item_indices (?ts ! q)) \<longrightarrow> r ! j = word_of_nat q"
    by auto
  have len: "length (concat (map item_indices ?ts)) = n" using mset_eq_length [OF total] by simp
  have "unat (r ! i) < length ?ts \<and> i \<in> set (item_indices (?ts ! unat (r ! i)))" if "i < n" for i
  proof -
    from that items have "\<exists>p \<in> set ?ts. i \<in> set (item_indices p)" by auto
    then obtain q where q: "q < length ?ts" "i \<in> set (item_indices (?ts ! q))" by (metis in_set_conv_nth)
    moreover have "unat (r ! i) = q" using own that q small(1) by (simp add: unsigned_of_nat take_bit_eq_mod)
    ultimately show ?thesis by simp
  qed
  then show ?thesis using r len valid by (simp add: build_partition_routing_plan_def Let_def)
qed

section \<open>Recursion over a validated hierarchy is bounded\<close>

lemma foldl_max_le: "foldl max (a :: nat) xs \<le> m \<longleftrightarrow> a \<le> m \<and> (\<forall>x \<in> set xs. x \<le> m)"
  by (induction xs arbitrary: a) auto

lemma visits_card: "v1 \<subseteq> v' \<Longrightarrow> v \<subseteq> v1 \<Longrightarrow> v' - v \<subseteq> dom (partition_map ps) \<Longrightarrow>
    card (v' - v1) \<le> card (v' - v) \<and> card (v1 - v) \<le> card (v' - v)"
  using finite_visits [of v' v ps] by (auto intro!: card_mono)

lemma visits_card_insert: "i \<notin> v \<Longrightarrow> insert i v \<subseteq> v' \<Longrightarrow> v' - v \<subseteq> dom (partition_map ps) \<Longrightarrow>
    Suc (card (v' - insert i v)) = card (v' - v)"
  by (subst Diff_insert, rule card_Suc_Diff1) (auto intro: finite_visits)

lemma traverse_total:
  "\<forall>x \<in> set xs. \<exists>y. f x = Ok y \<and> P y \<Longrightarrow> \<exists>ys. traverse f xs = Ok ys \<and> (\<forall>y \<in> set ys. P y)"
  by (induction xs) auto

lemma depth_of_visits:
  assumes "\<forall>p \<in> set ps. terminal p \<longrightarrow> child_ids p = []"
  shows "walk ps i v = Ok (items, v') \<Longrightarrow> card (v' - v) \<le> fuel \<Longrightarrow>
      \<exists>n. depth_of fuel ps i = Ok n \<and> n \<le> card (v' - v)"
    and "walk_children ps cs v = Ok (items, v') \<Longrightarrow> card (v' - v) \<le> fuel \<Longrightarrow>
      \<forall>c \<in> set cs. \<exists>n. depth_of fuel ps c = Ok n \<and> n \<le> card (v' - v)"
  using assms
proof (induction ps i v and ps cs v arbitrary: items v' fuel and items v' fuel rule: walk_walk_children.induct)
  case (1 ps i v)
  from walk_Ok_fresh [OF "1.prems"(1)] obtain p where p: "partition_map ps i = Some p" and v: "i \<notin> v" by blast
  note spec = walk_spec(1) [OF "1.prems"(1)]
  have card: "Suc (card (v' - insert i v)) = card (v' - v)" using visits_card_insert [of i v v' ps] spec v by blast
  then obtain k where k: "fuel = Suc k" using "1.prems"(2) by (cases fuel) auto
  show ?case
  proof (cases "terminal p")
    case True
    then have "child_ids p = []" using "1.prems"(3) partition_map_in [OF p] by blast
    then show ?thesis using p card by (auto simp: k)
  next
    case False
    obtain u where u: "walk_children ps (child_ids p) (insert i v) = Ok (u, v')"
      using walk_nonterminal_Ok [OF "1.prems"(1) p False] by blast
    have "card (v' - insert i v) \<le> k" using card "1.prems"(2) k by simp
    note IH = "1.IH" [OF p v False u this "1.prems"(3)]
    have "\<exists>ds. traverse (depth_of k ps) (child_ids p) = Ok ds \<and> (\<forall>x \<in> set ds. x \<le> card (v' - insert i v))"
      using IH by (rule traverse_total)
    then obtain ds where "traverse (depth_of k ps) (child_ids p) = Ok ds" "foldl max 0 ds \<le> card (v' - insert i v)"
      by (auto simp: foldl_max_le)
    then show ?thesis using p card by (auto simp: k)
  qed
next
  case (3 ps c cs v)
  from "3.prems"(1) obtain a v1 b where a: "walk ps c v = Ok (a, v1)" and b: "walk_children ps cs v1 = Ok (b, v')"
    unfolding walk_children_Cons_Ok by blast
  have "v' - v \<subseteq> dom (partition_map ps)" "v \<subseteq> v1" "v1 \<subseteq> v'"
    using walk_spec(1) [OF a] walk_spec(2) [OF b] by auto
  from visits_card [OF this(3,2,1)] have le: "card (v' - v1) \<le> card (v' - v)" "card (v1 - v) \<le> card (v' - v)" by auto
  show ?case
    using "3.IH"(1) [OF a _ "3.prems"(3), of fuel] "3.IH"(2) [OF a refl b _ "3.prems"(3), of fuel] "3.prems"(2) le
    by fastforce
qed auto

text \<open>
  The statistics of a validated hierarchy are computed without a panic, and the depth
  lies between one and the number of partitions.
\<close>

theorem hierarchy_stats_total:
  assumes valid: "validate_partition_hierarchy h n = Ok ()"
  shows "\<exists>st. hierarchy_stats h = Ok st \<and> partition_count st = length (partitions h) \<and>
    1 \<le> hierarchy_depth st \<and> hierarchy_depth st \<le> partition_count st"
proof -
  let ?ps = "partitions h" and ?ids = "partition_id ` set (partitions h)"
  have "\<forall>p \<in> set ?ps. terminal p \<longrightarrow> child_ids p = []"
    using checked_partition(1) [OF validated_walk(2) [OF valid]] by blast
  moreover note tree = validated_tree [OF valid]
  have card: "card ?ids = length ?ps" using distinct_card [OF tree(1)] by simp
  ultimately obtain d where d: "depth_of (length ?ps) ?ps (root_partition_id h) = Ok d" "d \<le> length ?ps"
    using depth_of_visits(1) [OF _ tree(2), of "length ?ps"] by auto
  have "?ps \<noteq> []" using walk_Ok_fresh [OF tree(2)] by (auto simp: partition_map_def)
  moreover from this d(1) have "1 \<le> d" by (cases "length ?ps") (auto simp: and_then_eq_Ok map_ok_eq_Ok split: if_splits)
  ultimately show ?thesis using d by (auto simp: hierarchy_stats_def)
qed

end
