(* ===== verification/Indexer_Spill.thy ===== *)
theory Indexer_Spill
  imports Indexer_Types Block_Ebcp_Props
begin

text \<open>
  The spill files of the final replay (\<open>PartitionSpillDirectory\<close>, \<open>write_spilled_indexed_child\<close> and
  \<open>read_spilled_indexed_child\<close> of \<open>src/crates/lexongraph-streaming-indexer/src/lib.rs\<close>). A directory is the
  list of the contents of its files; creating, opening, flushing and writing the temporary files succeeds.
\<close>

section \<open>Records\<close>

definition spill_read_exact :: "nat \<Rightarrow> byte list \<Rightarrow> (byte list \<times> byte list) indexer_result" where
  "spill_read_exact n bs =
     (if length bs < n then Err (LocalSpill ''failed to fill whole buffer'') else Ok (take n bs, drop n bs))"

definition write_spilled_indexed_child :: "indexed_child \<Rightarrow> byte list indexer_result" where
  "write_spilled_indexed_child c =
     (if 4294967295 < length (ic_embedding c)
      then Err (LocalSpill ''embedding length does not fit the spill file format'')
      else if 18446744073709551615 < ic_descendant_count c
      then Err (LocalSpill ''descendant count does not fit the spill file format'')
      else Ok (le_bytes 4 (length (ic_embedding c)) @ ic_embedding c @ as_bytes (ic_child c)
             @ le_bytes 8 (unat (ic_level c)) @ le_bytes 8 (ic_descendant_count c)))"

text \<open>The end of the file, or fewer than four bytes before it, ends the sequence of records.\<close>

definition read_spilled_indexed_child :: "byte list \<Rightarrow> (indexed_child option \<times> byte list) indexer_result" where
  "read_spilled_indexed_child rest =
     (case spill_read_exact 4 rest of
        Err _ \<Rightarrow> Ok (None, rest)
      | Panic \<Rightarrow> Panic
      | Ok (len, rest) \<Rightarrow>
          and_then (spill_read_exact (le_nat len) rest) (\<lambda>(emb, rest).
          and_then (spill_read_exact 32 rest) (\<lambda>(child, rest).
          and_then (spill_read_exact 8 rest) (\<lambda>(level, rest).
          and_then (spill_read_exact 8 rest) (\<lambda>(count, rest).
            Ok (Some \<lparr>ic_embedding = emb, ic_child = BlockHash child, ic_level = word_of_nat (le_nat level),
                      ic_descendant_count = le_nat count\<rparr>, rest))))))"

section \<open>The directory\<close>

definition spill_directory_new :: "nat \<Rightarrow> byte list list" where
  "spill_directory_new partition_count = replicate partition_count []"

definition append_leaf_child :: "u32 \<Rightarrow> indexed_child \<Rightarrow> byte list list \<Rightarrow> byte list list indexer_result" where
  "append_leaf_child ordinal c spill =
     (if length spill \<le> unat ordinal
      then Err (LocalSpill (''partition ordinal '' @ show_nat (unat ordinal)
             @ '' is out of range for spill routing''))
      else map_ok (\<lambda>bs. spill[unat ordinal := spill ! unat ordinal @ bs]) (write_spilled_indexed_child c))"

lemma read_spilled_shorter:
  "read_spilled_indexed_child bs = Ok (Some c, rest) \<Longrightarrow> length rest < length bs"
  by (auto simp: read_spilled_indexed_child_def spill_read_exact_def and_then_eq_Ok split: if_splits)

function read_children :: "byte list \<Rightarrow> indexed_child list indexer_result" where
  "read_children bs =
     (case read_spilled_indexed_child bs of
        Err e \<Rightarrow> Err e
      | Panic \<Rightarrow> Panic
      | Ok (None, rest) \<Rightarrow> Ok []
      | Ok (Some c, rest) \<Rightarrow> map_ok (\<lambda>cs. c # cs) (read_children rest))"
  by pat_completeness auto
termination by (relation "measure length") (auto intro: read_spilled_shorter)

declare read_children.simps [simp del]

definition read_partition_children :: "byte list list \<Rightarrow> nat \<Rightarrow> indexed_child list indexer_result" where
  "read_partition_children spill ordinal =
     (if length spill \<le> ordinal
      then Err (LocalSpill (''partition ordinal '' @ show_nat ordinal @ '' is missing a spill path''))
      else read_children (spill ! ordinal))"

section \<open>What is read back\<close>

text \<open>The bounds the Rust types give a child: a 32-byte identifier, a \<open>usize\<close> count.\<close>

definition child_wf :: "indexed_child \<Rightarrow> bool" where
  "child_wf c = (hash_wf (ic_child c) \<and> ic_descendant_count c \<le> usize_max)"

lemma spill_read_exact_append [simp]: "length xs = n \<Longrightarrow> spill_read_exact n (xs @ ys) = Ok (xs, ys)"
  by (simp add: spill_read_exact_def)

lemma read_spilled_written:
  assumes "write_spilled_indexed_child c = Ok bs" and "child_wf c"
  shows "read_spilled_indexed_child (bs @ rest) = Ok (Some c, rest)"
proof -
  have emb: "length (ic_embedding c) < 256 ^ 4" and count: "ic_descendant_count c < 256 ^ 8"
    and bs: "bs = le_bytes 4 (length (ic_embedding c)) @ ic_embedding c @ as_bytes (ic_child c)
             @ le_bytes 8 (unat (ic_level c)) @ le_bytes 8 (ic_descendant_count c)"
    using assms(1) by (auto simp: write_spilled_indexed_child_def split: if_splits)
  have level: "unat (ic_level c) < 256 ^ 8" using unsigned_less [of "ic_level c"] by simp
  have child: "length (as_bytes (ic_child c)) = 32" "BlockHash (as_bytes (ic_child c)) = ic_child c"
    using assms(2) by (auto simp: child_wf_def hash_wf_def)
  show ?thesis unfolding bs read_spilled_indexed_child_def
    using emb count level child by (simp add: le_nat_le_bytes)
qed

text \<open>What a file contains after a sequence of appends: the records of the children routed to it.\<close>

definition routed :: "nat \<Rightarrow> (u32 \<times> indexed_child) list \<Rightarrow> indexed_child list" where
  "routed p kcs = map snd (filter (\<lambda>(k, c). unat k = p) kcs)"

definition records_of :: "indexed_child list \<Rightarrow> byte list \<Rightarrow> bool" where
  "records_of cs bs = (\<exists>rs. list_all2 (\<lambda>c r. write_spilled_indexed_child c = Ok r) cs rs \<and> bs = concat rs)"

lemma records_of_append:
  assumes "records_of cs bs" and "write_spilled_indexed_child c = Ok r"
  shows "records_of (cs @ [c]) (bs @ r)"
proof -
  obtain rs where "list_all2 (\<lambda>c r. write_spilled_indexed_child c = Ok r) cs rs" "bs = concat rs"
    using assms(1) by (auto simp: records_of_def)
  then show ?thesis using assms(2) unfolding records_of_def
    by (intro exI [of _ "rs @ [r]"]) (simp add: list_all2_appendI)
qed

lemma read_children_records:
  assumes "records_of cs bs" and "list_all child_wf cs"
  shows "read_children bs = Ok cs"
proof -
  obtain rs where rs: "list_all2 (\<lambda>c r. write_spilled_indexed_child c = Ok r) cs rs" "bs = concat rs"
    using assms(1) by (auto simp: records_of_def)
  have "read_children (concat rs) = Ok cs" using rs(1) assms(2)
  proof (induction rule: list_all2_induct)
    case Nil
    then show ?case by (simp add: read_children.simps read_spilled_indexed_child_def spill_read_exact_def)
  next
    case (Cons c cs r rs)
    then show ?case using read_spilled_written [of c r "concat rs"] by (simp add: read_children.simps [of "r @ concat rs"])
  qed
  then show ?thesis using rs(2) by simp
qed

lemma appends_records:
  assumes "for_each (\<lambda>(k, c). append_leaf_child k c) kcs spill = Ok spill'"
    and "p < length spill" and "records_of cs (spill ! p)"
  shows "length spill' = length spill \<and> records_of (cs @ routed p kcs) (spill' ! p)"
  using assms
proof (induction kcs arbitrary: spill cs)
  case Nil
  then show ?case by (simp add: routed_def)
next
  case (Cons kc kcs)
  obtain k c where kc: "kc = (k, c)" by fastforce
  from Cons.prems(1) obtain spill1 where one: "append_leaf_child k c spill = Ok spill1"
    and rest: "for_each (\<lambda>(k, c). append_leaf_child k c) kcs spill1 = Ok spill'"
    by (auto simp: kc and_then_eq_Ok)
  from one obtain r where r: "write_spilled_indexed_child c = Ok r" "unat k < length spill"
    and more: "for_each (\<lambda>(k, c). append_leaf_child k c) kcs (spill[unat k := spill ! unat k @ r]) = Ok spill'"
    using rest by (auto simp: append_leaf_child_def map_ok_eq_Ok split: if_splits)
  show ?case
  proof (cases "unat k = p")
    case True
    then have "records_of (cs @ [c]) (spill[unat k := spill ! unat k @ r] ! p)"
      using records_of_append [OF Cons.prems(3) r(1)] r(2) by simp
    from Cons.IH [OF more _ this] Cons.prems(2) True show ?thesis by (simp add: kc routed_def)
  next
    case False
    then have "records_of cs (spill[unat k := spill ! unat k @ r] ! p)" using Cons.prems(3) by simp
    from Cons.IH [OF more _ this] Cons.prems(2) False show ?thesis by (simp add: kc routed_def)
  qed
qed

lemma spilled_children:
  assumes "for_each (\<lambda>(k, c). append_leaf_child k c) kcs (spill_directory_new n) = Ok spill"
    and "p < n" and "list_all (child_wf \<circ> snd) kcs"
  shows "length spill = n" and "read_partition_children spill p = Ok (routed p kcs)"
proof -
  have "records_of [] []" by (simp add: records_of_def)
  with appends_records [OF assms(1), of p "[]"] assms(2)
  have spill: "length spill = n" "records_of (routed p kcs) (spill ! p)" by (auto simp: spill_directory_new_def)
  then show "length spill = n" by simp
  have "list_all child_wf (routed p kcs)" using assms(3) by (auto simp: routed_def list_all_iff)
  with spill assms(2) show "read_partition_children spill p = Ok (routed p kcs)"
    by (simp add: read_partition_children_def read_children_records)
qed

text \<open>
  C34: children appended to a new spill directory are read back from each partition exactly as
  they were routed to it, in order.
\<close>

theorem spill_roundtrip:
  assumes "for_each (\<lambda>(k, c). append_leaf_child k c) kcs (spill_directory_new n) = Ok spill"
    and "list_all (child_wf \<circ> snd) kcs" and "p < n"
  shows "read_partition_children spill p = Ok (map snd (filter (\<lambda>(k, c). unat k = p) kcs))"
  using spilled_children(2) [OF assms(1,3,2)] by (simp add: routed_def)

end
