(* ===== verification/Indexer_Run.thy ===== *)
theory Indexer_Run
  imports Indexer_Assembly Indexer_Hierarchy Indexer_Spill Indexer_Embeddings "HOL-Library.Sublist"
begin

text \<open>
  The indexing run (\<open>StreamingIndexingRun\<close> in \<open>src/crates/lexongraph-streaming-indexer/src/lib.rs\<close>): planning
  passes over batches of items, the replay check against the first pass, and the final materialisation of leaves and
  branches. The content resolver, the embedding provider and the planning policy are supplied by the caller; they are
  operations on a state \<open>'w\<close>, so that two calls may answer differently. The counts of items and passes stay below
  \<open>2^64\<close>. Status events and heartbeats only inform an observer and are left out.
\<close>

section \<open>What the caller supplies\<close>

record embedding_input =
  ei_media_type :: string
  ei_body :: "byte list"

text \<open>The default \<open>embed_batch\<close> of the trait \<open>EmbeddingProvider\<close>: one call of \<open>embed\<close> per input.\<close>

fun embed_each ::
    "(embedding_input \<Rightarrow> embedding_spec \<Rightarrow> 'w \<Rightarrow> byte list message_result \<times> 'w)
       \<Rightarrow> embedding_input list \<Rightarrow> embedding_spec \<Rightarrow> 'w \<Rightarrow> byte list list message_result \<times> 'w" where
  "embed_each embed_one [] spec w = (Ok [], w)"
| "embed_each embed_one (i # is) spec w =
     then_do (embed_one i spec w) (\<lambda>e w.
     then_do (embed_each embed_one is spec w) (\<lambda>es w. (Ok (e # es), w)))"

record planning_outcome =
  po_hierarchy :: partition_hierarchy
  po_requested :: "u32 option"
  po_realized :: "u32 option"
  po_quality :: f64
  po_balance :: f64
  po_quality_direction :: metric_direction
  po_balance_direction :: metric_direction

text \<open>The error of a planning policy, as far as \<open>map_planning_policy_error\<close> distinguishes its type.\<close>

datatype planning_error =
    PlanningIndexer indexer_error
  | PlanningClustering clustering_error
  | PlanningOther string

fun map_planning_policy_error :: "planning_error \<Rightarrow> indexer_error" where
  "map_planning_policy_error (PlanningIndexer e) = e"
| "map_planning_policy_error (PlanningClustering (InvalidConfiguration m)) =
     (if sublist ''fine_partition_max_items'' m then InvalidHybridPlanningConfiguration m
      else ClusteringFailure (display_clustering_error (InvalidConfiguration m)))"
| "map_planning_policy_error (PlanningClustering e) = ClusteringFailure (display_clustering_error e)"
| "map_planning_policy_error (PlanningOther m) = ClusteringFailure m"

record ('r, 'w) run_env =
  run_cfg :: index_config
  resolve :: "'r \<Rightarrow> 'w \<Rightarrow> content message_result \<times> 'w"
  fingerprint :: "'r \<Rightarrow> 'w \<Rightarrow> block_hash message_result \<times> 'w"
  embed_batch :: "embedding_input list \<Rightarrow> embedding_spec \<Rightarrow> 'w \<Rightarrow> byte list list message_result \<times> 'w"
  finish_planning_pass ::
    "f32 list list \<Rightarrow> embedding_spec \<Rightarrow> nat \<Rightarrow> nat \<Rightarrow> 'w \<Rightarrow> (planning_error, planning_outcome) outcome \<times> 'w"

section \<open>Replay fingerprints\<close>

record baseline_item =
  content_ref_hash :: block_hash
  metadata_hash :: block_hash
  content_hash :: block_hash
  embedding_hash :: block_hash

definition text_bytes :: "string \<Rightarrow> byte list" where
  "text_bytes s = map (\<lambda>c. word_of_nat (of_char c)) s"

definition hash_bytes :: "deps \<Rightarrow> byte list \<Rightarrow> block_hash" where
  "hash_bytes d bs = BlockHash (sha256_digest d bs)"

definition hash_content :: "deps \<Rightarrow> content \<Rightarrow> block_hash" where
  "hash_content d c =
     BlockHash (sha256_digest d (le_bytes 8 (length (media_type c)) @ text_bytes (media_type c)
       @ le_bytes 8 (length (body c)) @ body c))"

definition hash_metadata :: "deps \<Rightarrow> metadata \<Rightarrow> block_hash message_result" where
  "hash_metadata d m =
     and_then (map_err (\<lambda>e. ''failed to canonicalize metadata for replay hashing: '' @ display_block_error e)
                 (canonicalize_metadata d m)) (\<lambda>canonical.
     map_ok (hash_bytes d)
       (map_err (\<lambda>e. ''failed to encode metadata for replay hashing: '' @ e) (into_writer d (Map canonical))))"

definition replay_item ::
    "('r, 'w) run_env \<Rightarrow> 'r index_item \<Rightarrow> content \<Rightarrow> byte list \<Rightarrow> 'w \<Rightarrow> baseline_item indexer_result \<times> 'w" where
  "replay_item env item c emb w =
     (let d = cfg_deps (run_cfg env) in
      case fingerprint env (content_ref item) w of
        (fp, w) \<Rightarrow>
          then_do (map_err ContentResolution fp, w) (\<lambda>ref_hash w.
            (map_ok (\<lambda>mh. \<lparr>content_ref_hash = ref_hash, metadata_hash = mh, content_hash = hash_content d c,
                embedding_hash = hash_bytes d emb\<rparr>)
               (map_err InvalidMetadata (hash_metadata d (item_metadata item))), w)))"

section \<open>The state of a run\<close>

datatype run_phase = Planning | PlanningComplete | Finalized

fun debug_run_phase :: "run_phase \<Rightarrow> string" where
  "debug_run_phase Planning = ''Planning''"
| "debug_run_phase PlanningComplete = ''PlanningComplete''"
| "debug_run_phase Finalized = ''Finalized''"

record indexing_run =
  phase_of :: run_phase
  completed_passes :: nat
  baseline :: "baseline_item list option"
  finalized_hierarchy :: "partition_hierarchy option"
  current_pass_items :: "baseline_item list"
  current_pass_f32_embeddings :: "f32 list list"
  items_seen_in_current_pass :: nat

definition new_run :: indexing_run where
  "new_run = \<lparr>phase_of = Planning, completed_passes = 0, baseline = None, finalized_hierarchy = None,
     current_pass_items = [], current_pass_f32_embeddings = [], items_seen_in_current_pass = 0\<rparr>"

definition lifecycle_error :: "string \<Rightarrow> string \<Rightarrow> run_phase \<Rightarrow> indexer_error" where
  "lifecycle_error operation required p =
     InvalidLifecycleTransition (operation @ '' requires the '' @ required @ '' phase (currently ''
       @ debug_run_phase p @ '')'')"

section \<open>Ingestion\<close>

text \<open>The contents of a batch, in order; the first failure ends the loop.\<close>

fun resolve_items :: "('r, 'w) run_env \<Rightarrow> 'r index_item list \<Rightarrow> 'w \<Rightarrow> content list indexer_result \<times> 'w" where
  "resolve_items env [] w = (Ok [], w)"
| "resolve_items env (item # items) w =
     (case resolve env (content_ref item) w of
        (res, w) \<Rightarrow>
          then_do (map_err ContentResolution res, w) (\<lambda>c w.
            if media_type c = ''''
            then (Err (UnusableContent ''resolved content must include a media type''), w)
            else then_do (resolve_items env items w) (\<lambda>cs w. (Ok (c # cs), w))))"

definition input_of :: "content \<Rightarrow> embedding_input" where
  "input_of c = \<lparr>ei_media_type = media_type c, ei_body = body c\<rparr>"

definition embed_contents :: "('r, 'w) run_env \<Rightarrow> content list \<Rightarrow> 'w \<Rightarrow> byte list list indexer_result \<times> 'w" where
  "embed_contents env cs w =
     (case embed_batch env (map input_of cs) (index_spec (run_cfg env)) w of
        (res, w) \<Rightarrow> (map_err EmbeddingFailure res, w))"

text \<open>
  The fingerprints of the batch are compared with the baseline or, in the first pass, appended to
  \<open>current_pass_items\<close>, one at a time: those before a failure stay.
\<close>

fun record_items ::
    "('r, 'w) run_env \<Rightarrow> nat \<Rightarrow> ('r index_item \<times> content \<times> byte list) list \<Rightarrow> indexing_run \<times> 'w
       \<Rightarrow> unit indexer_result \<times> (indexing_run \<times> 'w)" where
  "record_items env i [] st = (Ok (), st)"
| "record_items env i ((item, c, emb) # rest) (run, w) =
     (case replay_item env item c emb w of
        (res, w) \<Rightarrow>
          then_do (res, (run, w)) (\<lambda>it (run, w).
            case baseline run of
              Some base \<Rightarrow>
                if length base \<le> i
                then (Err (ReplayMismatch (''current pass has more items than the '' @ show_nat (length base)
                        @ '' items in the established baseline'')), (run, w))
                else if base ! i \<noteq> it
                then (Err (ReplayMismatch (''item '' @ show_nat i
                        @ '' in current pass differs from established baseline'')), (run, w))
                else record_items env (i + 1) rest (run, w)
            | None \<Rightarrow>
                record_items env (i + 1) rest (run\<lparr>current_pass_items := current_pass_items run @ [it]\<rparr>, w)))"

fun push_decoded :: "index_config \<Rightarrow> byte list list \<Rightarrow> indexing_run \<Rightarrow> unit indexer_result \<times> indexing_run" where
  "push_decoded cfg [] run = (Ok (), run)"
| "push_decoded cfg (emb # embs) run =
     then_do (decode_embedding_as_f32 (cfg_deps cfg) emb (index_spec cfg), run) (\<lambda>v run.
       push_decoded cfg embs (run\<lparr>current_pass_f32_embeddings := current_pass_f32_embeddings run @ [v]\<rparr>))"

text \<open>Resolution, embedding and their checks: nothing of the run changes.\<close>

definition prepare_batch ::
    "('r, 'w) run_env \<Rightarrow> 'r index_item list \<Rightarrow> 'w \<Rightarrow> (content list \<times> byte list list) indexer_result \<times> 'w" where
  "prepare_batch env batch w =
     then_do (resolve_items env batch w) (\<lambda>contents w.
     then_do (embed_contents env contents w) (\<lambda>embs w.
       if length embs \<noteq> length batch
       then (Err (EmbeddingFailure (''embedding provider returned '' @ show_nat (length embs)
               @ '' embeddings for '' @ show_nat (length batch) @ '' inputs'')), w)
       else (map_ok (\<lambda>_. (contents, embs))
               (map_err EmbeddingFailure
                 (traverse (\<lambda>emb. index_validate_embedding_bytes emb (index_spec (run_cfg env)) ''item'') embs)), w)))"

definition ingest_batch ::
    "('r, 'w) run_env \<Rightarrow> 'r index_item list \<Rightarrow> indexing_run \<times> 'w \<Rightarrow> unit indexer_result \<times> (indexing_run \<times> 'w)" where
  "ingest_batch env batch st =
     (let (run, w) = st in
      if phase_of run \<noteq> Planning then (Err (lifecycle_error ''ingest_batch'' ''planning'' (phase_of run)), st)
      else if batch = [] then (Ok (), st)
      else case prepare_batch env batch w of
        (res, w) \<Rightarrow>
          then_do (res, (run, w)) (\<lambda>(contents, embs) (run, w).
          then_do (record_items env (items_seen_in_current_pass run) (zip batch (zip contents embs)) (run, w))
            (\<lambda>_ (run, w).
          case push_decoded (run_cfg env) embs run of
            (res, run) \<Rightarrow>
              then_do (res, (run, w)) (\<lambda>_ (run, w).
                (Ok (), (run\<lparr>items_seen_in_current_pass := items_seen_in_current_pass run + length batch\<rparr>, w))))))"

section \<open>Passes\<close>

record indexing_pass_report =
  observed_item_count :: nat
  completed_pass_count :: nat
  requested_planning_cluster_count :: "u32 option"
  realized_planning_cluster_count :: "u32 option"
  planning_quality_metric :: f64
  planning_balance_metric :: f64
  planning_quality_direction :: metric_direction
  planning_balance_direction :: metric_direction
  planned_partition_count :: nat
  report_terminal_partition_count :: nat
  report_hierarchy_depth :: nat

text \<open>\<open>map_or(0, Vec::len)\<close>.\<close>

definition baseline_len :: "indexing_run \<Rightarrow> nat" where
  "baseline_len run = (case baseline run of None \<Rightarrow> 0 | Some base \<Rightarrow> length base)"

text \<open>What is checked before the planning policy is called; the result is the materializability bound.\<close>

definition check_finish_pass :: "index_config \<Rightarrow> indexing_run \<Rightarrow> nat indexer_result" where
  "check_finish_pass cfg run =
     (if phase_of run \<noteq> Planning then Err (lifecycle_error ''finish_pass'' ''planning'' (phase_of run))
      else if items_seen_in_current_pass run = 0
      then Err (EmptyPass ''at least one item must be ingested before completing a pass'')
      else if baseline run \<noteq> None \<and> items_seen_in_current_pass run \<noteq> baseline_len run
      then Err (ReplayMismatch (''pass had '' @ show_nat (items_seen_in_current_pass run)
             @ '' items but baseline has '' @ show_nat (baseline_len run)))
      else map_err TerminalPartitionMaterialization
             (materializability_bound (cfg_deps cfg) (index_spec cfg) (block_size_target cfg)))"

text \<open>The run after an accepted hierarchy; the buffered embeddings have been taken.\<close>

definition complete_pass :: "partition_hierarchy \<Rightarrow> indexing_run \<Rightarrow> indexing_run" where
  "complete_pass h run =
     (let run = (if baseline run = None
                 then run\<lparr>baseline := Some (current_pass_items run), current_pass_items := []\<rparr> else run)
      in run\<lparr>finalized_hierarchy := Some h, completed_passes := completed_passes run + 1,
             items_seen_in_current_pass := 0, current_pass_f32_embeddings := []\<rparr>)"

definition finish_pass ::
    "('r, 'w) run_env \<Rightarrow> indexing_run \<times> 'w \<Rightarrow> indexing_pass_report indexer_result \<times> (indexing_run \<times> 'w)" where
  "finish_pass env st =
     then_do (check_finish_pass (run_cfg env) (fst st), st) (\<lambda>bound (run, w).
     case finish_planning_pass env (current_pass_f32_embeddings run) (index_spec (run_cfg env)) bound
            (block_size_target (run_cfg env)) w of
       (res, w) \<Rightarrow>
         then_do (map_err map_planning_policy_error res, (run, w)) (\<lambda>out (run, w).
         then_do (map_err HierarchyValidation
                    (validate_partition_hierarchy (po_hierarchy out) (items_seen_in_current_pass run)), (run, w))
           (\<lambda>_ (run, w).
         let run = complete_pass (po_hierarchy out) run in
           (map_ok (\<lambda>stats. \<lparr>observed_item_count = baseline_len run, completed_pass_count = completed_passes run,
               requested_planning_cluster_count = po_requested out, realized_planning_cluster_count = po_realized out,
               planning_quality_metric = po_quality out, planning_balance_metric = po_balance out,
               planning_quality_direction = po_quality_direction out,
               planning_balance_direction = po_balance_direction out,
               planned_partition_count = partition_count stats,
               report_terminal_partition_count = terminal_partition_count stats,
               report_hierarchy_depth = hierarchy_depth stats\<rparr>)
             (map_err HierarchyValidation (hierarchy_stats (po_hierarchy out))), (run, w)))))"

definition mark_planning_complete :: "indexing_run \<Rightarrow> unit indexer_result \<times> indexing_run" where
  "mark_planning_complete run =
     (if phase_of run \<noteq> Planning
      then (Err (lifecycle_error ''mark_planning_complete'' ''planning'' (phase_of run)), run)
      else if completed_passes run = 0
      then (Err (InvalidLifecycleTransition ''planning completion requires at least one completed pass''), run)
      else if 0 < items_seen_in_current_pass run
      then (Err (InvalidLifecycleTransition ''cannot complete planning with an open (unfinished) pass''), run)
      else then_do (ok_or (finalized_hierarchy run)
               (InvalidLifecycleTransition ''no finalized partition hierarchy is available''), run) (\<lambda>h run.
           then_do (map_err HierarchyValidation (validate_partition_hierarchy h (baseline_len run)), run) (\<lambda>_ run.
             (Ok (), run\<lparr>phase_of := PlanningComplete\<rparr>))))"

section \<open>The final replay\<close>

record ('w, 's) replay_state =
  rp_world :: 'w
  rp_out :: "'s \<times> block_hash list"
  rp_route :: "u32 list"
  rp_spill :: "byte list list"

definition leaf_child :: "byte list \<Rightarrow> block_hash \<Rightarrow> indexed_child" where
  "leaf_child emb h = \<lparr>ic_embedding = emb, ic_child = h, ic_level = 0, ic_descendant_count = 1\<rparr>"

definition prepare_leaf ::
    "index_config \<Rightarrow> 'r index_item \<Rightarrow> content \<Rightarrow> byte list \<Rightarrow> (block \<times> serialized_block) indexer_result" where
  "prepare_leaf cfg item c emb =
     and_then (map_err EmbeddingFailure (index_validate_embedding_bytes emb (index_spec cfg) ''item'')) (\<lambda>_.
     and_then (map_err BlockConstruction
                 (build_leaf_block (cfg_deps cfg) 1 (index_spec cfg)
                    [\<lparr>le_embedding = emb, le_metadata = item_metadata item, le_content = c\<rparr>] None)) (\<lambda>leaf.
     map_ok (\<lambda>ser. (Leaf leaf, ser)) (map_err BlockConstruction (serialize_block (cfg_deps cfg) (Leaf leaf)))))"

text \<open>The leaf is stored, its partition read from the routing file, and the child appended to the spill.\<close>

definition spill_leaf ::
    "byte list \<Rightarrow> block_hash \<Rightarrow> ('w, 's) replay_state \<Rightarrow> unit indexer_result \<times> ('w, 's) replay_state" where
  "spill_leaf emb h st =
     (let (ordinal, rest) = read_partition_ordinal (rp_route st); st = st\<lparr>rp_route := rest\<rparr> in
      then_do (ok_or ordinal (ReplayMismatch ''finalization replay routing ended before the baseline''), st)
        (\<lambda>k st.
      then_do (append_leaf_child k (leaf_child emb h) (rp_spill st), st) (\<lambda>spill st.
        (Ok (), st\<lparr>rp_spill := spill\<rparr>))))"

definition replay_leaf ::
    "('r, 'w) run_env \<Rightarrow> 's store_ops \<Rightarrow> baseline_item list \<Rightarrow> nat \<Rightarrow> 'r index_item \<times> content \<times> byte list
       \<Rightarrow> ('w, 's) replay_state \<Rightarrow> unit indexer_result \<times> ('w, 's) replay_state" where
  "replay_leaf env ops base i x st =
     (let (item, c, emb) = x; cfg = run_cfg env in
      case replay_item env item c emb (rp_world st) of
        (it, w) \<Rightarrow>
          then_do (it, st\<lparr>rp_world := w\<rparr>) (\<lambda>it st.
          then_do (index_at base i, st) (\<lambda>expected st.
            if expected \<noteq> it
            then (Err (ReplayMismatch (''finalization item '' @ show_nat i @ '' differs from baseline'')), st)
            else then_do (prepare_leaf cfg item c emb, st) (\<lambda>(leaf, ser) st.
              case persist_block (cfg_deps cfg) ops leaf (ser_hash ser) (rp_out st) of
                (h, out) \<Rightarrow> then_do (h, st\<lparr>rp_out := out\<rparr>) (\<lambda>h st. spill_leaf emb h st)))))"

fun replay_leaves ::
    "('r, 'w) run_env \<Rightarrow> 's store_ops \<Rightarrow> baseline_item list \<Rightarrow> nat \<Rightarrow> ('r index_item \<times> content \<times> byte list) list
       \<Rightarrow> ('w, 's) replay_state \<Rightarrow> unit indexer_result \<times> ('w, 's) replay_state" where
  "replay_leaves env ops base i [] st = (Ok (), st)"
| "replay_leaves env ops base i (x # xs) st =
     then_do (replay_leaf env ops base i x st) (\<lambda>_ st. replay_leaves env ops base (i + 1) xs st)"

definition replay_batch ::
    "('r, 'w) run_env \<Rightarrow> 's store_ops \<Rightarrow> baseline_item list \<Rightarrow> nat \<Rightarrow> 'r index_item list
       \<Rightarrow> ('w, 's) replay_state \<Rightarrow> unit indexer_result \<times> ('w, 's) replay_state" where
  "replay_batch env ops base replay_count items st =
     (if length base < replay_count + length items
      then (Err (ReplayMismatch (''finalization replay has more items than the '' @ show_nat (length base)
              @ '' items in the established baseline'')), st)
      else case resolve_items env items (rp_world st) of
        (contents, w) \<Rightarrow>
          then_do (contents, st\<lparr>rp_world := w\<rparr>) (\<lambda>contents st.
          case embed_contents env contents (rp_world st) of
            (embs, w) \<Rightarrow>
              then_do (embs, st\<lparr>rp_world := w\<rparr>) (\<lambda>embs st.
                if length embs \<noteq> length items
                then (Err (EmbeddingFailure (''expected '' @ show_nat (length items) @ '' embeddings, got ''
                        @ show_nat (length embs))), st)
                else replay_leaves env ops base replay_count (zip items (zip contents embs)) st)))"

fun replay_all ::
    "('r, 'w) run_env \<Rightarrow> 's store_ops \<Rightarrow> baseline_item list \<Rightarrow> nat \<Rightarrow> 'r index_item list list
       \<Rightarrow> ('w, 's) replay_state \<Rightarrow> nat indexer_result \<times> ('w, 's) replay_state" where
  "replay_all env ops base replay_count [] st = (Ok replay_count, st)"
| "replay_all env ops base replay_count (items # batches) st =
     (if items = [] then replay_all env ops base replay_count batches st
      else then_do (replay_batch env ops base replay_count items st) (\<lambda>_ st.
             replay_all env ops base (replay_count + length items) batches st))"

definition replay ::
    "('r, 'w) run_env \<Rightarrow> 's store_ops \<Rightarrow> baseline_item list \<Rightarrow> 'r index_item list list
       \<Rightarrow> ('w, 's) replay_state \<Rightarrow> unit indexer_result \<times> ('w, 's) replay_state" where
  "replay env ops base batches st =
     then_do (replay_all env ops base 0 batches st) (\<lambda>replay_count st.
       if replay_count = 0 then (Err EmptyInput, st)
       else if replay_count \<noteq> length base
       then (Err (ReplayMismatch (''finalization replay had '' @ show_nat replay_count
               @ '' items but baseline has '' @ show_nat (length base))), st)
       else let (ordinal, rest) = read_partition_ordinal (rp_route st); st = st\<lparr>rp_route := rest\<rparr> in
            if ordinal \<noteq> None
            then (Err (ReplayMismatch ''finalization replay routing contained more items than the baseline''), st)
            else (Ok (), st))"

section \<open>Materialisation\<close>

definition materialize_terminal ::
    "index_config \<Rightarrow> 's store_ops \<Rightarrow> nat \<Rightarrow> string \<Rightarrow> byte list list \<Rightarrow> nat list \<Rightarrow> nat \<Rightarrow> string
       \<Rightarrow> 's \<times> block_hash list \<Rightarrow> indexed_child indexer_result \<times> ('s \<times> block_hash list)" where
  "materialize_terminal cfg ops bound root_partition spill counts ordinal pid st =
     then_do (index_at counts ordinal, st) (\<lambda>expected st.
     then_do (read_partition_children spill ordinal, st) (\<lambda>cs st.
       if length cs \<noteq> expected
       then (Err (ReplayMismatch (''terminal partition '' @ debug_string pid @ '' spill contained ''
               @ show_nat (length cs) @ '' items but expected '' @ show_nat expected)), st)
       else if cs = []
       then (Err (ReplayMismatch (''terminal partition '' @ debug_string pid @ '' spill is empty'')), st)
       else if length cs = 1 then (Ok (hd cs), st)
       else assemble_child_set cfg ops cs (pid = root_partition) bound st))"

fun materialize_terminals ::
    "index_config \<Rightarrow> 's store_ops \<Rightarrow> nat \<Rightarrow> string \<Rightarrow> byte list list \<Rightarrow> nat list \<Rightarrow> nat \<Rightarrow> string list
       \<Rightarrow> (string \<rightharpoonup> indexed_child) \<Rightarrow> 's \<times> block_hash list
       \<Rightarrow> (string \<rightharpoonup> indexed_child) indexer_result \<times> ('s \<times> block_hash list)" where
  "materialize_terminals cfg ops bound root_partition spill counts ordinal [] mats st = (Ok mats, st)"
| "materialize_terminals cfg ops bound root_partition spill counts ordinal (pid # pids) mats st =
     then_do (materialize_terminal cfg ops bound root_partition spill counts ordinal pid st) (\<lambda>c st.
       materialize_terminals cfg ops bound root_partition spill counts (ordinal + 1) pids (mats(pid \<mapsto> c)) st)"

text \<open>
  The recursion over the hierarchy. Nothing in the function bounds its depth; running out of fuel stands for the
  overflow of the stack. The hierarchies it is called on have been validated.
\<close>

fun materialize_partition ::
    "nat \<Rightarrow> index_config \<Rightarrow> 's store_ops \<Rightarrow> nat \<Rightarrow> finalized_partition list \<Rightarrow> (string \<rightharpoonup> indexed_child)
       \<Rightarrow> string \<Rightarrow> bool \<Rightarrow> 's \<times> block_hash list \<Rightarrow> indexed_child indexer_result \<times> ('s \<times> block_hash list)"
  and materialize_children ::
    "nat \<Rightarrow> index_config \<Rightarrow> 's store_ops \<Rightarrow> nat \<Rightarrow> finalized_partition list \<Rightarrow> (string \<rightharpoonup> indexed_child)
       \<Rightarrow> string list \<Rightarrow> 's \<times> block_hash list \<Rightarrow> indexed_child list indexer_result \<times> ('s \<times> block_hash list)" where
  "materialize_partition 0 cfg ops bound ps mats i is_root st = (Panic, st)"
| "materialize_partition (Suc fuel) cfg ops bound ps mats i is_root st =
     then_do (ok_or (partition_map ps i) (HierarchyValidation
               (''partition '' @ debug_string i @ '' is missing during partition-ordered assembly'')), st) (\<lambda>p st.
       if terminal p
       then (ok_or (mats i) (ReplayMismatch
               (''terminal partition '' @ debug_string i @ '' was not materialized'')), st)
       else then_do (materialize_children fuel cfg ops bound ps mats (child_ids p) st) (\<lambda>cs st.
              assemble_child_set cfg ops cs is_root bound st))"
| "materialize_children fuel cfg ops bound ps mats [] st = (Ok [], st)"
| "materialize_children fuel cfg ops bound ps mats (c # cs) st =
     then_do (materialize_partition fuel cfg ops bound ps mats c False st) (\<lambda>x st.
     then_do (materialize_children fuel cfg ops bound ps mats cs st) (\<lambda>xs st. (Ok (x # xs), st)))"

definition do_finalize ::
    "('r, 'w) run_env \<Rightarrow> 's store_ops \<Rightarrow> 'r index_item list list \<Rightarrow> baseline_item list \<Rightarrow> partition_hierarchy
       \<Rightarrow> 'w \<times> 's \<Rightarrow> indexing_result indexer_result \<times> ('w \<times> 's)" where
  "do_finalize env ops batches base h st =
     (let (w, s) = st; cfg = run_cfg env in
      then_do (map_err TerminalPartitionMaterialization
                 (materializability_bound (cfg_deps cfg) (index_spec cfg) (block_size_target cfg)), (w, s))
        (\<lambda>bound (w, s).
      then_do (build_partition_routing_plan h (length base), (w, s)) (\<lambda>plan (w, s).
      case replay env ops base batches
             \<lparr>rp_world = w, rp_out = (s, []), rp_route = route plan,
              rp_spill = spill_directory_new (length (terminal_partition_ids plan))\<rparr> of
        (Err e, rp) \<Rightarrow> (Err e, (rp_world rp, fst (rp_out rp)))
      | (Panic, rp) \<Rightarrow> (Panic, (rp_world rp, fst (rp_out rp)))
      | (Ok _, rp) \<Rightarrow>
          (case then_do (materialize_terminals cfg ops bound (root_partition_id h) (rp_spill rp)
                     (terminal_partition_item_counts plan) 0 (terminal_partition_ids plan) Map.empty (rp_out rp))
                 (\<lambda>mats out.
                  materialize_partition (length (partitions h)) cfg ops bound (partitions h) mats
                    (root_partition_id h) True out) of
             (res, out) \<Rightarrow>
               (map_ok (\<lambda>c. \<lparr>root_id = ic_child c, result_block_ids = dedup_sort_ids (snd out)\<rparr>) res,
                (rp_world rp, fst out))))))"

definition finalize ::
    "('r, 'w) run_env \<Rightarrow> 's store_ops \<Rightarrow> 'r index_item list list \<Rightarrow> indexing_run \<times> ('w \<times> 's)
       \<Rightarrow> indexing_result indexer_result \<times> (indexing_run \<times> ('w \<times> 's))" where
  "finalize env ops batches st =
     (let (run, ws) = st in
      if phase_of run \<noteq> PlanningComplete
      then (Err (lifecycle_error ''finalize'' ''planning-complete'' (phase_of run)), st)
      else then_do (ok_or (baseline run) (InvalidLifecycleTransition ''no baseline established''), st) (\<lambda>base st.
           then_do (ok_or (finalized_hierarchy run)
                      (InvalidLifecycleTransition ''no finalized partition hierarchy is available''), st) (\<lambda>h st.
           then_do (map_err HierarchyValidation (validate_partition_hierarchy h (length base)), st) (\<lambda>_ st.
           case do_finalize env ops batches base h ws of
             (res, ws) \<Rightarrow> (res, (if is_ok res then run\<lparr>phase_of := Finalized\<rparr> else run, ws))))))"

end
