(* ===== verification/Indexer_Assembly_Props.thy ===== *)
theory Indexer_Assembly_Props
  imports Indexer_Assembly Indexer_Ebcp_Props Search_Reach
begin

text \<open>
  What assembly leaves in the store. The blocks a call stores, in order, are a \<^emph>\<open>journal\<close>; the entries of its
  branch blocks are the edges of a graph over block identifiers. \<open>grown\<close> says that a journal connects a new layer
  of identifiers to the layer it was built from; it composes along layers and across the groups of a layer.
  No assumption is made on the hash function: two blocks may share an identifier.
\<close>

section \<open>Normalised layers\<close>

lemma dedup_runs_set: "set (dedup_runs key xs) \<subseteq> set xs"
  by (induction key xs rule: dedup_runs.induct) auto

lemma dedup_runs_keys: "key ` set (dedup_runs key xs) = key ` set xs"
  by (induction key xs rule: dedup_runs.induct) auto

lemma dedup_runs_distinct:
  fixes f :: "'a \<Rightarrow> 'b :: linorder"
  assumes "sorted (map f xs)" and "\<And>x y. f x = f y \<longleftrightarrow> key x = key y"
  shows "distinct (map key (dedup_runs key xs))"
  using assms
proof (induction key xs rule: dedup_runs.induct)
  case (1 key x y ys)
  show ?case
  proof (cases "key x = key y")
    case True
    then show ?thesis using "1.IH"(1) "1.prems" by simp
  next
    case False
    then have "f x < f y" using "1.prems" by (metis list.set_intros(1) list.simps(9) order_le_neq_trans sorted_simps(2))
    then have "\<forall>z \<in> set (y # ys). f x \<noteq> f z" using "1.prems"(1) by fastforce
    then have "key x \<notin> key ` set (dedup_runs key (y # ys))"
      unfolding dedup_runs_keys using "1.prems"(2) by blast
    then show ?thesis using False "1.IH"(2) "1.prems" by simp
  qed
qed auto

lemma dedup_sorted_distinct:
  fixes child :: "'a \<Rightarrow> block_hash" and emb :: "'a \<Rightarrow> byte list"
  shows "distinct (map child (dedup_runs child (sort_key (\<lambda>c. (as_bytes (child c), emb c)) xs)))"
proof (rule dedup_runs_distinct [where f = "\<lambda>c. as_bytes (child c)"])
  have "sorted_wrt (\<lambda>x y. (as_bytes (child x), emb x) \<le> (as_bytes (child y), emb y))
      (sort_key (\<lambda>c. (as_bytes (child c), emb c)) xs)"
    using sorted_sort_key [of "\<lambda>c. (as_bytes (child c), emb c)" xs] by (simp add: sorted_map)
  then show "sorted (map (\<lambda>c. as_bytes (child c)) (sort_key (\<lambda>c. (as_bytes (child c), emb c)) xs))"
    unfolding sorted_map by (rule sorted_wrt_mono_rel [rotated]) auto
qed simp

lemma normalize_current_layer_props:
  "set (normalize_current_layer xs) \<subseteq> set xs"
  "ic_child ` set (normalize_current_layer xs) = ic_child ` set xs"
  "distinct (map ic_child (normalize_current_layer xs))"
  using dedup_runs_set [of ic_child "sort_key (\<lambda>c. (as_bytes (ic_child c), ic_embedding c)) (sort_key compare_indexed_children xs)"]
    dedup_sorted_distinct [of ic_child ic_embedding "sort_key compare_indexed_children xs"]
  by (simp_all add: normalize_current_layer_def deduplicate_layer_by_child_def dedup_runs_keys distinct_map inj_on_def)

lemma normalize_branch_entries_props:
  "be_child ` set (normalize_branch_entries es) = be_child ` set es"
  "distinct (map be_child (normalize_branch_entries es))"
  using dedup_sorted_distinct [of be_child be_embedding es]
  by (simp_all add: normalize_branch_entries_def dedup_runs_keys distinct_map inj_on_def)

lemma normalize_child_summary_inputs_props:
  "set (normalize_child_summary_inputs cs) \<subseteq> set cs"
  "csi_child ` set (normalize_child_summary_inputs cs) = csi_child ` set cs"
  "distinct (map csi_child (normalize_child_summary_inputs cs))"
  using dedup_runs_set [of csi_child "sort_key (\<lambda>c. (as_bytes (csi_child c), csi_embedding c)) cs"]
    dedup_sorted_distinct [of csi_child csi_embedding cs]
  by (simp_all add: normalize_child_summary_inputs_def dedup_runs_keys distinct_map inj_on_def)

lemma dedup_sort_ids_props:
  "set (dedup_sort_ids ids) = set ids" "distinct (dedup_sort_ids ids)"
  "sorted (map as_bytes (dedup_sort_ids ids))"
proof -
  let ?xs = "sort_key as_bytes ids"
  have "as_bytes ` set (dedup_runs as_bytes ?xs) = as_bytes ` set ids" by (simp add: dedup_runs_keys)
  then show "set (dedup_sort_ids ids) = set ids"
    unfolding dedup_sort_ids_def by (auto simp: image_def set_eq_iff) (metis as_bytes_inject)+
  have "distinct (map as_bytes (dedup_runs as_bytes ?xs))" by (rule dedup_runs_distinct [where f = as_bytes]) simp_all
  then show "distinct (dedup_sort_ids ids)" by (simp add: dedup_sort_ids_def distinct_map)
  have "sorted (map f ys) \<Longrightarrow> sorted (map f (dedup_runs key ys))" for f :: "block_hash \<Rightarrow> byte list" and key :: "block_hash \<Rightarrow> byte list" and ys
    using dedup_runs_set by (induction key ys rule: dedup_runs.induct) (fastforce+)
  then show "sorted (map as_bytes (dedup_sort_ids ids))" by (simp add: dedup_sort_ids_def)
qed

section \<open>Journals\<close>

text \<open>The blocks stored one after the other, with the identifiers the store returned.\<close>

fun put_journal :: "deps \<Rightarrow> 's store_ops \<Rightarrow> block list \<Rightarrow> 's \<Rightarrow> (block_hash list \<times> 's) option" where
  "put_journal d ops [] s = Some ([], s)"
| "put_journal d ops (b # bs) s =
     (case store_put d ops s b of
        (Ok h, s1) \<Rightarrow> map_option (\<lambda>(hs, s2). (h # hs, s2)) (put_journal d ops bs s1)
      | _ \<Rightarrow> None)"

lemma put_journal_append:
  "put_journal d ops xs s = Some (hs, s1) \<Longrightarrow> put_journal d ops ys s1 = Some (ks, s2) \<Longrightarrow>
     put_journal d ops (xs @ ys) s = Some (hs @ ks, s2)"
  by (induction xs arbitrary: s hs) (auto split: prod.splits outcome.splits)

definition block_id :: "deps \<Rightarrow> block \<Rightarrow> block_hash option" where
  "block_id d b = (case serialize_block d b of Ok ser \<Rightarrow> Some (ser_hash ser) | _ \<Rightarrow> None)"

lemma store_put_id: "store_put d ops s b = (Ok h, s') \<Longrightarrow> block_id d b = Some h"
  by (auto simp: store_put_def then_do_Ok block_id_def map_err_eq_Ok)

definition journal_ids :: "deps \<Rightarrow> block list \<Rightarrow> block_hash set" where
  "journal_ids d journal = {h. \<exists>b \<in> set journal. block_id d b = Some h}"

lemma journal_ids_append [simp]: "journal_ids d (xs @ ys) = journal_ids d xs \<union> journal_ids d ys"
  by (auto simp: journal_ids_def)

lemma put_journal_ids: "put_journal d ops journal s = Some (hs, s') \<Longrightarrow> set hs = journal_ids d journal"
  by (induction journal arbitrary: s hs)
    (auto simp: journal_ids_def store_put_id dest: store_put_id split: prod.splits outcome.splits)

definition journal_edge :: "deps \<Rightarrow> block list \<Rightarrow> block_hash \<Rightarrow> block_hash \<Rightarrow> bool" where
  "journal_edge d journal h c = (\<exists>b \<in> set journal. block_id d b = Some h \<and> c \<in> block_children b)"

lemma journal_edge_mono:
  assumes "set journal \<subseteq> set journal'" and "(journal_edge d journal)\<^sup>*\<^sup>* h c"
  shows "(journal_edge d journal')\<^sup>*\<^sup>* h c"
proof -
  have "journal_edge d journal \<le> journal_edge d journal'" using assms(1) unfolding journal_edge_def by blast
  from rtranclp_mono [OF this] assms(2) show ?thesis by blast
qed

text \<open>
  \<open>grown\<close>: each block of the journal fits the size target and points only to the layer below or to blocks of
  the journal; the new layer consists of such identifiers; every identifier of the layer below is reached
  from the new layer.
\<close>

definition grown :: "deps \<Rightarrow> nat \<Rightarrow> block list \<Rightarrow> block_hash set \<Rightarrow> block_hash set \<Rightarrow> bool" where
  "grown d target journal lower upper =
     ((\<forall>b \<in> set journal. (\<exists>ser. serialize_block d b = Ok ser \<and> length (ser_bytes ser) \<le> target) \<and>
         block_children b \<subseteq> lower \<union> journal_ids d journal) \<and>
      upper \<subseteq> lower \<union> journal_ids d journal \<and>
      (\<forall>c \<in> lower. \<exists>h \<in> upper. (journal_edge d journal)\<^sup>*\<^sup>* h c))"

lemma grown_refl: "grown d target [] lower lower"
  by (auto simp: grown_def)

lemma grown_trans:
  assumes "grown d target xs lower mid" and "grown d target ys mid upper"
  shows "grown d target (xs @ ys) lower upper"
proof -
  have "\<exists>h \<in> upper. (journal_edge d (xs @ ys))\<^sup>*\<^sup>* h c" if "c \<in> lower" for c
  proof -
    from that assms(1) obtain m where m: "m \<in> mid" "(journal_edge d xs)\<^sup>*\<^sup>* m c" by (auto simp: grown_def)
    from m(1) assms(2) obtain h where h: "h \<in> upper" "(journal_edge d ys)\<^sup>*\<^sup>* h m" by (auto simp: grown_def)
    have "(journal_edge d (xs @ ys))\<^sup>*\<^sup>* h m" by (rule journal_edge_mono [OF _ h(2)]) simp
    moreover have "(journal_edge d (xs @ ys))\<^sup>*\<^sup>* m c" by (rule journal_edge_mono [OF _ m(2)]) simp
    ultimately show ?thesis using h(1) by (meson rtranclp_trans)
  qed
  moreover have "mid \<subseteq> lower \<union> journal_ids d xs" using assms(1) by (simp add: grown_def)
  ultimately show ?thesis using assms unfolding grown_def by (auto; blast)
qed

lemma grown_union:
  assumes "grown d target xs lower1 upper1" and "grown d target ys lower2 upper2"
  shows "grown d target (xs @ ys) (lower1 \<union> lower2) (upper1 \<union> upper2)"
proof -
  have "(journal_edge d (xs @ ys))\<^sup>*\<^sup>* h c" if "(journal_edge d xs)\<^sup>*\<^sup>* h c \<or> (journal_edge d ys)\<^sup>*\<^sup>* h c" for h c
    using that journal_edge_mono [of xs "xs @ ys"] journal_edge_mono [of ys "xs @ ys"] by auto
  then show ?thesis using assms unfolding grown_def by (auto; blast)
qed

section \<open>Assembly grows the graph\<close>

lemma persist_block_Ok:
  assumes "persist_block d ops b expected st = (Ok h, st')"
  shows "\<exists>s. store_put d ops (fst st) b = (Ok h, s) \<and> st' = (s, snd st @ [h]) \<and> h = expected"
  using assms by (cases "store_put d ops (fst st) b")
    (auto simp: persist_block_def then_do_Ok map_err_eq_Ok verify_persisted_block_id_def split: if_splits)

lemma build_branch_block_Ok:
  assumes "build_branch_block d version level spec es ext = Ok b"
  shows "set (bb_entries b) = set es" and "bb_level b = level"
proof -
  let ?b = "\<lparr>bb_version = version, bb_level = level, bb_embedding_spec = spec, bb_entries = es, bb_ext = ext\<rparr>"
  have "normalize_block d (Branch ?b) = Ok (Branch b)"
  proof (cases "normalize_block d (Branch ?b)")
    case (Ok b')
    with assms show ?thesis by (cases b') (simp_all add: build_branch_block_def del: normalize_block.simps)
  qed (use assms in \<open>simp_all add: build_branch_block_def del: normalize_block.simps\<close>)
  then show "set (bb_entries b) = set es" "bb_level b = level"
    by (auto simp: normalize_Branch_Ok simp del: normalize_block.simps)
qed

lemma prepare_branch_Ok:
  assumes "prepare_branch cfg members level rb = Ok (branch, ser)"
  shows "serialize_block (cfg_deps cfg) (Branch branch) = Ok ser"
    and "length (ser_bytes ser) \<le> block_size_target cfg"
    and "block_children (Branch branch) = ic_child ` set members"
    and "bb_level branch = level"
proof -
  let ?entries = "normalize_branch_entries (map child_entry members)"
  from assms obtain enc where enc: "encode_branch_entries (cfg_author cfg) (branch_policy cfg) (index_spec cfg) ?entries level rb = Ok enc"
    and build: "build_branch_block (cfg_deps cfg) 1 level (eb_spec enc) (eb_entries enc) (eb_ext enc) = Ok branch"
    and ser: "serialize_block (cfg_deps cfg) (Branch branch) = Ok ser"
    and fits: "length (ser_bytes ser) \<le> block_size_target cfg"
    by (auto simp: prepare_branch_def Let_def and_then_eq_Ok map_err_eq_Ok split: if_splits)
  show "serialize_block (cfg_deps cfg) (Branch branch) = Ok ser" "length (ser_bytes ser) \<le> block_size_target cfg"
    by (fact ser, fact fits)
  have branch: "set (bb_entries branch) = set (eb_entries enc)" "bb_level branch = level"
    using build_branch_block_Ok [OF build] by auto
  have "be_child ` set (eb_entries enc) = be_child ` set ?entries"
    using arg_cong [OF encode_branch_entries_children [OF enc], of set] by simp
  also have "\<dots> = ic_child ` set members"
    unfolding normalize_branch_entries_props(1) by (auto simp: child_entry_def image_image)
  finally show "block_children (Branch branch) = ic_child ` set members" using branch(1) by simp
  show "bb_level branch = level" by (fact branch(2))
qed

text \<open>The outcome of a step that stored the blocks of a journal.\<close>

definition stored :: "index_config \<Rightarrow> 's store_ops \<Rightarrow> 's \<times> block_hash list \<Rightarrow> block list \<Rightarrow> 's \<times> block_hash list \<Rightarrow> bool" where
  "stored cfg ops st journal st' =
     (\<exists>hs. put_journal (cfg_deps cfg) ops journal (fst st) = Some (hs, fst st') \<and> snd st' = snd st @ hs)"

lemma stored_refl: "stored cfg ops st [] st"
  by (simp add: stored_def)

lemma stored_trans:
  "stored cfg ops st xs st1 \<Longrightarrow> stored cfg ops st1 ys st2 \<Longrightarrow> stored cfg ops st (xs @ ys) st2"
  unfolding stored_def using put_journal_append by fastforce

lemma build_branch_grows:
  assumes "build_branch cfg ops members level rb st = (Ok child, st')"
  shows "\<exists>branch. stored cfg ops st [Branch branch] st' \<and>
    grown (cfg_deps cfg) (block_size_target cfg) [Branch branch] (ic_child ` set members) {ic_child child}"
proof -
  from assms obtain branch ser st1 h where prep: "prepare_branch cfg members level rb = Ok (branch, ser)"
    and pers: "persist_block (cfg_deps cfg) ops (Branch branch) (ser_hash ser) st = (Ok h, st')"
    and child: "summarize_group cfg members level h = Ok child"
    by (auto simp: build_branch_def then_do_Ok)
  note p = prepare_branch_Ok [OF prep]
  obtain s where s: "store_put (cfg_deps cfg) ops (fst st) (Branch branch) = (Ok h, s)" "st' = (s, snd st @ [h])" "h = ser_hash ser"
    using persist_block_Ok [OF pers] by blast
  have "ic_child child = h"
    using child by (auto simp: summarize_group_def Let_def and_then_eq_Ok map_ok_eq_Ok)
  moreover have "block_id (cfg_deps cfg) (Branch branch) = Some h" using store_put_id [OF s(1)] .
  moreover have "(journal_edge (cfg_deps cfg) [Branch branch])\<^sup>*\<^sup>* h c" if "c \<in> ic_child ` set members" for c
    using that p(3) calculation(2) by (intro r_into_rtranclp) (auto simp: journal_edge_def)
  ultimately have "grown (cfg_deps cfg) (block_size_target cfg) [Branch branch] (ic_child ` set members) {ic_child child}"
    using p(1-3) by (auto simp: grown_def journal_ids_def)
  moreover have "stored cfg ops st [Branch branch] st'" using s(1,2) by (simp add: stored_def)
  ultimately show ?thesis by blast
qed

lemma build_groups_grows:
  assumes "build_groups cfg ops children level rb groups st = (Ok layer, st')"
  shows "\<exists>journal. stored cfg ops st journal st' \<and>
    grown (cfg_deps cfg) (block_size_target cfg) journal
      (ic_child ` (!) children ` set (concat groups)) (ic_child ` set layer)"
  using assms
proof (induction groups arbitrary: st layer)
  case Nil
  then show ?case by (auto intro!: exI [of _ "[]"] simp: stored_def grown_def)
next
  case (Cons indices groups)
  from Cons.prems obtain members child st1 rest where t: "traverse (index_at children) indices = (Ok members :: indexed_child list indexer_result)"
    and b: "build_branch cfg ops members level rb st = (Ok child, st1)"
    and g: "build_groups cfg ops children level rb groups st1 = (Ok rest, st')" and layer: "layer = child # rest"
    unfolding build_groups.simps then_do_Ok prod.inject outcome.inject by blast
  have "list_all2 (\<lambda>i x. x = children ! i) indices members"
    using t by (auto simp: traverse_eq_Ok index_at_Ok elim: list_all2_mono)
  then have "set members = (!) children ` set indices" by (induction rule: list_all2_induct) auto
  then obtain branch where one: "stored cfg ops st [Branch branch] st1"
    "grown (cfg_deps cfg) (block_size_target cfg) [Branch branch] (ic_child ` (!) children ` set indices) {ic_child child}"
    using build_branch_grows [OF b] by auto
  obtain journal where more: "stored cfg ops st1 journal st'"
    "grown (cfg_deps cfg) (block_size_target cfg) journal (ic_child ` (!) children ` set (concat groups)) (ic_child ` set rest)"
    using Cons.IH [OF g] by blast
  show ?case
    using stored_trans [OF one(1) more(1)] grown_union [OF one(2) more(2)]
    by (intro exI [of _ "[Branch branch] @ journal"]) (auto simp: layer image_Un)
qed

lemma assemble_layers_grows:
  assumes "assemble_layers cfg ops is_root bound current st = (Ok child, st')"
  shows "\<exists>journal. stored cfg ops st journal st' \<and>
    grown (cfg_deps cfg) (block_size_target cfg) journal (ic_child ` set current) {ic_child child}"
  using assms
proof (induction cfg ops is_root bound current st rule: assemble_layers.induct)
  case (1 cfg ops is_root bound current st)
  show ?case
  proof (cases "length current = 1")
    case True
    then obtain c where "current = [c]" by (cases current) auto
    moreover have "assemble_layers cfg ops is_root bound current st = (Ok (hd current), st)"
      using True by (simp add: assemble_layers.simps [of cfg ops is_root bound current])
    ultimately show ?thesis
      using "1.prems" stored_refl [of cfg ops st] grown_refl [of "cfg_deps cfg" "block_size_target cfg" "{ic_child c}"]
      by auto
  next
    case False
    with "1.prems" obtain groups level layer st1
      where gs: "balanced_groups (length current) bound = Ok groups" and lv: "next_level current = Ok level"
        and bl: "build_branch_layer cfg ops current groups level is_root st = (Ok layer, st1)"
        and rest: "assemble_layers cfg ops is_root bound (normalize_current_layer layer) st1 = (Ok child, st')"
      by (auto simp: assemble_layers.simps [of cfg ops is_root bound current] map_err_eq_Ok split: outcome.splits prod.splits)
    have "concat groups = [0..<length current]" using balanced_groups_Ok(1) [OF gs] .
    then have cover: "(!) current ` set (concat groups) = set current" using nth_image [of "length current" current] by simp
    obtain j1 where j1: "stored cfg ops st j1 st1"
      "grown (cfg_deps cfg) (block_size_target cfg) j1 (ic_child ` set current) (ic_child ` set layer)"
      using build_groups_grows [OF bl [unfolded build_branch_layer_def]] unfolding cover by blast
    obtain j2 where j2: "stored cfg ops st1 j2 st'"
      "grown (cfg_deps cfg) (block_size_target cfg) j2 (ic_child ` set layer) {ic_child child}"
      using "1.IH" [OF False _ lv bl [symmetric] refl rest] gs
      unfolding normalize_current_layer_props(2) by auto
    show ?thesis using stored_trans [OF j1(1) j2(1)] grown_trans [OF j1(2) j2(2)] by blast
  qed
qed

lemma assemble_child_set_grows:
  assumes "assemble_child_set cfg ops children is_root bound st = (Ok child, st')"
  shows "\<exists>journal. stored cfg ops st journal st' \<and>
    grown (cfg_deps cfg) (block_size_target cfg) journal (ic_child ` set children) {ic_child child}"
proof (cases "length (normalize_current_layer children) = 1")
  case True
  then obtain c where c: "normalize_current_layer children = [c]" by (cases "normalize_current_layer children") auto
  then have "ic_child ` set children = {ic_child c}" using normalize_current_layer_props(2) [of children] by simp
  with c assms show ?thesis
    using stored_refl [of cfg ops st] grown_refl [of "cfg_deps cfg" "block_size_target cfg" "{ic_child c}"]
    by (auto simp: assemble_child_set_def)
next
  case False
  with assms have "assemble_layers cfg ops is_root bound (normalize_current_layer children) st = (Ok child, st')"
    by (auto simp: assemble_child_set_def Let_def split: if_splits)
  from assemble_layers_grows [OF this] show ?thesis unfolding normalize_current_layer_props(2) .
qed

end
