(* ===== verification/Indexer_Run_Props.thy ===== *)
theory Indexer_Run_Props
  imports Indexer_Run Indexer_Assembly_Props
begin

text \<open>
  What a finished run leaves in the store. The replay stores one leaf for each item of the baseline and routes its
  child to a spill file; the children of every terminal partition, and then of every other partition, are assembled
  into branches. The journal lemmas of \<open>Indexer_Assembly_Props\<close> compose along these steps.
\<close>

section \<open>The replay\<close>

fun leaf_matches :: "deps \<Rightarrow> baseline_item \<Rightarrow> block \<Rightarrow> bool" where
  "leaf_matches d it (Leaf b) =
     (case lb_entries b of
        [e] \<Rightarrow> hash_bytes d (le_embedding e) = embedding_hash it \<and> hash_content d (le_content e) = content_hash it \<and>
               hash_metadata d (le_metadata e) = Ok (metadata_hash it)
      | _ \<Rightarrow> False)"
| "leaf_matches d it (Branch b) = False"

lemma replay_item_Ok:
  assumes "replay_item env item c emb w = (Ok it, w')"
  shows "hash_metadata (cfg_deps (run_cfg env)) (item_metadata item) = Ok (metadata_hash it) \<and>
    content_hash it = hash_content (cfg_deps (run_cfg env)) c \<and> embedding_hash it = hash_bytes (cfg_deps (run_cfg env)) emb"
  using assms
  by (auto simp: replay_item_def Let_def then_do_Ok map_ok_eq_Ok map_err_eq_Ok split: prod.splits)

lemma hash_metadata_canonical:
  assumes "normalize_map d m = Ok m'"
  shows "hash_metadata d m' = hash_metadata d m"
  using assms normalize_map_fix [OF normalize_map_canonical [OF assms]]
  by (simp add: hash_metadata_def canonicalize_metadata_def)

lemma prepare_leaf_Ok:
  assumes "prepare_leaf cfg item c emb = Ok (b, ser)"
  shows "\<exists>leaf e. b = Leaf leaf \<and> lb_entries leaf = [e] \<and> le_embedding e = emb \<and> le_content e = c \<and>
    normalize_map (cfg_deps cfg) (item_metadata item) = Ok (le_metadata e) \<and>
    serialize_block (cfg_deps cfg) b = Ok ser"
  using assms
  by (auto simp: prepare_leaf_def and_then_eq_Ok map_ok_eq_Ok map_err_eq_Ok build_leaf_Ok normalize_Leaf_Ok
      simp del: normalize_block.simps)

text \<open>
  A stretch of the replay: it stored the leaves \<open>bs\<close>, the leaves match the baseline from position \<open>i\<close>, and one child
  for each was appended to the spill files.
\<close>

definition appends :: "(u32 \<times> indexed_child) list \<Rightarrow> byte list list \<Rightarrow> byte list list indexer_result" where
  "appends = for_each (\<lambda>(k, c). append_leaf_child k c)"

definition child_of_leaf :: "deps \<Rightarrow> block \<Rightarrow> u32 \<times> indexed_child \<Rightarrow> bool" where
  "child_of_leaf d b kc = (block_id d b = Some (ic_child (snd kc)) \<and> ic_descendant_count (snd kc) = 1)"

definition replayed ::
    "index_config \<Rightarrow> 's store_ops \<Rightarrow> baseline_item list \<Rightarrow> nat \<Rightarrow> block list
       \<Rightarrow> ('w, 's) replay_state \<Rightarrow> ('w, 's) replay_state \<Rightarrow> bool" where
  "replayed cfg ops base i bs st st' =
     ((\<forall>j < length bs. i + j < length base \<and> leaf_matches (cfg_deps cfg) (base ! (i + j)) (bs ! j)) \<and>
      stored cfg ops (rp_out st) bs (rp_out st') \<and>
      (\<exists>kcs. appends kcs (rp_spill st) = Ok (rp_spill st') \<and> list_all2 (child_of_leaf (cfg_deps cfg)) bs kcs))"

lemma appends_append: "appends (xs @ ys) s = and_then (appends xs s) (appends ys)"
  unfolding appends_def
proof (induction xs arbitrary: s)
  case (Cons kc xs)
  then show ?case by (cases "append_leaf_child (fst kc) (snd kc) s") (simp_all add: case_prod_beta)
qed simp

lemma replayed_refl:
  "rp_out st = rp_out st' \<Longrightarrow> rp_spill st = rp_spill st' \<Longrightarrow> replayed cfg ops base i [] st st'"
  by (auto simp: replayed_def stored_refl appends_def intro: exI [of _ "[]"])

lemma replayed_trans:
  assumes "replayed cfg ops base i xs st st1" and "replayed cfg ops base (i + length xs) ys st1 st2"
  shows "replayed cfg ops base i (xs @ ys) st st2"
proof -
  obtain kcs where k1: "appends kcs (rp_spill st) = Ok (rp_spill st1)" "list_all2 (child_of_leaf (cfg_deps cfg)) xs kcs"
    using assms(1) by (auto simp: replayed_def)
  obtain ls where k2: "appends ls (rp_spill st1) = Ok (rp_spill st2)" "list_all2 (child_of_leaf (cfg_deps cfg)) ys ls"
    using assms(2) by (auto simp: replayed_def)
  have "appends (kcs @ ls) (rp_spill st) = Ok (rp_spill st2)" using k1(1) k2(1) by (simp add: appends_append)
  moreover have "list_all2 (child_of_leaf (cfg_deps cfg)) (xs @ ys) (kcs @ ls)" using k1(2) k2(2) by (rule list_all2_appendI)
  moreover have "stored cfg ops (rp_out st) (xs @ ys) (rp_out st2)"
    using assms stored_trans unfolding replayed_def by blast
  moreover have "i + j < length base \<and> leaf_matches (cfg_deps cfg) (base ! (i + j)) ((xs @ ys) ! j)"
    if "j < length (xs @ ys)" for j
  proof (cases "j < length xs")
    case True
    then show ?thesis using assms(1) by (simp add: replayed_def nth_append)
  next
    case False
    then have "j - length xs < length ys" "i + length xs + (j - length xs) = i + j" using that by auto
    then show ?thesis using assms(2) False by (auto simp: replayed_def nth_append)
  qed
  ultimately show ?thesis unfolding replayed_def by blast
qed

lemma spill_leaf_Ok:
  assumes "spill_leaf emb h st = (Ok (), st')"
  shows "\<exists>k. append_leaf_child k (leaf_child emb h) (rp_spill st) = Ok (rp_spill st') \<and> rp_out st' = rp_out st"
proof -
  obtain k rest where k: "read_partition_ordinal (rp_route st) = (Some k, rest)"
    using assms by (cases "read_partition_ordinal (rp_route st)"; cases "fst (read_partition_ordinal (rp_route st))")
      (auto simp: spill_leaf_def Let_def)
  with assms show ?thesis by (auto simp: spill_leaf_def Let_def then_do_Ok)
qed

lemma replay_leaf_replayed:
  assumes "replay_leaf env ops base i (item, c, emb) st = (Ok (), st')"
  shows "\<exists>leaf. replayed (run_cfg env) ops base i [leaf] st st'"
proof -
  let ?d = "cfg_deps (run_cfg env)"
  obtain it w where it: "replay_item env item c emb (rp_world st) = (Ok it, w)"
    using assms by (cases "replay_item env item c emb (rp_world st)"; cases "fst (replay_item env item c emb (rp_world st))")
      (auto simp: replay_leaf_def Let_def)
  with assms obtain b ser where i: "i < length base" "base ! i = it" and b: "prepare_leaf (run_cfg env) item c emb = Ok (b, ser)"
    and pers: "(case persist_block ?d ops b (ser_hash ser) (rp_out st) of
        (h, out) \<Rightarrow> then_do (h, st\<lparr>rp_world := w, rp_out := out\<rparr>) (\<lambda>h st. spill_leaf emb h st)) = (Ok (), st')"
    by (auto simp: replay_leaf_def Let_def then_do_Ok index_at_Ok split: if_splits)
  obtain h out where h: "persist_block ?d ops b (ser_hash ser) (rp_out st) = (Ok h, out)"
    using pers by (cases "persist_block ?d ops b (ser_hash ser) (rp_out st)";
        cases "fst (persist_block ?d ops b (ser_hash ser) (rp_out st))") auto
  obtain k where k: "append_leaf_child k (leaf_child emb h) (rp_spill st) = Ok (rp_spill st')" "rp_out st' = out"
    using spill_leaf_Ok [of emb h "st\<lparr>rp_world := w, rp_out := out\<rparr>" st'] pers h by auto
  obtain s where s: "store_put ?d ops (fst (rp_out st)) b = (Ok h, s)" "out = (s, snd (rp_out st) @ [h])"
    using persist_block_Ok [OF h] by blast
  have "leaf_matches ?d it b"
    using prepare_leaf_Ok [OF b] replay_item_Ok [OF it] hash_metadata_canonical by auto
  moreover have "stored (run_cfg env) ops (rp_out st) [b] (rp_out st')" using s k(2) by (simp add: stored_def)
  moreover have "child_of_leaf ?d b (k, leaf_child emb h)"
    using store_put_id [OF s(1)] by (simp add: child_of_leaf_def leaf_child_def)
  ultimately show ?thesis using i k(1)
    by (intro exI [of _ b]) (auto simp: replayed_def appends_def intro!: exI [of _ "[(k, leaf_child emb h)]"])
qed

lemma replay_leaves_replayed:
  "replay_leaves env ops base i xs st = (Ok (), st') \<Longrightarrow>
     \<exists>bs. length bs = length xs \<and> replayed (run_cfg env) ops base i bs st st'"
proof (induction xs arbitrary: i st)
  case Nil
  then show ?case using replayed_refl [of st st] by auto
next
  case (Cons x xs)
  obtain item c emb where x: "x = (item, c, emb)" by (cases x) auto
  from Cons.prems obtain st1 where one: "replay_leaf env ops base i (item, c, emb) st = (Ok (), st1)"
    and rest: "replay_leaves env ops base (i + 1) xs st1 = (Ok (), st')" by (auto simp: then_do_Ok x)
  obtain leaf where "replayed (run_cfg env) ops base i [leaf] st st1" using replay_leaf_replayed [OF one] by blast
  moreover obtain bs where "length bs = length xs" "replayed (run_cfg env) ops base (i + 1) bs st1 st'"
    using Cons.IH [OF rest] by blast
  ultimately show ?case using replayed_trans [of "run_cfg env" ops base i "[leaf]" st st1 bs st']
    by (intro exI [of _ "leaf # bs"]) auto
qed

lemma resolve_items_length: "resolve_items env items w = (Ok cs, w') \<Longrightarrow> length cs = length items"
  by (induction items arbitrary: w cs) (auto simp: then_do_Ok split: prod.splits if_splits)

lemma replay_batch_replayed:
  assumes "replay_batch env ops base i items st = (Ok (), st')"
  shows "\<exists>bs. length bs = length items \<and> replayed (run_cfg env) ops base i bs st st'"
proof -
  obtain cs w where cs: "resolve_items env items (rp_world st) = (Ok cs, w)"
    using assms by (cases "resolve_items env items (rp_world st)"; cases "fst (resolve_items env items (rp_world st))")
      (auto simp: replay_batch_def split: if_splits)
  obtain embs w' where embs: "embed_contents env cs w = (Ok embs, w')"
    using assms cs by (cases "embed_contents env cs w"; cases "fst (embed_contents env cs w)")
      (auto simp: replay_batch_def split: if_splits)
  with assms cs have len: "length embs = length items"
    and rest: "replay_leaves env ops base i (zip items (zip cs embs)) (st\<lparr>rp_world := w'\<rparr>) = (Ok (), st')"
    by (auto simp: replay_batch_def split: if_splits)
  obtain bs where bs: "length bs = length (zip items (zip cs embs))" "replayed (run_cfg env) ops base i bs (st\<lparr>rp_world := w'\<rparr>) st'"
    using replay_leaves_replayed [OF rest] by blast
  have "replayed (run_cfg env) ops base i [] st (st\<lparr>rp_world := w'\<rparr>)" by (rule replayed_refl) simp_all
  from replayed_trans [OF this, of bs st'] bs len resolve_items_length [OF cs] show ?thesis by auto
qed

lemma replay_all_replayed:
  "replay_all env ops base i batches st = (Ok n, st') \<Longrightarrow>
     \<exists>bs. n = i + length bs \<and> replayed (run_cfg env) ops base i bs st st'"
proof (induction batches arbitrary: i st)
  case Nil
  then show ?case using replayed_refl [of st st] by auto
next
  case (Cons items batches)
  show ?case
  proof (cases "items = []")
    case True
    then show ?thesis using Cons by simp
  next
    case False
    with Cons.prems obtain st1 where one: "replay_batch env ops base i items st = (Ok (), st1)"
      and rest: "replay_all env ops base (i + length items) batches st1 = (Ok n, st')" by (auto simp: then_do_Ok)
    obtain bs where bs: "length bs = length items" "replayed (run_cfg env) ops base i bs st st1"
      using replay_batch_replayed [OF one] by blast
    obtain bs' where "n = i + length items + length bs'" "replayed (run_cfg env) ops base (i + length items) bs' st1 st'"
      using Cons.IH [OF rest] by blast
    then show ?thesis using replayed_trans [OF bs(2), of bs' st'] bs(1) by (intro exI [of _ "bs @ bs'"]) auto
  qed
qed

lemma replay_replayed:
  assumes "replay env ops base batches st = (Ok (), st')"
  shows "\<exists>bs. length bs = length base \<and> bs \<noteq> [] \<and> replayed (run_cfg env) ops base 0 bs st st'"
proof -
  from assms obtain n st1 where n: "replay_all env ops base 0 batches st = (Ok n, st1)"
    and st': "n = length base" "n \<noteq> 0" "rp_out st' = rp_out st1" "rp_spill st' = rp_spill st1"
    by (auto simp: replay_def then_do_Ok Let_def split: if_splits prod.splits)
  obtain bs where bs: "n = length bs" "replayed (run_cfg env) ops base 0 bs st st1"
    using replay_all_replayed [OF n] by auto
  have "replayed (run_cfg env) ops base (0 + length bs) [] st1 st'" using st' by (intro replayed_refl) simp_all
  from replayed_trans [OF bs(2) this] bs(1) st' show ?thesis by auto
qed

text \<open>Every leaf is in the spill file of some partition.\<close>

lemma appends_in_range: "appends kcs spill = Ok spill' \<Longrightarrow> kc \<in> set kcs \<Longrightarrow> unat (fst kc) < length spill"
  unfolding appends_def
proof (induction kcs arbitrary: spill)
  case (Cons x kcs)
  then obtain spill1 where one: "append_leaf_child (fst x) (snd x) spill = Ok spill1"
    and rest: "for_each (\<lambda>(k, c). append_leaf_child k c) kcs spill1 = Ok spill'"
    by (cases x) (auto simp: and_then_eq_Ok)
  have "unat (fst x) < length spill" "length spill1 = length spill"
    using one by (auto simp: append_leaf_child_def map_ok_eq_Ok split: if_splits)
  then show ?case using Cons.IH [OF rest] Cons.prems(2) by auto
qed simp

lemma block_id_wf: "codec d \<Longrightarrow> block_id d b = Some h \<Longrightarrow> hash_wf h"
  by (auto simp: block_id_def serialize_block_def hash_wf_def and_then_eq_Ok map_err_eq_Ok map_ok_eq_Ok
      compute_block_hash_def codec.digest_length split: outcome.splits)

lemma spilled_leaves:
  assumes "appends kcs (spill_directory_new n) = Ok spill" and "list_all2 (child_of_leaf d) bs kcs"
    and "codec d" and "list_all2 (\<lambda>q cs. read_partition_children spill q = Ok cs) [0..<n] css"
  shows "ic_child ` set (concat css) = journal_ids d bs"
proof -
  have "list_all (child_wf \<circ> snd) kcs"
    using assms(2) by (induction rule: list_all2_induct)
      (auto simp: child_of_leaf_def child_wf_def usize_max_def dest: block_id_wf [OF assms(3)])
  then have read: "read_partition_children spill q = Ok (routed q kcs)" if "q < n" for q
    using spilled_children(2) [OF assms(1) [unfolded appends_def] that] by blast
  have css: "css = map (\<lambda>q. routed q kcs) [0..<n]"
    using assms(4) read by (intro nth_equalityI) (auto simp: list_all2_conv_all_nth)
  have "unat (fst kc) < n" if "kc \<in> set kcs" for kc
    using appends_in_range [OF assms(1) that] by (simp add: spill_directory_new_def)
  then have "set (concat css) = snd ` set kcs" by (force simp: css routed_def)
  moreover have "ic_child ` snd ` set kcs = journal_ids d bs"
    using assms(2) by (induction rule: list_all2_induct) (auto simp: journal_ids_def child_of_leaf_def)
  ultimately show ?thesis by simp
qed

section \<open>Materialisation\<close>

lemma materialize_terminal_grows:
  assumes "materialize_terminal cfg ops bound rp spill counts q pid st = (Ok c, st')"
  shows "\<exists>cs journal. read_partition_children spill q = Ok cs \<and> stored cfg ops st journal st' \<and>
    grown (cfg_deps cfg) (block_size_target cfg) journal (ic_child ` set cs) {ic_child c}"
proof -
  from assms obtain cs where cs: "read_partition_children spill q = Ok cs" "cs \<noteq> []"
    and st': "(if length cs = 1 then (Ok (hd cs), st) else assemble_child_set cfg ops cs (pid = rp) bound st) = (Ok c, st')"
    by (auto simp: materialize_terminal_def then_do_Ok split: if_splits)
  show ?thesis
  proof (cases "length cs = 1")
    case True
    then obtain x where "cs = [x]" by (cases cs) auto
    then show ?thesis using cs(1) st' stored_refl [of cfg ops st] grown_refl [of "cfg_deps cfg" "block_size_target cfg" "{ic_child x}"]
      by (intro exI [of _ cs] exI [of _ "[]"]) auto
  next
    case False
    with st' have "assemble_child_set cfg ops cs (pid = rp) bound st = (Ok c, st')" by simp
    from assemble_child_set_grows [OF this] cs(1) show ?thesis by blast
  qed
qed

lemma materialize_terminals_grows:
  assumes "materialize_terminals cfg ops bound rp spill counts q pids mats st = (Ok mats', st')" and "distinct pids"
  shows "\<exists>css cs journal. list_all2 (\<lambda>q cs. read_partition_children spill q = Ok cs) [q..<q + length pids] css \<and>
    length cs = length pids \<and> mats' = mats ++ map_of (zip pids cs) \<and> stored cfg ops st journal st' \<and>
    grown (cfg_deps cfg) (block_size_target cfg) journal (ic_child ` set (concat css)) (ic_child ` set cs)"
  using assms
proof (induction pids arbitrary: q mats st)
  case Nil
  then show ?case using stored_refl [of cfg ops st] grown_refl [of "cfg_deps cfg" "block_size_target cfg" "{}"]
    by (intro exI [of _ "[]"]) auto
next
  case (Cons pid pids)
  from Cons.prems obtain c st1 where one: "materialize_terminal cfg ops bound rp spill counts q pid st = (Ok c, st1)"
    and rest: "materialize_terminals cfg ops bound rp spill counts (q + 1) pids (mats(pid \<mapsto> c)) st1 = (Ok mats', st')"
    by (auto simp: then_do_Ok)
  obtain ch j1 where j1: "read_partition_children spill q = Ok ch" "stored cfg ops st j1 st1"
    "grown (cfg_deps cfg) (block_size_target cfg) j1 (ic_child ` set ch) {ic_child c}"
    using materialize_terminal_grows [OF one] by blast
  obtain css cs j2 where j2: "list_all2 (\<lambda>q cs. read_partition_children spill q = Ok cs) [q + 1..<q + 1 + length pids] css"
    "length cs = length pids" "mats' = (mats(pid \<mapsto> c)) ++ map_of (zip pids cs)" "stored cfg ops st1 j2 st'"
    "grown (cfg_deps cfg) (block_size_target cfg) j2 (ic_child ` set (concat css)) (ic_child ` set cs)"
    using Cons.IH [OF rest distinct_tl [OF Cons.prems(2), simplified]] by blast
  have upt_cons: "[q..<q + length (pid # pids)] = q # [q + 1..<q + 1 + length pids]"
    by (simp add: upt_conv_Cons del: upt_Suc)
  have "pid \<notin> dom (map_of (zip pids cs))" using Cons.prems(2) j2(2) by simp
  then have "mats' = mats ++ map_of (zip (pid # pids) (c # cs))" using j2(3) by (simp add: map_add_upd_left)
  moreover have "list_all2 (\<lambda>q cs. read_partition_children spill q = Ok cs) [q..<q + length (pid # pids)] (ch # css)"
    using j1(1) j2(1) unfolding upt_cons by (simp del: upt_Suc)
  moreover have "grown (cfg_deps cfg) (block_size_target cfg) (j1 @ j2) (ic_child ` set (concat (ch # css))) (ic_child ` set (c # cs))"
    using grown_union [OF j1(3) j2(5)] by (simp add: image_Un)
  ultimately show ?case using j2(2) stored_trans [OF j1(2) j2(4)]
    by (metis (no_types, lifting) length_Cons)
qed

text \<open>The identifiers of the materialised terminal partitions among those of a set.\<close>

definition terminal_ids ::
    "finalized_partition list \<Rightarrow> (string \<rightharpoonup> indexed_child) \<Rightarrow> string set \<Rightarrow> block_hash set" where
  "terminal_ids ps mats v =
     {h. \<exists>j \<in> v. \<exists>p c. partition_map ps j = Some p \<and> terminal p \<and> mats j = Some c \<and> h = ic_child c}"

lemma terminal_ids_Un: "terminal_ids ps mats (u \<union> v) = terminal_ids ps mats u \<union> terminal_ids ps mats v"
  by (auto simp: terminal_ids_def)

lemma materialize_grows:
  "walk ps i v = Ok (items, v') \<Longrightarrow> materialize_partition fuel cfg ops bound ps mats i is_root st = (Ok c, st') \<Longrightarrow>
     \<exists>journal. stored cfg ops st journal st' \<and>
       grown (cfg_deps cfg) (block_size_target cfg) journal (terminal_ids ps mats (v' - v)) {ic_child c}"
  "walk_children ps ks v = Ok (items, v') \<Longrightarrow> materialize_children fuel cfg ops bound ps mats ks st = (Ok cs, st') \<Longrightarrow>
     \<exists>journal. stored cfg ops st journal st' \<and>
       grown (cfg_deps cfg) (block_size_target cfg) journal (terminal_ids ps mats (v' - v)) (ic_child ` set cs)"
proof (induction ps i v and ps ks v arbitrary: items v' fuel is_root st c st' and items v' fuel st cs st'
    rule: walk_walk_children.induct)
  case (1 ps i v)
  from walk_Ok_fresh [OF "1.prems"(1)] obtain p where p: "partition_map ps i = Some p" and v: "i \<notin> v" by blast
  obtain k where k: "fuel = Suc k" using "1.prems"(2) by (cases fuel) auto
  show ?case
  proof (cases "terminal p")
    case True
    then have "v' = insert i v" using "1.prems"(1) p v by (auto simp: walk.simps)
    moreover have "mats i = Some c" "st' = st" using "1.prems"(2) p True by (auto simp: k then_do_Ok ok_or_eq_Ok)
    ultimately have "terminal_ids ps mats (v' - v) = {ic_child c}" using v p True by (auto simp: terminal_ids_def)
    then show ?thesis
      using stored_refl [of cfg ops st] grown_refl [of "cfg_deps cfg" "block_size_target cfg" "{ic_child c}"] \<open>st' = st\<close> by auto
  next
    case False
    obtain u where u: "walk_children ps (child_ids p) (insert i v) = Ok (u, v')"
      using walk_nonterminal_Ok [OF "1.prems"(1) p False] by blast
    from "1.prems"(2) p False obtain cs st1 where cs: "materialize_children k cfg ops bound ps mats (child_ids p) st = (Ok cs, st1)"
      and asm: "assemble_child_set cfg ops cs is_root bound st1 = (Ok c, st')" by (auto simp: k then_do_Ok)
    obtain j1 where j1: "stored cfg ops st j1 st1"
      "grown (cfg_deps cfg) (block_size_target cfg) j1 (terminal_ids ps mats (v' - insert i v)) (ic_child ` set cs)"
      using "1.IH" [OF p v False u cs] by blast
    obtain j2 where j2: "stored cfg ops st1 j2 st'"
      "grown (cfg_deps cfg) (block_size_target cfg) j2 (ic_child ` set cs) {ic_child c}"
      using assemble_child_set_grows [OF asm] by blast
    have "terminal_ids ps mats (v' - insert i v) = terminal_ids ps mats (v' - v)"
      using p False unfolding terminal_ids_def by (intro Collect_cong) (metis Diff_iff insert_iff option.inject)
    then show ?thesis using stored_trans [OF j1(1) j2(1)] grown_trans [OF j1(2) j2(2)] by auto
  qed
next
  case (2 ps v)
  then show ?case using stored_refl [of cfg ops st] grown_refl [of "cfg_deps cfg" "block_size_target cfg" "{}"]
    by (auto simp: terminal_ids_def)
next
  case (3 ps k ks v)
  from "3.prems"(1) obtain a v1 b where a: "walk ps k v = Ok (a, v1)" and b: "walk_children ps ks v1 = Ok (b, v')"
    unfolding walk_children_Cons_Ok by blast
  from "3.prems"(2) obtain x st1 xs where x: "materialize_partition fuel cfg ops bound ps mats k False st = (Ok x, st1)"
    and xs: "materialize_children fuel cfg ops bound ps mats ks st1 = (Ok xs, st')" and cs: "cs = x # xs"
    by (auto simp: then_do_Ok)
  obtain j1 where j1: "stored cfg ops st j1 st1"
    "grown (cfg_deps cfg) (block_size_target cfg) j1 (terminal_ids ps mats (v1 - v)) {ic_child x}"
    using "3.IH"(1) [OF a x] by blast
  obtain j2 where j2: "stored cfg ops st1 j2 st'"
    "grown (cfg_deps cfg) (block_size_target cfg) j2 (terminal_ids ps mats (v' - v1)) (ic_child ` set xs)"
    using "3.IH"(2) [OF a refl b xs] by blast
  have "v' - v = (v1 - v) \<union> (v' - v1)" using walk_spec(1) [OF a] walk_spec(2) [OF b] by auto
  then show ?case using stored_trans [OF j1(1) j2(1)] grown_union [OF j1(2) j2(2)]
    by (auto simp: terminal_ids_Un cs)
qed

text \<open>Validated hierarchies: the terminal partitions the routing plan names are all there are.\<close>

lemma routing_plan_Ok:
  assumes "build_partition_routing_plan h n = Ok plan"
  shows "validate_partition_hierarchy h n = Ok ()" and "terminal_partition_ids plan = map partition_id (terminal_partitions h)"
  using assms by (auto simp: build_partition_routing_plan_def Let_def and_then_eq_Ok map_err_eq_Ok split: if_splits)

lemma terminal_ids_all:
  assumes valid: "validate_partition_hierarchy h n = Ok ()"
    and pids: "pids = map partition_id (terminal_partitions h)" and len: "length cs = length pids"
  shows "distinct pids"
    and "terminal_ids (partitions h) (map_of (zip pids cs)) (partition_id ` set (partitions h)) = ic_child ` set cs"
proof -
  note dist = validated_tree(1) [OF valid]
  have "mset (map partition_id (terminal_partitions h)) = mset (map partition_id (filter terminal (partitions h)))"
    by (simp add: terminal_partitions_def)
  then show d: "distinct pids" using distinct_map_filter [OF dist] mset_eq_imp_distinct_iff pids by blast
  have here: "\<exists>p. partition_map (partitions h) j = Some p \<and> terminal p" "j \<in> partition_id ` set (partitions h)"
    if "j \<in> set pids" for j
    using that distinct_partition_map [OF dist] by (auto simp: pids terminal_partitions_def)
  have zip: "map_of (zip pids cs) j = Some c \<longleftrightarrow> (j, c) \<in> set (zip pids cs)" for j c
    using d len by simp
  have "terminal_ids (partitions h) (map_of (zip pids cs)) (partition_id ` set (partitions h)) = ic_child ` snd ` set (zip pids cs)"
  proof (intro subset_antisym subsetI)
    fix x assume "x \<in> ic_child ` snd ` set (zip pids cs)"
    then obtain j c where jc: "(j, c) \<in> set (zip pids cs)" "x = ic_child c" by auto
    with here [OF set_zip_leftD [OF jc(1)]] zip [of j c]
    show "x \<in> terminal_ids (partitions h) (map_of (zip pids cs)) (partition_id ` set (partitions h))"
      unfolding terminal_ids_def by blast
  next
    fix x assume "x \<in> terminal_ids (partitions h) (map_of (zip pids cs)) (partition_id ` set (partitions h))"
    then obtain j c where "map_of (zip pids cs) j = Some c" "x = ic_child c" unfolding terminal_ids_def by blast
    then show "x \<in> ic_child ` snd ` set (zip pids cs)" unfolding zip by force
  qed
  moreover have "snd ` set (zip pids cs) = set cs" using len by (metis map_snd_zip set_map)
  ultimately show "terminal_ids (partitions h) (map_of (zip pids cs)) (partition_id ` set (partitions h)) = ic_child ` set cs"
    by simp
qed

lemma do_finalize_Ok:
  assumes "do_finalize env ops batches base h (w, s) = (Ok res, (w', s'))"
  shows "\<exists>bound plan rp mats out c out'. build_partition_routing_plan h (length base) = Ok plan \<and>
    replay env ops base batches \<lparr>rp_world = w, rp_out = (s, []), rp_route = route plan,
        rp_spill = spill_directory_new (length (terminal_partition_ids plan))\<rparr> = (Ok (), rp) \<and>
    materialize_terminals (run_cfg env) ops bound (root_partition_id h) (rp_spill rp)
        (terminal_partition_item_counts plan) 0 (terminal_partition_ids plan) Map.empty (rp_out rp) = (Ok mats, out) \<and>
    materialize_partition (length (partitions h)) (run_cfg env) ops bound (partitions h) mats
        (root_partition_id h) True out = (Ok c, out') \<and>
    res = \<lparr>root_id = ic_child c, result_block_ids = dedup_sort_ids (snd out')\<rparr> \<and> s' = fst out'"
proof -
  let ?st = "\<lambda>plan. \<lparr>rp_world = w, rp_out = (s, []), rp_route = route plan,
              rp_spill = spill_directory_new (length (terminal_partition_ids plan))\<rparr>"
  let ?mat = "\<lambda>bound plan rp. then_do (materialize_terminals (run_cfg env) ops bound (root_partition_id h) (rp_spill rp)
        (terminal_partition_item_counts plan) 0 (terminal_partition_ids plan) Map.empty (rp_out rp)) (\<lambda>mats out.
        materialize_partition (length (partitions h)) (run_cfg env) ops bound (partitions h) mats
        (root_partition_id h) True out)"
  obtain bound where bound: "map_err TerminalPartitionMaterialization (materializability_bound (cfg_deps (run_cfg env))
      (index_spec (run_cfg env)) (block_size_target (run_cfg env))) = Ok bound"
    using assms by (cases "map_err TerminalPartitionMaterialization (materializability_bound (cfg_deps (run_cfg env))
      (index_spec (run_cfg env)) (block_size_target (run_cfg env)))") (simp_all add: do_finalize_def Let_def)
  obtain plan where plan: "build_partition_routing_plan h (length base) = Ok plan"
    using assms bound by (cases "build_partition_routing_plan h (length base)") (simp_all add: do_finalize_def Let_def)
  have rest: "(case replay env ops base batches (?st plan) of
        (Err e, rp) \<Rightarrow> (Err e, (rp_world rp, fst (rp_out rp)))
      | (Panic, rp) \<Rightarrow> (Panic, (rp_world rp, fst (rp_out rp)))
      | (Ok _, rp) \<Rightarrow> (case ?mat bound plan rp of
             (res, out) \<Rightarrow>
               (map_ok (\<lambda>c. \<lparr>root_id = ic_child c, result_block_ids = dedup_sort_ids (snd out)\<rparr>) res,
                (rp_world rp, fst out)))) = (Ok res, (w', s'))"
    using assms by (simp add: do_finalize_def Let_def bound plan)
  obtain rp where rp: "replay env ops base batches (?st plan) = (Ok (), rp)"
    using rest by (cases "replay env ops base batches (?st plan)"; cases "fst (replay env ops base batches (?st plan))") auto
  obtain c out' where out': "?mat bound plan rp = (Ok c, out')"
    and res: "res = \<lparr>root_id = ic_child c, result_block_ids = dedup_sort_ids (snd out')\<rparr>" "s' = fst out'"
    using rest unfolding rp by (cases "?mat bound plan rp") (auto simp: map_ok_eq_Ok)
  from out' show ?thesis unfolding then_do_Ok using plan rp res by blast
qed

lemma do_finalize_journal:
  assumes "codec (cfg_deps (run_cfg env))" and "do_finalize env ops batches base h (w, s) = (Ok res, (w', s'))"
  shows "\<exists>bs journal hs. length bs = length base \<and>
    (\<forall>j < length base. leaf_matches (cfg_deps (run_cfg env)) (base ! j) (bs ! j)) \<and>
    put_journal (cfg_deps (run_cfg env)) ops (bs @ journal) s = Some (hs, s') \<and> result_block_ids res = dedup_sort_ids hs \<and>
    grown (cfg_deps (run_cfg env)) (block_size_target (run_cfg env)) journal
      (journal_ids (cfg_deps (run_cfg env)) bs) {root_id res}"
proof -
  let ?cfg = "run_cfg env" and ?d = "cfg_deps (run_cfg env)"
  let ?st = "\<lambda>plan. \<lparr>rp_world = w, rp_out = (s, []), rp_route = route plan,
              rp_spill = spill_directory_new (length (terminal_partition_ids plan))\<rparr>"
  from do_finalize_Ok [OF assms(2)] obtain bound plan rp mats out c out' where
    plan: "build_partition_routing_plan h (length base) = Ok plan"
    and rp: "replay env ops base batches (?st plan) = (Ok (), rp)"
    and mats: "materialize_terminals ?cfg ops bound (root_partition_id h) (rp_spill rp)
                     (terminal_partition_item_counts plan) 0 (terminal_partition_ids plan) Map.empty (rp_out rp) = (Ok mats, out)"
    and c: "materialize_partition (length (partitions h)) ?cfg ops bound (partitions h) mats
                    (root_partition_id h) True out = (Ok c, out')"
    and res: "res = \<lparr>root_id = ic_child c, result_block_ids = dedup_sort_ids (snd out')\<rparr>" and s': "s' = fst out'"
    by blast
  note valid = routing_plan_Ok(1) [OF plan]
  let ?pids = "terminal_partition_ids plan"
  obtain bs where bs: "length bs = length base" "replayed ?cfg ops base 0 bs (?st plan) rp"
    using replay_replayed [OF rp] by blast
  obtain kcs where kcs: "appends kcs (spill_directory_new (length ?pids)) = Ok (rp_spill rp)" "list_all2 (child_of_leaf ?d) bs kcs"
    using bs(2) by (auto simp: replayed_def)
  have dist: "distinct ?pids"
    by (rule terminal_ids_all(1) [OF valid routing_plan_Ok(2) [OF plan], of "replicate (length ?pids) undefined"]) simp
  obtain css cs j1 where css: "list_all2 (\<lambda>q cs. read_partition_children (rp_spill rp) q = Ok cs) [0..<length ?pids] css"
    "length cs = length ?pids" "mats = map_of (zip ?pids cs)" and j1: "stored ?cfg ops (rp_out rp) j1 out"
    "grown ?d (block_size_target ?cfg) j1 (ic_child ` set (concat css)) (ic_child ` set cs)"
    using materialize_terminals_grows [OF mats dist] by auto
  obtain j2 where j2: "stored ?cfg ops out j2 out'" "grown ?d (block_size_target ?cfg) j2 (ic_child ` set cs) {ic_child c}"
    using materialize_grows(1) [OF validated_tree(2) [OF valid] c]
      terminal_ids_all(2) [OF valid routing_plan_Ok(2) [OF plan] css(2)] css(3) by auto
  have "stored ?cfg ops (s, []) (bs @ j1 @ j2) out'"
    using bs(2) stored_trans [OF _ stored_trans [OF j1(1) j2(1)], of "(s, [])" bs] by (simp add: replayed_def)
  then have "put_journal ?d ops (bs @ j1 @ j2) s = Some (snd out', s')" by (auto simp: stored_def s')
  moreover have "grown ?d (block_size_target ?cfg) (j1 @ j2) (journal_ids ?d bs) {root_id res}"
    using grown_trans [OF j1(2) j2(2)] spilled_leaves [OF kcs assms(1) css(1)] by (simp add: res)
  ultimately show ?thesis using bs by (auto simp: replayed_def res)
qed

lemma finalize_Ok:
  assumes "finalize env ops batches (run, ws) = (Ok res, (run', ws'))"
  shows "\<exists>base h. baseline run = Some base \<and> finalized_hierarchy run = Some h \<and>
    do_finalize env ops batches base h ws = (Ok res, ws') \<and> run' = run\<lparr>phase_of := Finalized\<rparr>"
proof -
  from assms obtain base h where *: "baseline run = Some base" "finalized_hierarchy run = Some h"
    "(case do_finalize env ops batches base h ws of
        (res, ws) \<Rightarrow> (res, (if is_ok res then run\<lparr>phase_of := Finalized\<rparr> else run, ws))) = (Ok res, (run', ws'))"
    by (auto simp: finalize_def then_do_Ok ok_or_eq_Ok split: if_splits)
  then show ?thesis by (cases "do_finalize env ops batches base h ws") (auto simp: is_ok_def)
qed

text \<open>
  C12: a successful \<open>finalize\<close> has stored one leaf for each item of the baseline, with the
  embedding, content and metadata that were fingerprinted in the first pass, and then branch blocks. Every leaf is
  reached from the returned root; every branch fits the block size target and points only to blocks of the same run;
  the returned identifiers are those of the stored blocks, sorted and without duplicates. The only
  assumption is on the CBOR writer and the digest.
\<close>

theorem finalized_index_reachable:
  assumes "codec (cfg_deps (run_cfg env))"
    and "finalize env ops batches (run, (w, s)) = (Ok res, (run', (w', s')))"
  shows "\<exists>base ls branches hs. baseline run = Some base \<and> list_all2 (leaf_matches (cfg_deps (run_cfg env))) base ls \<and>
    put_journal (cfg_deps (run_cfg env)) ops (ls @ branches) s = Some (hs, s') \<and>
    set (result_block_ids res) = set hs \<and> distinct (result_block_ids res) \<and>
    sorted (map as_bytes (result_block_ids res)) \<and> root_id res \<in> set hs \<and>
    (\<forall>h \<in> journal_ids (cfg_deps (run_cfg env)) ls. (journal_edge (cfg_deps (run_cfg env)) branches)\<^sup>*\<^sup>* (root_id res) h) \<and>
    (\<forall>b \<in> set branches. (\<exists>ser. serialize_block (cfg_deps (run_cfg env)) b = Ok ser \<and>
        length (ser_bytes ser) \<le> block_size_target (run_cfg env)) \<and> block_children b \<subseteq> set hs) \<and>
    phase_of run' = Finalized"
proof -
  let ?d = "cfg_deps (run_cfg env)"
  obtain base h where base: "baseline run = Some base"
    and fin: "do_finalize env ops batches base h (w, s) = (Ok res, (w', s'))" and run': "phase_of run' = Finalized"
    using finalize_Ok [OF assms(2)] by auto
  obtain ls branches hs where j: "length ls = length base" "\<forall>j < length base. leaf_matches ?d (base ! j) (ls ! j)"
    "put_journal ?d ops (ls @ branches) s = Some (hs, s')" "result_block_ids res = dedup_sort_ids hs"
    "grown ?d (block_size_target (run_cfg env)) branches (journal_ids ?d ls) {root_id res}"
    using do_finalize_journal [OF assms(1) fin] by blast
  have "list_all2 (leaf_matches ?d) base ls" using j(1,2) by (simp add: list_all2_conv_all_nth)
  moreover have "set hs = journal_ids ?d ls \<union> journal_ids ?d branches" using put_journal_ids [OF j(3)] by simp
  ultimately show ?thesis
    using base run' j(3-5) dedup_sort_ids_props [of hs] unfolding grown_def by (intro exI conjI) auto
qed

section \<open>The recursion over the hierarchy ends\<close>

lemma materialize_fuel:
  "walk ps i v = Ok (items, v') \<Longrightarrow> card (v' - v) \<le> m \<Longrightarrow> card (v' - v) \<le> n \<Longrightarrow>
     materialize_partition m cfg ops bound ps mats i is_root st = materialize_partition n cfg ops bound ps mats i is_root st"
  "walk_children ps ks v = Ok (items, v') \<Longrightarrow> card (v' - v) \<le> m \<Longrightarrow> card (v' - v) \<le> n \<Longrightarrow>
     materialize_children m cfg ops bound ps mats ks st = materialize_children n cfg ops bound ps mats ks st"
proof (induction ps i v and ps ks v arbitrary: items v' m n is_root st and items v' m n st rule: walk_walk_children.induct)
  case (1 ps i v)
  from walk_Ok_fresh [OF "1.prems"(1)] obtain p where p: "partition_map ps i = Some p" and v: "i \<notin> v" by blast
  note spec = walk_spec(1) [OF "1.prems"(1)]
  have card: "Suc (card (v' - insert i v)) = card (v' - v)" using visits_card_insert [of i v v' ps] spec v by blast
  then obtain k l where k: "m = Suc k" "n = Suc l" using "1.prems"(2,3) by (cases m; cases n) auto
  show ?case
  proof (cases "terminal p")
    case True
    then show ?thesis using p by (simp add: k)
  next
    case False
    obtain u where u: "walk_children ps (child_ids p) (insert i v) = Ok (u, v')"
      using walk_nonterminal_Ok [OF "1.prems"(1) p False] by blast
    have "card (v' - insert i v) \<le> k" "card (v' - insert i v) \<le> l" using card "1.prems"(2,3) k by auto
    from "1.IH" [OF p v False u this] show ?thesis using p False by (simp add: k)
  qed
next
  case (3 ps c cs v)
  from "3.prems"(1) obtain a v1 b where a: "walk ps c v = Ok (a, v1)" and b: "walk_children ps cs v1 = Ok (b, v')"
    unfolding walk_children_Cons_Ok by blast
  have "v' - v \<subseteq> dom (partition_map ps)" "v \<subseteq> v1" "v1 \<subseteq> v'"
    using walk_spec(1) [OF a] walk_spec(2) [OF b] by auto
  from visits_card [OF this(3,2,1)] have le: "card (v' - v1) \<le> card (v' - v)" "card (v1 - v) \<le> card (v' - v)" by auto
  have "materialize_partition m cfg ops bound ps mats c False st = materialize_partition n cfg ops bound ps mats c False st" for st
    by (rule "3.IH"(1) [OF a]) (use le "3.prems"(2,3) in linarith)+
  moreover have "materialize_children m cfg ops bound ps mats cs st = materialize_children n cfg ops bound ps mats cs st" for st
    by (rule "3.IH"(2) [OF a refl b]) (use le "3.prems"(2,3) in linarith)+
  ultimately show ?case by (simp only: materialize_children.simps)
qed simp


end
