(* ===== verification/Indexer_Lifecycle.thy ===== *)
theory Indexer_Lifecycle
  imports Indexer_Run
begin

text \<open>
  The life of a run as a step relation: a caller may call the operations of \<open>Indexer_Run\<close> in any order, with any
  arguments, and go on after an error. What holds in every state a run can reach.
\<close>

section \<open>Steps\<close>

inductive run_step ::
    "('r, 'w) run_env \<Rightarrow> 's store_ops \<Rightarrow> indexing_run \<times> 'w \<times> 's \<Rightarrow> indexing_run \<times> 'w \<times> 's \<Rightarrow> bool"
  for env ops where
  ingest: "ingest_batch env batch (run, w) = (res, (run', w')) \<Longrightarrow> run_step env ops (run, w, s) (run', w', s)"
| finish: "finish_pass env (run, w) = (rep, (run', w')) \<Longrightarrow> run_step env ops (run, w, s) (run', w', s)"
| complete: "mark_planning_complete run = (res, run') \<Longrightarrow> run_step env ops (run, w, s) (run', w, s)"
| final: "finalize env ops batches (run, (w, s)) = (fin, (run', (w', s'))) \<Longrightarrow>
    run_step env ops (run, w, s) (run', w', s')"

inductive run_reaches ::
    "('r, 'w) run_env \<Rightarrow> 's store_ops \<Rightarrow> indexing_run \<times> 'w \<times> 's \<Rightarrow> indexing_run \<times> 'w \<times> 's \<Rightarrow> bool"
  for env ops where
  here: "run_reaches env ops st st"
| step: "run_reaches env ops st st1 \<Longrightarrow> run_step env ops st1 st2 \<Longrightarrow> run_reaches env ops st st2"

section \<open>What each operation changes\<close>

lemma record_items_change:
  assumes "record_items env i xs (run, w) = (res, (run', w'))"
  shows "\<exists>its. run' = run\<lparr>current_pass_items := current_pass_items run @ its\<rparr> \<and>
    (baseline run \<noteq> None \<longrightarrow> its = []) \<and> (baseline run = None \<longrightarrow> res = Ok () \<longrightarrow> length its = length xs) \<and>
    (\<forall>base. baseline run = Some base \<longrightarrow> res = Ok () \<longrightarrow> xs \<noteq> [] \<longrightarrow> i + length xs \<le> length base)"
  using assms
proof (induction xs arbitrary: i run w)
  case Nil
  then show ?case by (intro exI [of _ "[]"]) auto
next
  case (Cons y rest)
  obtain item c emb where y: "y = (item, c, emb)" by (cases y) auto
  obtain it w1 where it: "replay_item env item c emb w = (it, w1)" by fastforce
  show ?case
  proof (cases it)
    case (Ok x)
    show ?thesis
    proof (cases "baseline run")
      case None
      then have "record_items env (i + 1) rest (run\<lparr>current_pass_items := current_pass_items run @ [x]\<rparr>, w1) = (res, (run', w'))"
        using Cons.prems it Ok by (simp add: y)
      from Cons.IH [OF this] None obtain its where
        "run' = run\<lparr>current_pass_items := current_pass_items run @ [x] @ its\<rparr>" "res = Ok () \<longrightarrow> length its = length rest"
        by auto
      then show ?thesis using None by (intro exI [of _ "x # its"]) auto
    next
      case (Some base)
      show ?thesis
      proof (cases "length base \<le> i \<or> base ! i \<noteq> x")
        case True
        then show ?thesis using Cons.prems it Ok Some by (intro exI [of _ "[]"]) (auto simp: y split: if_splits)
      next
        case False
        then have rec: "record_items env (i + 1) rest (run, w1) = (res, (run', w'))"
          using Cons.prems it Ok Some by (simp add: y)
        from Cons.IH [OF rec] obtain its where
          "run' = run\<lparr>current_pass_items := current_pass_items run @ its\<rparr>" "its = []"
          "res = Ok () \<longrightarrow> rest \<noteq> [] \<longrightarrow> i + 1 + length rest \<le> length base"
          using Some by auto
        then show ?thesis using Some False by (cases rest) auto
      qed
    qed
  qed (use Cons.prems it y in \<open>auto intro!: exI [of _ "[]"]\<close>)
qed

lemma push_decoded_change:
  "push_decoded cfg embs run = (res, run') \<Longrightarrow>
     \<exists>vs. run' = run\<lparr>current_pass_f32_embeddings := current_pass_f32_embeddings run @ vs\<rparr> \<and>
       (res = Ok () \<longrightarrow> length vs = length embs)"
proof (induction embs arbitrary: run)
  case (Cons emb embs)
  show ?case
  proof (cases "decode_embedding_as_f32 (cfg_deps cfg) emb (index_spec cfg)")
    case (Ok v)
    with Cons.IH [of "run\<lparr>current_pass_f32_embeddings := current_pass_f32_embeddings run @ [v]\<rparr>"] Cons.prems
    obtain vs where "run' = run\<lparr>current_pass_f32_embeddings := current_pass_f32_embeddings run @ [v] @ vs\<rparr>"
      "res = Ok () \<longrightarrow> length vs = length embs" by auto
    then show ?thesis by (intro exI [of _ "v # vs"]) auto
  qed (use Cons.prems in \<open>auto intro!: exI [of _ "[]"]\<close>)
qed (auto intro!: exI [of _ "[]"])

text \<open>Whether a validated embedding can be decoded depends on the encoding only.\<close>

definition decodable :: "embedding_spec \<Rightarrow> bool" where
  "decodable spec = (encoding spec \<in> {''i8'', ''f32le'', ''f16le''})"

lemma decode_validated:
  assumes "index_validate_embedding_bytes emb spec ctx = Ok ()"
  shows "is_ok (decode_embedding_as_f32 d emb spec) = decodable spec"
proof -
  have "index_validate_embedding_bytes emb spec ''f32-decode'' = Ok ()"
    using assms by (auto simp: index_validate_embedding_bytes_def and_then_eq_Ok ok_or_eq_Ok split: if_splits)
  then show ?thesis by (simp add: decode_embedding_as_f32_def decodable_def is_ok_def)
qed

lemma push_decoded_validated:
  assumes "push_decoded cfg embs run = (res, run')"
    and "\<forall>emb \<in> set embs. index_validate_embedding_bytes emb (index_spec cfg) ctx = Ok ()"
  shows "res = Ok () \<or> run' = run"
proof (cases "decodable (index_spec cfg)")
  case True
  have "fst (push_decoded cfg es run) = Ok ()" if "set es \<subseteq> set embs" for es run
    using that
  proof (induction es arbitrary: run)
    case (Cons emb es)
    then obtain v where "decode_embedding_as_f32 (cfg_deps cfg) emb (index_spec cfg) = Ok v"
      using decode_validated [of emb "index_spec cfg" ctx "cfg_deps cfg"] assms(2) True
      by (auto simp: is_ok_def split: outcome.splits)
    then show ?case using Cons by simp
  qed simp
  from this [of embs run] assms(1) show ?thesis by simp
next
  case False
  show ?thesis
  proof (cases embs)
    case (Cons emb rest)
    then have "\<not> is_ok (decode_embedding_as_f32 (cfg_deps cfg) emb (index_spec cfg))"
      using decode_validated [of emb "index_spec cfg" ctx] assms(2) False by simp
    then show ?thesis using assms(1) Cons
      by (cases "decode_embedding_as_f32 (cfg_deps cfg) emb (index_spec cfg)") (auto simp: is_ok_def)
  qed (use assms(1) in simp)
qed

text \<open>What ingestion does to a run: it appends fingerprints and embeddings and counts the items of the batch.\<close>

definition ingested ::
    "baseline_item list \<Rightarrow> f32 list list \<Rightarrow> indexing_run \<Rightarrow> indexing_run" where
  "ingested its vs run =
     run\<lparr>current_pass_items := current_pass_items run @ its,
         current_pass_f32_embeddings := current_pass_f32_embeddings run @ vs,
         items_seen_in_current_pass := items_seen_in_current_pass run + length vs\<rparr>"

lemma ingested_Nil: "ingested [] [] run = run"
  by (simp add: ingested_def)

lemma prepare_batch_Ok:
  assumes "prepare_batch env batch w = (Ok (cs, embs), w')"
  shows "length cs = length batch" "length embs = length batch"
    "\<forall>emb \<in> set embs. index_validate_embedding_bytes emb (index_spec (run_cfg env)) ''item'' = Ok ()"
proof -
  have len: "resolve_items env items w = (Ok cs, w') \<Longrightarrow> length cs = length items" for items w cs w'
    by (induction items arbitrary: w cs) (auto simp: then_do_Ok split: prod.splits if_splits)
  from assms show "length cs = length batch" "length embs = length batch"
    by (auto simp: prepare_batch_def then_do_Ok map_ok_eq_Ok dest: len split: if_splits)
  from assms show "\<forall>emb \<in> set embs. index_validate_embedding_bytes emb (index_spec (run_cfg env)) ''item'' = Ok ()"
    by (auto simp: prepare_batch_def then_do_Ok map_ok_eq_Ok map_err_eq_Ok traverse_eq_Ok list_all2_conv_all_nth
        in_set_conv_nth split: if_splits)
qed

lemma ingest_batch_change:
  assumes "ingest_batch env batch (run, w) = (res, (run', w'))"
  shows "\<exists>its vs. run' = ingested its vs run \<and> (phase_of run \<noteq> Planning \<longrightarrow> its = [] \<and> vs = []) \<and>
    length vs = (if res = Ok () then length batch else 0) \<and> (baseline run = None \<longrightarrow> length vs \<le> length its) \<and>
    (\<forall>base. baseline run = Some base \<longrightarrow> its = [] \<and> (vs \<noteq> [] \<longrightarrow> items_seen_in_current_pass run + length vs \<le> length base))"
proof (cases "phase_of run \<noteq> Planning \<or> batch = []")
  case True
  with assms show ?thesis
    by (intro exI [of _ "[]"]) (auto simp: ingest_batch_def ingested_Nil split: if_splits)
next
  case False
  obtain p w1 where p: "prepare_batch env batch w = (p, w1)" by fastforce
  show ?thesis
  proof (cases p)
    case (Ok x)
    obtain cs embs where x: "x = (cs, embs)" by fastforce
    note prep = prepare_batch_Ok [OF p [unfolded Ok x]]
    let ?xs = "zip batch (zip cs embs)"
    obtain r run1 w2 where r: "record_items env (items_seen_in_current_pass run) ?xs (run, w1) = (r, (run1, w2))"
      by (metis surj_pair)
    obtain its where its: "run1 = run\<lparr>current_pass_items := current_pass_items run @ its\<rparr>"
      "baseline run \<noteq> None \<longrightarrow> its = []" "baseline run = None \<longrightarrow> r = Ok () \<longrightarrow> length its = length batch"
      "\<forall>base. baseline run = Some base \<longrightarrow> r = Ok () \<longrightarrow> items_seen_in_current_pass run + length batch \<le> length base"
      using record_items_change [OF r] prep(1,2) False by (auto simp: zip_eq_Nil_iff)
    show ?thesis
    proof (cases "r = Ok ()")
      case True
      obtain q run2 where q: "push_decoded (run_cfg env) embs run1 = (q, run2)" by fastforce
      obtain vs where vs: "run2 = run1\<lparr>current_pass_f32_embeddings := current_pass_f32_embeddings run1 @ vs\<rparr>"
        "q = Ok () \<longrightarrow> length vs = length embs" using push_decoded_change [OF q] by blast
      have fail: "q \<noteq> Ok () \<longrightarrow> run2 = run1" using push_decoded_validated [OF q prep(3)] by blast
      have "ingest_batch env batch (run, w) = (q, ((if q = Ok () then
          run2\<lparr>items_seen_in_current_pass := items_seen_in_current_pass run2 + length batch\<rparr> else run2), w2))"
        using False by (cases q) (simp_all add: ingest_batch_def p Ok x r True q)
      then have res: "res = q" and run': "run' = (if q = Ok () then
          run2\<lparr>items_seen_in_current_pass := items_seen_in_current_pass run2 + length batch\<rparr> else run2)"
        using assms by simp_all
      show ?thesis
      proof (cases "q = Ok ()")
        case True
        then show ?thesis using its vs res run' prep(2) \<open>r = Ok ()\<close> False
          by (intro exI [of _ its] exI [of _ vs]) (auto simp: ingested_def)
      next
        case False
        then show ?thesis using its fail res run' \<open>\<not> (phase_of run \<noteq> Planning \<or> batch = [])\<close>
          by (intro exI [of _ its] exI [of _ "[]"]) (auto simp: ingested_def)
      qed
    next
      case nok: False
      have "ingest_batch env batch (run, w) = (r, (run1, w2))"
        using False nok by (cases r) (simp_all add: ingest_batch_def p Ok x r)
      then have "run' = run1" "res \<noteq> Ok ()" using assms nok by simp_all
      then show ?thesis using its False by (intro exI [of _ its] exI [of _ "[]"]) (auto simp: ingested_def)
    qed
  qed (use assms False p in \<open>auto simp: ingest_batch_def ingested_Nil intro!: exI [of _ "[]"]\<close>)
qed

lemma finish_pass_change:
  assumes "finish_pass env (run, w) = (rep, (run', w'))"
  shows "run' = run \<or> (\<exists>h. run' = complete_pass h run \<and> phase_of run = Planning \<and> items_seen_in_current_pass run \<noteq> 0 \<and>
    (baseline run = None \<or> items_seen_in_current_pass run = baseline_len run) \<and>
    validate_partition_hierarchy h (items_seen_in_current_pass run) = Ok ())"
proof (cases "check_finish_pass (run_cfg env) run")
  case (Ok bound)
  then have pre: "phase_of run = Planning" "items_seen_in_current_pass run \<noteq> 0"
    "baseline run = None \<or> items_seen_in_current_pass run = baseline_len run"
    by (auto simp: check_finish_pass_def split: if_splits)
  obtain p w1 where p: "finish_planning_pass env (current_pass_f32_embeddings run) (index_spec (run_cfg env)) bound
      (block_size_target (run_cfg env)) w = (p, w1)" by fastforce
  show ?thesis
  proof (cases p)
    case (Ok out)
    then show ?thesis using assms \<open>check_finish_pass (run_cfg env) run = Ok bound\<close> p pre
      by (cases "validate_partition_hierarchy (po_hierarchy out) (items_seen_in_current_pass run)")
        (auto simp: finish_pass_def Let_def)
  qed (use assms \<open>check_finish_pass (run_cfg env) run = Ok bound\<close> p in \<open>auto simp: finish_pass_def\<close>)
qed (use assms in \<open>auto simp: finish_pass_def\<close>)

lemma mark_planning_complete_change:
  assumes "mark_planning_complete run = (res, run')"
  shows "run' = run \<or> (\<exists>h. run' = run\<lparr>phase_of := PlanningComplete\<rparr> \<and> phase_of run = Planning \<and>
    items_seen_in_current_pass run = 0 \<and> finalized_hierarchy run = Some h \<and>
    validate_partition_hierarchy h (baseline_len run) = Ok ())"
proof (cases "finalized_hierarchy run")
  case (Some h)
  then show ?thesis using assms
    by (cases "validate_partition_hierarchy h (baseline_len run)") (auto simp: mark_planning_complete_def split: if_splits)
qed (use assms in \<open>auto simp: mark_planning_complete_def split: if_splits\<close>)

lemma finalize_change:
  assumes "finalize env ops batches (run, ws) = (res, (run', ws'))"
  shows "run' = run \<or> (run' = run\<lparr>phase_of := Finalized\<rparr> \<and> phase_of run = PlanningComplete)"
proof (cases "phase_of run = PlanningComplete")
  case True
  show ?thesis
  proof (cases "baseline run")
    case (Some base)
    show ?thesis
    proof (cases "finalized_hierarchy run")
      case (Some h)
      then show ?thesis using assms True \<open>baseline run = Some base\<close>
        by (cases "validate_partition_hierarchy h (length base)"; cases "do_finalize env ops batches base h ws")
          (auto simp: finalize_def split: if_splits)
    qed (use assms True \<open>baseline run = Some base\<close> in \<open>auto simp: finalize_def\<close>)
  qed (use assms True in \<open>auto simp: finalize_def\<close>)
qed (use assms in \<open>auto simp: finalize_def\<close>)

section \<open>The invariant\<close>

definition run_inv :: "indexing_run \<Rightarrow> bool" where
  "run_inv run =
     (items_seen_in_current_pass run = length (current_pass_f32_embeddings run) \<and>
      (baseline run = None \<longleftrightarrow> completed_passes run = 0) \<and>
      (finalized_hierarchy run = None \<longleftrightarrow> completed_passes run = 0) \<and>
      (baseline run = None \<longrightarrow> items_seen_in_current_pass run \<le> length (current_pass_items run)) \<and>
      (baseline run \<noteq> None \<longrightarrow> current_pass_items run = [] \<and> items_seen_in_current_pass run \<le> baseline_len run) \<and>
      (\<forall>h. finalized_hierarchy run = Some h \<longrightarrow>
         (\<exists>n \<le> baseline_len run. n \<noteq> 0 \<and> validate_partition_hierarchy h n = Ok ())) \<and>
      (phase_of run \<noteq> Planning \<longrightarrow> items_seen_in_current_pass run = 0 \<and>
         (\<exists>h. finalized_hierarchy run = Some h \<and> validate_partition_hierarchy h (baseline_len run) = Ok ())))"

lemma run_inv_ingested:
  assumes "run_inv run" and "phase_of run \<noteq> Planning \<longrightarrow> its = [] \<and> vs = []"
    and "baseline run = None \<longrightarrow> length vs \<le> length its"
    and "\<forall>base. baseline run = Some base \<longrightarrow> its = [] \<and> (vs \<noteq> [] \<longrightarrow> items_seen_in_current_pass run + length vs \<le> length base)"
  shows "run_inv (ingested its vs run)"
  using assms by (cases "vs = []"; cases "baseline run") (auto simp: run_inv_def ingested_def baseline_len_def)

lemma run_inv_complete_pass:
  assumes "run_inv run" and "phase_of run = Planning" and "items_seen_in_current_pass run \<noteq> 0"
    and "baseline run = None \<or> items_seen_in_current_pass run = baseline_len run"
    and "validate_partition_hierarchy h (items_seen_in_current_pass run) = Ok ()"
  shows "run_inv (complete_pass h run)"
  using assms by (cases "baseline run") (auto simp: run_inv_def complete_pass_def baseline_len_def)

lemma run_step_inv:
  assumes "run_step env ops st st'" and "run_inv (fst st)"
  shows "run_inv (fst st')"
  using assms
proof (induction rule: run_step.induct)
  case (ingest batch run w res run' w' s)
  then show ?case using ingest_batch_change [OF ingest.hyps] run_inv_ingested by auto
next
  case (finish run w rep run' w' s)
  then show ?case using finish_pass_change [OF finish.hyps] run_inv_complete_pass by auto
next
  case (complete run res run' w s)
  then show ?case using mark_planning_complete_change [OF complete.hyps] by (auto simp: run_inv_def baseline_len_def)
next
  case (final batches run w s fin run' w' s')
  then show ?case using finalize_change [OF final.hyps] by (auto simp: run_inv_def baseline_len_def)
qed

lemma run_reaches_inv: "run_reaches env ops st st' \<Longrightarrow> run_inv (fst st) \<Longrightarrow> run_inv (fst st')"
  by (induction rule: run_reaches.induct) (auto intro: run_step_inv)

lemma run_inv_new: "run_inv new_run"
  by (simp add: run_inv_def new_run_def)

text \<open>
  C32: in every state a run can reach, whatever is called and whatever fails, each counted item has its
  embedding, a baseline and a hierarchy exist exactly when a pass has been completed, the hierarchy has been validated, and
  after planning it is valid for the whole baseline.
\<close>

theorem run_invariant:
  assumes "run_reaches env ops (new_run, w, s) (run, w', s')"
  shows "run_inv run"
  using run_reaches_inv [OF assms] run_inv_new by simp

section \<open>What is fixed\<close>

lemma run_step_fixed:
  assumes "run_step env ops st st'"
  shows "(baseline (fst st) = Some base \<longrightarrow> baseline (fst st') = Some base) \<and>
    (phase_of (fst st) \<noteq> Planning \<longrightarrow> phase_of (fst st') \<noteq> Planning \<and> baseline (fst st') = baseline (fst st) \<and>
       finalized_hierarchy (fst st') = finalized_hierarchy (fst st))"
  using assms
proof (induction rule: run_step.induct)
  case (ingest batch run w res run' w' s)
  then show ?case using ingest_batch_change [OF ingest.hyps] by (auto simp: ingested_def)
next
  case (finish run w rep run' w' s)
  then show ?case using finish_pass_change [OF finish.hyps] by (auto simp: complete_pass_def)
next
  case (complete run res run' w s)
  then show ?case using mark_planning_complete_change [OF complete.hyps] by auto
next
  case (final batches run w s fin run' w' s')
  then show ?case using finalize_change [OF final.hyps] by auto
qed

text \<open>
  The baseline never changes once the first pass has established it, and no operation changes the
  hierarchy or goes back to planning once planning is complete.
\<close>

theorem baseline_fixed:
  assumes "run_reaches env ops st st'"
  shows "(baseline (fst st) = Some base \<longrightarrow> baseline (fst st') = Some base) \<and>
    (phase_of (fst st) \<noteq> Planning \<longrightarrow> phase_of (fst st') \<noteq> Planning \<and> baseline (fst st') = baseline (fst st) \<and>
       finalized_hierarchy (fst st') = finalized_hierarchy (fst st))"
  using assms
proof (induction rule: run_reaches.induct)
  case (step st st1 st2)
  then show ?case using run_step_fixed [OF step.hyps(2), of base] by auto
qed simp

section \<open>A batch that fails in the first pass\<close>

lemma finish_pass_Ok:
  assumes "finish_pass env (run, w) = (Ok rep, (run', w'))"
  shows "\<exists>h. run' = complete_pass h run \<and> phase_of run = Planning \<and>
    validate_partition_hierarchy h (items_seen_in_current_pass run) = Ok ()"
proof -
  from assms obtain bound where "check_finish_pass (run_cfg env) run = Ok bound" by (auto simp: finish_pass_def then_do_Ok)
  moreover from this have "phase_of run = Planning" by (auto simp: check_finish_pass_def split: if_splits)
  ultimately show ?thesis using assms
    by (cases "finish_planning_pass env (current_pass_f32_embeddings run) (index_spec (run_cfg env)) bound
      (block_size_target (run_cfg env)) w") (auto simp: finish_pass_def then_do_Ok Let_def map_err_eq_Ok)
qed

lemma validated_item_count:
  "validate_partition_hierarchy h n = Ok () \<Longrightarrow> validate_partition_hierarchy h m = Ok () \<Longrightarrow> n = m"
  using validated_tree(2) [of h n] validated_tree(2) [of h m] by (auto dest: arg_cong [where f = length])

lemma walk_no_panic: "walk ps i v \<noteq> Panic" "walk_children ps cs v \<noteq> Panic"
proof (induction ps i v and ps cs v rule: walk_walk_children.induct)
  case (1 ps i v)
  then show ?case by (simp add: walk.simps and_then_eq_Panic split: option.splits)
qed (auto simp: and_then_eq_Panic map_ok_eq_Panic)

lemma validate_no_panic: "validate_partition_hierarchy h n \<noteq> Panic"
proof -
  have "check_child_link ps p c \<noteq> Panic" for ps p c by (simp add: check_child_link_def split: option.split)
  then have "check_partition ps n p \<noteq> Panic" for ps p
    by (auto simp: check_partition_def map_ok_eq_Panic dest: traverse_eq_Panic)
  then show ?thesis
    by (auto simp: validate_partition_hierarchy_def Let_def and_then_eq_Panic walk_no_panic ok_or_eq_Ok
        dest: traverse_eq_Panic split: option.splits if_splits)
qed

text \<open>
  C36: a batch of the first pass that fails after the fingerprint of one of its items has been
  recorded leaves that fingerprint behind without counting the item. When the caller ingests the batch again with success and
  finishes the pass, the baseline is longer than the hierarchy, and planning cannot be completed: the call fails with
  a validation error of the hierarchy.
\<close>

theorem retried_batch_blocks_completion:
  assumes "run_reaches env ops (new_run, w0, s) (run, w, s)" and "baseline run = None"
    and "ingest_batch env batch (run, w) = (Err e, (run1, w1))" and "current_pass_items run1 \<noteq> current_pass_items run"
    and "ingest_batch env batch (run1, w1) = (Ok (), (run2, w2))" and "finish_pass env (run2, w2) = (Ok rep, (run3, w3))"
  shows "items_seen_in_current_pass run2 < baseline_len run3 \<and> 
    (\<exists>m. mark_planning_complete run3 = (Err (HierarchyValidation m), run3))"
proof -
  have inv: "run_inv run" using run_reaches_inv [OF assms(1)] run_inv_new by simp
  obtain its1 where run1: "run1 = ingested its1 [] run" using ingest_batch_change [OF assms(3)] by auto
  then have "its1 \<noteq> []" using assms(4) by (auto simp: ingested_def)
  then have less: "items_seen_in_current_pass run1 < length (current_pass_items run1)" "baseline run1 = None"
    using inv assms(2) by (auto simp: run1 ingested_def run_inv_def length_greater_0_conv [symmetric] simp del: length_greater_0_conv)
  obtain its2 vs2 where "run2 = ingested its2 vs2 run1" "length vs2 \<le> length its2"
    using ingest_batch_change [OF assms(5)] less(2) by auto
  then have less2: "items_seen_in_current_pass run2 < length (current_pass_items run2)" "baseline run2 = None"
    using less by (auto simp: ingested_def)
  obtain h where h: "run3 = complete_pass h run2" "phase_of run2 = Planning"
    "validate_partition_hierarchy h (items_seen_in_current_pass run2) = Ok ()" using finish_pass_Ok [OF assms(6)] by blast
  then have run3: "finalized_hierarchy run3 = Some h" "baseline_len run3 = length (current_pass_items run2)"
    using less2(2) by (simp_all add: complete_pass_def baseline_len_def)
  have "validate_partition_hierarchy h (baseline_len run3) \<noteq> Ok ()"
    using validated_item_count [OF h(3), of "baseline_len run3"] run3(2) less2(1) by auto
  then show ?thesis using run3 less2(1) h validate_no_panic [of h]
    by (cases "validate_partition_hierarchy h (baseline_len run3)") (auto simp: mark_planning_complete_def complete_pass_def)
qed

end
