(* ===== verification/Indexer_Run_Examples.thy ===== *)
theory Indexer_Run_Examples
  imports Indexer_Examples Indexer_Run_Props Indexer_Lifecycle
begin

text \<open>
  A run over two items, from ingestion to the stored branch, at which the properties of the run are applied. The
  digest of the example depends on the last byte and the length only.
\<close>

section \<open>The environment\<close>

definition run_digest :: "byte list \<Rightarrow> byte list" where
  "run_digest bs = replicate 32 (last (0 # bs) + word_of_nat (length bs))"

definition run_deps :: deps where
  "run_deps = \<lparr>into_writer = (\<lambda>v. Ok (cbor_encode v)), from_reader = (\<lambda>_. Err []), sha256_digest = run_digest,
     f16_to_f32 = (\<lambda>_ _. 0)\<rparr>"

definition run_config :: index_config where
  "run_config = \<lparr>cfg_deps = run_deps, cfg_author = ex_author, summarize_children = (\<lambda>spec cs. Ok [0, 0, 0, 0]),
     branch_policy = Ordinary, index_spec = ex_spec, block_size_target = 120\<rparr>"

definition run_content :: "byte \<Rightarrow> content" where
  "run_content r = \<lparr>media_type = ''t'', body = [r]\<rparr>"

definition run_partition :: "nat list \<Rightarrow> finalized_partition" where
  "run_partition items = \<lparr>partition_id = ''p'', parent_id = None, child_ids = [], item_indices = items, terminal = True,
     stage = StageSingle\<rparr>"

definition run_hierarchy :: partition_hierarchy where
  "run_hierarchy = \<lparr>root_partition_id = ''p'', partitions = [run_partition [0, 1]]\<rparr>"

definition run_outcome :: planning_outcome where
  "run_outcome = \<lparr>po_hierarchy = run_hierarchy, po_requested = None, po_realized = None, po_quality = 0, po_balance = 0,
     po_quality_direction = LargerIsBetter, po_balance_direction = SmallerIsBetter\<rparr>"

text \<open>The state of the environment counts the calls of \<open>fingerprint\<close> that will succeed before one fails.\<close>

definition run_fingerprint :: "byte \<Rightarrow> nat \<Rightarrow> block_hash message_result \<times> nat" where
  "run_fingerprint r w = (if w = 1 then (Err ''unavailable'', 0) else (Ok (ex_hash r), w - 1))"

definition run_environment :: "(byte, nat) run_env" where
  "run_environment = \<lparr>run_cfg = run_config, resolve = (\<lambda>r w. (Ok (run_content r), w)), fingerprint = run_fingerprint,
     embed_batch = (\<lambda>inputs spec w. (Ok (map (\<lambda>i. [0, 0, 0, hd (ei_body i)]) inputs), w)),
     finish_planning_pass = (\<lambda>embs spec bound target w. (Ok run_outcome, w))\<rparr>"

definition run_item :: "byte \<Rightarrow> byte index_item" where
  "run_item r = \<lparr>item_metadata = [], content_ref = r\<rparr>"

definition run_baseline :: "byte \<Rightarrow> baseline_item" where
  "run_baseline r = \<lparr>content_ref_hash = ex_hash r, metadata_hash = ex_hash 0xA1,
     content_hash = hash_content run_deps (run_content r), embedding_hash = ex_hash (r + 4)\<rparr>"

text \<open>The store keeps what it is given, in order.\<close>

definition log_ops :: "(block_hash \<times> byte list) list store_ops" where
  "log_ops = \<lparr>put_block_bytes = (\<lambda>s h bs. (Ok (), s @ [(h, bs)])), put_block_bytes_batch = (\<lambda>s bs. (Ok (), s @ bs)),
     get_block_bytes = (\<lambda>s h. (Ok (map_of s h), s)), iter_block_ids = (\<lambda>s. Ok (map (Ok \<circ> fst) s))\<rparr>"

lemma run_codec: "codec run_deps"
proof
  fix n :: nat assume "n < 24"
  then show "into_writer run_deps (Integer (int n)) = Ok [word_of_nat n]"
    using rfc.writer_small by (simp add: run_deps_def rfc_deps_def)
qed (simp_all add: run_deps_def run_digest_def)

section \<open>Evaluation\<close>

lemma run_writer [simp]: "into_writer run_deps v = Ok (cbor_encode v)"
  by (simp add: run_deps_def)

lemma run_sha [simp]: "sha256_digest run_deps bs = run_digest bs"
  by (simp add: run_deps_def)

lemma run_synthetic_builds:
  "build_branch_block run_deps 1 1 ex_spec (ex_synthetic 2) None = Ok (ex_branch_block (ex_synthetic 2))"
  "build_branch_block run_deps 1 1 ex_spec (ex_synthetic 3) None = Ok (ex_branch_block (ex_synthetic 3))"
  "build_branch_block run_deps 1 1 ex_spec (ex_synthetic 4) None = Ok (ex_branch_block (ex_synthetic 4))"
  by code_simp+

lemma run_synthetic_normal:
  "normalize_block run_deps (Branch (ex_branch_block (ex_synthetic 2))) = Ok (Branch (ex_branch_block (ex_synthetic 2)))"
  "normalize_block run_deps (Branch (ex_branch_block (ex_synthetic 3))) = Ok (Branch (ex_branch_block (ex_synthetic 3)))"
  "normalize_block run_deps (Branch (ex_branch_block (ex_synthetic 4))) = Ok (Branch (ex_branch_block (ex_synthetic 4)))"
  by code_simp+

lemma run_bound: "materializability_bound run_deps ex_spec 120 = Ok 2"
proof -
  note sizes = ex_branch_size [OF run_codec run_writer run_synthetic_builds(1) run_synthetic_normal(1)]
    ex_branch_size [OF run_codec run_writer run_synthetic_builds(2) run_synthetic_normal(2)]
    ex_branch_size [OF run_codec run_writer run_synthetic_builds(3) run_synthetic_normal(3)]
  show ?thesis
    by (simp add: materializability_bound_def sizes ex_sizes double_bound.simps [of _ _ 2 2] saturating_mul_def
        usize_max_def bisect_bound.simps)
qed

lemma run_replay_item:
  "w \<noteq> 1 \<Longrightarrow> replay_item run_environment (run_item r) (run_content r) [0, 0, 0, r] w = (Ok (run_baseline r), w - 1)"
  "replay_item run_environment (run_item r) (run_content r) [0, 0, 0, r] 1 = (Err (ContentResolution ''unavailable''), 0)"
proof -
  have "hash_metadata run_deps [] = Ok (ex_hash 0xA1)" by code_simp
  moreover have "hash_bytes run_deps [0, 0, 0, r] = ex_hash (r + 4)" by (simp add: hash_bytes_def run_digest_def ex_hash_def)
  ultimately show "w \<noteq> 1 \<Longrightarrow> replay_item run_environment (run_item r) (run_content r) [0, 0, 0, r] w = (Ok (run_baseline r), w - 1)"
    "replay_item run_environment (run_item r) (run_content r) [0, 0, 0, r] 1 = (Err (ContentResolution ''unavailable''), 0)"
    by (simp_all add: replay_item_def run_environment_def run_config_def run_item_def run_fingerprint_def run_baseline_def)
qed

definition run_leaf :: "byte \<Rightarrow> block" where
  "run_leaf r = Leaf \<lparr>lb_version = 1, lb_level = 0, lb_embedding_spec = ex_spec, lb_entries =
     [\<lparr>le_embedding = [0, 0, 0, r], le_metadata = [], le_content = run_content r\<rparr>], lb_ext = None\<rparr>"

definition run_leaf_ser :: "byte \<Rightarrow> serialized_block" where
  "run_leaf_ser r = \<lparr>ser_bytes = cbor_encode (block_value (run_leaf r)), ser_hash = ex_hash (r + 35)\<rparr>"

lemma run_validate [simp]: "index_validate_embedding_bytes [0, 0, 0, r] ex_spec ctx = Ok ()"
  by (simp add: index_validate_embedding_bytes_def expected_embedding_len_def ex_spec_def checked_mul_def usize_max_def)

lemma run_leaf_normal: "normalize_block run_deps (run_leaf r) = Ok (run_leaf r)"
proof -
  have "normalize_map run_deps [] = Ok []" by code_simp
  then show ?thesis
    by (simp add: run_leaf_def normalize_Leaf_Ok ex_spec_def validate_embedding_spec_def is_ebcp_encoding_def
        normalize_optional_map_def del: normalize_block.simps)
qed

lemma run_leaf_serializes: "serialize_block run_deps (run_leaf r) = Ok (run_leaf_ser r)"
proof -
  have "run_digest (cbor_encode (block_value (run_leaf r))) = replicate 32 (r + 35)"
    by (simp add: run_digest_def run_leaf_def run_content_def ex_encoding_defs leaf_entry_to_value_def content_to_value_def)
  then show ?thesis using run_leaf_normal
    by (simp add: codec.serialize_block_Ok [OF run_codec] run_leaf_ser_def compute_block_hash_def ex_hash_def)
qed

lemma run_prepare_leaf:
  "prepare_leaf run_config (run_item r) (run_content r) [0, 0, 0, r] = Ok (run_leaf r, run_leaf_ser r)"
proof -
  have "build_leaf_block run_deps 1 ex_spec [\<lparr>le_embedding = [0, 0, 0, r], le_metadata = [], le_content = run_content r\<rparr>] None =
      Ok (case run_leaf r of Leaf b \<Rightarrow> b)"
    using run_leaf_normal [of r] by (simp add: build_leaf_Ok run_leaf_def del: normalize_block.simps)
  then show ?thesis using run_leaf_serializes [of r]
    by (simp add: prepare_leaf_def run_config_def run_item_def run_leaf_def)
qed

lemma run_env_simps [simp]:
  "run_cfg run_environment = run_config" "cfg_deps run_config = run_deps" "index_spec run_config = ex_spec"
  "block_size_target run_config = 120"
  by (simp_all add: run_environment_def run_config_def)

lemma run_resolve: "resolve_items run_environment (map run_item rs) w = (Ok (map run_content rs), w)"
  by (induction rs) (simp_all add: run_environment_def run_item_def run_content_def)

lemma run_embed: "embed_contents run_environment (map run_content rs) w = (Ok (map (\<lambda>r. [0, 0, 0, r]) rs), w)"
  by (simp add: embed_contents_def run_environment_def input_of_def run_content_def comp_def)

definition run_children :: "indexed_child list" where
  "run_children = map (\<lambda>r. leaf_child [0, 0, 0, r] (ex_hash (r + 35))) [1, 2]"

definition run_log :: "(block_hash \<times> byte list) list" where
  "run_log = map (\<lambda>r. (ser_hash (run_leaf_ser r), ser_bytes (run_leaf_ser r))) [1, 2]"

definition run_record :: "byte \<Rightarrow> byte list" where
  "run_record r = [4, 0, 0, 0, 0, 0, 0, r] @ replicate 32 (r + 35) @ replicate 8 0 @ [1, 0, 0, 0, 0, 0, 0, 0]"

lemma run_persist: "persist_block run_deps log_ops (run_leaf r) (ser_hash (run_leaf_ser r)) (s, hs) =
    (Ok (ex_hash (r + 35)), (s @ [(ex_hash (r + 35), ser_bytes (run_leaf_ser r))], hs @ [ex_hash (r + 35)]))"
  using run_leaf_serializes [of r]
  by (simp add: persist_block_def store_put_def log_ops_def verify_persisted_block_id_def run_leaf_ser_def)

lemma run_write: "write_spilled_indexed_child (leaf_child [0, 0, 0, r] (ex_hash (r + 35))) = Ok (run_record r)"
proof -
  have "le_bytes 4 (Suc (Suc (Suc (Suc 0)))) = [4, 0, 0, 0]" "le_bytes 8 0 = replicate 8 0" "le_bytes 8 1 = [1, 0, 0, 0, 0, 0, 0, 0]"
    by code_simp+
  then show ?thesis by (simp add: write_spilled_indexed_child_def leaf_child_def ex_hash_def run_record_def)
qed

lemma run_replay_leaf:
  assumes "i < length base" "base ! i = run_baseline r" "rp_world st = 0" "rp_route st = 0 # ks" "rp_spill st = [bs]" "rp_out st = (s, hs)"
  shows "replay_leaf run_environment log_ops base i (run_item r, run_content r, [0, 0, 0, r]) st =
    (Ok (), \<lparr>rp_world = 0, rp_out = (s @ [(ex_hash (r + 35), ser_bytes (run_leaf_ser r))], hs @ [ex_hash (r + 35)]),
      rp_route = ks, rp_spill = [bs @ run_record r]\<rparr>)"
  using assms run_replay_item(1) [of 0 r]
  by (cases st) (simp add: replay_leaf_def index_at_def run_prepare_leaf run_persist spill_leaf_def read_partition_ordinal_def append_leaf_child_def run_write)

definition run_branch :: branch_block where
  "run_branch = ex_branch_block (map (\<lambda>r. \<lparr>be_embedding = [0, 0, 0, r], be_child = ex_hash (r + 35)\<rparr>) [1, 2])"

definition run_branch_ser :: serialized_block where
  "run_branch_ser = \<lparr>ser_bytes = cbor_encode (block_value (Branch run_branch)), ser_hash = ex_hash 139\<rparr>"

definition run_root :: indexed_child where
  "run_root = \<lparr>ic_embedding = [0, 0, 0, 0], ic_child = ex_hash 139, ic_level = 1, ic_descendant_count = 2\<rparr>"

lemma run_normal_branch: "normalize_block run_deps (Branch run_branch) = Ok (Branch run_branch)"
  by code_simp
lemma run_layer: "normalize_current_layer run_children = run_children" "balanced_groups 2 2 = Ok [[0, 1]]"
  by code_simp+


lemma run_branch_builds: "build_branch_block run_deps 1 1 ex_spec (bb_entries run_branch) None = Ok run_branch"
  by code_simp

lemma run_branch_serializes: "serialize_block run_deps (Branch run_branch) = Ok run_branch_ser"
proof -
  have "run_digest (cbor_encode (block_value (Branch run_branch))) = replicate 32 139"
    by (simp add: run_digest_def run_branch_def ex_hash_def ex_encoding_defs)
  then show ?thesis using run_normal_branch
    by (simp add: codec.serialize_block_Ok [OF run_codec] run_branch_ser_def compute_block_hash_def ex_hash_def)
qed

lemma run_normalized:
  "normalize_branch_entries (map child_entry run_children) = bb_entries run_branch"
  "normalize_child_summary_inputs (map child_summary run_children) = map child_summary run_children"
  by code_simp+

lemma run_prepare_branch: "prepare_branch run_config run_children 1 True = Ok (run_branch, run_branch_ser)"
proof -
  have "length (ser_bytes run_branch_ser) = 102"
    by (simp add: run_branch_ser_def run_branch_def ex_hash_def ex_encoding_defs)
  moreover have "length (bb_entries run_branch) = 2" "length run_children = 2"
    by (simp_all add: run_branch_def ex_branch_block_def run_children_def)
  ultimately show ?thesis
    using run_branch_builds run_branch_serializes
    by (simp add: prepare_branch_def run_normalized encode_branch_entries_def run_config_def)
qed

lemma run_assemble:
  "assemble_child_set run_config log_ops run_children True 2 (s, hs) =
     (Ok run_root, (s @ [(ex_hash 139, ser_bytes run_branch_ser)], hs @ [ex_hash 139]))"
proof -
  have len: "length run_children = 2" "run_children ! 0 = hd run_children" "run_children = [run_children ! 0, run_children ! 1]"
    by (simp_all add: run_children_def)
  have one: "normalize_current_layer [run_root] = [run_root]" by code_simp
  have level: "next_level run_children = Ok 1" by (simp add: next_level_def run_children_def leaf_child_def)
  have persist: "persist_block run_deps log_ops (Branch run_branch) (ser_hash run_branch_ser) (s, hs) =
      (Ok (ex_hash 139), (s @ [(ex_hash 139, ser_bytes run_branch_ser)], hs @ [ex_hash 139]))"
    using run_branch_serializes
    by (simp add: persist_block_def store_put_def log_ops_def verify_persisted_block_id_def run_branch_ser_def)
  have summary: "summarize_group run_config run_children 1 (ex_hash 139) = Ok run_root"
  proof -
    have "map csi_descendant_count (map child_summary run_children) = [1, 1]"
      by (simp add: run_children_def child_summary_def leaf_child_def)
    then show ?thesis
      by (simp add: summarize_group_def run_normalized run_config_def run_root_def sum_counts_def usize_max_def)
  qed
  have "traverse (index_at run_children) [0, 1] = (Ok run_children :: indexed_child list indexer_result)"
    using len by (simp add: index_at_def)
  then have "build_branch_layer run_config log_ops run_children [[0, 1]] 1 True (s, hs) =
      (Ok [run_root], (s @ [(ex_hash 139, ser_bytes run_branch_ser)], hs @ [ex_hash 139]))"
    by (simp add: build_branch_layer_def build_branch_def run_prepare_branch persist summary uses_root_branch_budget_def
        del: traverse.simps)
  moreover have "run_children \<noteq> []" by (simp add: run_children_def)
  ultimately show ?thesis
    using len(1) by (simp add: assemble_child_set_def run_layer level one assemble_layers.simps [of _ _ _ _ run_children]
        assemble_layers.simps [of _ _ _ _ "[run_root]"])
qed

definition run_stored :: "(block_hash \<times> byte list) list" where
  "run_stored = map (\<lambda>r. (ex_hash (r + 35), ser_bytes (run_leaf_ser r))) [1, 2]"

lemma run_replay:
  "replay run_environment log_ops [run_baseline 1, run_baseline 2] [map run_item [1, 2]]
     \<lparr>rp_world = 0, rp_out = ([], []), rp_route = [0, 0], rp_spill = [[]]\<rparr> =
   (Ok (), \<lparr>rp_world = 0, rp_out = (run_stored, [ex_hash 36, ex_hash 37]), rp_route = [], rp_spill = [run_record 1 @ run_record 2]\<rparr>)"
  using run_resolve [of "[1, 2]" 0] run_embed [of "[1, 2]" 0]
  by (simp add: replay_def replay_batch_def run_replay_leaf read_partition_ordinal_def run_stored_def)

lemma run_read: "read_partition_children [run_record 1 @ run_record 2] 0 = Ok run_children"
proof -
  have "records_of run_children (run_record 1 @ run_record 2)"
    using run_write [of 1] run_write [of 2]
    by (auto simp: records_of_def run_children_def intro!: exI [of _ "[run_record 1, run_record 2]"])
  moreover have "list_all child_wf run_children"
    by (simp add: run_children_def leaf_child_def child_wf_def hash_wf_def ex_hash_def usize_max_def)
  ultimately show ?thesis by (simp add: read_partition_children_def read_children_records)
qed

lemma run_validated: "validate_partition_hierarchy run_hierarchy 2 = Ok ()"
  by code_simp

definition run_plan :: routing_plan where
  "run_plan = \<lparr>terminal_partition_ids = [''p''], terminal_partition_item_counts = [2], route = [0, 0]\<rparr>"

lemma run_routing: "build_partition_routing_plan run_hierarchy 2 = Ok run_plan"
proof -
  have "terminal_partitions run_hierarchy = [run_partition [0, 1]]" by code_simp
  moreover have "replicate 2 unassigned = [unassigned, unassigned]" by (simp add: numeral_2_eq_2)
  ultimately show ?thesis using run_validated
    by (simp add: build_partition_routing_plan_def run_plan_def run_partition_def assign_partition_def checked_mul_def
        usize_max_def unassigned_def)
qed

definition run_planned :: indexing_run where
  "run_planned = new_run\<lparr>phase_of := PlanningComplete, completed_passes := 1,
     baseline := Some [run_baseline 1, run_baseline 2], finalized_hierarchy := Some run_hierarchy\<rparr>"

lemma run_finalize:
  "finalize run_environment log_ops [map run_item [1, 2]] (run_planned, (0, [])) =
     (Ok \<lparr>root_id = ex_hash 139, result_block_ids = dedup_sort_ids [ex_hash 36, ex_hash 37, ex_hash 139]\<rparr>,
      (run_planned\<lparr>phase_of := Finalized\<rparr>, (0, run_stored @ [(ex_hash 139, ser_bytes run_branch_ser)])))"
proof -
  have "materialize_terminals run_config log_ops 2 ''p'' [run_record 1 @ run_record 2] [2] 0 [''p''] Map.empty
      (run_stored, [ex_hash 36, ex_hash 37]) =
      (Ok [''p'' \<mapsto> run_root], (run_stored @ [(ex_hash 139, ser_bytes run_branch_ser)], [ex_hash 36, ex_hash 37, ex_hash 139]))"
    using run_read run_assemble [of run_stored "[ex_hash 36, ex_hash 37]"]
    by (simp add: materialize_terminal_def index_at_def run_children_def)
  moreover have "materialize_partition (Suc 0) run_config log_ops 2 [run_partition [0, 1]] [''p'' \<mapsto> run_root] ''p'' True st = (Ok run_root, st)" for st :: "(block_hash \<times> byte list) list \<times> block_hash list"
    by (simp add: partition_map_def run_partition_def)
  ultimately have "do_finalize run_environment log_ops [map run_item [1, 2]] [run_baseline 1, run_baseline 2] run_hierarchy (0, []) =
     (Ok \<lparr>root_id = ex_hash 139, result_block_ids = dedup_sort_ids [ex_hash 36, ex_hash 37, ex_hash 139]\<rparr>,
      (0, run_stored @ [(ex_hash 139, ser_bytes run_branch_ser)]))"
    using run_bound run_routing run_replay
    by (simp add: do_finalize_def run_hierarchy_def run_plan_def spill_directory_new_def run_root_def numeral_2_eq_2 [symmetric])
  then show ?thesis using run_validated
    by (simp add: finalize_def run_planned_def is_ok_def numeral_2_eq_2 [symmetric])
qed

section \<open>The whole run\<close>

definition run_ingested :: "byte list \<Rightarrow> indexing_run" where
  "run_ingested rs = new_run\<lparr>current_pass_items := map run_baseline rs,
     current_pass_f32_embeddings := [[0x01000000], [0x02000000]], items_seen_in_current_pass := 2\<rparr>"

lemma run_decode: "decode_embedding_as_f32 run_deps [0, 0, 0, r] ex_spec = Ok [f32_from_le [0, 0, 0, r]]"
proof -
  have "chunks_exact 4 [0, 0, 0, r] = [[0, 0, 0, r]]" by (simp add: chunks_exact.simps)
  then show ?thesis by (simp add: decode_embedding_as_f32_def) (simp add: ex_spec_def)
qed

lemma run_prepare: "prepare_batch run_environment (map run_item [1, 2]) w =
    (Ok ([run_content 1, run_content 2], [[0, 0, 0, 1], [0, 0, 0, 2]]), w)"
  using run_resolve [of "[1, 2]" w] run_embed [of "[1, 2]" w] by (simp add: prepare_batch_def)

lemma run_decoded: "f32_from_le [0, 0, 0, 1] = 0x01000000" "f32_from_le [0, 0, 0, 2] = 0x02000000"
  by (simp_all add: f32_from_le_def)

lemma run_ingest:
  "ingest_batch run_environment (map run_item [1, 2]) (new_run, 0) = (Ok (), (run_ingested [1, 2], 0))"
  using run_prepare [of 0] run_replay_item(1) [of 0 1] run_replay_item(1) [of 0 2]
  by (simp add: ingest_batch_def run_ingested_def new_run_def run_decode run_decoded)

text \<open>The second fingerprint fails; the batch is ingested again.\<close>

lemma run_ingest_fails:
  "ingest_batch run_environment (map run_item [1, 2]) (new_run, 2) =
     (Err (ContentResolution ''unavailable''), (new_run\<lparr>current_pass_items := [run_baseline 1]\<rparr>, 0))"
  using run_prepare [of 2] run_replay_item(1) [of 2 1] run_replay_item(2) [of 2]
  by (simp add: ingest_batch_def new_run_def)

lemma run_ingest_again:
  "ingest_batch run_environment (map run_item [1, 2]) (new_run\<lparr>current_pass_items := [run_baseline 1]\<rparr>, 0) =
     (Ok (), (run_ingested [1, 1, 2], 0))"
  using run_prepare [of 0] run_replay_item(1) [of 0 1] run_replay_item(1) [of 0 2]
  by (simp add: ingest_batch_def run_ingested_def new_run_def run_decode run_decoded)

lemma run_stats: "hierarchy_stats run_hierarchy = Ok \<lparr>partition_count = 1, terminal_partition_count = 1, hierarchy_depth = 1\<rparr>"
  by code_simp

lemma run_finish:
  "\<exists>rep. finish_pass run_environment (run_ingested rs, 0) = (Ok rep, (complete_pass run_hierarchy (run_ingested rs), 0))"
  using run_bound run_validated run_stats
  by (simp add: finish_pass_def check_finish_pass_def run_ingested_def new_run_def)
    (simp add: run_environment_def run_outcome_def Let_def)

lemma run_mark: "mark_planning_complete (complete_pass run_hierarchy (run_ingested [1, 2])) = (Ok (), run_planned)"
  using run_validated
  by (simp add: mark_planning_complete_def complete_pass_def run_ingested_def new_run_def run_planned_def baseline_len_def
      numeral_2_eq_2 [symmetric])

lemma run_finalize_step:
  "run_step run_environment log_ops (run_planned, 0, []) (run_planned\<lparr>phase_of := Finalized\<rparr>, 0, run_stored @ [(ex_hash 139, ser_bytes run_branch_ser)])"
  using run_finalize by (rule run_step.final)

lemma run_reached:
  "run_reaches run_environment log_ops (new_run, 0, [])
     (run_planned\<lparr>phase_of := Finalized\<rparr>, 0, run_stored @ [(ex_hash 139, ser_bytes run_branch_ser)])"
proof -
  have "run_reaches run_environment log_ops (new_run, 0, []) (run_ingested [1, 2], 0, [])"
    by (rule run_reaches.step [OF run_reaches.here run_step.ingest [OF run_ingest]])
  moreover obtain rep where "finish_pass run_environment (run_ingested [1, 2], 0) =
      (Ok rep, (complete_pass run_hierarchy (run_ingested [1, 2]), 0))" using run_finish by blast
  ultimately have "run_reaches run_environment log_ops (new_run, 0, [])
      (complete_pass run_hierarchy (run_ingested [1, 2]), 0, [])"
    by (rule run_reaches.step [OF _ run_step.finish])
  from run_reaches.step [OF run_reaches.step [OF this run_step.complete [OF run_mark]] run_finalize_step] show ?thesis .
qed

section \<open>Witnesses\<close>

theorem finalized_index_reachable_witness:
  "\<exists>ls branches hs s'. list_all2 (leaf_matches run_deps) [run_baseline 1, run_baseline 2] ls \<and>
     put_journal run_deps log_ops (ls @ branches) [] = Some (hs, s') \<and> ex_hash 139 \<in> set hs"
proof -
  have "codec (cfg_deps (run_cfg run_environment))" using run_codec by simp
  from finalized_index_reachable [OF this run_finalize] show ?thesis by (auto simp: run_planned_def)
qed


theorem run_invariant_witness: "run_inv (run_planned\<lparr>phase_of := Finalized\<rparr>)"
  using run_invariant [OF run_reached] .

theorem retried_batch_blocks_completion_witness:
  "\<exists>m. mark_planning_complete (complete_pass run_hierarchy (run_ingested [1, 1, 2])) =
     (Err (HierarchyValidation m), complete_pass run_hierarchy (run_ingested [1, 1, 2]))"
proof -
  obtain rep where fin: "finish_pass run_environment (run_ingested [1, 1, 2], 0) =
      (Ok rep, (complete_pass run_hierarchy (run_ingested [1, 1, 2]), 0))" using run_finish by blast
  have "baseline new_run = None" "current_pass_items (new_run\<lparr>current_pass_items := [run_baseline 1]\<rparr>) \<noteq> current_pass_items new_run"
    by (simp_all add: new_run_def)
  from retried_batch_blocks_completion [OF run_reaches.here [of _ log_ops] this(1) run_ingest_fails this(2) run_ingest_again fin]
  show ?thesis by blast
qed

theorem spill_roundtrip_witness:
  "\<exists>spill. append_leaf_child 0 (hd run_children) (spill_directory_new 2) = Ok spill \<and>
     read_partition_children spill 0 = Ok [hd run_children] \<and> read_partition_children spill 1 = Ok []"
proof -
  let ?kcs = "[(0 :: u32, hd run_children)]"
  obtain spill where spill: "append_leaf_child 0 (hd run_children) (spill_directory_new 2) = Ok spill"
    using run_write [of 1] by (simp add: append_leaf_child_def spill_directory_new_def run_children_def)
  have app: "for_each (\<lambda>(k, c). append_leaf_child k c) ?kcs (spill_directory_new 2) = Ok spill" using spill by simp
  have wf: "list_all (child_wf \<circ> snd) ?kcs"
    by (simp add: run_children_def leaf_child_def child_wf_def hash_wf_def ex_hash_def usize_max_def)
  from spill_roundtrip [OF app wf, of 0] spill_roundtrip [OF app wf, of 1] spill show ?thesis by simp
qed

text \<open>A hierarchy of two levels.\<close>

definition ex_hierarchy :: partition_hierarchy where
  "ex_hierarchy = \<lparr>root_partition_id = ''r'', partitions =
     [\<lparr>partition_id = ''r'', parent_id = None, child_ids = [''a'', ''b''], item_indices = [0, 1, 2], terminal = False, stage = StageCoarse\<rparr>,
      \<lparr>partition_id = ''b'', parent_id = Some ''r'', child_ids = [], item_indices = [1], terminal = True, stage = StageFine\<rparr>,
      \<lparr>partition_id = ''a'', parent_id = Some ''r'', child_ids = [], item_indices = [0, 2], terminal = True, stage = StageFine\<rparr>]\<rparr>"

lemma ex_hierarchy_valid: "validate_partition_hierarchy ex_hierarchy 3 = Ok ()"
  by code_simp


end
