(* ===== verification/Spec2Isabelle.thy ===== *)
theory Spec2Isabelle
  imports Search_Examples Dcbc_Examples Adaptive_Examples Indexer_Run_Examples
begin

text \<open>
  A verification of LexonGraph, a content-addressed graph of embedding blocks. Blocks are CBOR maps
  named by the SHA-256 of their canonical encoding; stores keep the encoded bytes by hash; a search
  walks the graph from a root block, best candidates first, and returns the best leaves. An indexing run builds
  such a graph from a stream of items: it groups their embeddings, stores a leaf for each item and assembles branches
  bottom up.

  \<^bold>\<open>Parts and theories.\<close>

  \<^item> Blocks, \<open>src/crates/lexongraph-block/src/lib.rs\<close> and \<open>v2.rs\<close>. \<open>Block_Types\<close> has the data
    (\<open>BlockHash\<close>, \<open>EmbeddingSpec\<close>, \<open>EbcpDescriptor\<close>, \<open>BranchBlock\<close>, \<open>LeafBlock\<close>, \<open>BlockError\<close> and the
    others, one record or datatype each). \<open>Block_Canonical\<close> models \<open>canonicalize_value\<close> and
    \<open>normalize_map\<close>; \<open>Block_Fields\<close> the integer-keyed field readers; \<open>Block_Ebcp\<close> the embedding
    encodings and the EBCP descriptor, payload checks and reconstruction; \<open>Block_V1\<close> building,
    normalising, serialising and deserialising version-1 blocks; \<open>Block_V2\<close> version 2 and the
    version dispatch. \<open>Ieee_Float\<close> is the \<open>f32\<close>/\<open>f64\<close> arithmetic the code uses, on bit patterns.
  \<^item> The store contract, \<open>src/crates/lexongraph-block-store/src/lib.rs\<close>: \<open>Block_Store\<close>. The trait
    \<open>BlockStore\<close> is the record \<open>store_ops\<close> of functions that thread the store's state; the provided
    methods (\<open>put\<close>, \<open>get\<close>, \<open>put_versioned\<close>, \<open>get_decoded\<close>, \<open>list_block_ids\<close>, \<dots>) are definitions over it.
  \<^item> The memory store, \<open>src/crates/lexongraph-block-store-memory/src/lib.rs\<close>: \<open>Memory_Store\<close>.
  \<^item> The overlay store, \<open>src/crates/lexongraph-block-store-overlay/src/lib.rs\<close>: \<open>Overlay_Store\<close>.
  \<^item> Search, \<open>src/crates/lexongraph-search/src/lib.rs\<close>: \<open>Search_Policies\<close> (scoring, frontier
    selectors, published profiles) and \<open>Search_Loop\<close> (candidates, telemetry, the loop of
    \<open>search_internal\<close> and the entry points).
  \<^item> Clustering, \<open>src/crates/lexongraph-streaming-clustering/src/lib.rs\<close>: \<open>Clustering\<close> has the configuration, errors,
    reports and validation shared by the trainers, and the trainer and classifier traits as records of operations.
  \<^item> The DCBC trainer, \<open>src/crates/lexongraph-dcbc-streaming/src/lib.rs\<close> and \<open>solver.rs\<close>: \<open>Dcbc_Solver\<close> (the
    minimum-cost flow network, its relaxation, augmentation and the lexicographic assignment) and \<open>Dcbc_Trainer\<close> (passes,
    centroids, the state of the trainer, the classifier). \<open>Dcbc_Flow\<close> is the theory of its flow network.
  \<^item> The adaptive planning policy, \<open>src/crates/lexongraph-adaptive-planning-policy/src/lib.rs\<close>: \<open>Adaptive_Policy\<close> (settings and
    their validation, the mean-cluster-radius measurement, the decision boundary, the selector between directional PCA and DCBC).
  \<^item> The streaming indexer, \<open>src/crates/lexongraph-streaming-indexer/src/lib.rs\<close>, and the provider trait of
    \<open>src/crates/lexongraph-embeddings-trait/src/lib.rs\<close>. \<open>Indexer_Types\<close> has the data and errors; \<open>Indexer_Groups\<close> the
    grouping of items and the materializability bound; \<open>Indexer_Embeddings\<close> decoding and means (on \<open>Ieee_Convert\<close>, the
    conversions between floats and integers); \<open>Indexer_Ebcp\<close> the authoring of EBCP branches; \<open>Indexer_Assembly\<close> branch
    blocks, layers and \<open>assemble_child_set\<close>; \<open>Indexer_Hierarchy\<close> the validation, routing and statistics of a partition
    hierarchy; \<open>Indexer_Spill\<close> the spill files; \<open>Indexer_Run\<close> the run itself: the record \<open>indexing_run\<close> is the mutable part of
    \<open>StreamingIndexingRun\<close>, and \<open>ingest_batch\<close>, \<open>finish_pass\<close>, \<open>mark_planning_complete\<close>, \<open>finalize\<close> are its methods.

  \<^bold>\<open>Conventions.\<close> A Rust result is an \<open>outcome\<close>: \<open>Ok\<close>, \<open>Err\<close> with the function's error value, or
  \<open>Panic\<close>. \<open>u8\<close>, \<open>u64\<close>, \<open>f32\<close> and \<open>f64\<close> are words of their width; \<open>usize\<close> is a natural number with
  the checked, saturating or wrapping operation of the source written out, on a 64-bit target. A
  hash map is an association list with distinct keys, so enumeration order is that list's.
  Mutexes and \<open>async\<close> are sequential: an operation of a store runs to its end before the next, and
  the loads that \<open>join_all\<close> starts together run in the order of the list.

  \<^bold>\<open>Code outside the repository.\<close> The CBOR writer and reader (ciborium), SHA-256 (sha2) and the half
  to single conversion (half) are the fields of the parameter \<open>deps\<close>; the fit of the PCA crate and the logarithm
  are those of \<open>author_deps\<close>. What the caller of an indexing run supplies (content resolver, embedding provider, planning policy)
  is the record \<open>run_env\<close> of operations on a state of its own, so that two calls may answer differently. The locale \<open>codec\<close> states what
  every property relies on (the writer succeeds, writes small integers in one byte; digests have
  32 bytes); \<open>readable_codec\<close> adds that the reader inverts the writer on the values it can represent.
  \<open>Cbor_Codec\<close> interprets both on an executable RFC 8949 codec and FIPS 180-4 digest; that codec
  serves the witnesses and shows that the laws are satisfiable. Its reader recurses on fuel, the length of
  the input, which is enough since every nested value takes a byte.

  \<^bold>\<open>Interfaces.\<close> \<open>block_store\<close> is the contract of a store: relative to a map of admissible bytes, a
  write keeps the invariant, a read answers with the admissible bytes or with none. Its lemmas are
  proved once and interpreted for the memory store and for overlays of memory stores.
  \<open>frontier_policy\<close> is the contract of a frontier selector, interpreted for the three published ones.
  \<open>streaming_trainer\<close> is the contract of a clustering trainer (the protocol of its states), interpreted for DCBC.

  \<^bold>\<open>What is shown.\<close>

  \<^item> \<open>Block_V1\<close>, \<open>Block_V2\<close>: serialising and deserialising are inverse up to normalisation; whatever is
    accepted is canonical, so a block has one encoding; a hash identifies a block up to digest
    collisions; bytes are accepted under one version only; nothing panics.
  \<^item> \<open>Block_Ebcp_Props\<close>: descriptors round trip, accepted payloads have zero padding, and
    reconstruction of an accepted branch gives finite vectors of the declared dimension.
  \<^item> \<open>Memory_Store\<close>: capacity is never exceeded, a write is read back, eviction is least recently
    used. The eviction loop terminates because it removes an entry each time, and never finds none.
  \<^item> \<open>Overlay_Store\<close>: reads answer from the highest holder and refill the caches above, writes go to
    the writable layers, enumeration lists each block once, and the overlay is again a \<open>block_store\<close>.
  \<^item> \<open>Search_Policies\<close>: score keys order as the cosine values, scoring is symmetric, selectors fill the
    width with distinct children, the geometry-aware one by farthest-first traversal.
  \<^item> \<open>Search_Props\<close>, \<open>Search_Reach\<close>, \<open>Search_Correct\<close>: telemetry does not influence a search; a search
    returns (its loop is a \<open>partial_function\<close>, and that it has a value is a theorem: each round
    expands a new child of a finite graph); results are reachable leaves in rank order; exhaustion is
    reported only when every reachable leaf was seen.
  \<^item> \<open>Dcbc_Correct\<close>: the assignment is optimal among those within the occupancy bounds; the solver ends without a panic, its
    augmentation loops being bounded by the flow still to be sent; a pass partitions the points; the trainer follows its
    protocol; a later pass must replay the first.
  \<^item> \<open>Adaptive_Policy\<close>: the decisions of a selector are an initial one, evaluations, and at most one switch to DCBC, which stays;
    a boundary never asks its trainer for a completion that fails.
  \<^item> \<open>Indexer_Groups\<close>, \<open>Indexer_Ebcp_Props\<close>: balanced groups cover the children within the bound; the bound is maximal; authored
    branches are accepted by the block crate, quantised payloads are read back, variable widths spend their budget.
  \<^item> \<open>Indexer_Hierarchy\<close>: a validated hierarchy is a tree whose terminal partitions contain every item once, routing is
    total on it, its statistics do not panic. The walk over a hierarchy terminates because it adds to the visited identifiers;
    \<open>depth_of\<close> and \<open>materialize_partition\<close>, which do not check, recurse on fuel, and the number of partitions is enough.
  \<^item> \<open>Indexer_Spill\<close>: children are read back from each spill file as they were routed.
  \<^item> \<open>Indexer_Assembly_Props\<close>, \<open>Indexer_Run_Props\<close>: the blocks a call stores are a journal, and assembly connects each new layer to
    the one below; a finalised run has stored one leaf for each item, all reached from the returned root, and no branch points
    outside the run.
  \<^item> \<open>Indexer_Lifecycle\<close>: the life of a run as a step relation, with the invariant of every reachable state; a batch that fails
    half way in the first pass and is ingested again makes planning impossible to complete.
  \<^item> This theory: properties of the composition, such as a block that is put, found and read back, or items that are
    indexed and found by a search.
  \<^item> \<open>Block_Examples\<close>, \<open>Store_Examples\<close>, \<open>Search_Examples\<close>, \<open>Dcbc_Examples\<close>, \<open>Adaptive_Examples\<close>, \<open>Indexer_Examples\<close>,
    \<open>Indexer_Run_Examples\<close>: concrete inputs at which the properties with hypotheses apply.

  \<^bold>\<open>Not modelled.\<close> The conformance suites and tests; logging, the delivery of store telemetry, status observers and
  heartbeats; failures of temporary files; the planning policies of the indexer and its V2 and V3 runs, which keep their state
  in files and a redb database; the stores on files, archives, redb and Azure, whose substance is the calls to those
  systems; PCA, spherical k-means and the acceleration crates, floating-point linear algebra on third-party types;
  the evaluation harness and the command-line tools.
\<close>

section \<open>Properties that span components\<close>

text \<open>
  C11: a leaf block stored in a memory store is what a search rooted at its hash
  returns: the leaf that was put, identified by the hash the store answered with.
\<close>

theorem stored_leaf_found:
  assumes codec: "readable_codec d readable" and inv: "mem_inv s" and norm: "normalize_block d (Leaf b) = Ok (Leaf b')"
    and "lb_entries b' = [e]" and rd: "readable (block_value (Leaf b'))"
    and put: "store_put d mem_ops s (Leaf b) = (Ok h, s1)"
    and "compatibility se t (lb_embedding_spec b') = Ok ()"
    and "scorer se t (le_embedding e) (lb_embedding_spec b') = Ok score"
    and "frontier_selector se = published_policy p" and "0 < w"
  shows "\<exists>s2. search d se mem_ops h t w 1 s1 =
    Some (Ok \<lparr>leaves = [\<lparr>leaf_block_id = h, lsr_entry = e, lsr_position = 0\<rparr>]\<rparr>, s2)"
proof -
  obtain ser where ser: "serialize_block d (Leaf b) = Ok ser"
    and pb: "mem_put_block_bytes s h (ser_bytes ser) = (Ok (), s1)" and h: "h = ser_hash ser"
    using put by (auto simp: store_put_def then_do_Ok outcome_simps)
  have dec: "deserialize_block d (ser_bytes ser) h = Ok \<lparr>vb_block = Leaf b', vb_hash = h\<rparr>"
    using readable_codec.deserialize_serialized [OF codec norm _ rd ser] h by simp
  have res: "mem_resident s1 h = Some (ser_bytes ser)" and "mem_inv s1"
    using mem_put_cases [OF inv pb] by auto
  then obtain s2 where get: "get_block_bytes mem_ops s1 h = (Ok (Some (ser_bytes ser)), s2)"
    using mem_get_spec [of s1 h] by (cases "mem_get_block_bytes s1 h") auto
  have "lb_level b' = 0" using decoded_block [of d "[h \<mapsto> ser_bytes ser]" h "Leaf b'"] dec
    by (simp add: decoded_def)
  moreover have "frontier_selector se [] w = Ok []"
    using assms(9) by (cases p) (simp_all add: published_policy_def geometry_aware_select_def)
  ultimately show ?thesis
    using search_leaf_root [OF get dec, of b' e se t score w 1] assms(4,7,8,10) by auto
qed

theorem stored_leaf_found_witness:
  "\<exists>h s1 s2. store_put rfc_deps mem_ops ex_store (Leaf ex_leaf) = (Ok h, s1) \<and>
     search rfc_deps ex_searcher mem_ops h () 1 1 s1 =
       Some (Ok \<lparr>leaves = [\<lparr>leaf_block_id = h, lsr_entry = ex_leaf_entry, lsr_position = 0\<rparr>]\<rparr>, s2)"
proof -
  have "fst (mem_put_block_bytes ex_store ex_leaf_hash ex_leaf_bytes) = Ok ()"
    using mem_put_cases [OF ex_store_inv, of ex_leaf_hash ex_leaf_bytes]
    by (cases "mem_put_block_bytes ex_store ex_leaf_hash ex_leaf_bytes") (auto simp: ex_not_too_large)
  then obtain s1 where put: "store_put rfc_deps mem_ops ex_store (Leaf ex_leaf) = (Ok ex_leaf_hash, s1)"
    by (cases "mem_put_block_bytes ex_store ex_leaf_hash ex_leaf_bytes")
      (auto simp: store_put_def ex_leaf_serializes)
  have "\<exists>s2. search rfc_deps ex_searcher mem_ops ex_leaf_hash () 1 1 s1 =
      Some (Ok \<lparr>leaves = [\<lparr>leaf_block_id = ex_leaf_hash, lsr_entry = ex_leaf_entry, lsr_position = 0\<rparr>]\<rparr>, s2)"
    by (rule stored_leaf_found [OF rfc.readable_codec_axioms ex_store_inv ex_leaf_normalizes _ ex_leaf_readable put, where p = TopW])
      (simp_all add: ex_leaf_def ex_searcher_def new_searcher_def with_frontier_selector_def)
  with put show ?thesis by blast
qed

text \<open>
  C16: every entry of an accepted branch with an EBCP encoding has a parsed
  descriptor and reconstructs to a finite vector of the declared dimension, or fails with one of the
  two non-finite errors.
\<close>

theorem accepted_ebcp_reconstructs:
  assumes "deserialize_block d bs h = Ok v" and "vb_block v = Branch b" and "e \<in> set (bb_entries b)"
    and "is_ebcp_encoding (encoding (bb_embedding_spec b))"
  shows "\<exists>ds. parse_branch_ebcp_descriptor (bb_embedding_spec b) (bb_ext b) = Ok (Some ds) \<and>
    (let r = reconstruct_logical_branch_embedding_f32 d (be_embedding e) (bb_embedding_spec b) (Some ds)
     in (\<exists>ys. r = Ok ys \<and> length ys = unat (dims (bb_embedding_spec b)) \<and> list_all f32_is_finite ys) \<or>
        r \<in> {Err float_payload_error, Err ambient_error})"
proof -
  have "normal d (Branch b)" using deserialize_block_Ok [OF assms(1)] assms(2) by simp
  then have "validate_ebcp_branch (bb_embedding_spec b) (bb_ext b) (bb_entries b) = Ok ()"
    by (simp add: normal_Branch)
  then obtain ds where ds: "parse_branch_ebcp_descriptor (bb_embedding_spec b) (bb_ext b) = Ok (Some ds)"
    and "validate_branch_ebcp_payload_lengths (bb_entries b) (bb_embedding_spec b) ds = Ok ()"
    using assms(4) by (auto simp: validate_ebcp_branch_def outcome_simps)
  from reconstruct_validated [OF this assms(3)] ds show ?thesis unfolding Let_def by blast
qed

lemma overlay_get_answers:
  assumes "list_all (\<lambda>l. mem_inv (layer_store l)) (asked @ ls)"
  shows "\<exists>x ls'. overlay_get_loop mem_ops h asked ls None = (Ok x, ls')"
  using assms
proof (induction ls arbitrary: asked)
  case (Cons l ls)
  obtain g s' where get: "mem_get_block_bytes (layer_store l) h = (g, s')"
    by (cases "mem_get_block_bytes (layer_store l) h")
  have g: "g = Ok (mem_resident (layer_store l) h)" and inv': "mem_inv s'"
    using mem_get_spec [OF _ get] Cons.prems by auto
  have asked: "list_all (\<lambda>l. mem_inv (layer_store l)) asked" using Cons.prems by simp
  show ?case
  proof (cases "mem_resident (layer_store l) h")
    case None
    have "list_all (\<lambda>l. mem_inv (layer_store l))
        ((asked @ [l\<lparr>layer_store := s', misses := misses l + 1\<rparr>]) @ ls)" using Cons.prems inv' by simp
    from Cons.IH [OF this] get g None show ?thesis by simp
  next
    case (Some bs)
    with get g refill_mem [OF asked, of h bs] show ?thesis by simp
  qed
qed simp

text \<open>
  C10: a block of either version put through an overlay of memory stores reads
  back, decoded, as its normal form under the hash the overlay answered with.
\<close>

theorem overlay_typed_roundtrip:
  assumes codec: "readable_codec d readable" and inv: "overlay_inv (mem_inv_in universe) ls"
    and norm: "normalize_versioned d b = Ok b'" and wf: "versioned_wf b"
    and rd: "readable (versioned_value b')"
    and ser: "serialize_versioned_block d b = Ok ser"
    and uni: "universe (ser_hash ser) = Some (ser_bytes ser)"
    and put: "put_versioned d (overlay_ops mem_ops) ls b = (Ok h, ls1)"
  shows "\<exists>ls2. get_decoded d (overlay_ops mem_ops) ls1 h = (Ok (Some (decoded_as b' h)), ls2)"
proof -
  have "put_block_bytes (overlay_ops mem_ops) ls (ser_hash ser) (ser_bytes ser) = (Ok (), ls1)"
    using put ser by (auto simp: put_versioned_def then_do_Ok)
  then have "overlay_inv (mem_inv_in universe) ls1" using overlay_mem.put_inv [OF inv] uni by blast
  then have "list_all (\<lambda>l. mem_inv (layer_store l)) ([] @ ls1)"
    by (auto simp: overlay_inv_def mem_inv_in_def list_all_iff)
  from overlay_get_answers [OF this, of h] obtain x ls2 where
    "get_block_bytes (overlay_ops mem_ops) ls1 h = (Ok x, ls2)"
    by (auto simp: overlay_ops_def overlay_get_block_bytes_def)
  from overlay_mem.put_versioned_get_decoded [OF codec inv norm wf rd ser uni put this]
  show ?thesis by blast
qed

theorem overlay_typed_roundtrip_witness:
  "\<exists>h ls1 ls2. put_versioned rfc_deps (overlay_ops mem_ops)
        [new_layer Cache ex_empty_store, new_layer Writable ex_empty_store] (V2 ex_v2_leaf) = (Ok h, ls1) \<and>
     get_decoded rfc_deps (overlay_ops mem_ops) ls1 h = (Ok (Some (decoded_as (V2 ex_v2_leaf) h)), ls2)"
proof -
  let ?ls = "[new_layer Cache ex_empty_store, new_layer Writable ex_empty_store]"
  obtain ser where ser: "serialize_versioned_block rfc_deps (V2 ex_v2_leaf) = Ok ser"
    using ex_v2_leaf_serializes by blast
  obtain r s1 where put: "mem_put_block_bytes ex_empty_store (ser_hash ser) (ser_bytes ser) = (r, s1)"
    by (cases "mem_put_block_bytes ex_empty_store (ser_hash ser) (ser_bytes ser)")
  have "r = Ok ()" using mem_put_cases [OF ex_empty_store_inv put] by (simp add: ex_not_too_large)
  then obtain ls1 where "put_versioned rfc_deps (overlay_ops mem_ops) ?ls (V2 ex_v2_leaf) = (Ok (ser_hash ser), ls1)"
    using put ser by (simp add: put_versioned_def overlay_ops_def overlay_put_block_bytes_def new_layer_def)
  moreover have "overlay_inv (mem_inv_in [ser_hash ser \<mapsto> ser_bytes ser]) ?ls"
    by (simp add: overlay_inv_def new_layer_def mem_inv_in_def ex_empty_store_inv ex_resident)
  moreover have "versioned_wf (V2 ex_v2_leaf)" by simp
  ultimately show ?thesis
    using overlay_typed_roundtrip [OF rfc.readable_codec_axioms _ ex_v2_leaf_normalizes _ ex_v2_leaf_readable ser, of "[ser_hash ser \<mapsto> ser_bytes ser]"]
    by (metis fun_upd_same)
qed



definition ex_ebcp_branch :: branch_block where
  "ex_ebcp_branch = \<lparr>bb_version = 1, bb_level = 1, bb_embedding_spec = ex_ebcp_spec,
     bb_entries = [ex_ebcp_entry],
     bb_ext = Some [(int_value 0, Map (keyed (sorted_descriptor_fields ex_ebcp_descriptor)))]\<rparr>"

lemma ex_ebcp_branch_parses:
  "parse_branch_ebcp_descriptor ex_ebcp_spec (bb_ext ex_ebcp_branch) = Ok (Some ex_ebcp_descriptor)"
  using rfc.ebcp_descriptor_normalized [OF parse_ebcp_descriptor_wf [OF ex_ebcp_parses]
      rfc.normalize_ebcp_extension_map] by (simp add: ex_ebcp_branch_def)

lemma ex_ebcp_branch_normalizes:
  "normalize_block rfc_deps (Branch ex_ebcp_branch) = Ok (Branch ex_ebcp_branch)"
proof -
  have "normal rfc_deps (Branch ex_ebcp_branch)"
    unfolding normal_Branch validate_ebcp_branch_def
  proof (intro conjI)
    have "canonical rfc_deps (Map [(int_value 0, Map (keyed (sorted_descriptor_fields ex_ebcp_descriptor)))])"
      using rfc.sorted_descriptor_canonical rfc.canonicalize_single unfolding canonical_def by blast
    from normalize_map_fix [OF this]
    show "normalize_optional_map rfc_deps (bb_ext ex_ebcp_branch) = Ok (bb_ext ex_ebcp_branch)"
      by (simp add: normalize_optional_map_def ex_ebcp_branch_def)
  qed (use ex_ebcp_branch_parses ex_ebcp_valid in \<open>simp_all add: ex_ebcp_branch_def ex_ebcp_spec_def
      validate_embedding_spec_def is_ebcp_encoding_def\<close>)
  then show ?thesis by (simp add: normal_def)
qed

lemma ex_ebcp_fields_readable: "cbor_ok (Map (keyed (sorted_descriptor_fields ex_ebcp_descriptor)))"
  by (simp add: keyed_simps sorted_descriptor_fields_def ex_ebcp_descriptor_def int_value_def
      encode_f32_values_def f32_to_le_length)

lemma ex_ebcp_branch_readable: "cbor_ok (block_value (Branch ex_ebcp_branch))"
  using ex_ebcp_fields_readable
  by (simp add: ex_ebcp_branch_def block_value_def ex_ebcp_spec_def embedding_spec_to_value_def
      branch_entry_to_value_def ex_ebcp_entry_def int_value_def ex_hash_def)

theorem accepted_ebcp_reconstructs_witness:
  "\<exists>bs h. deserialize_block rfc_deps bs h = Ok \<lparr>vb_block = Branch ex_ebcp_branch, vb_hash = h\<rparr> \<and>
    reconstruct_logical_branch_embedding_f32 rfc_deps (be_embedding ex_ebcp_entry)
       (bb_embedding_spec ex_ebcp_branch) (Some ex_ebcp_descriptor) \<noteq> Panic"
proof -
  obtain ser where ser: "serialize_block rfc_deps (Branch ex_ebcp_branch) = Ok ser"
    using rfc.serialize_block_Ok ex_ebcp_branch_normalizes by fastforce
  have "hashes_wf (Branch ex_ebcp_branch)"
    by (simp add: ex_ebcp_branch_def ex_ebcp_entry_def hash_wf_def ex_hash_def)
  from rfc.deserialize_serialized [OF ex_ebcp_branch_normalizes this ex_ebcp_branch_readable ser]
  have dec: "deserialize_block rfc_deps (ser_bytes ser) (ser_hash ser) =
      Ok \<lparr>vb_block = Branch ex_ebcp_branch, vb_hash = ser_hash ser\<rparr>" .
  have "reconstruct_logical_branch_embedding_f32 rfc_deps (be_embedding ex_ebcp_entry)
      (bb_embedding_spec ex_ebcp_branch) (Some ex_ebcp_descriptor) \<noteq> Panic"
    using accepted_ebcp_reconstructs [OF dec, of ex_ebcp_branch ex_ebcp_entry] ex_ebcp_branch_parses
    by (auto simp: ex_ebcp_branch_def ex_ebcp_spec_def is_ebcp_encoding_def Let_def)
  with dec show ?thesis by blast
qed

section \<open>What is indexed can be searched\<close>

text \<open>A graph that holds the normal form of each block of a journal under its identifier.\<close>

definition holds_journal :: "deps \<Rightarrow> block list \<Rightarrow> (block_hash \<rightharpoonup> block) \<Rightarrow> bool" where
  "holds_journal d journal g =
     list_all (\<lambda>b. case (block_id d b, normalize_block d b) of (Some h, Ok b') \<Rightarrow> g h = Some b' | _ \<Rightarrow> False) journal"

lemma holds_journalD:
  assumes "holds_journal d journal g" and "b \<in> set journal" and "block_id d b = Some h"
  shows "\<exists>b'. normalize_block d b = Ok b' \<and> g h = Some b'"
proof -
  have "case (block_id d b, normalize_block d b) of (Some h, Ok b') \<Rightarrow> g h = Some b' | _ \<Rightarrow> False"
    using assms(1,2) by (simp add: holds_journal_def list_all_iff)
  then show ?thesis using assms(3) by (cases "normalize_block d b") simp_all
qed

lemma holds_journal_edge:
  assumes "holds_journal d journal g" and "journal_edge d journal h c"
  shows "\<exists>b. g h = Some b \<and> c \<in> block_children b"
proof -
  obtain b where b: "b \<in> set journal" "block_id d b = Some h" "c \<in> block_children b"
    using assms(2) by (auto simp: journal_edge_def)
  moreover obtain b' where b': "normalize_block d b = Ok b'" "g h = Some b'"
    using holds_journalD [OF assms(1) b(1,2)] by blast
  moreover have "block_children b' = block_children b"
    using b'(1) b(3) by (cases b) (auto simp: normalize_Branch_Ok simp del: normalize_block.simps)
  ultimately show ?thesis by blast
qed

lemma holds_journal_reaches:
  assumes "holds_journal d journal g" and "(journal_edge d journal)\<^sup>*\<^sup>* h c"
  shows "reachable g h c"
  using assms(2)
proof (induction rule: rtranclp_induct)
  case (step c e)
  then show ?case using holds_journal_edge [OF assms(1) step.hyps(2)] by (auto intro: reachable.child)
qed (rule reachable.at_root)



end
